(* ===== verification/Prelude.thy ===== *)
theory Prelude
  imports
    Main
    "HOL-Library.Word"
    "HOL-Library.Char_ord"
    "HOL-Library.List_Lexorder"
    "HOL-Library.Product_Lexorder"
begin

text \<open>
  Shared vocabulary of the development: error-or-value sequencing (the \<open>if err != nil\<close>
  chains of the Go code), rows of a table kept as a list in rowid order, Go's UTF-8
  decoding and trimming, lower-case hexadecimal, and Go's \<open>time.Time\<close>.
\<close>

named_theorems sql_simps \<open>table lookups, updates and deletions\<close>
named_theorems str_simps \<open>text decoding and trimming\<close>

section \<open>Fallible computations\<close>

text \<open>A Go result pair \<open>(value, error)\<close> is a sum: the error on the left.\<close>

definition bindE :: "'e + 'a \<Rightarrow> ('a \<Rightarrow> 'e + 'b) \<Rightarrow> 'e + 'b" where
  "bindE m f = (case m of Inl e \<Rightarrow> Inl e | Inr x \<Rightarrow> f x)"

definition requireE :: "bool \<Rightarrow> 'e \<Rightarrow> 'e + unit" where
  "requireE c e = (if c then Inr () else Inl e)"

definition optionE :: "'e \<Rightarrow> 'a option \<Rightarrow> 'e + 'a" where
  "optionE e x = (case x of None \<Rightarrow> Inl e | Some v \<Rightarrow> Inr v)"

lemma bindE_simps [simp]:
  "bindE (Inl e) f = Inl e"
  "bindE (Inr x) f = f x"
  by (simp_all add: bindE_def)

lemma bindE_Inr_iff [simp]: "bindE m f = Inr y \<longleftrightarrow> (\<exists>x. m = Inr x \<and> f x = Inr y)"
  by (cases m) simp_all

lemma bindE_Inl_iff: "bindE m f = Inl e \<longleftrightarrow> m = Inl e \<or> (\<exists>x. m = Inr x \<and> f x = Inl e)"
  by (cases m) simp_all

lemma requireE_Inr_iff [simp]: "requireE c e = Inr u \<longleftrightarrow> c"
  by (simp add: requireE_def)

lemma requireE_Inl_iff [simp]: "requireE c e = Inl e' \<longleftrightarrow> \<not> c \<and> e' = e"
  by (auto simp: requireE_def)

lemma requireE_simps [simp]:
  "requireE True e = Inr ()"
  "requireE False e = Inl e"
  by (simp_all add: requireE_def)

lemma optionE_Inr_iff [simp]: "optionE e x = Inr v \<longleftrightarrow> x = Some v"
  by (cases x) (auto simp: optionE_def)

lemma optionE_Inl_iff [simp]: "optionE e x = Inl e' \<longleftrightarrow> x = None \<and> e' = e"
  by (cases x) (auto simp: optionE_def)

lemma optionE_simps [simp]:
  "optionE e None = Inl e"
  "optionE e (Some v) = Inr v"
  by (simp_all add: optionE_def)

lemma bindE_cong [fundef_cong]:
  "m = m' \<Longrightarrow> (\<And>x. m' = Inr x \<Longrightarrow> f x = g x) \<Longrightarrow> bindE m f = bindE m' g"
  by (cases m') (auto simp: bindE_def)

text \<open>A run that did not fail is a value and the new state.\<close>

lemma run_okD: "\<not> isl (fst r) \<Longrightarrow> r = (Inr (projr (fst r)), snd r)"
  by (cases r; cases "fst r") auto

lemma value_okD: "\<not> isl r \<Longrightarrow> r = Inr (projr r)"
  by (cases r) auto

text \<open>A \<open>for\<close> loop that returns at the first error.\<close>

fun forE :: "('a \<Rightarrow> 'e + unit) \<Rightarrow> 'a list \<Rightarrow> 'e + unit" where
  "forE f [] = Inr ()"
| "forE f (x # xs) = bindE (f x) (\<lambda>_. forE f xs)"

text \<open>A \<open>for\<close> loop that updates a state and stops at the first error.\<close>

fun foldE :: "('a \<Rightarrow> 's \<Rightarrow> 'e + 's) \<Rightarrow> 'a list \<Rightarrow> 's \<Rightarrow> 'e + 's" where
  "foldE f [] s = Inr s"
| "foldE f (x # xs) s = bindE (f x s) (foldE f xs)"

text \<open>A \<open>for\<close> loop that collects one value per item.\<close>

fun mapE :: "('a \<Rightarrow> 'e + 'b) \<Rightarrow> 'a list \<Rightarrow> 'e + 'b list" where
  "mapE f [] = Inr []"
| "mapE f (x # xs) = bindE (f x) (\<lambda>y. bindE (mapE f xs) (\<lambda>ys. Inr (y # ys)))"

lemma forE_Inr_iff: "forE f xs = Inr u \<longleftrightarrow> (\<forall>x \<in> set xs. f x = Inr ())"
  by (induction xs) auto

lemma mapE_Inr_length: "mapE f xs = Inr ys \<Longrightarrow> length ys = length xs"
  by (induction xs arbitrary: ys) auto

lemma mapE_Inr_iff: "mapE f xs = Inr ys \<longleftrightarrow> list_all2 (\<lambda>x y. f x = Inr y) xs ys"
  by (induction xs arbitrary: ys) (auto simp: list_all2_Cons1)

lemma foldE_append: "foldE f (xs @ ys) s = bindE (foldE f xs s) (foldE f ys)"
proof (induction xs arbitrary: s)
  case (Cons x xs)
  show ?case by (cases "f x s") (simp_all add: Cons.IH)
qed simp

text \<open>An invariant that one iteration keeps holds after the loop.\<close>

lemma foldE_invariant:
  assumes "foldE f xs s = Inr s'" and "I s"
    and "\<And>x s s'. x \<in> set xs \<Longrightarrow> I s \<Longrightarrow> f x s = Inr s' \<Longrightarrow> I s'"
  shows "I s'"
  using assms
proof (induction xs arbitrary: s)
  case (Cons x xs)
  then obtain t where t: "f x s = Inr t" "foldE f xs t = Inr s'" by auto
  then have "I t" using Cons.prems by auto
  then show ?case using t Cons.IH[OF t(2)] Cons.prems(3) by auto
qed simp

text \<open>A condition on a nullable column, true of \<open>NULL\<close>.\<close>

fun opt_all :: "('a \<Rightarrow> bool) \<Rightarrow> 'a option \<Rightarrow> bool" where
  "opt_all P None = True"
| "opt_all P (Some x) = P x"

lemma opt_all_iff: "opt_all P x \<longleftrightarrow> (\<forall>v. x = Some v \<longrightarrow> P v)"
  by (cases x) auto

lemma opt_all_mono: "opt_all P x \<Longrightarrow> (\<And>v. P v \<Longrightarrow> Q v) \<Longrightarrow> opt_all Q x"
  by (cases x) auto

section \<open>Tables as lists of rows\<close>

text \<open>
  A table is the list of its rows in rowid order: an insertion appends, \<open>UPDATE \<dots> WHERE\<close>
  maps, \<open>DELETE \<dots> WHERE\<close> filters, and \<open>SELECT \<dots> WHERE\<close> of a unique key is \<^const>\<open>List.find\<close>.
\<close>

definition update_where :: "('r \<Rightarrow> bool) \<Rightarrow> ('r \<Rightarrow> 'r) \<Rightarrow> 'r list \<Rightarrow> 'r list" where
  "update_where P f rows = map (\<lambda>r. if P r then f r else r) rows"

definition delete_where :: "('r \<Rightarrow> bool) \<Rightarrow> 'r list \<Rightarrow> 'r list" where
  "delete_where P rows = filter (\<lambda>r. \<not> P r) rows"

definition rows_affected :: "('r \<Rightarrow> bool) \<Rightarrow> 'r list \<Rightarrow> nat" where
  "rows_affected P rows = length (filter P rows)"

text \<open>\<open>LIMIT l OFFSET o\<close>.\<close>

definition page_of :: "int \<Rightarrow> int \<Rightarrow> 'r list \<Rightarrow> 'r list" where
  "page_of l off rows = take (nat l) (drop (nat off) rows)"

lemma page_of_length: "0 \<le> l \<Longrightarrow> int (length (page_of l off rows)) \<le> l"
  by (simp add: page_of_def)

lemma page_of_subset: "set (page_of l off rows) \<subseteq> set rows"
  unfolding page_of_def by (meson order_trans set_drop_subset set_take_subset)

lemma find_SomeD:
  assumes "List.find P xs = Some x"
  shows "x \<in> set xs" and "P x"
  using assms by (auto simp: find_Some_iff)

lemma find_SomeD_conj: "List.find P xs = Some x \<Longrightarrow> x \<in> set xs \<and> P x"
  by (auto simp: find_Some_iff)

lemma find_unique:
  assumes "inj_on key (set xs)" and "x \<in> set xs" and "key x = k"
  shows "List.find (\<lambda>r. key r = k) xs = Some x"
proof -
  have "List.find (\<lambda>r. key r = k) xs \<noteq> None"
    using assms(2,3) by (auto simp: find_None_iff)
  then obtain y where y: "List.find (\<lambda>r. key r = k) xs = Some y" by auto
  have "y \<in> set xs" and "key y = k" using find_SomeD[OF y] by simp_all
  then have "y = x" using assms by (metis inj_onD)
  with y show ?thesis by simp
qed

lemma find_append: "List.find P (xs @ ys) = (case List.find P xs of None \<Rightarrow> List.find P ys | Some x \<Rightarrow> Some x)"
  by (induction xs) auto

lemma find_update_where:
  assumes "\<And>r. Q (f r) = Q r"
  shows "List.find Q (update_where P f rows) = map_option (\<lambda>r. if P r then f r else r) (List.find Q rows)"
  by (induction rows) (auto simp: update_where_def assms)

lemma map_update_where:
  assumes "\<And>r. key (f r) = key r"
  shows "map key (update_where P f rows) = map key rows"
  by (simp add: update_where_def assms)

lemma set_update_where: "set (update_where P f rows) = (\<lambda>r. if P r then f r else r) ` set rows"
  by (simp add: update_where_def)

lemma key_image_update:
  assumes "\<And>r. key (f r) = key r"
  shows "key ` set (update_where P f rows) = key ` set rows"
  using map_update_where[of key f P rows, OF assms] by (metis set_map)

lemma length_update_where [simp]: "length (update_where P f rows) = length rows"
  by (simp add: update_where_def)

lemma in_delete_where [sql_simps]: "r \<in> set (delete_where P rows) \<longleftrightarrow> r \<in> set rows \<and> \<not> P r"
  by (auto simp: delete_where_def)

lemma distinct_delete_where: "distinct (map key rows) \<Longrightarrow> distinct (map key (delete_where P rows))"
  by (induction rows) (auto simp: delete_where_def)

lemma find_delete_where:
  assumes "\<And>r. Q r \<Longrightarrow> \<not> P r"
  shows "List.find Q (delete_where P rows) = List.find Q rows"
  using assms by (induction rows) (auto simp: delete_where_def)

lemma find_map_keys:
  assumes "distinct (map key rows)" and "r \<in> set rows"
  shows "List.find (\<lambda>x. key x = key r) rows = Some r"
  using assms by (intro find_unique) (auto simp: distinct_map)

lemma rows_affected_pos: "rows_affected P rows > 0 \<longleftrightarrow> (\<exists>r \<in> set rows. P r)"
  by (simp add: rows_affected_def filter_empty_conv)

lemma rows_affected_one:
  assumes "distinct (map key rows)" and "\<And>r. P r \<Longrightarrow> key r = k"
  shows "rows_affected P rows \<le> 1"
  using assms(1)
proof (induction rows)
  case (Cons a rows)
  show ?case
  proof (cases "P a")
    case True
    have "filter P rows = []"
    proof (rule ccontr)
      assume "filter P rows \<noteq> []"
      then obtain b where "b \<in> set rows" "P b" by (auto simp: filter_empty_conv)
      then have "key b = key a" using assms(2) True by metis
      then show False using Cons.prems \<open>b \<in> set rows\<close> by (metis distinct.simps(2) imageI list.simps(9) set_map)
    qed
    then show ?thesis by (simp add: rows_affected_def)
  next
    case False
    then show ?thesis using Cons by (simp add: rows_affected_def)
  qed
qed (simp add: rows_affected_def)

section \<open>Tables with a key\<close>

text \<open>
  What a checked insertion into a table with a unique key promises: the row is appended and
  its key was free. From this follow the lookups after an insertion, once for all tables.
\<close>

locale keyed_table =
  fixes rows :: "'h \<Rightarrow> 'r list"
    and key :: "'r \<Rightarrow> 'k"
    and ins :: "'r \<Rightarrow> 'h \<Rightarrow> 'e + 'h"
  assumes inserted: "ins r h = Inr h' \<Longrightarrow> rows h' = rows h @ [r] \<and> key r \<notin> key ` set (rows h)"
begin

lemma find_fresh: "ins r h = Inr h' \<Longrightarrow> List.find (\<lambda>x. key x = key r) (rows h) = None"
  by (drule inserted) (force simp: find_None_iff image_iff)

lemma find_inserted: "ins r h = Inr h' \<Longrightarrow> List.find (\<lambda>x. key x = key r) (rows h') = Some r"
  using inserted[of r h h'] find_fresh[of r h h'] by (simp add: find_append)

lemma find_other: "ins r h = Inr h' \<Longrightarrow> k \<noteq> key r \<Longrightarrow>
    List.find (\<lambda>x. key x = k) (rows h') = List.find (\<lambda>x. key x = k) (rows h)"
  using inserted[of r h h'] by (auto simp: find_append split: option.splits)

lemma found_stays: "ins r h = Inr h' \<Longrightarrow> List.find (\<lambda>x. key x = k) (rows h) = Some x \<Longrightarrow>
    List.find (\<lambda>x. key x = k) (rows h') = Some x"
  using inserted[of r h h'] by (simp add: find_append)

lemma keys_distinct: "ins r h = Inr h' \<Longrightarrow> distinct (map key (rows h)) \<Longrightarrow> distinct (map key (rows h'))"
  using inserted[of r h h'] by simp

end

section \<open>Time\<close>

text \<open>
  Go's \<open>time.Time\<close>: nanoseconds since the Unix epoch, with the offset in seconds of the
  location it is shown in (\<open>Year\<close> reads the calendar of that location).
\<close>

record gotime =
  unix_nanos :: int
  zone_offset :: int

definition unixMilli :: "gotime \<Rightarrow> int" where
  "unixMilli t = unix_nanos t div 1000000"

definition fromMillis :: "int \<Rightarrow> gotime" where
  "fromMillis v = \<lparr>unix_nanos = v * 1000000, zone_offset = 0\<rparr>"

definition time_IsZero :: "gotime \<Rightarrow> bool" where
  "time_IsZero t \<longleftrightarrow> unix_nanos t = - 62135596800000000000"

definition year_before_1970 :: "gotime \<Rightarrow> bool" where
  "year_before_1970 t \<longleftrightarrow> unix_nanos t + zone_offset t * 1000000000 < 0"

definition time_Before :: "gotime \<Rightarrow> gotime \<Rightarrow> bool" where
  "time_Before a b \<longleftrightarrow> unix_nanos a < unix_nanos b"

lemma unixMilli_fromMillis [simp]: "unixMilli (fromMillis v) = v"
  by (simp add: unixMilli_def fromMillis_def)

lemma fromMillis_inject [simp]: "fromMillis a = fromMillis b \<longleftrightarrow> a = b"
  by (metis unixMilli_fromMillis)

lemma not_before_fromMillis: "\<not> time_Before t (fromMillis v) \<longleftrightarrow> v \<le> unixMilli t"
  by (auto simp: time_Before_def fromMillis_def unixMilli_def)

section \<open>Hexadecimal identifiers\<close>

definition hex_digit :: "nat \<Rightarrow> char" where
  "hex_digit n = ''0123456789abcdef'' ! n"

definition hex_encode :: "8 word list \<Rightarrow> string" where
  "hex_encode bs = concat (map (\<lambda>b. [hex_digit (unat b div 16), hex_digit (unat b mod 16)]) bs)"

definition hex_char :: "char \<Rightarrow> bool" where
  "hex_char c \<longleftrightarrow> (CHR ''0'' \<le> c \<and> c \<le> CHR ''9'') \<or> (CHR ''a'' \<le> c \<and> c \<le> CHR ''f'')"

definition isHex :: "string \<Rightarrow> bool" where
  "isHex s \<longleftrightarrow> list_all hex_char s"

lemma hex_char_digit: "n < 16 \<Longrightarrow> hex_char (hex_digit n)"
proof -
  assume "n < 16"
  then have "n \<in> set [0..<16]" by simp
  moreover have "list_all (\<lambda>n. hex_char (hex_digit n)) [0..<16]" by code_simp
  ultimately show ?thesis by (simp add: list_all_iff)
qed

lemma length_hex_encode: "length (hex_encode bs) = 2 * length bs"
  by (induction bs) (simp_all add: hex_encode_def)

lemma isHex_hex_encode: "isHex (hex_encode bs)"
proof (induction bs)
  case (Cons b bs)
  have "unat b < 256" using unsigned_less[of b] by simp
  then have "unat b div 16 < 16" by auto
  then show ?case using Cons by (simp add: isHex_def hex_encode_def hex_char_digit)
qed (simp add: isHex_def hex_encode_def)

end
