(* ===== verification/Texts.thy ===== *)
theory Texts
  imports Prelude
begin

text \<open>
  Go strings are byte sequences. This theory holds what the validators of
  \<open>internal/hubstore\<close> use of \<open>unicode/utf8\<close>, \<open>unicode\<close> and \<open>strings\<close>: the decoding of a
  string into runes (invalid bytes decode to a replacement of width one),
  \<open>utf8.ValidString\<close>, \<open>utf8.RuneCountInString\<close>, \<open>strings.TrimSpace\<close>,
  \<open>strings.HasPrefix\<close> and its kin.
\<close>

section \<open>UTF-8 decoding\<close>

text \<open>
  A string is cut into segments: a rune with the bytes that encode it, or one invalid byte
  (for which \<open>range\<close> yields \<open>U+FFFD\<close>).
\<close>

datatype seg = Rune int string | Bad char

definition code :: "char \<Rightarrow> int" where
  "code c = int (of_char c :: nat)"

definition cont_byte :: "int \<Rightarrow> int \<Rightarrow> char \<Rightarrow> bool" where
  "cont_byte lo hi c \<longleftrightarrow> lo \<le> code c \<and> code c \<le> hi"

text \<open>The accepted range of the second byte, by the first (the \<open>acceptRanges\<close> of \<open>unicode/utf8\<close>).\<close>

definition second_lo :: "int \<Rightarrow> int" where
  "second_lo b = (if b = 224 then 160 else if b = 240 then 144 else 128)"

definition second_hi :: "int \<Rightarrow> int" where
  "second_hi b = (if b = 237 then 159 else if b = 244 then 143 else 191)"

definition decode2 :: "char \<Rightarrow> string \<Rightarrow> seg" where
  "decode2 a s = (case s of
     b # _ \<Rightarrow> if cont_byte 128 191 b
              then Rune ((code a - 192) * 64 + (code b - 128)) [a, b] else Bad a
   | _ \<Rightarrow> Bad a)"

definition decode3 :: "char \<Rightarrow> string \<Rightarrow> seg" where
  "decode3 a s = (case s of
     b # c # _ \<Rightarrow> if cont_byte (second_lo (code a)) (second_hi (code a)) b \<and> cont_byte 128 191 c
                  then Rune ((code a - 224) * 4096 + (code b - 128) * 64 + (code c - 128)) [a, b, c]
                  else Bad a
   | _ \<Rightarrow> Bad a)"

definition decode4 :: "char \<Rightarrow> string \<Rightarrow> seg" where
  "decode4 a s = (case s of
     b # c # d # _ \<Rightarrow> if cont_byte (second_lo (code a)) (second_hi (code a)) b \<and> cont_byte 128 191 c
                         \<and> cont_byte 128 191 d
                      then Rune ((code a - 240) * 262144 + (code b - 128) * 4096
                                 + (code c - 128) * 64 + (code d - 128)) [a, b, c, d]
                      else Bad a
   | _ \<Rightarrow> Bad a)"

definition decode_rune :: "char \<Rightarrow> string \<Rightarrow> seg" where
  "decode_rune a s =
     (if code a < 128 then Rune (code a) [a]
      else if 194 \<le> code a \<and> code a \<le> 223 then decode2 a s
      else if 224 \<le> code a \<and> code a \<le> 239 then decode3 a s
      else if 240 \<le> code a \<and> code a \<le> 244 then decode4 a s
      else Bad a)"

fun seg_bytes :: "seg \<Rightarrow> string" where
  "seg_bytes (Rune _ bs) = bs"
| "seg_bytes (Bad c) = [c]"

lemma decode_rune_bytes: "\<exists>t. seg_bytes (decode_rune a s) @ t = a # s \<and> seg_bytes (decode_rune a s) \<noteq> []"
  by (auto simp: decode_rune_def decode2_def decode3_def decode4_def split: list.splits)

function utf8_segs :: "string \<Rightarrow> seg list" where
  "utf8_segs [] = []"
| "utf8_segs (a # s) =
     (let sg = decode_rune a s in sg # utf8_segs (drop (length (seg_bytes sg)) (a # s)))"
  by pat_completeness auto
termination
proof (relation "measure length")
  fix a :: char and s :: string and x :: seg
  assume "x = decode_rune a s"
  then have "0 < length (seg_bytes x)"
    using decode_rune_bytes[of a s] by auto
  then show "(drop (length (seg_bytes x)) (a # s), a # s) \<in> measure length" by simp
qed simp

declare utf8_segs.simps(2) [simp del]

definition seg_string :: "seg list \<Rightarrow> string" where
  "seg_string sgs = concat (map seg_bytes sgs)"

lemma seg_string_simps [simp]:
  "seg_string [] = []"
  "seg_string (x # xs) = seg_bytes x @ seg_string xs"
  by (simp_all add: seg_string_def)

lemma seg_string_append: "seg_string (xs @ ys) = seg_string xs @ seg_string ys"
  by (simp add: seg_string_def)

lemma seg_string_utf8_segs [str_simps]: "seg_string (utf8_segs s) = s"
proof (induction s rule: utf8_segs.induct)
  case (2 a s)
  let ?sg = "decode_rune a s"
  obtain t where t: "seg_bytes ?sg @ t = a # s" using decode_rune_bytes by blast
  then have "drop (length (seg_bytes ?sg)) (a # s) = t" by (metis append_eq_conv_conj)
  with "2" t show ?case by (simp add: utf8_segs.simps(2) Let_def del: drop_Cons')
qed simp

text \<open>A segment that decodes to itself, whatever follows it.\<close>

definition good_seg :: "seg \<Rightarrow> bool" where
  "good_seg sg \<longleftrightarrow> (\<exists>r bs. sg = Rune r bs \<and> bs \<noteq> [] \<and> (\<forall>rest. decode_rune (hd bs) (tl bs @ rest) = sg))"

lemma decode2_good: "decode2 a s = Rune r bs \<Longrightarrow> \<exists>b. bs = [a, b] \<and> (\<forall>rest. decode2 a (b # rest) = Rune r bs)"
  by (auto simp: decode2_def split: list.splits if_splits)

lemma decode3_good: "decode3 a s = Rune r bs \<Longrightarrow> \<exists>b c. bs = [a, b, c] \<and> (\<forall>rest. decode3 a (b # c # rest) = Rune r bs)"
  by (auto simp: decode3_def split: list.splits if_splits)

lemma decode4_good: "decode4 a s = Rune r bs \<Longrightarrow> \<exists>b c d. bs = [a, b, c, d] \<and> (\<forall>rest. decode4 a (b # c # d # rest) = Rune r bs)"
  by (auto simp: decode4_def split: list.splits if_splits)

lemma good_decode_rune:
  assumes "decode_rune a s = Rune r bs"
  shows "good_seg (Rune r bs)"
proof -
  have "bs \<noteq> [] \<and> (\<forall>rest. decode_rune (hd bs) (tl bs @ rest) = Rune r bs)"
  proof (cases "code a < 128")
    case True
    with assms show ?thesis by (auto simp: decode_rune_def)
  next
    case False
    with assms show ?thesis
      unfolding decode_rune_def
      by (auto split: if_splits dest!: decode2_good decode3_good decode4_good)
  qed
  then show ?thesis by (simp add: good_seg_def)
qed

lemma utf8_segs_good_Cons:
  assumes "good_seg sg"
  shows "utf8_segs (seg_bytes sg @ rest) = sg # utf8_segs rest"
proof -
  obtain r bs where sg: "sg = Rune r bs" "bs \<noteq> []"
      and d: "decode_rune (hd bs) (tl bs @ rest) = sg"
    using assms by (auto simp: good_seg_def)
  obtain a t where bs: "bs = a # t" using sg(2) by (cases bs) auto
  have "decode_rune a (t @ rest) = sg" using d bs by simp
  then show ?thesis using sg bs by (simp add: utf8_segs.simps(2) Let_def)
qed

lemma utf8_segs_good:
  "\<forall>sg \<in> set sgs. good_seg sg \<Longrightarrow> utf8_segs (seg_string sgs) = sgs"
  by (induction sgs) (simp_all add: utf8_segs_good_Cons)

definition is_rune :: "seg \<Rightarrow> bool" where
  "is_rune sg \<longleftrightarrow> (case sg of Rune _ _ \<Rightarrow> True | Bad _ \<Rightarrow> False)"

lemma is_rune_simps [simp]: "is_rune (Rune r bs)" "\<not> is_rune (Bad c)"
  by (simp_all add: is_rune_def)

lemma utf8_segs_rune_good: "sg \<in> set (utf8_segs s) \<Longrightarrow> is_rune sg \<Longrightarrow> good_seg sg"
proof (induction s rule: utf8_segs.induct)
  case (2 a s)
  show ?case
  proof (cases "sg = decode_rune a s")
    case True
    obtain r bs where "sg = Rune r bs" using "2.prems"(2) by (cases sg) auto
    with True show ?thesis using good_decode_rune by metis
  next
    case False
    with "2.prems"(1) have "sg \<in> set (utf8_segs (drop (length (seg_bytes (decode_rune a s))) (a # s)))"
      by (simp add: utf8_segs.simps(2) Let_def del: drop_Cons')
    with "2.IH" "2.prems"(2) show ?thesis by blast
  qed
qed simp

section \<open>Character classes and trimming\<close>

definition valid_utf8 :: "string \<Rightarrow> bool" where
  "valid_utf8 s \<longleftrightarrow> list_all is_rune (utf8_segs s)"

definition rune_count :: "string \<Rightarrow> nat" where
  "rune_count s = length (utf8_segs s)"

text \<open>The rune that \<open>range\<close> yields for a segment.\<close>

fun seg_rune :: "seg \<Rightarrow> int" where
  "seg_rune (Rune r _) = r"
| "seg_rune (Bad _) = 65533"

definition runes :: "string \<Rightarrow> int list" where
  "runes s = map seg_rune (utf8_segs s)"

text \<open>\<open>unicode.IsControl\<close> (category Cc) and \<open>unicode.IsSpace\<close> (White\_Space).\<close>

definition is_control :: "int \<Rightarrow> bool" where
  "is_control r \<longleftrightarrow> (0 \<le> r \<and> r \<le> 31) \<or> (127 \<le> r \<and> r \<le> 159)"

definition is_space :: "int \<Rightarrow> bool" where
  "is_space r \<longleftrightarrow> (9 \<le> r \<and> r \<le> 13) \<or> r \<in> {32, 133, 160, 5760, 8232, 8233, 8239, 8287, 12288}
     \<or> (8192 \<le> r \<and> r \<le> 8202)"

definition trim_by :: "('a \<Rightarrow> bool) \<Rightarrow> 'a list \<Rightarrow> 'a list" where
  "trim_by p xs = rev (dropWhile p (rev (dropWhile p xs)))"

definition TrimSpace :: "string \<Rightarrow> string" where
  "TrimSpace s = seg_string (trim_by (\<lambda>sg. is_space (seg_rune sg)) (utf8_segs s))"

lemma trim_by_subset: "set (trim_by p xs) \<subseteq> set xs"
  unfolding trim_by_def by (metis set_dropWhileD set_rev subsetI)

lemma rev_dropWhile_rev: "ys = rev (dropWhile p (rev ys)) @ rev (takeWhile p (rev ys))"
  using takeWhile_dropWhile_id[of p "rev ys"] by (metis rev_append rev_rev_ident)

lemma trim_by_hd:
  assumes "trim_by p xs \<noteq> []"
  shows "\<not> p (hd (trim_by p xs))"
proof -
  let ?ys = "dropWhile p xs"
  have "?ys = trim_by p xs @ rev (takeWhile p (rev ?ys))"
    unfolding trim_by_def by (rule rev_dropWhile_rev)
  then obtain zs where zs: "?ys = trim_by p xs @ zs" by (rule that)
  have "hd ?ys = hd (trim_by p xs)" unfolding zs using assms by (rule hd_append2)
  moreover have "?ys \<noteq> []" unfolding zs using assms by simp
  ultimately have "?ys \<noteq> []" "hd ?ys = hd (trim_by p xs)" by simp_all
  then show ?thesis using hd_dropWhile[of p xs] by simp
qed

lemma trim_by_last:
  assumes "trim_by p xs \<noteq> []"
  shows "\<not> p (last (trim_by p xs))"
  using assms hd_dropWhile[of p "rev (dropWhile p xs)"] by (simp add: trim_by_def last_rev)

lemma dropWhile_hd_id: "xs = [] \<or> \<not> p (hd xs) \<Longrightarrow> dropWhile p xs = xs"
  by (cases xs) auto

lemma trim_by_id:
  assumes "xs = [] \<or> \<not> p (hd xs)" and "xs = [] \<or> \<not> p (last xs)"
  shows "trim_by p xs = xs"
proof -
  have 1: "dropWhile p xs = xs" using assms(1) by (rule dropWhile_hd_id)
  have 2: "dropWhile p (rev xs) = rev xs"
    by (rule dropWhile_hd_id) (use assms(2) in \<open>simp add: hd_rev\<close>)
  show ?thesis unfolding trim_by_def 1 2 by (rule rev_rev_ident)
qed

lemma trim_by_idem: "trim_by p (trim_by p xs) = trim_by p xs"
  by (rule trim_by_id) (use trim_by_hd trim_by_last in blast)+

lemma utf8_segs_TrimSpace:
  assumes "valid_utf8 s"
  shows "utf8_segs (TrimSpace s) = trim_by (\<lambda>sg. is_space (seg_rune sg)) (utf8_segs s)"
  unfolding TrimSpace_def
proof (rule utf8_segs_good, intro ballI)
  fix sg assume "sg \<in> set (trim_by (\<lambda>sg. is_space (seg_rune sg)) (utf8_segs s))"
  then have "sg \<in> set (utf8_segs s)" by (rule trim_by_subset[THEN subsetD])
  moreover from this have "is_rune sg" using assms unfolding valid_utf8_def list_all_iff by (rule bspec[rotated])
  ultimately show "good_seg sg" by (rule utf8_segs_rune_good)
qed

text \<open>Trimming a valid string twice is trimming it once.\<close>

lemma TrimSpace_valid:
  assumes "valid_utf8 s"
  shows "valid_utf8 (TrimSpace s)" "TrimSpace (TrimSpace s) = TrimSpace s"
proof -
  let ?p = "\<lambda>sg. is_space (seg_rune sg)"
  have eq: "utf8_segs (TrimSpace s) = trim_by ?p (utf8_segs s)"
    by (rule utf8_segs_TrimSpace[OF assms])
  show "valid_utf8 (TrimSpace s)"
    using assms trim_by_subset[of ?p "utf8_segs s"] unfolding valid_utf8_def list_all_iff eq by auto
  have "TrimSpace (TrimSpace s) = seg_string (trim_by ?p (trim_by ?p (utf8_segs s)))"
    unfolding eq[symmetric] by (rule TrimSpace_def)
  also have "\<dots> = TrimSpace s" unfolding trim_by_idem by (rule TrimSpace_def[symmetric])
  finally show "TrimSpace (TrimSpace s) = TrimSpace s" .
qed

text \<open>
  A space rune is never part of an invalid byte, so a string whose trimming is valid was cut
  exactly at its own segments.
\<close>

lemma trim_by_decomp: "\<exists>as bs. xs = as @ trim_by p xs @ bs \<and> (\<forall>x \<in> set as \<union> set bs. p x)"
proof -
  let ?ys = "dropWhile p xs"
  have 1: "takeWhile p xs @ ?ys = xs" by simp
  have 2: "?ys = trim_by p xs @ rev (takeWhile p (rev ?ys))"
    unfolding trim_by_def by (rule rev_dropWhile_rev)
  have "xs = takeWhile p xs @ trim_by p xs @ rev (takeWhile p (rev ?ys))"
    by (rule trans[OF 1[symmetric]], rule arg_cong[OF 2])
  moreover have "\<forall>x \<in> set (takeWhile p xs) \<union> set (rev (takeWhile p (rev ?ys))). p x"
    by (auto dest: set_takeWhileD)
  ultimately show ?thesis by blast
qed

section \<open>ASCII strings\<close>

definition ascii :: "string \<Rightarrow> bool" where
  "ascii s \<longleftrightarrow> (\<forall>c \<in> set s. code c < 128)"

lemma code_bounds: "0 \<le> code c" "code c < 256"
  using nat_of_char_less_256[of c] by (simp_all add: code_def)

lemma decode_rune_ascii: "code a < 128 \<Longrightarrow> decode_rune a s = Rune (code a) [a]"
  by (simp add: decode_rune_def)

lemma decode2_high: "194 \<le> code a \<Longrightarrow> 128 \<le> seg_rune (decode2 a s)"
  by (auto simp: decode2_def cont_byte_def split: list.splits)

lemma decode3_high: "224 \<le> code a \<Longrightarrow> 128 \<le> seg_rune (decode3 a s)"
  by (auto simp: decode3_def cont_byte_def second_lo_def split: list.splits if_splits)

lemma decode4_high: "240 \<le> code a \<Longrightarrow> 128 \<le> seg_rune (decode4 a s)"
  by (auto simp: decode4_def cont_byte_def second_lo_def split: list.splits if_splits)

lemma decode_rune_high: "128 \<le> code a \<Longrightarrow> 128 \<le> seg_rune (decode_rune a s)"
  by (auto simp: decode_rune_def intro: decode2_high decode3_high decode4_high)

text \<open>A test that accepts ASCII runes only sees exactly the bytes of the string.\<close>

lemma runes_all_ascii:
  assumes "\<And>r. p r \<Longrightarrow> r < 128"
  shows "list_all p (runes s) \<longleftrightarrow> list_all (\<lambda>c. p (code c)) s"
proof (induction s rule: utf8_segs.induct)
  case (2 a s)
  show ?case
  proof (cases "code a < 128")
    case True
    then show ?thesis
      using "2"[OF refl] by (simp add: runes_def utf8_segs.simps(2) decode_rune_ascii)
  next
    case False
    then have "\<not> p (seg_rune (decode_rune a s))" "\<not> p (code a)"
      using assms decode_rune_high[of a s] by fastforce+
    then show ?thesis by (simp add: runes_def utf8_segs.simps(2) Let_def)
  qed
qed (simp add: runes_def)

lemma runes_ascii: "ascii s \<Longrightarrow> runes s = map code s"
  by (induction s) (simp_all add: ascii_def runes_def utf8_segs.simps(2) decode_rune_ascii)

section \<open>Prefixes and suffixes\<close>

definition HasPrefix :: "string \<Rightarrow> string \<Rightarrow> bool" where
  "HasPrefix s p \<longleftrightarrow> take (length p) s = p"

definition HasSuffix :: "string \<Rightarrow> string \<Rightarrow> bool" where
  "HasSuffix s p \<longleftrightarrow> length p \<le> length s \<and> drop (length s - length p) s = p"

definition TrimPrefix :: "string \<Rightarrow> string \<Rightarrow> string" where
  "TrimPrefix s p = (if HasPrefix s p then drop (length p) s else s)"

definition TrimSuffix :: "string \<Rightarrow> string \<Rightarrow> string" where
  "TrimSuffix s p = (if HasSuffix s p then take (length s - length p) s else s)"

text \<open>\<open>filepath.Dir\<close> and \<open>filepath.Base\<close> of an absolute cleaned path.\<close>

definition path_dir :: "string \<Rightarrow> string" where
  "path_dir p = rev (drop 1 (dropWhile (\<lambda>c. c \<noteq> CHR ''/'') (rev p)))"

definition path_base :: "string \<Rightarrow> string" where
  "path_base p = rev (takeWhile (\<lambda>c. c \<noteq> CHR ''/'') (rev p))"

end
