(* ===== verification/Schema.thy ===== *)
theory Schema
  imports Texts
begin

text \<open>
  The hub database (\<open>internal/hubstore/schema.go\<close>, format version 8): one record per table,
  the \<open>hub\<close> record of all tables, and the \<open>INSERT\<close>, \<open>UPDATE\<close> and \<open>DELETE\<close> statements the
  Go code issues, with the constraints and triggers the schema declares: a violated one
  yields the SQLite result code the driver reports. SQL \<open>NULL\<close> is \<^const>\<open>None\<close>.
\<close>

section \<open>Errors\<close>

text \<open>
  The sentinel errors of \<open>store.go\<close> and \<open>event.go\<close>, a raw driver error with its SQLite
  extended result code, and the failures of the operating system (\<open>os.ErrNotExist\<close> and
  \<open>os.ErrExist\<close> apart), of row scanning and of the random source.
\<close>

datatype err =
    ErrNotFound | ErrConflict | ErrUnauthorized | ErrInvalidInput | ErrArchived | ErrExpired
  | ErrUnsupportedFormat | ErrBindingConflict | ErrBusyRetryable | ErrIdempotencyConflict
  | ErrReplayGap | ErrCursorConflict
  | ErrSchemaInvalid | ErrUnsupportedSchema | ErrVersionUnknown | ErrVersionRetired
  | ErrInitializationPending
  | Sqlite int | ErrScan | ErrOS | ErrNotExist | ErrExist | ErrRand

abbreviation "sql_check \<equiv> Sqlite 275"
abbreviation "sql_foreign_key \<equiv> Sqlite 787"
abbreviation "sql_primary_key \<equiv> Sqlite 1555"
abbreviation "sql_trigger \<equiv> Sqlite 1811"
abbreviation "sql_unique \<equiv> Sqlite 2067"

definition uniqueOrOriginal :: "err \<Rightarrow> err" where
  "uniqueOrOriginal e = (if e = Sqlite 2067 \<or> e = Sqlite 1555 then ErrConflict else e)"

definition mapErr :: "('e \<Rightarrow> 'f) \<Rightarrow> 'e + 'a \<Rightarrow> 'f + 'a" where
  "mapErr f m = (case m of Inl e \<Rightarrow> Inl (f e) | Inr x \<Rightarrow> Inr x)"

lemma mapErr_Inr_iff [simp]: "mapErr f m = Inr x \<longleftrightarrow> m = Inr x"
  by (cases m) (auto simp: mapErr_def)

lemma mapErr_Inl_iff: "mapErr f m = Inl e \<longleftrightarrow> (\<exists>e'. m = Inl e' \<and> e = f e')"
  by (cases m) (auto simp: mapErr_def)

lemma mapErr_simps [simp]:
  "mapErr f (Inl e) = Inl (f e)"
  "mapErr f (Inr x) = Inr x"
  by (simp_all add: mapErr_def)

text \<open>\<open>randomID\<close>: 16 bytes of \<open>crypto/rand\<close> (an argument; \<^const>\<open>None\<close> when the read fails) in hex.\<close>

type_synonym rand = "8 word list option"

definition randomID :: "rand \<Rightarrow> err + string" where
  "randomID r = (case r of None \<Rightarrow> Inl ErrRand | Some bs \<Rightarrow> Inr (hex_encode (take 16 bs)))"

text \<open>A text column holding JSON: the value it encodes, or a text that does not decode.\<close>

datatype 'a jtext = JText 'a | JDamaged

fun unmarshal :: "'a jtext \<Rightarrow> err + 'a" where
  "unmarshal (JText v) = Inr v"
| "unmarshal JDamaged = Inl ErrUnsupportedFormat"

lemma unmarshal_Inr_iff [simp]: "unmarshal t = Inr v \<longleftrightarrow> t = JText v"
  by (cases t) auto

section \<open>Values returned to callers\<close>

record topic =
  to_ID :: string
  to_ScopeID :: string
  to_ScopeKind :: string
  to_Key :: string
  to_Name :: string
  to_Description :: string
  to_OwnerActorID :: string
  to_CreatedAt :: gotime
  to_ExpiresAt :: "gotime option"
  to_ArchivedAt :: "gotime option"
  to_ArchiveActorID :: string
  to_ArchiveReason :: string
  to_PolicyGeneration :: int
  to_State :: string
  to_EffectiveArchivedAt :: "gotime option"
  to_EffectiveReason :: string

record source_ref =
  sr_Kind :: string
  sr_Reference :: string
  sr_ScopeID :: string

section \<open>Rows\<close>

record migration_row =
  mg_version :: int
  mg_digest :: string
  mg_applied_at :: int

record actor_row =
  ac_id :: string
  ac_enrolled_at :: int

record scope_row =
  sc_id :: string
  sc_kind :: string
  sc_enrolled_at :: int
  sc_low_water :: int

record binding_row =
  bd_scope :: string
  bd_common_dir :: string
  bd_marker :: string
  bd_identity :: string

record topic_row =
  tp_id :: string
  tp_scope :: string
  tp_key :: string
  tp_name :: string
  tp_description :: string
  tp_owner :: string
  tp_created_at :: int
  tp_expires_at :: "int option"
  tp_archived_at :: "int option"
  tp_archive_actor :: "string option"
  tp_archive_reason :: "string option"
  tp_generation :: int

record role_row =
  rl_topic :: string
  rl_actor :: string
  rl_role :: string

text \<open>The old and new value of an audit row are JSON texts; the model keeps the encoded value.\<close>

datatype audit_value =
    AuNull
  | AuTopic topic
  | AuRestore topic string
  | AuActor string
  | AuRegister string int string
  | AuRetire string int

record audit_row =
  au_id :: string
  au_topic :: string
  au_actor :: string
  au_action :: string
  au_at :: int
  au_old :: audit_value
  au_new :: audit_value

record counter_row =
  ct_scope :: string
  ct_next :: int

record publication_row =
  pb_entry :: string
  pb_scope :: string
  pb_topic :: string
  pb_actor :: string
  pb_kind :: string
  pb_sequence :: int
  pb_committed_at :: int
  pb_occurred_at :: "int option"
  pb_expires_at :: "int option"
  pb_source_refs :: "source_ref list jtext"
  pb_correlation_refs :: "string list jtext"
  pb_key :: "string option"

record head_row =
  hd_message :: string
  hd_scope :: string
  hd_topic :: string
  hd_author :: string
  hd_revision :: int
  hd_entry :: string
  hd_pinned :: bool

record revision_row =
  rv_message :: string
  rv_scope :: string
  rv_topic :: string
  rv_revision :: int
  rv_entry :: string
  rv_text :: string
  rv_expires_at :: "int option"

record pin_row =
  pn_id :: string
  pn_message :: string
  pn_revision :: int
  pn_actor :: string
  pn_pinned :: bool
  pn_at :: int

record idem_row =
  ik_scope :: string
  ik_topic :: string
  ik_actor :: string
  ik_key :: string
  ik_fingerprint :: string
  ik_entry :: string

record schema_row =
  es_topic :: string
  es_type :: string
  es_version :: int
  es_dialect :: string
  es_json :: string
  es_sha256 :: string
  es_registered_by :: string
  es_registered_at :: int
  es_retired_by :: "string option"
  es_retired_at :: "int option"

record event_row =
  ev_entry :: string
  ev_topic :: string
  ev_type :: string
  ev_version :: int
  ev_sha256 :: string
  ev_payload :: string
  ev_corrects :: "string option"

record consumer_row =
  cn_id :: string
  cn_enrolled_at :: int

type_synonym event_filter = "string \<times> int"

record subscription_row =
  sb_id :: string
  sb_consumer :: string
  sb_scope :: string
  sb_kinds :: "string list jtext"
  sb_types :: "event_filter list jtext"
  sb_created_at :: int
  sb_ack :: int
  sb_removed_at :: "int option"

record subtopic_row =
  st_sub :: string
  st_scope :: string
  st_topic :: string

record range_row =
  pr_scope :: string
  pr_from :: int
  pr_to :: int
  pr_prune :: string

record pruned_idem_row =
  pi_scope :: string
  pi_topic :: string
  pi_actor :: string
  pi_key :: string
  pi_prune :: string

record prune_audit_row =
  pa_id :: string
  pa_cutoff :: int
  pa_at :: int
  pa_backup :: string
  pa_available :: bool
  pa_entries :: int
  pa_bytes :: int
  pa_epoch :: int

record vote_row =
  vt_message :: string
  vt_revision :: int
  vt_actor :: string
  vt_value :: int

record lease_row =
  ls_topic :: string
  ls_generation :: int
  ls_actor :: "string option"
  ls_hash :: "string option"
  ls_acquired_at :: "int option"
  ls_expires_at :: "int option"

section \<open>The database\<close>

record hub =
  application_id :: int
  user_version :: int
  db_id :: string
  format_version :: int
  retention_epoch :: int
  migrations :: "migration_row list"
  actors :: "actor_row list"
  scopes :: "scope_row list"
  bindings :: "binding_row list"
  topics :: "topic_row list"
  roles :: "role_row list"
  audits :: "audit_row list"
  counters :: "counter_row list"
  publications :: "publication_row list"
  heads :: "head_row list"
  revisions :: "revision_row list"
  pins :: "pin_row list"
  idems :: "idem_row list"
  schemas :: "schema_row list"
  events :: "event_row list"
  pull_secret :: "string option"
  consumers :: "consumer_row list"
  subscriptions :: "subscription_row list"
  subtopics :: "subtopic_row list"
  retention_enabled :: bool
  pruned_ranges :: "range_row list"
  pruned_idems :: "pruned_idem_row list"
  prune_audits :: "prune_audit_row list"
  votes :: "vote_row list"
  leases :: "lease_row list"

section \<open>Statements\<close>

text \<open>
  Constraints are evaluated in SQLite's order: \<open>CHECK\<close>, then \<open>UNIQUE\<close> and \<open>PRIMARY KEY\<close>,
  then (at the end of the statement) \<open>FOREIGN KEY\<close>.
\<close>

definition constraints :: "bool \<Rightarrow> bool \<Rightarrow> bool \<Rightarrow> bool \<Rightarrow> 'a \<Rightarrow> err + 'a" where
  "constraints chk uniq pk fk x =
     (if \<not> chk then Inl sql_check else if \<not> uniq then Inl sql_unique
      else if \<not> pk then Inl sql_primary_key else if \<not> fk then Inl sql_foreign_key else Inr x)"

lemma constraints_Inr_iff [simp]:
  "constraints chk uniq pk fk x = Inr y \<longleftrightarrow> chk \<and> uniq \<and> pk \<and> fk \<and> y = x"
  by (auto simp: constraints_def)

lemma constraints_Inl: "constraints chk uniq pk fk x = Inl e \<Longrightarrow>
  \<not> chk \<and> e = sql_check \<or> \<not> uniq \<and> e = sql_unique \<or> \<not> pk \<and> e = sql_primary_key \<or> \<not> fk \<and> e = sql_foreign_key"
  by (auto simp: constraints_def split: if_splits)

definition actor_exists :: "hub \<Rightarrow> string \<Rightarrow> bool" where
  "actor_exists h a \<longleftrightarrow> a \<in> ac_id ` set (actors h)"

definition scope_exists :: "hub \<Rightarrow> string \<Rightarrow> bool" where
  "scope_exists h s \<longleftrightarrow> s \<in> sc_id ` set (scopes h)"

definition topic_in_scope :: "hub \<Rightarrow> string \<Rightarrow> string \<Rightarrow> bool" where
  "topic_in_scope h s t \<longleftrightarrow> (s, t) \<in> (\<lambda>r. (tp_scope r, tp_id r)) ` set (topics h)"

definition topic_exists :: "hub \<Rightarrow> string \<Rightarrow> bool" where
  "topic_exists h t \<longleftrightarrow> t \<in> tp_id ` set (topics h)"

definition entry_exists :: "hub \<Rightarrow> string \<Rightarrow> bool" where
  "entry_exists h e \<longleftrightarrow> e \<in> pb_entry ` set (publications h)"

definition revision_exists :: "hub \<Rightarrow> string \<Rightarrow> int \<Rightarrow> bool" where
  "revision_exists h m n \<longleftrightarrow> (m, n) \<in> (\<lambda>r. (rv_message r, rv_revision r)) ` set (revisions h)"

definition insert_actor_ignore :: "actor_row \<Rightarrow> hub \<Rightarrow> hub" where
  "insert_actor_ignore r h =
     (if actor_exists h (ac_id r) then h else h\<lparr>actors := actors h @ [r]\<rparr>)"

definition insert_scope :: "scope_row \<Rightarrow> hub \<Rightarrow> err + hub" where
  "insert_scope r h = constraints
     (sc_kind r \<in> {''git'', ''global''} \<and> 0 \<le> sc_low_water r)
     (sc_kind r = ''global'' \<longrightarrow> (\<forall>s \<in> set (scopes h). sc_kind s \<noteq> ''global''))
     (\<not> scope_exists h (sc_id r)) True
     (h\<lparr>scopes := scopes h @ [r]\<rparr>)"

definition insert_binding :: "binding_row \<Rightarrow> hub \<Rightarrow> err + hub" where
  "insert_binding r h = constraints True
     (bd_common_dir r \<notin> bd_common_dir ` set (bindings h))
     (bd_scope r \<notin> bd_scope ` set (bindings h))
     (scope_exists h (bd_scope r))
     (h\<lparr>bindings := bindings h @ [r]\<rparr>)"

definition archive_columns_ok :: "topic_row \<Rightarrow> bool" where
  "archive_columns_ok r \<longleftrightarrow>
     (tp_archived_at r = None \<and> tp_archive_actor r = None \<and> tp_archive_reason r = None) \<or>
     (tp_archived_at r \<noteq> None \<and> tp_archive_actor r \<noteq> None \<and> tp_archive_reason r \<noteq> None)"

definition insert_topic :: "topic_row \<Rightarrow> hub \<Rightarrow> err + hub" where
  "insert_topic r h = constraints
     (0 < tp_generation r \<and> archive_columns_ok r)
     ((tp_scope r, tp_key r) \<notin> (\<lambda>t. (tp_scope t, tp_key t)) ` set (topics h))
     (\<not> topic_exists h (tp_id r))
     (scope_exists h (tp_scope r) \<and> actor_exists h (tp_owner r)
        \<and> opt_all (actor_exists h) (tp_archive_actor r))
     (h\<lparr>topics := topics h @ [r]\<rparr>)"

text \<open>
  \<open>UPDATE topics \<dots> WHERE topic_id=?\<close>: the identity columns are not in the \<open>SET\<close> list of any
  statement of the code; the checks and the archive actor's foreign key are verified again.
\<close>

definition update_topic :: "string \<Rightarrow> (topic_row \<Rightarrow> topic_row) \<Rightarrow> hub \<Rightarrow> err + hub" where
  "update_topic tid f h =
     (let rows = filter (\<lambda>r. tp_id r = tid) (topics h)
      in constraints
        (\<forall>r \<in> set rows. 0 < tp_generation (f r) \<and> archive_columns_ok (f r)) True True
        (\<forall>r \<in> set rows. opt_all (actor_exists h) (tp_archive_actor (f r)))
        (h\<lparr>topics := update_where (\<lambda>r. tp_id r = tid) f (topics h)\<rparr>))"

definition insert_role :: "role_row \<Rightarrow> hub \<Rightarrow> err + hub" where
  "insert_role r h = constraints (rl_role r = ''maintainer'') True
     (r \<notin> set (roles h))
     (topic_exists h (rl_topic r) \<and> actor_exists h (rl_actor r))
     (h\<lparr>roles := roles h @ [r]\<rparr>)"

definition insert_audit :: "audit_row \<Rightarrow> hub \<Rightarrow> err + hub" where
  "insert_audit r h = constraints True True
     (au_id r \<notin> au_id ` set (audits h))
     (topic_exists h (au_topic r) \<and> actor_exists h (au_actor r))
     (h\<lparr>audits := audits h @ [r]\<rparr>)"

definition insert_counter_ignore :: "string \<Rightarrow> hub \<Rightarrow> err + hub" where
  "insert_counter_ignore s h =
     (if s \<in> ct_scope ` set (counters h) then Inr h
      else constraints True True True (scope_exists h s)
             (h\<lparr>counters := counters h @ [\<lparr>ct_scope = s, ct_next = 1\<rparr>]\<rparr>))"

definition update_counter :: "string \<Rightarrow> int \<Rightarrow> hub \<Rightarrow> err + hub" where
  "update_counter s n h = constraints
     (0 < n \<or> s \<notin> ct_scope ` set (counters h)) True True True
     (h\<lparr>counters := update_where (\<lambda>c. ct_scope c = s) (\<lambda>c. c\<lparr>ct_next := n\<rparr>) (counters h)\<rparr>)"

definition insert_publication :: "publication_row \<Rightarrow> hub \<Rightarrow> err + hub" where
  "insert_publication r h = constraints
     (pb_kind r \<in> {''message'', ''event''} \<and> 0 < pb_sequence r)
     ((pb_scope r, pb_sequence r) \<notin> (\<lambda>p. (pb_scope p, pb_sequence p)) ` set (publications h))
     (\<not> entry_exists h (pb_entry r))
     (actor_exists h (pb_actor r) \<and> topic_in_scope h (pb_scope r) (pb_topic r))
     (h\<lparr>publications := publications h @ [r]\<rparr>)"

definition insert_head :: "head_row \<Rightarrow> hub \<Rightarrow> err + hub" where
  "insert_head r h = constraints
     (0 < hd_revision r) True
     (hd_message r \<notin> hd_message ` set (heads h))
     (actor_exists h (hd_author r) \<and> entry_exists h (hd_entry r)
        \<and> topic_in_scope h (hd_scope r) (hd_topic r))
     (h\<lparr>heads := heads h @ [r]\<rparr>)"

text \<open>\<open>UPDATE message_heads SET current_revision, current_entry_id, pinned=0\<close>, and \<open>SET pinned\<close>.\<close>

definition update_head_revision :: "string \<Rightarrow> int \<Rightarrow> string \<Rightarrow> hub \<Rightarrow> err + hub" where
  "update_head_revision m n e h =
     (let hit = (m \<in> hd_message ` set (heads h))
      in constraints (\<not> hit \<or> 0 < n) True True (\<not> hit \<or> entry_exists h e)
           (h\<lparr>heads := update_where (\<lambda>r. hd_message r = m)
                (\<lambda>r. r\<lparr>hd_revision := n, hd_entry := e, hd_pinned := False\<rparr>) (heads h)\<rparr>))"

definition update_head_pinned :: "string \<Rightarrow> bool \<Rightarrow> hub \<Rightarrow> hub" where
  "update_head_pinned m b h =
     h\<lparr>heads := update_where (\<lambda>r. hd_message r = m) (\<lambda>r. r\<lparr>hd_pinned := b\<rparr>) (heads h)\<rparr>"

definition insert_revision :: "revision_row \<Rightarrow> hub \<Rightarrow> err + hub" where
  "insert_revision r h = constraints
     (0 < rv_revision r)
     (rv_entry r \<notin> rv_entry ` set (revisions h))
     (\<not> revision_exists h (rv_message r) (rv_revision r))
     ((\<exists>m \<in> set (heads h). hd_message m = rv_message r \<and> hd_scope m = rv_scope r \<and> hd_topic m = rv_topic r)
      \<and> (\<exists>p \<in> set (publications h). pb_entry p = rv_entry r \<and> pb_scope p = rv_scope r \<and> pb_topic p = rv_topic r
            \<and> (rv_expires_at r \<noteq> None \<longrightarrow> pb_expires_at p = rv_expires_at r)))
     (h\<lparr>revisions := revisions h @ [r]\<rparr>)"

definition insert_pin :: "pin_row \<Rightarrow> hub \<Rightarrow> err + hub" where
  "insert_pin r h = constraints True True
     (pn_id r \<notin> pn_id ` set (pins h))
     (pn_message r \<in> hd_message ` set (heads h) \<and> actor_exists h (pn_actor r)
        \<and> revision_exists h (pn_message r) (pn_revision r))
     (h\<lparr>pins := pins h @ [r]\<rparr>)"

definition idem_key :: "idem_row \<Rightarrow> string \<times> string \<times> string \<times> string" where
  "idem_key r = (ik_scope r, ik_topic r, ik_actor r, ik_key r)"

definition insert_idem :: "idem_row \<Rightarrow> hub \<Rightarrow> err + hub" where
  "insert_idem r h = constraints True True
     (idem_key r \<notin> idem_key ` set (idems h))
     (entry_exists h (ik_entry r) \<and> topic_in_scope h (ik_scope r) (ik_topic r))
     (h\<lparr>idems := idems h @ [r]\<rparr>)"

definition schema_key :: "schema_row \<Rightarrow> string \<times> string \<times> int" where
  "schema_key r = (es_topic r, es_type r, es_version r)"

definition insert_schema :: "schema_row \<Rightarrow> hub \<Rightarrow> err + hub" where
  "insert_schema r h = constraints
     (0 < es_version r \<and> (es_retired_by r = None \<longleftrightarrow> es_retired_at r = None)) True
     (schema_key r \<notin> schema_key ` set (schemas h))
     (topic_exists h (es_topic r) \<and> actor_exists h (es_registered_by r)
        \<and> opt_all (actor_exists h) (es_retired_by r))
     (h\<lparr>schemas := schemas h @ [r]\<rparr>)"

definition insert_event :: "event_row \<Rightarrow> hub \<Rightarrow> err + hub" where
  "insert_event r h = constraints True True
     (ev_entry r \<notin> ev_entry ` set (events h))
     (entry_exists h (ev_entry r)
        \<and> opt_all (\<lambda>c. c \<in> ev_entry ` set (events h) \<or> c = ev_entry r) (ev_corrects r)
        \<and> (ev_topic r, ev_type r, ev_version r) \<in> schema_key ` set (schemas h))
     (h\<lparr>events := events h @ [r]\<rparr>)"

definition consumer_exists :: "hub \<Rightarrow> string \<Rightarrow> bool" where
  "consumer_exists h c \<longleftrightarrow> c \<in> cn_id ` set (consumers h)"

definition insert_consumer_ignore :: "consumer_row \<Rightarrow> hub \<Rightarrow> hub" where
  "insert_consumer_ignore r h =
     (if consumer_exists h (cn_id r) then h else h\<lparr>consumers := consumers h @ [r]\<rparr>)"

definition insert_subscription :: "subscription_row \<Rightarrow> hub \<Rightarrow> err + hub" where
  "insert_subscription r h = constraints
     (0 \<le> sb_ack r \<and> opt_all (\<lambda>t. sb_created_at r \<le> t) (sb_removed_at r)) True
     (sb_id r \<notin> sb_id ` set (subscriptions h))
     (consumer_exists h (sb_consumer r) \<and> scope_exists h (sb_scope r))
     (h\<lparr>subscriptions := subscriptions h @ [r]\<rparr>)"

definition insert_subtopic :: "subtopic_row \<Rightarrow> hub \<Rightarrow> err + hub" where
  "insert_subtopic r h = constraints True True
     ((st_sub r, st_topic r) \<notin> (\<lambda>t. (st_sub t, st_topic t)) ` set (subtopics h))
     (st_sub r \<in> sb_id ` set (subscriptions h) \<and> topic_in_scope h (st_scope r) (st_topic r))
     (h\<lparr>subtopics := subtopics h @ [r]\<rparr>)"

definition lease_columns_ok :: "lease_row \<Rightarrow> bool" where
  "lease_columns_ok r \<longleftrightarrow> 0 < ls_generation r \<and>
     ((ls_actor r = None \<and> ls_hash r = None \<and> ls_acquired_at r = None \<and> ls_expires_at r = None) \<or>
      (ls_actor r \<noteq> None \<and> ls_hash r \<noteq> None \<and> ls_acquired_at r \<noteq> None \<and> ls_expires_at r \<noteq> None))"

definition insert_lease :: "lease_row \<Rightarrow> hub \<Rightarrow> err + hub" where
  "insert_lease r h = constraints
     (lease_columns_ok r) True
     (ls_topic r \<notin> ls_topic ` set (leases h))
     (topic_exists h (ls_topic r) \<and> opt_all (actor_exists h) (ls_actor r))
     (h\<lparr>leases := leases h @ [r]\<rparr>)"

definition update_lease :: "(lease_row \<Rightarrow> bool) \<Rightarrow> (lease_row \<Rightarrow> lease_row) \<Rightarrow> hub \<Rightarrow> err + hub" where
  "update_lease P f h = constraints
     (\<forall>r \<in> set (leases h). P r \<longrightarrow> lease_columns_ok (f r)) True True
     (\<forall>r \<in> set (leases h). P r \<longrightarrow> opt_all (actor_exists h) (ls_actor (f r)))
     (h\<lparr>leases := update_where P f (leases h)\<rparr>)"

text \<open>
  \<open>INSERT INTO message_votes \<dots> ON CONFLICT DO UPDATE\<close>: the value replaces the actor's vote.
\<close>

definition vote_at :: "string \<Rightarrow> int \<Rightarrow> string \<Rightarrow> vote_row \<Rightarrow> bool" where
  "vote_at m n a v \<longleftrightarrow> vt_message v = m \<and> vt_revision v = n \<and> vt_actor v = a"

definition upsert_vote :: "vote_row \<Rightarrow> hub \<Rightarrow> err + hub" where
  "upsert_vote r h =
     (let hit = vote_at (vt_message r) (vt_revision r) (vt_actor r)
      in constraints (vt_value r \<in> {-1, 1}) True True
        (actor_exists h (vt_actor r) \<and> revision_exists h (vt_message r) (vt_revision r))
        (h\<lparr>votes := (if \<exists>v \<in> set (votes h). hit v
                    then update_where hit (\<lambda>v. v\<lparr>vt_value := vt_value r\<rparr>) (votes h)
                    else votes h @ [r])\<rparr>))"

definition insert_prune_audit :: "prune_audit_row \<Rightarrow> hub \<Rightarrow> err + hub" where
  "insert_prune_audit r h = constraints True True
     (pa_id r \<notin> pa_id ` set (prune_audits h)) True
     (h\<lparr>prune_audits := prune_audits h @ [r]\<rparr>)"

lemmas statement_defs =
  insert_actor_ignore_def insert_scope_def insert_binding_def insert_topic_def update_topic_def
  insert_role_def insert_audit_def insert_counter_ignore_def update_counter_def
  insert_publication_def insert_head_def update_head_revision_def update_head_pinned_def
  insert_revision_def insert_pin_def insert_idem_def insert_schema_def insert_event_def
  insert_consumer_ignore_def insert_subscription_def insert_subtopic_def insert_lease_def
  update_lease_def upsert_vote_def insert_prune_audit_def

section \<open>The keyed tables\<close>

interpretation scope_table: keyed_table scopes sc_id insert_scope
  by unfold_locales (auto simp: insert_scope_def scope_exists_def)

interpretation binding_table: keyed_table bindings bd_common_dir insert_binding
  by unfold_locales (auto simp: insert_binding_def)

interpretation topic_table: keyed_table topics tp_id insert_topic
  by unfold_locales (auto simp: insert_topic_def topic_exists_def)

interpretation audit_table: keyed_table audits au_id insert_audit
  by unfold_locales (auto simp: insert_audit_def)

interpretation publication_table: keyed_table publications pb_entry insert_publication
  by unfold_locales (auto simp: insert_publication_def entry_exists_def)

interpretation sequence_table: keyed_table publications "\<lambda>p. (pb_scope p, pb_sequence p)" insert_publication
  by unfold_locales (auto simp: insert_publication_def)

interpretation head_table: keyed_table heads hd_message insert_head
  by unfold_locales (auto simp: insert_head_def)

interpretation revision_table: keyed_table revisions rv_entry insert_revision
  by unfold_locales (auto simp: insert_revision_def)

interpretation revision_number_table:
  keyed_table revisions "\<lambda>r. (rv_message r, rv_revision r)" insert_revision
  by unfold_locales (auto simp: insert_revision_def revision_exists_def)

interpretation pin_table: keyed_table pins pn_id insert_pin
  by unfold_locales (auto simp: insert_pin_def)

interpretation idem_table: keyed_table idems idem_key insert_idem
  by unfold_locales (auto simp: insert_idem_def)

interpretation schema_table: keyed_table schemas schema_key insert_schema
  by unfold_locales (auto simp: insert_schema_def)

interpretation event_table: keyed_table events ev_entry insert_event
  by unfold_locales (auto simp: insert_event_def)

interpretation subscription_table: keyed_table subscriptions sb_id insert_subscription
  by unfold_locales (auto simp: insert_subscription_def)

interpretation subtopic_table: keyed_table subtopics "\<lambda>t. (st_sub t, st_topic t)" insert_subtopic
  by unfold_locales (auto simp: insert_subtopic_def)

interpretation lease_table: keyed_table leases ls_topic insert_lease
  by unfold_locales (auto simp: insert_lease_def)

end
