(* ===== verification/Store.thy ===== *)
theory Store
  imports Schema
begin

text \<open>
  \<open>internal/hubstore/store.go\<close>: the probe of an existing file, the migration of formats 1 to
  8, the integrity check and the write transaction every mutation runs in. A database file is
  a \<open>hub\<close>; tables a format does not have yet are empty.
\<close>

definition applicationID :: int where "applicationID = 1146308674"
definition schemaVersion :: int where "schemaVersion = 8"

text \<open>An open handle: the authority it was opened on, and whether it may write.\<close>

record db =
  authorityID :: string
  readOnly :: bool

section \<open>Probing a file\<close>

text \<open>
  \<open>dg k\<close> is the digest of the script \<open>schemaV\<open>k\<close>\<close> (SHA-256 in hex, a parameter).
\<close>

definition migration_digest :: "hub \<Rightarrow> int \<Rightarrow> err + string" where
  "migration_digest h k =
     optionE ErrUnsupportedFormat (map_option mg_digest (List.find (\<lambda>m. mg_version m = k) (migrations h)))"

definition check_migration :: "(int \<Rightarrow> string) \<Rightarrow> hub \<Rightarrow> int \<Rightarrow> err + unit" where
  "check_migration dg h k =
     bindE (migration_digest h k) (\<lambda>d. requireE (d = dg k) ErrUnsupportedFormat)"

definition check_secret :: "hub \<Rightarrow> err + unit" where
  "check_secret h = (case pull_secret h of
     None \<Rightarrow> Inl ErrUnsupportedFormat
   | Some s \<Rightarrow> requireE (length s = 32) ErrUnsupportedFormat)"

definition probe_step :: "(int \<Rightarrow> string) \<Rightarrow> hub \<Rightarrow> int \<Rightarrow> err + unit" where
  "probe_step dg h k =
     bindE (check_migration dg h k) (\<lambda>_. if k = 4 then check_secret h else Inr ())"

definition probeVersion :: "(int \<Rightarrow> string) \<Rightarrow> bool \<Rightarrow> hub \<Rightarrow> err + string" where
  "probeVersion dg allowV1 h =
     (let version = user_version h in
      if application_id h = 0 \<and> version = 0 then Inl ErrInitializationPending
      else bindE (requireE (application_id h = applicationID \<and>
                     (version = schemaVersion \<or> (allowV1 \<and> 1 \<le> version \<and> version < schemaVersion)))
                   ErrUnsupportedFormat) (\<lambda>_.
           bindE (migration_digest h 1) (\<lambda>digest.
           bindE (requireE (format_version h = version \<and> digest = dg 1 \<and> db_id h \<noteq> '''') ErrUnsupportedFormat) (\<lambda>_.
           bindE (requireE (int (length (migrations h)) = version) ErrUnsupportedFormat) (\<lambda>_.
           bindE (forE (probe_step dg h) [2..version]) (\<lambda>_. Inr (db_id h)))))))"

definition probe :: "(int \<Rightarrow> string) \<Rightarrow> hub \<Rightarrow> err + string" where
  "probe dg h = probeVersion dg False h"

section \<open>Referential integrity\<close>

text \<open>
  \<open>PRAGMA foreign_key_check\<close>: the \<open>REFERENCES\<close> and \<open>FOREIGN KEY\<close> clauses of every table.
\<close>

definition fk_topics :: "hub \<Rightarrow> bool" where
  "fk_topics h \<longleftrightarrow>
     (\<forall>t \<in> set (topics h). scope_exists h (tp_scope t) \<and> actor_exists h (tp_owner t)
        \<and> opt_all (actor_exists h) (tp_archive_actor t))
   \<and> (\<forall>r \<in> set (roles h). topic_exists h (rl_topic r) \<and> actor_exists h (rl_actor r))
   \<and> (\<forall>a \<in> set (audits h). topic_exists h (au_topic a) \<and> actor_exists h (au_actor a))
   \<and> (\<forall>l \<in> set (leases h). topic_exists h (ls_topic l) \<and> opt_all (actor_exists h) (ls_actor l))"

definition fk_scopes :: "hub \<Rightarrow> bool" where
  "fk_scopes h \<longleftrightarrow>
     (\<forall>b \<in> set (bindings h). scope_exists h (bd_scope b))
   \<and> (\<forall>c \<in> set (counters h). scope_exists h (ct_scope c))
   \<and> (\<forall>r \<in> set (pruned_ranges h). scope_exists h (pr_scope r))
   \<and> (\<forall>r \<in> set (pruned_idems h). topic_in_scope h (pi_scope r) (pi_topic r))"

definition fk_messages :: "hub \<Rightarrow> bool" where
  "fk_messages h \<longleftrightarrow>
     (\<forall>p \<in> set (publications h). actor_exists h (pb_actor p) \<and> topic_in_scope h (pb_scope p) (pb_topic p))
   \<and> (\<forall>m \<in> set (heads h). actor_exists h (hd_author m) \<and> entry_exists h (hd_entry m)
        \<and> topic_in_scope h (hd_scope m) (hd_topic m))
   \<and> (\<forall>r \<in> set (revisions h).
        (\<exists>m \<in> set (heads h). hd_message m = rv_message r \<and> hd_scope m = rv_scope r \<and> hd_topic m = rv_topic r)
      \<and> (\<exists>p \<in> set (publications h). pb_entry p = rv_entry r \<and> pb_scope p = rv_scope r \<and> pb_topic p = rv_topic r
            \<and> (rv_expires_at r \<noteq> None \<longrightarrow> pb_expires_at p = rv_expires_at r)))
   \<and> (\<forall>p \<in> set (pins h). pn_message p \<in> hd_message ` set (heads h) \<and> actor_exists h (pn_actor p)
        \<and> revision_exists h (pn_message p) (pn_revision p))
   \<and> (\<forall>v \<in> set (votes h). actor_exists h (vt_actor v) \<and> revision_exists h (vt_message v) (vt_revision v))
   \<and> (\<forall>i \<in> set (idems h). entry_exists h (ik_entry i) \<and> topic_in_scope h (ik_scope i) (ik_topic i))"

definition fk_events :: "hub \<Rightarrow> bool" where
  "fk_events h \<longleftrightarrow>
     (\<forall>s \<in> set (schemas h). topic_exists h (es_topic s) \<and> actor_exists h (es_registered_by s)
        \<and> opt_all (actor_exists h) (es_retired_by s))
   \<and> (\<forall>e \<in> set (events h). entry_exists h (ev_entry e)
        \<and> opt_all (\<lambda>c. c \<in> ev_entry ` set (events h)) (ev_corrects e)
        \<and> (ev_topic e, ev_type e, ev_version e) \<in> schema_key ` set (schemas h))"

definition fk_subscriptions :: "hub \<Rightarrow> bool" where
  "fk_subscriptions h \<longleftrightarrow>
     (\<forall>s \<in> set (subscriptions h). consumer_exists h (sb_consumer s) \<and> scope_exists h (sb_scope s))
   \<and> (\<forall>t \<in> set (subtopics h). st_sub t \<in> sb_id ` set (subscriptions h)
        \<and> topic_in_scope h (st_scope t) (st_topic t))"

definition foreign_keys_ok :: "hub \<Rightarrow> bool" where
  "foreign_keys_ok h \<longleftrightarrow> fk_topics h \<and> fk_scopes h \<and> fk_messages h \<and> fk_events h \<and> fk_subscriptions h"

text \<open>
  The \<open>PRIMARY KEY\<close> and \<open>UNIQUE\<close> clauses of every table, and the partial unique index that
  admits one global scope. SQLite keeps them; the statements of the model check them.
\<close>

definition keys_scopes :: "hub \<Rightarrow> bool" where
  "keys_scopes h \<longleftrightarrow>
     distinct (map ac_id (actors h)) \<and> distinct (map sc_id (scopes h))
   \<and> length (filter (\<lambda>s. sc_kind s = ''global'') (scopes h)) \<le> 1
   \<and> distinct (map bd_scope (bindings h)) \<and> distinct (map bd_common_dir (bindings h))
   \<and> distinct (map ct_scope (counters h))"

definition keys_topics :: "hub \<Rightarrow> bool" where
  "keys_topics h \<longleftrightarrow>
     distinct (map tp_id (topics h)) \<and> distinct (map (\<lambda>t. (tp_scope t, tp_key t)) (topics h))
   \<and> distinct (roles h) \<and> distinct (map au_id (audits h)) \<and> distinct (map ls_topic (leases h))"

definition keys_messages :: "hub \<Rightarrow> bool" where
  "keys_messages h \<longleftrightarrow>
     distinct (map pb_entry (publications h))
   \<and> distinct (map (\<lambda>p. (pb_scope p, pb_sequence p)) (publications h))
   \<and> distinct (map hd_message (heads h)) \<and> distinct (map rv_entry (revisions h))
   \<and> distinct (map (\<lambda>r. (rv_message r, rv_revision r)) (revisions h))
   \<and> distinct (map pn_id (pins h)) \<and> distinct (map idem_key (idems h))
   \<and> distinct (map (\<lambda>v. (vt_message v, vt_revision v, vt_actor v)) (votes h))"

definition keys_events :: "hub \<Rightarrow> bool" where
  "keys_events h \<longleftrightarrow>
     distinct (map schema_key (schemas h)) \<and> distinct (map ev_entry (events h))
   \<and> distinct (map cn_id (consumers h)) \<and> distinct (map sb_id (subscriptions h))
   \<and> distinct (map (\<lambda>t. (st_sub t, st_topic t)) (subtopics h))"

definition unique_keys :: "hub \<Rightarrow> bool" where
  "unique_keys h \<longleftrightarrow> keys_scopes h \<and> keys_topics h \<and> keys_messages h \<and> keys_events h"

text \<open>
  \<open>CheckIntegrity\<close>: the probe, SQLite's page-level check (its verdict is the argument
  \<open>pages_ok\<close>), and the foreign keys.
\<close>

definition checkIntegrity :: "bool \<Rightarrow> hub \<Rightarrow> err + unit" where
  "checkIntegrity pages_ok h =
     bindE (requireE pages_ok ErrUnsupportedFormat) (\<lambda>_.
       requireE (foreign_keys_ok h) ErrUnsupportedFormat)"

definition CheckIntegrity :: "(int \<Rightarrow> string) \<Rightarrow> bool \<Rightarrow> hub \<Rightarrow> err + unit" where
  "CheckIntegrity dg pages_ok h = bindE (probe dg h) (\<lambda>_. checkIntegrity pages_ok h)"

section \<open>Migration\<close>

text \<open>
  The data effect of the scripts: every script rebuilds \<open>hub_meta\<close> with its own format
  number; script 2 also gives each enrolled scope a counter at 1, script 4 is followed by the
  insertion of a random secret, script 5 creates \<open>retention_permission\<close> switched off; the
  other tables they create are empty.
\<close>

definition run_schema :: "int \<Rightarrow> hub \<Rightarrow> hub" where
  "run_schema k h =
     (if k = 2 then h\<lparr>format_version := 2, counters := map (\<lambda>s. \<lparr>ct_scope = sc_id s, ct_next = 1\<rparr>) (scopes h)\<rparr>
      else if k = 5 then h\<lparr>format_version := 5, retention_enabled := False\<rparr>
      else h\<lparr>format_version := k\<rparr>)"

definition record_migration :: "(int \<Rightarrow> string) \<Rightarrow> int \<Rightarrow> int \<Rightarrow> hub \<Rightarrow> err + hub" where
  "record_migration dg now k h = constraints True True (k \<notin> mg_version ` set (migrations h)) True
     (h\<lparr>migrations := migrations h @ [\<lparr>mg_version = k, mg_digest = dg k, mg_applied_at = now\<rparr>],
        user_version := k\<rparr>)"

definition apply_migration ::
  "(int \<Rightarrow> string) \<Rightarrow> int \<Rightarrow> string option \<Rightarrow> int \<Rightarrow> hub \<Rightarrow> err + hub" where
  "apply_migration dg now secret k h =
     (let h1 = run_schema k h
      in bindE (if k = 4 then (case secret of None \<Rightarrow> Inl ErrRand | Some s \<Rightarrow> Inr (h1\<lparr>pull_secret := Some s\<rparr>))
                else Inr h1)
           (record_migration dg now k))"

definition migrate_step ::
  "(int \<Rightarrow> string) \<Rightarrow> int \<Rightarrow> string option \<Rightarrow> int \<Rightarrow> int \<Rightarrow> hub \<Rightarrow> err + hub" where
  "migrate_step dg now secret version k h =
     (if version < k then apply_migration dg now secret k h
      else bindE (check_migration dg h k) (\<lambda>_. Inr h))"

definition migrate :: "(int \<Rightarrow> string) \<Rightarrow> int \<Rightarrow> string option \<Rightarrow> hub \<Rightarrow> err + hub" where
  "migrate dg now secret h =
     (let version = user_version h in
      if version = schemaVersion then Inr h
      else bindE (requireE (1 \<le> version \<and> version < schemaVersion) ErrUnsupportedFormat) (\<lambda>_.
           bindE (migration_digest h 1) (\<lambda>digest.
           bindE (requireE (db_id h \<noteq> '''' \<and> format_version h = version
                     \<and> int (length (migrations h)) = version \<and> digest = dg 1) ErrUnsupportedFormat) (\<lambda>_.
           bindE (foldE (migrate_step dg now secret version) [2..7] h) (\<lambda>h1.
           bindE (apply_migration dg now secret 8 h1) (\<lambda>h2.
           bindE (requireE (foreign_keys_ok h2) ErrUnsupportedFormat) (\<lambda>_. Inr h2)))))))"

text \<open>\<open>initialize\<close>: the fresh file of format 1 that \<open>migrate\<close> then brings to format 8.\<close>

definition empty_hub :: hub where
  "empty_hub = \<lparr>application_id = 0, user_version = 0, db_id = '''', format_version = 0,
     retention_epoch = 0, migrations = [], actors = [], scopes = [], bindings = [], topics = [],
     roles = [], audits = [], counters = [], publications = [], heads = [], revisions = [],
     pins = [], idems = [], schemas = [], events = [], pull_secret = None, consumers = [],
     subscriptions = [], subtopics = [], retention_enabled = False, pruned_ranges = [],
     pruned_idems = [], prune_audits = [], votes = [], leases = []\<rparr>"

definition initialize ::
  "(int \<Rightarrow> string) \<Rightarrow> int \<Rightarrow> rand \<Rightarrow> string option \<Rightarrow> bool \<Rightarrow> hub \<Rightarrow> err + (string \<times> hub)" where
  "initialize dg now rid secret pages_ok h =
     bindE (randomID rid) (\<lambda>id.
     bindE (record_migration dg now 1 (h\<lparr>db_id := id, format_version := 1\<rparr>)) (\<lambda>h1.
     bindE (migrate dg now secret (h1\<lparr>application_id := applicationID, user_version := 1\<rparr>)) (\<lambda>h2.
     bindE (checkIntegrity pages_ok h2) (\<lambda>_. Inr (id, h2)))))"

section \<open>The write transaction\<close>

definition classifySQLite :: "err \<Rightarrow> err" where
  "classifySQLite e = (case e of
     Sqlite c \<Rightarrow> if c mod 256 = 5 \<or> c mod 256 = 6 then ErrBusyRetryable else e
   | _ \<Rightarrow> e)"

text \<open>
  What the environment decides about a transaction: the clock sampled after admission, and
  the failures of \<open>BEGIN\<close>, of the admission statement and of \<open>COMMIT\<close> (a busy database).
\<close>

record env =
  clock :: gotime
  begin_fault :: "err option"
  admit_fault :: "err option"
  commit_fault :: "err option"

definition env_now :: "env \<Rightarrow> int" where
  "env_now env = unixMilli (clock env)"

definition admit :: "db \<Rightarrow> env \<Rightarrow> hub \<Rightarrow> err + unit" where
  "admit d env h =
     (case begin_fault env of Some e \<Rightarrow> Inl e | None \<Rightarrow>
      case admit_fault env of Some e \<Rightarrow> Inl e | None \<Rightarrow>
        bindE (requireE (db_id h = authorityID d \<and> format_version h = schemaVersion) ErrUnsupportedFormat) (\<lambda>_.
          requireE (user_version h = schemaVersion) ErrUnsupportedFormat))"

text \<open>
  \<open>write\<close>: the body runs on the admitted state; the new state is kept only when the body and
  the commit succeed, and the rollback keeps the old one otherwise.
\<close>

definition hub_write :: "db \<Rightarrow> env \<Rightarrow> (hub \<Rightarrow> int \<Rightarrow> err + ('a \<times> hub)) \<Rightarrow> hub \<Rightarrow> (err + 'a) \<times> hub" where
  "hub_write d env fn h =
     (if readOnly d then (Inl ErrUnauthorized, h)
      else case bindE (admit d env h) (\<lambda>_. fn h (env_now env)) of
        Inl e \<Rightarrow> (Inl (classifySQLite e), h)
      | Inr (x, h') \<Rightarrow> (case commit_fault env of
            Some e \<Rightarrow> (Inl (classifySQLite e), h)
          | None \<Rightarrow> (Inr x, h')))"

text \<open>
  Every mutating method validates its input first and returns early on an error; only then it
  runs its body in \<open>write\<close>.
\<close>

definition guarded_write ::
  "db \<Rightarrow> env \<Rightarrow> err + (hub \<Rightarrow> int \<Rightarrow> err + ('a \<times> hub)) \<Rightarrow> hub \<Rightarrow> (err + 'a) \<times> hub" where
  "guarded_write d env pre h = (case pre of Inl e \<Rightarrow> (Inl e, h) | Inr fn \<Rightarrow> hub_write d env fn h)"

section \<open>Lemmas: write\<close>

lemma write_Inr_iff:
  "hub_write d env fn h = (Inr x, h') \<longleftrightarrow>
     \<not> readOnly d \<and> admit d env h = Inr () \<and> commit_fault env = None \<and> fn h (env_now env) = Inr (x, h')"
  by (auto simp: hub_write_def bindE_Inl_iff split: sum.splits option.splits prod.splits)

text \<open>Atomicity: a transaction that reports an error leaves the database as it was.\<close>

lemma write_Inl: "hub_write d env fn h = (Inl e, h') \<Longrightarrow> h' = h"
  by (auto simp: hub_write_def split: sum.splits option.splits prod.splits if_splits)

lemma write_result_cases:
  obtains e where "hub_write d env fn h = (Inl e, h)"
  | x h' where "hub_write d env fn h = (Inr x, h')" "fn h (env_now env) = Inr (x, h')"
proof (cases "hub_write d env fn h")
  case (Pair r h')
  show thesis
  proof (cases r)
    case (Inl e)
    with Pair have "h' = h" by (auto dest: write_Inl)
    with Pair Inl show thesis by (auto intro: that(1))
  next
    case (Inr x)
    with Pair show thesis by (auto simp: write_Inr_iff intro!: that(2))
  qed
qed

lemma snd_write: "snd (hub_write d env fn h) = h \<or> (\<exists>x h'. fn h (env_now env) = Inr (x, h') \<and> snd (hub_write d env fn h) = h')"
  by (rule write_result_cases[of d env fn h]) auto

lemma write_format:
  assumes "hub_write d env fn h = (Inr x, h')"
  shows "db_id h = authorityID d" "format_version h = 8" "user_version h = 8"
  using assms by (auto simp: write_Inr_iff admit_def schemaVersion_def split: option.splits)

lemma guarded_write_Inr_iff:
  "guarded_write d env pre h = (Inr x, h') \<longleftrightarrow> (\<exists>fn. pre = Inr fn \<and> hub_write d env fn h = (Inr x, h'))"
  by (auto simp: guarded_write_def split: sum.splits)

lemma guarded_write_Inl: "guarded_write d env pre h = (Inl e, h') \<Longrightarrow> h' = h"
  by (auto simp: guarded_write_def dest: write_Inl split: sum.splits)

lemma snd_guarded_write:
  "snd (guarded_write d env pre h) = h \<or>
     (\<exists>fn x h'. pre = Inr fn \<and> fn h (env_now env) = Inr (x, h') \<and> snd (guarded_write d env pre h) = h')"
  using snd_write[of d env _ h] by (auto simp: guarded_write_def split: sum.splits)

text \<open>A predicate the body keeps is kept by the whole method, whatever fails.\<close>

lemma guarded_write_invariant:
  assumes "I h" and "\<And>fn x h'. pre = Inr fn \<Longrightarrow> fn h (env_now env) = Inr (x, h') \<Longrightarrow> I h'"
  shows "I (snd (guarded_write d env pre h))"
  using snd_guarded_write[of d env pre h] assms by auto

end
