(* ===== verification/Validation.thy ===== *)
theory Validation
  imports Schema
begin

text \<open>
  The input validators of \<open>internal/hubstore\<close>: topic keys and texts (\<open>topic.go\<close>), message
  texts and references (\<open>message.go\<close>), event type keys (\<open>event.go\<close>), actor and consumer
  identifiers (\<open>scope.go\<close>, \<open>subscription.go\<close>) and deadlines.
\<close>

section \<open>Keys and identifiers\<close>

text \<open>The loop of \<open>validKey\<close> over the runes, with \<open>prevHyphen\<close> as its state.\<close>

fun key_runes :: "bool \<Rightarrow> int list \<Rightarrow> bool" where
  "key_runes prevHyphen [] = True"
| "key_runes prevHyphen (c # cs) =
     (if c = 45 then (if prevHyphen then False else key_runes True cs)
      else if \<not> ((97 \<le> c \<and> c \<le> 122) \<or> (48 \<le> c \<and> c \<le> 57)) then False
      else key_runes False cs)"

definition validKey :: "string \<Rightarrow> bool" where
  "validKey key \<longleftrightarrow>
     \<not> (length key < 1 \<or> length key > 32 \<or> hd key < CHR ''a'' \<or> hd key > CHR ''z'' \<or> last key = CHR ''-'')
     \<and> key_runes False (runes key)"

fun split_on :: "char \<Rightarrow> string \<Rightarrow> string list" where
  "split_on d [] = [[]]"
| "split_on d (c # cs) =
     (if c = d then [] # split_on d cs
      else (case split_on d cs of [] \<Rightarrow> [[c]] | p # ps \<Rightarrow> (c # p) # ps))"

definition validTypeKey :: "string \<Rightarrow> bool" where
  "validTypeKey key \<longleftrightarrow> \<not> (length key = 0 \<or> length key > 128) \<and> list_all validKey (split_on CHR ''.'' key)"

definition id_rune :: "int \<Rightarrow> bool" where
  "id_rune c \<longleftrightarrow> (97 \<le> c \<and> c \<le> 122) \<or> (65 \<le> c \<and> c \<le> 90) \<or> (48 \<le> c \<and> c \<le> 57) \<or> c = 45 \<or> c = 95 \<or> c = 46"

definition validConsumerID :: "string \<Rightarrow> bool" where
  "validConsumerID s \<longleftrightarrow> \<not> (length s = 0 \<or> length s > 64) \<and> list_all id_rune (runes s)"

text \<open>The identifier check of \<open>EnrollActor\<close> (an empty one has been replaced by then).\<close>

definition validActorID :: "string \<Rightarrow> bool" where
  "validActorID s \<longleftrightarrow> \<not> length s > 64 \<and> list_all id_rune (runes s)"

section \<open>Texts\<close>

definition cleanText :: "string \<Rightarrow> nat \<Rightarrow> err + string" where
  "cleanText s0 maxlen =
     (let s = TrimSpace s0 in
      bindE (requireE (valid_utf8 s \<and> 1 \<le> rune_count s \<and> rune_count s \<le> maxlen) ErrInvalidInput) (\<lambda>_.
      bindE (requireE (list_all (\<lambda>r. \<not> is_control r) (runes s)) ErrInvalidInput) (\<lambda>_.
      bindE (requireE (list_ex (\<lambda>r. \<not> is_space r) (runes s)) ErrInvalidInput) (\<lambda>_.
        Inr s))))"

definition validMessageText :: "string \<Rightarrow> bool" where
  "validMessageText s \<longleftrightarrow>
     \<not> (length s = 0 \<or> int (length s) > 64 * 1024 \<or> \<not> valid_utf8 s)
     \<and> list_all (\<lambda>r. \<not> (r = 0 \<or> (is_control r \<and> r \<noteq> 10 \<and> r \<noteq> 13 \<and> r \<noteq> 9))) (runes s)
     \<and> list_ex (\<lambda>r. \<not> is_space r) (runes s)"

definition validRefText :: "string \<Rightarrow> nat \<Rightarrow> bool" where
  "validRefText s maxlen \<longleftrightarrow>
     \<not> (length s = 0 \<or> length s > maxlen \<or> \<not> valid_utf8 s \<or> TrimSpace s \<noteq> s)
     \<and> list_all (\<lambda>r. \<not> is_control r) (runes s)"

definition id32 :: "string \<Rightarrow> bool" where
  "id32 s \<longleftrightarrow> length s = 32 \<and> isHex s"

definition validSourceRef :: "source_ref \<Rightarrow> bool" where
  "validSourceRef s \<longleftrightarrow>
     sr_Kind s \<in> {''hub_entry'', ''git_commit'', ''document'', ''url''}
     \<and> validRefText (sr_Reference s) 512
     \<and> (if sr_Kind s = ''hub_entry'' then id32 (sr_ScopeID s) \<and> id32 (sr_Reference s)
        else sr_ScopeID s = '''')"

definition validateRefs :: "source_ref list \<Rightarrow> string list \<Rightarrow> err + unit" where
  "validateRefs sources correlations =
     bindE (requireE (length sources \<le> 16 \<and> length correlations \<le> 16) ErrInvalidInput) (\<lambda>_.
     bindE (forE (\<lambda>s. requireE (validSourceRef s) ErrInvalidInput) sources) (\<lambda>_.
       forE (\<lambda>s. requireE (validRefText s 256) ErrInvalidInput) correlations))"

section \<open>Deadlines\<close>

definition expiryMillis :: "gotime option \<Rightarrow> int \<Rightarrow> err + int option" where
  "expiryMillis expiry now = (case expiry of
     None \<Rightarrow> Inr None
   | Some t \<Rightarrow> if time_IsZero t \<or> year_before_1970 t \<or> unixMilli t \<le> now then Inl ErrExpired
               else Inr (Some (unixMilli t)))"

definition valid_time_option :: "gotime option \<Rightarrow> bool" where
  "valid_time_option t = opt_all (\<lambda>t. \<not> (time_IsZero t \<or> year_before_1970 t)) t"

text \<open>\<open>fromMillis(t.UnixMilli())\<close> on an optional time.\<close>

definition truncate_time :: "gotime option \<Rightarrow> gotime option" where
  "truncate_time t = map_option (\<lambda>t. fromMillis (unixMilli t)) t"

lemma expiryMillis_Inr: "expiryMillis e now = Inr (Some v) \<Longrightarrow> now < v"
  by (auto simp: expiryMillis_def split: option.splits if_splits)

lemma expiryMillis_future: "expiryMillis e now = Inr x \<Longrightarrow> opt_all (\<lambda>v. now < v) x"
  by (auto simp: expiryMillis_def split: option.splits if_splits)

lemma expiryMillis_Inl: "expiryMillis e now = Inl x \<Longrightarrow> x = ErrExpired"
  by (auto simp: expiryMillis_def split: option.splits if_splits)

lemma truncate_time_idem: "truncate_time (truncate_time t) = truncate_time t"
  by (cases t) (simp_all add: truncate_time_def)

section \<open>Lemmas: keys\<close>

definition key_char :: "char \<Rightarrow> bool" where
  "key_char c \<longleftrightarrow> (CHR ''a'' \<le> c \<and> c \<le> CHR ''z'') \<or> (CHR ''0'' \<le> c \<and> c \<le> CHR ''9'') \<or> c = CHR ''-''"

lemma code_le [str_simps]: "c \<le> d \<longleftrightarrow> code c \<le> code d"
  by (simp add: less_eq_char_def code_def)

lemma code_less [str_simps]: "c < d \<longleftrightarrow> code c < code d"
  by (simp add: less_char_def code_def)

lemma code_eq [str_simps]: "c = d \<longleftrightarrow> code c = code d"
  by (simp add: code_def)

lemma key_char_code: "key_char c \<longleftrightarrow> (97 \<le> code c \<and> code c \<le> 122) \<or> (48 \<le> code c \<and> code c \<le> 57) \<or> code c = 45"
  unfolding key_char_def code_le code_eq[of c] by (simp add: code_def)

definition no_double_hyphen :: "string \<Rightarrow> bool" where
  "no_double_hyphen s \<longleftrightarrow> (\<forall>i. Suc i < length s \<longrightarrow> \<not> (s ! i = CHR ''-'' \<and> s ! Suc i = CHR ''-''))"

lemma no_double_hyphen_Cons:
  "no_double_hyphen (c # s) \<longleftrightarrow>
     no_double_hyphen s \<and> (s = [] \<or> \<not> (c = CHR ''-'' \<and> hd s = CHR ''-''))"
proof -
  have split: "(\<forall>i. Q i) \<longleftrightarrow> Q 0 \<and> (\<forall>i. Q (Suc i))" for Q :: "nat \<Rightarrow> bool"
    by (metis nat.exhaust)
  show ?thesis
    unfolding no_double_hyphen_def by (subst split) (cases s; auto)
qed

lemma key_runes_map:
  "key_runes b (map code s) \<longleftrightarrow>
     list_all key_char s \<and> no_double_hyphen s \<and> (b \<longrightarrow> s = [] \<or> hd s \<noteq> CHR ''-'')"
proof (induction s arbitrary: b)
  case (Cons c s)
  have hy: "code c = 45 \<longleftrightarrow> c = CHR ''-''" by (subst code_eq) (simp add: code_def)
  show ?case
    by (auto simp: Cons.IH no_double_hyphen_Cons key_char_code hy)
qed (simp add: no_double_hyphen_def)

lemma key_runes_ascii: "key_runes b rs \<Longrightarrow> list_all (\<lambda>r. r < 128) rs"
  by (induction b rs rule: key_runes.induct) (auto split: if_splits)

lemma key_char_ascii: "list_all key_char s \<Longrightarrow> ascii s"
  by (auto simp: ascii_def list_all_iff key_char_code)

lemma key_runes_iff:
  "key_runes b (runes s) \<longleftrightarrow>
     list_all key_char s \<and> no_double_hyphen s \<and> (b \<longrightarrow> s = [] \<or> hd s \<noteq> CHR ''-'')"
proof
  assume k: "key_runes b (runes s)"
  then have "list_all (\<lambda>c. code c < 128) s"
    using key_runes_ascii runes_all_ascii[of "\<lambda>r. r < 128" s] by blast
  then have "runes s = map code s" by (intro runes_ascii) (simp add: ascii_def list_all_iff)
  with k key_runes_map[of b s] show "list_all key_char s \<and> no_double_hyphen s \<and> (b \<longrightarrow> s = [] \<or> hd s \<noteq> CHR ''-'')"
    by simp
next
  assume s: "list_all key_char s \<and> no_double_hyphen s \<and> (b \<longrightarrow> s = [] \<or> hd s \<noteq> CHR ''-'')"
  then have "runes s = map code s" by (intro runes_ascii key_char_ascii) simp
  with s key_runes_map[of b s] show "key_runes b (runes s)" by simp
qed

lemma validKey_iff:
  "validKey key \<longleftrightarrow> 1 \<le> length key \<and> length key \<le> 32
     \<and> CHR ''a'' \<le> hd key \<and> hd key \<le> CHR ''z'' \<and> last key \<noteq> CHR ''-''
     \<and> list_all key_char key \<and> no_double_hyphen key"
  by (auto simp: validKey_def key_runes_iff not_less not_le Suc_le_eq)

section \<open>Lemmas: texts\<close>

lemma cleanText_Inr:
  "cleanText s0 m = Inr s \<longleftrightarrow>
     s = TrimSpace s0 \<and> valid_utf8 s \<and> 1 \<le> rune_count s \<and> rune_count s \<le> m
     \<and> list_all (\<lambda>r. \<not> is_control r) (runes s) \<and> list_ex (\<lambda>r. \<not> is_space r) (runes s)"
  by (auto simp: cleanText_def Let_def)

lemma cleanText_Inl: "cleanText s0 m = Inl e \<Longrightarrow> e = ErrInvalidInput"
  by (auto simp: cleanText_def Let_def bindE_Inl_iff)

lemma cleanText_nonempty: "cleanText s0 m = Inr s \<Longrightarrow> s \<noteq> ''''"
  by (auto simp: cleanText_Inr rune_count_def)

end
