(* ===== verification/Scopes.thy ===== *)
theory Scopes
  imports Store Validation
begin

text \<open>
  \<open>internal/hubstore/scope.go\<close> and \<open>boundScope\<close> of \<open>topic.go\<close>: how a repository path is
  resolved to the evidence of its Git common directory (path, incarnation marker, file
  identity), how a scope is bound to that evidence, and the enrolment of scopes and actors.
\<close>

section \<open>The operating system\<close>

text \<open>
  What the code asks of the system is a parameter: the output of \<open>git rev-parse\<close>, the
  resolution of symbolic links to a clean absolute path, file identities, lower-casing, and
  the marker files. The marker files change when a scope is enrolled.
\<close>

datatype marker_file = NoFile | FileData string | FileErr

record os =
  os_windows :: bool
  os_git :: "string \<Rightarrow> string option"
  os_is_abs :: "string \<Rightarrow> bool"
  os_real_path :: "string \<Rightarrow> string option"
  os_lower :: "string \<Rightarrow> string"
  os_identity :: "string \<Rightarrow> string option"
  os_create_ok :: "string \<Rightarrow> bool"
  os_markers :: "string \<Rightarrow> marker_file"

record repoEvidence =
  re_path :: string
  re_key :: string
  re_marker :: string
  re_identity :: string
  re_kind :: string

definition no_evidence :: repoEvidence where
  "no_evidence = \<lparr>re_path = '''', re_key = '''', re_marker = '''', re_identity = '''', re_kind = ''''\<rparr>"

record scope =
  scope_ID :: string
  scope_Kind :: string
  scope_CommonDir :: string

record actor =
  actor_ID :: string
  actor_EnrolledAt :: int

definition GlobalScopeSelector :: string where "GlobalScopeSelector = ''global:''"

section \<open>Evidence\<close>

definition readRepoMarker :: "os \<Rightarrow> repoEvidence \<Rightarrow> repoEvidence \<times> err option" where
  "readRepoMarker os ev = (case os_markers os (re_path ev) of
     NoFile \<Rightarrow> (ev, Some ErrNotFound)
   | FileErr \<Rightarrow> (no_evidence, Some ErrOS)
   | FileData s \<Rightarrow>
       let marker = TrimSpace s in
       if length marker \<noteq> 32 \<or> \<not> isHex marker then (no_evidence, Some ErrBindingConflict)
       else (ev\<lparr>re_marker := marker\<rparr>, None))"

definition checkEvidence :: "os \<Rightarrow> repoEvidence \<Rightarrow> err + unit" where
  "checkEvidence os ev =
     (if re_kind ev = ''global'' then Inr ()
      else (case os_markers os (re_path ev) of
          FileData s \<Rightarrow> (case os_identity os (re_path ev) of
              None \<Rightarrow> Inl ErrBindingConflict
            | Some identity \<Rightarrow>
                requireE (TrimSpace s = re_marker ev \<and> identity = re_identity ev) ErrBindingConflict)
        | _ \<Rightarrow> Inl ErrBindingConflict))"

text \<open>\<open>resolveGit\<close> with \<open>createMarker\<close> false, the only way the package calls it.\<close>

definition resolveGit :: "os \<Rightarrow> string \<Rightarrow> repoEvidence \<times> err option" where
  "resolveGit os repoPath =
     (if repoPath = GlobalScopeSelector then (no_evidence\<lparr>re_kind := ''global''\<rparr>, None)
      else if repoPath = '''' then (no_evidence, Some ErrInvalidInput)
      else (case os_git os repoPath of
          None \<Rightarrow> (no_evidence, Some ErrOS)
        | Some out \<Rightarrow>
            if \<not> os_is_abs os (TrimSpace out) then (no_evidence, Some ErrBindingConflict)
            else (case os_real_path os (TrimSpace out) of
                None \<Rightarrow> (no_evidence, Some ErrOS)
              | Some common \<Rightarrow>
                  let key = (if os_windows os then os_lower os common else common) in
                  (case os_identity os common of
                     None \<Rightarrow> (no_evidence, Some ErrOS)
                   | Some identity \<Rightarrow>
                       readRepoMarker os (no_evidence\<lparr>re_path := common, re_key := key, re_identity := identity\<rparr>)))))"

definition resolve :: "os \<Rightarrow> string \<Rightarrow> err + repoEvidence" where
  "resolve os repoPath = (case resolveGit os repoPath of (ev, None) \<Rightarrow> Inr ev | (_, Some e) \<Rightarrow> Inl e)"

definition createRepoMarker :: "os \<Rightarrow> string \<Rightarrow> rand \<Rightarrow> (err + unit) \<times> os" where
  "createRepoMarker os common rid = (case randomID rid of
     Inl e \<Rightarrow> (Inl e, os)
   | Inr marker \<Rightarrow> (case os_markers os common of
        NoFile \<Rightarrow>
          if os_create_ok os common
          then (Inr (), os\<lparr>os_markers := (os_markers os)(common := FileData (marker @ [CHR 0x0A]))\<rparr>)
          else (Inl ErrOS, os)
      | _ \<Rightarrow> (Inr (), os)))"

section \<open>Bindings\<close>

definition global_scope :: "hub \<Rightarrow> scope_row option" where
  "global_scope h = List.find (\<lambda>s. sc_kind s = ''global'') (scopes h)"

definition binding_of :: "hub \<Rightarrow> string \<Rightarrow> binding_row option" where
  "binding_of h key = List.find (\<lambda>b. bd_common_dir b = key) (bindings h)"

definition boundScope :: "os \<Rightarrow> hub \<Rightarrow> repoEvidence \<Rightarrow> err + string" where
  "boundScope os h ev =
     (if re_kind ev = ''global'' then optionE ErrNotFound (map_option sc_id (global_scope h))
      else bindE (checkEvidence os ev) (\<lambda>_.
           bindE (optionE ErrNotFound (binding_of h (re_key ev))) (\<lambda>b.
           bindE (requireE (bd_marker b = re_marker ev \<and> bd_identity b = re_identity ev) ErrBindingConflict) (\<lambda>_.
             Inr (bd_scope b)))))"

definition LookupRepo :: "os \<Rightarrow> string \<Rightarrow> hub \<Rightarrow> err + scope" where
  "LookupRepo os repoPath h =
     (if repoPath = GlobalScopeSelector then
        bindE (optionE ErrNotFound (global_scope h)) (\<lambda>s.
          Inr \<lparr>scope_ID = sc_id s, scope_Kind = sc_kind s, scope_CommonDir = ''''\<rparr>)
      else (case resolveGit os repoPath of (ev, e) \<Rightarrow>
        bindE (case e of Some err \<Rightarrow> requireE (err = ErrNotFound) err | None \<Rightarrow> Inr ()) (\<lambda>_.
        bindE (optionE ErrNotFound (binding_of h (re_key ev))) (\<lambda>b.
        bindE (requireE (re_marker ev \<noteq> '''' \<and> bd_marker b = re_marker ev \<and> bd_identity b = re_identity ev)
                 ErrBindingConflict) (\<lambda>_.
          Inr \<lparr>scope_ID = bd_scope b, scope_Kind = ''git'', scope_CommonDir = re_path ev\<rparr>)))))"

section \<open>Enrolment\<close>

definition enrollGlobal :: "rand \<Rightarrow> hub \<Rightarrow> int \<Rightarrow> err + (scope \<times> hub)" where
  "enrollGlobal rid h now = (case global_scope h of
     Some s \<Rightarrow> Inr (\<lparr>scope_ID = sc_id s, scope_Kind = sc_kind s, scope_CommonDir = ''''\<rparr>, h)
   | None \<Rightarrow>
       bindE (randomID rid) (\<lambda>id.
       bindE (mapErr uniqueOrOriginal
                (insert_scope \<lparr>sc_id = id, sc_kind = ''global'', sc_enrolled_at = now, sc_low_water = 0\<rparr> h)) (\<lambda>h1.
         Inr (\<lparr>scope_ID = id, scope_Kind = ''global'', scope_CommonDir = ''''\<rparr>, h1))))"

text \<open>
  The body of the write of \<open>EnrollRepo\<close> for a repository that has no binding yet: the marker
  is created when it is missing (that file survives a rollback), read back and checked; a
  binding with the same marker and identity at another path is a moved directory.
\<close>

definition bindNewRepo :: "os \<Rightarrow> repoEvidence \<Rightarrow> rand \<Rightarrow> hub \<Rightarrow> int \<Rightarrow> err + (scope \<times> hub)" where
  "bindNewRepo os ev rid h now =
     bindE (checkEvidence os ev) (\<lambda>_.
     bindE (requireE (\<forall>b \<in> set (bindings h). \<not> (bd_marker b = re_marker ev \<and> bd_identity b = re_identity ev))
              ErrBindingConflict) (\<lambda>_.
     bindE (randomID rid) (\<lambda>id.
     bindE (insert_scope \<lparr>sc_id = id, sc_kind = ''git'', sc_enrolled_at = now, sc_low_water = 0\<rparr> h) (\<lambda>h1.
     bindE (insert_binding \<lparr>bd_scope = id, bd_common_dir = re_key ev, bd_marker = re_marker ev,
              bd_identity = re_identity ev\<rparr> h1) (\<lambda>h2.
       Inr (\<lparr>scope_ID = id, scope_Kind = ''git'', scope_CommonDir = re_path ev\<rparr>, h2))))))"

definition ensureMarker :: "os \<Rightarrow> repoEvidence \<Rightarrow> err option \<Rightarrow> rand \<Rightarrow> (err + repoEvidence) \<times> os" where
  "ensureMarker os ev markerErr rid =
     (if markerErr = Some ErrNotFound then
        (case createRepoMarker os (re_path ev) rid of
           (Inl e, os') \<Rightarrow> (Inl e, os')
         | (Inr _, os') \<Rightarrow> (case readRepoMarker os' ev of
              (ev', None) \<Rightarrow> (Inr ev', os')
            | (_, Some e) \<Rightarrow> (Inl e, os')))
      else (Inr ev, os))"

definition EnrollRepo ::
  "db \<Rightarrow> env \<Rightarrow> os \<Rightarrow> string \<Rightarrow> rand \<Rightarrow> rand \<Rightarrow> hub \<Rightarrow> (err + scope) \<times> hub \<times> os" where
  "EnrollRepo d env os repoPath r1 r2 h =
     (if readOnly d then (Inl ErrUnauthorized, h, os)
      else if repoPath = GlobalScopeSelector then
        (case hub_write d env (enrollGlobal r1) h of (r, h') \<Rightarrow> (r, h', os))
      else (case resolveGit os repoPath of (ev, markerErr) \<Rightarrow>
        if markerErr \<noteq> None \<and> markerErr \<noteq> Some ErrNotFound then (Inl (the markerErr), h, os)
        else (case binding_of h (re_key ev) of
            Some b \<Rightarrow>
              (case hub_write d env (\<lambda>h now.
                  bindE (requireE (markerErr = None \<and> bd_marker b = re_marker ev \<and> bd_identity b = re_identity ev
                                   \<and> checkEvidence os ev = Inr ()) ErrBindingConflict) (\<lambda>_.
                    Inr (\<lparr>scope_ID = bd_scope b, scope_Kind = ''git'', scope_CommonDir = re_path ev\<rparr>, h))) h of
                 (r, h') \<Rightarrow> (r, h', os))
          | None \<Rightarrow>
              (case admit d env h of
                 Inl e \<Rightarrow> (Inl (classifySQLite e), h, os)
               | Inr _ \<Rightarrow>
                  (case ensureMarker os ev markerErr r1 of (m, os') \<Rightarrow>
                    (case hub_write d env (\<lambda>h now. bindE m (\<lambda>ev'. bindNewRepo os' ev' r2 h now)) h of
                       (r, h') \<Rightarrow> (r, h', os')))))))"

definition enrolled :: "hub \<Rightarrow> string \<Rightarrow> err + unit" where
  "enrolled h actorID = requireE (actor_exists h actorID) ErrUnauthorized"

definition enrollActor_body :: "string \<Rightarrow> hub \<Rightarrow> int \<Rightarrow> err + (actor \<times> hub)" where
  "enrollActor_body actorID h now =
     (let h1 = insert_actor_ignore \<lparr>ac_id = actorID, ac_enrolled_at = now\<rparr> h in
      bindE (optionE ErrScan (List.find (\<lambda>a. ac_id a = actorID) (actors h1))) (\<lambda>a.
        Inr (\<lparr>actor_ID = ac_id a, actor_EnrolledAt = ac_enrolled_at a\<rparr>, h1)))"

definition EnrollActor :: "db \<Rightarrow> env \<Rightarrow> string \<Rightarrow> rand \<Rightarrow> hub \<Rightarrow> (err + actor) \<times> hub" where
  "EnrollActor d env actorID0 rid h =
     (case (if actorID0 = '''' then randomID rid else Inr actorID0) of
        Inl e \<Rightarrow> (Inl e, h)
      | Inr actorID \<Rightarrow>
          if \<not> validActorID actorID then (Inl ErrInvalidInput, h)
          else hub_write d env (enrollActor_body actorID) h)"

section \<open>Lemmas\<close>

lemma enrolled_Inr_iff [simp]: "enrolled h a = Inr u \<longleftrightarrow> actor_exists h a"
  by (simp add: enrolled_def)

lemma boundScope_exists:
  assumes "boundScope os h ev = Inr s" and "fk_scopes h"
  shows "scope_exists h s"
  using assms
  by (auto simp: boundScope_def global_scope_def binding_of_def fk_scopes_def scope_exists_def
      dest!: find_SomeD_conj split: if_splits)

text \<open>
  The read path and the write path agree: when a lookup finds the scope and the evidence still
  holds, the write transaction is bound to the same scope.
\<close>

lemma LookupRepo_boundScope:
  assumes "LookupRepo os path h = Inr s" and "resolve os path = Inr ev" and "checkEvidence os ev = Inr ()"
  shows "boundScope os h ev = Inr (scope_ID s)"
  using assms
  by (auto simp: LookupRepo_def boundScope_def resolve_def resolveGit_def GlobalScopeSelector_def
      readRepoMarker_def no_evidence_def Let_def
      split: if_splits option.splits prod.splits marker_file.splits)

lemma boundScope_LookupRepo:
  assumes "boundScope os h ev = Inr s" and "resolve os path = Inr ev"
  shows "\<exists>sc. LookupRepo os path h = Inr sc \<and> scope_ID sc = s"
  using assms
  by (auto simp: LookupRepo_def boundScope_def resolve_def resolveGit_def GlobalScopeSelector_def
      readRepoMarker_def no_evidence_def Let_def
      split: if_splits option.splits prod.splits marker_file.splits)

lemma enrollActor_idem:
  "enrollActor_body a h now = Inr (r, h1) \<Longrightarrow> enrollActor_body a h1 now' = Inr (r, h1)"
  by (auto simp: enrollActor_body_def insert_actor_ignore_def actor_exists_def Let_def split: if_splits)

end
