(* ===== verification/Samples.thy ===== *)
theory Samples
  imports Scopes
begin

text \<open>
  A small concrete database for the instances of the theorems: the global scope, two enrolled
  actors, no topic yet, opened for writing at the millisecond 1000.
\<close>

definition demo_os :: os where
  "demo_os = \<lparr>os_windows = False, os_git = (\<lambda>_. None), os_is_abs = (\<lambda>_. True), os_real_path = Some,
     os_lower = (\<lambda>s. s), os_identity = (\<lambda>_. None), os_create_ok = (\<lambda>_. True), os_markers = (\<lambda>_. NoFile)\<rparr>"

definition demo_db :: db where
  "demo_db = \<lparr>authorityID = ''hub'', readOnly = False\<rparr>"

definition demo_env :: "int \<Rightarrow> env" where
  "demo_env t = \<lparr>clock = fromMillis t, begin_fault = None, admit_fault = None, commit_fault = None\<rparr>"

definition demo_migrations :: "migration_row list" where
  "demo_migrations = map (\<lambda>k. \<lparr>mg_version = k, mg_digest = '''', mg_applied_at = 0\<rparr>) [1..8]"

definition demo_hub :: hub where
  "demo_hub = empty_hub\<lparr>application_id := applicationID, user_version := 8, db_id := ''hub'', format_version := 8,
     migrations := demo_migrations,
     pull_secret := Some (replicate 32 CHR ''s''),
     actors := [\<lparr>ac_id = ''alice'', ac_enrolled_at = 1\<rparr>, \<lparr>ac_id = ''bob'', ac_enrolled_at = 1\<rparr>],
     scopes := [\<lparr>sc_id = ''g'', sc_kind = ''global'', sc_enrolled_at = 1, sc_low_water = 0\<rparr>]\<rparr>"

definition demo_topic :: topic_row where
  "demo_topic = \<lparr>tp_id = ''t'', tp_scope = ''g'', tp_key = ''news'', tp_name = ''News'', tp_description = ''All news'',
     tp_owner = ''alice'', tp_created_at = 1, tp_expires_at = None, tp_archived_at = None,
     tp_archive_actor = None, tp_archive_reason = None, tp_generation = 1\<rparr>"

text \<open>The same database with one topic, owned by alice.\<close>

definition demo_topic_hub :: hub where
  "demo_topic_hub = demo_hub\<lparr>topics := [demo_topic]\<rparr>"

definition demo_bytes :: "8 word \<Rightarrow> rand" where
  "demo_bytes b = Some (replicate 16 b)"

end
