(* ===== verification/Topics.thy ===== *)
theory Topics
  imports Samples
begin

text \<open>
  \<open>internal/hubstore/topic.go\<close>: topics with an owner, delegated maintainers, an optional
  deadline and a manual archive, guarded by a policy generation that every policy change
  compares and increments; each change appends one audit row.
\<close>

section \<open>Reading a row\<close>

definition scope_kind_of :: "hub \<Rightarrow> string \<Rightarrow> err + string" where
  "scope_kind_of h s = optionE ErrScan (map_option sc_kind (List.find (\<lambda>r. sc_id r = s) (scopes h)))"

definition expired_first :: "topic_row \<Rightarrow> int \<Rightarrow> bool" where
  "expired_first r now = (case tp_expires_at r of
     None \<Rightarrow> False
   | Some e \<Rightarrow> e \<le> now \<and> (case tp_archived_at r of None \<Rightarrow> True | Some a \<Rightarrow> e \<le> a))"

definition string_of_null :: "string option \<Rightarrow> string" where
  "string_of_null s = (case s of None \<Rightarrow> '''' | Some v \<Rightarrow> v)"

definition topic_of_row :: "topic_row \<Rightarrow> string \<Rightarrow> int \<Rightarrow> topic" where
  "topic_of_row r kind now =
     (let expires = map_option fromMillis (tp_expires_at r);
          archived = map_option fromMillis (tp_archived_at r)
      in \<lparr>to_ID = tp_id r, to_ScopeID = tp_scope r, to_ScopeKind = kind, to_Key = tp_key r,
          to_Name = tp_name r, to_Description = tp_description r, to_OwnerActorID = tp_owner r,
          to_CreatedAt = fromMillis (tp_created_at r), to_ExpiresAt = expires, to_ArchivedAt = archived,
          to_ArchiveActorID = string_of_null (tp_archive_actor r),
          to_ArchiveReason = string_of_null (tp_archive_reason r),
          to_PolicyGeneration = tp_generation r,
          to_State = (if expired_first r now \<or> tp_archived_at r \<noteq> None then ''archived'' else ''active''),
          to_EffectiveArchivedAt = (if expired_first r now then expires
                                    else if tp_archived_at r \<noteq> None then archived else None),
          to_EffectiveReason = (if expired_first r now then ''expired''
                                else if tp_archived_at r \<noteq> None then ''manual'' else '''')\<rparr>)"

definition scanTopic :: "hub \<Rightarrow> int \<Rightarrow> topic_row \<Rightarrow> err + topic" where
  "scanTopic h now r = bindE (scope_kind_of h (tp_scope r)) (\<lambda>kind. Inr (topic_of_row r kind now))"

definition find_topic :: "hub \<Rightarrow> string \<Rightarrow> string \<Rightarrow> topic_row option" where
  "find_topic h scope tid = List.find (\<lambda>t. tp_scope t = scope \<and> tp_id t = tid) (topics h)"

definition selectTopic :: "hub \<Rightarrow> string \<Rightarrow> string \<Rightarrow> int \<Rightarrow> err + topic" where
  "selectTopic h scope tid now = bindE (optionE ErrNotFound (find_topic h scope tid)) (scanTopic h now)"

text \<open>\<open>SELECT \<dots> FROM topics WHERE topic_id=?\<close>, the read-back of a mutation.\<close>

definition reloadTopic :: "hub \<Rightarrow> string \<Rightarrow> int \<Rightarrow> err + topic" where
  "reloadTopic h tid now =
     bindE (optionE ErrScan (List.find (\<lambda>t. tp_id t = tid) (topics h))) (scanTopic h now)"

definition appendAudit ::
  "string \<Rightarrow> string \<Rightarrow> string \<Rightarrow> int \<Rightarrow> audit_value \<Rightarrow> audit_value \<Rightarrow> rand \<Rightarrow> hub \<Rightarrow> err + hub" where
  "appendAudit tid actorID action at old new rid h =
     bindE (randomID rid) (\<lambda>id.
       insert_audit \<lparr>au_id = id, au_topic = tid, au_actor = actorID, au_action = action, au_at = at,
                     au_old = old, au_new = new\<rparr> h)"

section \<open>Creation\<close>

record topicInput =
  ti_Key :: string
  ti_Name :: string
  ti_Description :: string
  ti_ExpiresAt :: "gotime option"

definition createTopic_body ::
  "os \<Rightarrow> repoEvidence \<Rightarrow> string \<Rightarrow> topicInput \<Rightarrow> string \<Rightarrow> string \<Rightarrow> rand \<Rightarrow> rand \<Rightarrow> hub \<Rightarrow> int \<Rightarrow> err + (topic \<times> hub)" where
  "createTopic_body os ev actorID input name description r1 r2 h now =
     bindE (boundScope os h ev) (\<lambda>scope.
     bindE (enrolled h actorID) (\<lambda>_.
     bindE (expiryMillis (ti_ExpiresAt input) now) (\<lambda>expiry.
     bindE (randomID r1) (\<lambda>id.
     bindE (mapErr uniqueOrOriginal (insert_topic
        \<lparr>tp_id = id, tp_scope = scope, tp_key = ti_Key input, tp_name = name, tp_description = description,
         tp_owner = actorID, tp_created_at = now, tp_expires_at = expiry, tp_archived_at = None,
         tp_archive_actor = None, tp_archive_reason = None, tp_generation = 1\<rparr> h)) (\<lambda>h1.
     bindE (reloadTopic h1 id now) (\<lambda>out.
     bindE (appendAudit id actorID ''create'' now AuNull (AuTopic out) r2 h1) (\<lambda>h2.
       Inr (out, h2))))))))"

definition CreateTopic ::
  "db \<Rightarrow> env \<Rightarrow> os \<Rightarrow> string \<Rightarrow> string \<Rightarrow> topicInput \<Rightarrow> rand \<Rightarrow> rand \<Rightarrow> hub \<Rightarrow> (err + topic) \<times> hub" where
  "CreateTopic d env os repoPath actorID input r1 r2 =
     guarded_write d env
       (bindE (requireE (validKey (ti_Key input)) ErrInvalidInput) (\<lambda>_.
        bindE (cleanText (ti_Name input) 120) (\<lambda>name.
        bindE (cleanText (ti_Description input) 1000) (\<lambda>description.
        bindE (resolve os repoPath) (\<lambda>ev.
          Inr (createTopic_body os ev actorID input name description r1 r2))))))"

section \<open>Discovery\<close>

definition ShowTopic :: "os \<Rightarrow> string \<Rightarrow> string \<Rightarrow> gotime \<Rightarrow> hub \<Rightarrow> err + topic" where
  "ShowTopic os repoPath tid clk h =
     bindE (LookupRepo os repoPath h) (\<lambda>scope. selectTopic h (scope_ID scope) tid (unixMilli clk))"

record topicList =
  tl_Query :: string
  tl_IncludeArchived :: bool
  tl_Limit :: int
  tl_Offset :: int

definition ValidateTopicListOptions :: "topicList \<Rightarrow> err + unit" where
  "ValidateTopicListOptions opts =
     requireE (\<not> (tl_Limit opts < 0 \<or> tl_Limit opts > 100 \<or> tl_Offset opts < 0
                  \<or> length (TrimSpace (tl_Query opts)) > 256)) ErrInvalidInput"

definition ValidateTopicListRepo :: "os \<Rightarrow> string \<Rightarrow> err + unit" where
  "ValidateTopicListRepo os repoPath =
     (case snd (resolveGit os repoPath) of
        None \<Rightarrow> Inr ()
      | Some e \<Rightarrow> if e = ErrNotFound then Inr () else Inl e)"

text \<open>
  SQLite's \<open>lower\<close> and \<open>LIKE \<dots> ESCAPE '\'\<close>: both fold ASCII letters only; in a pattern
  \<open>%\<close> matches any string, \<open>_\<close> one character, and the escape makes the next character literal.
\<close>

definition ascii_lower :: "char \<Rightarrow> char" where
  "ascii_lower c = (if 65 \<le> code c \<and> code c \<le> 90 then char_of (nat (code c + 32)) else c)"

definition backslash :: char where "backslash = CHR 0x5C"

fun like :: "string \<Rightarrow> string \<Rightarrow> bool" where
  "like [] s = (s = [])"
| "like (c # p) s =
     (if c = CHR ''%'' then like p s \<or> (case s of [] \<Rightarrow> False | x # s' \<Rightarrow> like (c # p) s')
      else if c = CHR ''_'' then
        (case s of [] \<Rightarrow> False | x # s' \<Rightarrow> like p (drop (length (seg_bytes (decode_rune x s')) - 1) s'))
      else if c = backslash then
        (case p of [] \<Rightarrow> False
         | e # p' \<Rightarrow> (case s of [] \<Rightarrow> False | x # s' \<Rightarrow> ascii_lower e = ascii_lower x \<and> like p' s'))
      else (case s of [] \<Rightarrow> False | x # s' \<Rightarrow> ascii_lower c = ascii_lower x \<and> like p s'))"

definition escape_like :: "string \<Rightarrow> string" where
  "escape_like q = concat (map (\<lambda>c.
     if c = backslash \<or> c = CHR ''%'' \<or> c = CHR ''_'' then [backslash, c] else [c]) q)"

text \<open>The pattern for a query; \<open>golower\<close> is Go's \<open>strings.ToLower\<close>.\<close>

definition query_pattern :: "(string \<Rightarrow> string) \<Rightarrow> string \<Rightarrow> string" where
  "query_pattern golower query = ''%'' @ escape_like (golower query) @ ''%''"

definition topic_matches :: "string \<Rightarrow> topic_row \<Rightarrow> bool" where
  "topic_matches pattern t \<longleftrightarrow>
     like pattern (map ascii_lower (tp_key t)) \<or> like pattern (map ascii_lower (tp_name t))
     \<or> like pattern (map ascii_lower (tp_description t))"

definition listed :: "(string \<Rightarrow> string) \<Rightarrow> topicList \<Rightarrow> string \<Rightarrow> int \<Rightarrow> topic_row \<Rightarrow> bool" where
  "listed golower opts scope now t \<longleftrightarrow>
     tp_scope t = scope
     \<and> (tl_IncludeArchived opts \<or>
          (tp_archived_at t = None \<and> (case tp_expires_at t of None \<Rightarrow> True | Some e \<Rightarrow> e > now)))
     \<and> (TrimSpace (tl_Query opts) = '''' \<or> topic_matches (query_pattern golower (TrimSpace (tl_Query opts))) t)"

definition newest_first :: "topic_row list \<Rightarrow> topic_row list" where
  "newest_first ts = rev (sort_key (\<lambda>t. (tp_created_at t, tp_id t)) ts)"

definition default_limit :: "int \<Rightarrow> int" where
  "default_limit l = (if l = 0 then 50 else l)"

definition ListTopics ::
  "(string \<Rightarrow> string) \<Rightarrow> os \<Rightarrow> string \<Rightarrow> topicList \<Rightarrow> gotime \<Rightarrow> hub \<Rightarrow> err + topic list" where
  "ListTopics golower os repoPath opts clk h =
     bindE (ValidateTopicListOptions opts) (\<lambda>_.
       (case LookupRepo os repoPath h of
          Inl e \<Rightarrow> if e = ErrNotFound then Inr [] else Inl e
        | Inr scope \<Rightarrow>
            mapE (scanTopic h (unixMilli clk))
              (page_of (default_limit (tl_Limit opts)) (tl_Offset opts)
                (newest_first (filter (listed golower opts (scope_ID scope) (unixMilli clk)) (topics h))))))"

definition page_bounds :: "int \<Rightarrow> int \<Rightarrow> err + unit" where
  "page_bounds limit offset = requireE (\<not> (limit < 1 \<or> limit > 100 \<or> offset < 0)) ErrInvalidInput"

definition ListTopicAudit :: "os \<Rightarrow> string \<Rightarrow> string \<Rightarrow> int \<Rightarrow> int \<Rightarrow> hub \<Rightarrow> err + audit_row list" where
  "ListTopicAudit os repoPath tid limit0 offset h =
     bindE (LookupRepo os repoPath h) (\<lambda>scope.
     bindE (page_bounds (default_limit limit0) offset) (\<lambda>_.
     bindE (requireE (topic_in_scope h (scope_ID scope) tid) ErrNotFound) (\<lambda>_.
       Inr (page_of (default_limit limit0) offset
              (sort_key au_at (filter (\<lambda>a. au_topic a = tid) (audits h)))))))"

definition ListMaintainers :: "os \<Rightarrow> string \<Rightarrow> string \<Rightarrow> int \<Rightarrow> int \<Rightarrow> hub \<Rightarrow> err + string list" where
  "ListMaintainers os repoPath tid limit0 offset h =
     bindE (LookupRepo os repoPath h) (\<lambda>scope.
     bindE (page_bounds (default_limit limit0) offset) (\<lambda>_.
     bindE (requireE (topic_in_scope h (scope_ID scope) tid) ErrNotFound) (\<lambda>_.
       Inr (page_of (default_limit limit0) offset
              (sort (map rl_actor (filter (\<lambda>r. rl_topic r = tid \<and> rl_role r = ''maintainer'') (roles h))))))))"

section \<open>Policy changes\<close>

definition is_maintainer :: "hub \<Rightarrow> string \<Rightarrow> string \<Rightarrow> bool" where
  "is_maintainer h tid actorID \<longleftrightarrow>
     (\<exists>r \<in> set (roles h). rl_topic r = tid \<and> rl_actor r = actorID \<and> rl_role r = ''maintainer'')"

definition topicForWrite ::
  "hub \<Rightarrow> string \<Rightarrow> string \<Rightarrow> string \<Rightarrow> int \<Rightarrow> int \<Rightarrow> bool \<Rightarrow> err + topic" where
  "topicForWrite h scope tid actorID expected now ownerOnly =
     bindE (selectTopic h scope tid now) (\<lambda>t.
     bindE (requireE (\<not> (expected < 1 \<or> to_PolicyGeneration t \<noteq> expected)) ErrConflict) (\<lambda>_.
     bindE (enrolled h actorID) (\<lambda>_.
       if to_OwnerActorID t = actorID then Inr t
       else if ownerOnly then Inl ErrUnauthorized
       else bindE (requireE (is_maintainer h tid actorID) ErrUnauthorized) (\<lambda>_. Inr t))))"

record topicEdit =
  te_Name :: string
  te_Description :: string
  te_ChangeExpiry :: bool
  te_ExpiresAt :: "gotime option"
  te_ExpectedGeneration :: int

definition clean_optional :: "string \<Rightarrow> nat \<Rightarrow> err + string" where
  "clean_optional s m = (if s \<noteq> '''' then cleanText s m else Inr '''')"

definition editTopic_body ::
  "os \<Rightarrow> repoEvidence \<Rightarrow> string \<Rightarrow> string \<Rightarrow> topicEdit \<Rightarrow> string \<Rightarrow> string \<Rightarrow> rand \<Rightarrow> hub \<Rightarrow> int \<Rightarrow> err + (topic \<times> hub)" where
  "editTopic_body os ev tid actorID edit name description rid h now =
     bindE (boundScope os h ev) (\<lambda>scope.
     bindE (topicForWrite h scope tid actorID (te_ExpectedGeneration edit) now False) (\<lambda>old.
     bindE (requireE (to_State old = ''active'') ErrArchived) (\<lambda>_.
     bindE (if te_ChangeExpiry edit then expiryMillis (te_ExpiresAt edit) now
            else Inr (map_option unixMilli (to_ExpiresAt old))) (\<lambda>expiry.
     bindE (update_topic tid (\<lambda>r. r\<lparr>tp_name := (if name = '''' then to_Name old else name),
               tp_description := (if description = '''' then to_Description old else description),
               tp_expires_at := expiry, tp_generation := tp_generation r + 1\<rparr>) h) (\<lambda>h1.
     bindE (reloadTopic h1 tid now) (\<lambda>out.
     bindE (appendAudit tid actorID ''edit'' now (AuTopic old) (AuTopic out) rid h1) (\<lambda>h2.
       Inr (out, h2))))))))"

definition EditTopic ::
  "db \<Rightarrow> env \<Rightarrow> os \<Rightarrow> string \<Rightarrow> string \<Rightarrow> string \<Rightarrow> topicEdit \<Rightarrow> rand \<Rightarrow> hub \<Rightarrow> (err + topic) \<times> hub" where
  "EditTopic d env os repoPath tid actorID edit rid =
     guarded_write d env
       (bindE (resolve os repoPath) (\<lambda>ev.
        bindE (clean_optional (te_Name edit) 120) (\<lambda>name.
        bindE (clean_optional (te_Description edit) 1000) (\<lambda>description.
        bindE (requireE (\<not> (name = '''' \<and> description = '''' \<and> \<not> te_ChangeExpiry edit)) ErrInvalidInput) (\<lambda>_.
          Inr (editTopic_body os ev tid actorID edit name description rid))))))"

definition archiveTopic_body ::
  "os \<Rightarrow> repoEvidence \<Rightarrow> string \<Rightarrow> string \<Rightarrow> int \<Rightarrow> string \<Rightarrow> rand \<Rightarrow> hub \<Rightarrow> int \<Rightarrow> err + (topic \<times> hub)" where
  "archiveTopic_body os ev tid actorID expected reason rid h now =
     bindE (boundScope os h ev) (\<lambda>scope.
     bindE (topicForWrite h scope tid actorID expected now False) (\<lambda>old.
     bindE (requireE (to_ArchivedAt old = None) ErrArchived) (\<lambda>_.
     bindE (update_topic tid (\<lambda>r. r\<lparr>tp_archived_at := Some now, tp_archive_actor := Some actorID,
               tp_archive_reason := Some reason, tp_generation := tp_generation r + 1\<rparr>) h) (\<lambda>h1.
     bindE (reloadTopic h1 tid now) (\<lambda>out.
     bindE (appendAudit tid actorID ''archive'' now (AuTopic old) (AuTopic out) rid h1) (\<lambda>h2.
       Inr (out, h2)))))))"

definition ArchiveTopic ::
  "db \<Rightarrow> env \<Rightarrow> os \<Rightarrow> string \<Rightarrow> string \<Rightarrow> string \<Rightarrow> int \<Rightarrow> string \<Rightarrow> rand \<Rightarrow> hub \<Rightarrow> (err + topic) \<times> hub" where
  "ArchiveTopic d env os repoPath tid actorID expected reason0 rid =
     guarded_write d env
       (bindE (cleanText reason0 1000) (\<lambda>reason.
        bindE (resolve os repoPath) (\<lambda>ev.
          Inr (archiveTopic_body os ev tid actorID expected reason rid))))"

definition restoreTopic_body ::
  "os \<Rightarrow> repoEvidence \<Rightarrow> string \<Rightarrow> string \<Rightarrow> int \<Rightarrow> string \<Rightarrow> bool \<Rightarrow> gotime option \<Rightarrow> rand \<Rightarrow> hub \<Rightarrow> int \<Rightarrow> err + (topic \<times> hub)" where
  "restoreTopic_body os ev tid actorID expected reason changeExpiry expiresAt rid h now =
     bindE (boundScope os h ev) (\<lambda>scope.
     bindE (topicForWrite h scope tid actorID expected now False) (\<lambda>old.
     bindE (requireE (to_State old \<noteq> ''active'') ErrConflict) (\<lambda>_.
     bindE (if changeExpiry then expiryMillis expiresAt now
            else (case to_ExpiresAt old of
                None \<Rightarrow> Inr None
              | Some t \<Rightarrow> if unixMilli t \<le> now then Inl ErrExpired else Inr (Some (unixMilli t)))) (\<lambda>expiry.
     bindE (update_topic tid (\<lambda>r. r\<lparr>tp_expires_at := expiry, tp_archived_at := None, tp_archive_actor := None,
               tp_archive_reason := None, tp_generation := tp_generation r + 1\<rparr>) h) (\<lambda>h1.
     bindE (reloadTopic h1 tid now) (\<lambda>out.
     bindE (appendAudit tid actorID ''restore'' now (AuTopic old) (AuRestore out reason) rid h1) (\<lambda>h2.
       Inr (out, h2))))))))"

definition RestoreTopic ::
  "db \<Rightarrow> env \<Rightarrow> os \<Rightarrow> string \<Rightarrow> string \<Rightarrow> string \<Rightarrow> int \<Rightarrow> string \<Rightarrow> bool \<Rightarrow> gotime option \<Rightarrow> rand \<Rightarrow> hub \<Rightarrow> (err + topic) \<times> hub" where
  "RestoreTopic d env os repoPath tid actorID expected reason0 changeExpiry expiresAt rid =
     guarded_write d env
       (bindE (cleanText reason0 1000) (\<lambda>reason.
        bindE (resolve os repoPath) (\<lambda>ev.
          Inr (restoreTopic_body os ev tid actorID expected reason changeExpiry expiresAt rid))))"

definition change_role :: "string \<Rightarrow> string \<Rightarrow> bool \<Rightarrow> hub \<Rightarrow> err + hub" where
  "change_role tid actorID grant h =
     (let r = \<lparr>rl_topic = tid, rl_actor = actorID, rl_role = ''maintainer''\<rparr> in
      if grant then mapErr uniqueOrOriginal (insert_role r h)
      else if rows_affected (\<lambda>x. x = r) (roles h) = 0 then Inl ErrNotFound
      else Inr (h\<lparr>roles := delete_where (\<lambda>x. x = r) (roles h)\<rparr>))"

definition setMaintainer_body ::
  "os \<Rightarrow> repoEvidence \<Rightarrow> string \<Rightarrow> string \<Rightarrow> string \<Rightarrow> int \<Rightarrow> bool \<Rightarrow> rand \<Rightarrow> hub \<Rightarrow> int \<Rightarrow> err + (topic \<times> hub)" where
  "setMaintainer_body os ev tid ownerID actorID expected grant rid h now =
     bindE (boundScope os h ev) (\<lambda>scope.
     bindE (topicForWrite h scope tid ownerID expected now True) (\<lambda>old.
     bindE (requireE (to_State old = ''active'') ErrArchived) (\<lambda>_.
     bindE (requireE (actorID \<noteq> ownerID) ErrInvalidInput) (\<lambda>_.
     bindE (enrolled h actorID) (\<lambda>_.
     bindE (change_role tid actorID grant h) (\<lambda>h1.
     bindE (update_topic tid (\<lambda>r. r\<lparr>tp_generation := tp_generation r + 1\<rparr>) h1) (\<lambda>h2.
     bindE (reloadTopic h2 tid now) (\<lambda>out.
     bindE (appendAudit tid ownerID (if grant then ''grant_maintainer'' else ''revoke_maintainer'') now
              (AuActor actorID) (AuTopic out) rid h2) (\<lambda>h3.
       Inr (out, h3))))))))))"

definition SetMaintainer ::
  "db \<Rightarrow> env \<Rightarrow> os \<Rightarrow> string \<Rightarrow> string \<Rightarrow> string \<Rightarrow> string \<Rightarrow> int \<Rightarrow> bool \<Rightarrow> rand \<Rightarrow> hub \<Rightarrow> (err + topic) \<times> hub" where
  "SetMaintainer d env os repoPath tid ownerID actorID expected grant rid =
     guarded_write d env
       (bindE (resolve os repoPath) (\<lambda>ev.
          Inr (setMaintainer_body os ev tid ownerID actorID expected grant rid)))"

section \<open>Lemmas: searching\<close>

lemma backslash_neq [simp]: "backslash \<noteq> CHR ''%''" "backslash \<noteq> CHR ''_''"
  by (simp_all add: backslash_def)

lemma escape_like_Cons:
  "escape_like (c # q) =
     (if c = backslash \<or> c = CHR ''%'' \<or> c = CHR ''_'' then [backslash, c] else [c]) @ escape_like q"
  by (simp add: escape_like_def)

text \<open>An escaped prefix matches itself, letter case aside, and nothing else.\<close>

lemma like_escaped:
  "like (escape_like q @ p) s \<longleftrightarrow>
     length q \<le> length s \<and> map ascii_lower (take (length q) s) = map ascii_lower q \<and> like p (drop (length q) s)"
proof (induction q arbitrary: s)
  case Nil
  then show ?case by (simp add: escape_like_def)
next
  case (Cons c q)
  then show ?case by (cases s) (auto simp: escape_like_Cons Cons.IH)
qed

lemma like_all: "like ''%'' s"
  by (induction s) auto

lemma like_percent: "like (CHR ''%'' # p) s \<longleftrightarrow> (\<exists>a b. s = a @ b \<and> like p b)"
proof (induction s)
  case (Cons x s)
  have "like (CHR ''%'' # p) (x # s) \<longleftrightarrow> like p (x # s) \<or> like (CHR ''%'' # p) s" by simp
  also have "\<dots> \<longleftrightarrow> (\<exists>a b. x # s = a @ b \<and> like p b)"
    unfolding Cons.IH by (metis append_Cons append_Nil list.inject neq_Nil_conv)
  finally show ?case .
qed auto

definition contains_ci :: "string \<Rightarrow> string \<Rightarrow> bool" where
  "contains_ci m s \<longleftrightarrow> (\<exists>a b c. s = a @ b @ c \<and> map ascii_lower b = map ascii_lower m)"

lemma like_query: "like (CHR ''%'' # escape_like q @ ''%'') s \<longleftrightarrow> contains_ci q s"
proof
  assume "like (CHR ''%'' # escape_like q @ ''%'') s"
  then obtain a b where "s = a @ b" "like (escape_like q @ ''%'') b"
    by (auto simp: like_percent simp del: like.simps)
  then show "contains_ci q s"
    unfolding contains_ci_def
    by (intro exI[of _ a] exI[of _ "take (length q) b"] exI[of _ "drop (length q) b"]) (auto simp: like_escaped)
next
  assume "contains_ci q s"
  then obtain a m b where *: "s = a @ m @ b" "map ascii_lower m = map ascii_lower q"
    by (auto simp: contains_ci_def)
  then have "length m = length q" by (metis length_map)
  with * have "like (escape_like q @ ''%'') (m @ b)" by (simp add: like_escaped like_all del: like.simps)
  with * show "like (CHR ''%'' # escape_like q @ ''%'') s"
    by (auto simp: like_percent simp del: like.simps)
qed

lemma code_ascii_lower: "code (ascii_lower c) = (if 65 \<le> code c \<and> code c \<le> 90 then code c + 32 else code c)"
  by (auto simp: ascii_lower_def code_def)

lemma ascii_lower_idem [simp]: "ascii_lower (ascii_lower c) = ascii_lower c"
proof -
  have "code (ascii_lower (ascii_lower c)) = code (ascii_lower c)"
    by (simp add: code_ascii_lower)
  then show ?thesis by (simp add: code_def)
qed

lemma contains_ci_lower: "contains_ci m (map ascii_lower s) \<longleftrightarrow> contains_ci m s"
proof
  assume "contains_ci m (map ascii_lower s)"
  then obtain a b c where *: "map ascii_lower s = a @ b @ c" "map ascii_lower b = map ascii_lower m"
    by (auto simp: contains_ci_def)
  from *(1) obtain a' d where s: "s = a' @ d" and d: "b @ c = map ascii_lower d"
    by (metis map_eq_append_conv)
  from d[symmetric] obtain b' c' where d': "d = b' @ c'" and b': "b = map ascii_lower b'"
    by (metis map_eq_append_conv)
  have "map ascii_lower b' = map ascii_lower b" using b' by (auto simp: comp_def)
  with s d' *(2) show "contains_ci m s" unfolding contains_ci_def by metis
next
  assume "contains_ci m s"
  then obtain a b c where "s = a @ b @ c" "map ascii_lower b = map ascii_lower m"
    by (auto simp: contains_ci_def)
  then show "contains_ci m (map ascii_lower s)"
    unfolding contains_ci_def
    by (intro exI[of _ "map ascii_lower a"] exI[of _ "map ascii_lower b"] exI[of _ "map ascii_lower c"])
      (simp add: comp_def)
qed

section \<open>Lemmas: policy changes\<close>

lemma find_topic_SomeD:
  "find_topic h scope tid = Some r \<Longrightarrow> r \<in> set (topics h) \<and> tp_scope r = scope \<and> tp_id r = tid"
  by (auto simp: find_topic_def dest!: find_SomeD_conj)

lemma scanTopic_Inr:
  "scanTopic h now r = Inr t \<longleftrightarrow> (\<exists>kind. scope_kind_of h (tp_scope r) = Inr kind \<and> t = topic_of_row r kind now)"
  by (auto simp: scanTopic_def)

lemma topic_of_row_simps [simp]:
  "to_ID (topic_of_row r kind now) = tp_id r"
  "to_ScopeID (topic_of_row r kind now) = tp_scope r"
  "to_PolicyGeneration (topic_of_row r kind now) = tp_generation r"
  "to_OwnerActorID (topic_of_row r kind now) = tp_owner r"
  "to_Name (topic_of_row r kind now) = tp_name r"
  "to_Description (topic_of_row r kind now) = tp_description r"
  "to_ExpiresAt (topic_of_row r kind now) = map_option fromMillis (tp_expires_at r)"
  "to_ArchivedAt (topic_of_row r kind now) = map_option fromMillis (tp_archived_at r)"
  by (simp_all add: topic_of_row_def Let_def)

text \<open>A topic is active exactly when it is not archived and its deadline has not passed.\<close>

lemma topic_active_iff:
  "to_State (topic_of_row r kind now) = ''active'' \<longleftrightarrow>
     tp_archived_at r = None \<and> (case tp_expires_at r of None \<Rightarrow> True | Some e \<Rightarrow> now < e)"
  by (auto simp: topic_of_row_def expired_first_def Let_def split: option.splits)

lemma topicForWrite_Inr:
  "topicForWrite h scope tid actorID expected now ownerOnly = Inr t \<longleftrightarrow>
     (\<exists>r. find_topic h scope tid = Some r \<and> scanTopic h now r = Inr t \<and> 1 \<le> expected
        \<and> tp_generation r = expected \<and> actor_exists h actorID
        \<and> (tp_owner r = actorID \<or> \<not> ownerOnly \<and> is_maintainer h tid actorID))"
  by (auto simp: topicForWrite_def selectTopic_def scanTopic_Inr)

text \<open>
  The contract of a policy change: the caller is enrolled and authorised, knew the current
  generation, and the change bumps it, keeps the identity and the owner of the topic, appends
  one audit row and touches nothing but topics, roles and audits.
\<close>

definition policy_row :: "int \<Rightarrow> topic_row \<Rightarrow> topic_row \<Rightarrow> bool" where
  "policy_row expected r r' \<longleftrightarrow>
     tp_id r' = tp_id r \<and> tp_scope r' = tp_scope r \<and> tp_key r' = tp_key r \<and> tp_owner r' = tp_owner r
     \<and> tp_created_at r' = tp_created_at r \<and> tp_generation r' = tp_generation r + 1"

definition policy_change ::
  "string \<Rightarrow> string \<Rightarrow> string \<Rightarrow> int \<Rightarrow> bool \<Rightarrow> int \<Rightarrow> hub \<Rightarrow> hub \<Rightarrow> bool" where
  "policy_change scope tid actorID expected ownerOnly now h h' \<longleftrightarrow>
     actor_exists h actorID
     \<and> (\<exists>r f. find_topic h scope tid = Some r \<and> tp_generation r = expected
          \<and> (tp_owner r = actorID \<or> \<not> ownerOnly \<and> is_maintainer h tid actorID)
          \<and> (\<forall>x. policy_row expected x (f x))
          \<and> topics h' = update_where (\<lambda>x. tp_id x = tid) f (topics h))
     \<and> (\<exists>a. au_topic a = tid \<and> au_actor a = actorID \<and> au_at a = now \<and> audits h' = audits h @ [a])
     \<and> h' = h\<lparr>topics := topics h', roles := roles h', audits := audits h'\<rparr>"

lemma update_topic_Inr:
  "update_topic tid f h = Inr h' \<Longrightarrow> h' = h\<lparr>topics := update_where (\<lambda>r. tp_id r = tid) f (topics h)\<rparr>"
  by (simp add: update_topic_def Let_def)

lemma appendAudit_Inr:
  assumes "appendAudit tid actorID action at old new rid h = Inr h'"
  obtains a where "au_topic a = tid" "au_actor a = actorID" "au_at a = at" "h' = h\<lparr>audits := audits h @ [a]\<rparr>"
proof -
  from assms obtain i where "h' = h\<lparr>audits := audits h @
      [\<lparr>au_id = i, au_topic = tid, au_actor = actorID, au_action = action, au_at = at, au_old = old, au_new = new\<rparr>]\<rparr>"
    by (auto simp: appendAudit_def insert_audit_def)
  then show thesis by (intro that) simp_all
qed

lemma policy_changeI:
  assumes "topicForWrite h scope tid actorID expected now ownerOnly = Inr old"
    and "update_topic tid f h1 = Inr h2" and "h1 = h\<lparr>roles := rs\<rparr>"
    and "\<And>x. policy_row expected x (f x)"
    and "appendAudit tid actorID action now ov nv rid h2 = Inr h3"
  shows "policy_change scope tid actorID expected ownerOnly now h h3"
proof -
  from assms(5) obtain a where a: "au_topic a = tid" "au_actor a = actorID" "au_at a = now"
    "h3 = h2\<lparr>audits := audits h2 @ [a]\<rparr>" by (rule appendAudit_Inr)
  have h2: "h2 = h1\<lparr>topics := update_where (\<lambda>r. tp_id r = tid) f (topics h1)\<rparr>"
    using assms(2) by (rule update_topic_Inr)
  show ?thesis
    using assms(1,4) a by (auto simp: policy_change_def topicForWrite_Inr h2 assms(3))
qed

lemma policy_row_update:
  "policy_row e x (x\<lparr>tp_name := a, tp_description := b, tp_expires_at := c, tp_generation := tp_generation x + 1\<rparr>)"
  "policy_row e x (x\<lparr>tp_archived_at := d, tp_archive_actor := g, tp_archive_reason := i, tp_generation := tp_generation x + 1\<rparr>)"
  "policy_row e x (x\<lparr>tp_expires_at := c, tp_archived_at := d, tp_archive_actor := g, tp_archive_reason := i, tp_generation := tp_generation x + 1\<rparr>)"
  "policy_row e x (x\<lparr>tp_generation := tp_generation x + 1\<rparr>)"
  by (simp_all add: policy_row_def)

lemma change_role_Inr: "change_role tid actorID grant h = Inr h1 \<Longrightarrow> \<exists>rs. h1 = h\<lparr>roles := rs\<rparr>"
  by (auto simp: change_role_def insert_role_def Let_def split: if_splits)

lemma editTopic_body_policy:
  assumes "editTopic_body os ev tid actorID edit name description rid h now = Inr (out, h')"
  obtains scope where "boundScope os h ev = Inr scope"
    "policy_change scope tid actorID (te_ExpectedGeneration edit) False now h h'"
  using assms unfolding editTopic_body_def
  by (auto intro!: that policy_changeI[where rs = "roles h"] policy_row_update simp del: Product_Type.split_paired_Ex)

lemma archiveTopic_body_policy:
  assumes "archiveTopic_body os ev tid actorID expected reason rid h now = Inr (out, h')"
  obtains scope where "boundScope os h ev = Inr scope"
    "policy_change scope tid actorID expected False now h h'"
  using assms unfolding archiveTopic_body_def
  by (auto intro!: that policy_changeI[where rs = "roles h"] policy_row_update)

lemma restoreTopic_body_policy:
  assumes "restoreTopic_body os ev tid actorID expected reason ce ex rid h now = Inr (out, h')"
  obtains scope where "boundScope os h ev = Inr scope"
    "policy_change scope tid actorID expected False now h h'"
  using assms unfolding restoreTopic_body_def
  by (auto intro!: that policy_changeI[where rs = "roles h"] policy_row_update)

lemma setMaintainer_body_policy:
  assumes "setMaintainer_body os ev tid ownerID actorID expected grant rid h now = Inr (out, h')"
  obtains scope where "boundScope os h ev = Inr scope"
    "policy_change scope tid ownerID expected True now h h'"
proof -
  from assms obtain scope old h1 h2 where *: "boundScope os h ev = Inr scope"
    "topicForWrite h scope tid ownerID expected now True = Inr old"
    "change_role tid actorID grant h = Inr h1"
    "update_topic tid (\<lambda>r. r\<lparr>tp_generation := tp_generation r + 1\<rparr>) h1 = Inr h2"
    "appendAudit tid ownerID (if grant then ''grant_maintainer'' else ''revoke_maintainer'') now
              (AuActor actorID) (AuTopic out) rid h2 = Inr h'"
    unfolding setMaintainer_body_def by auto
  obtain rs where rs: "h1 = h\<lparr>roles := rs\<rparr>" using change_role_Inr[OF *(3)] by auto
  show thesis
    by (rule that[OF *(1)], rule policy_changeI[OF *(2,4) rs policy_row_update(4) *(5)])
qed

section \<open>The policy operations together\<close>

datatype policy_op =
    PolicyEdit topicEdit
  | PolicyArchive int string
  | PolicyRestore int string bool "gotime option"
  | PolicyGrant string int bool

fun run_policy ::
  "db \<Rightarrow> env \<Rightarrow> os \<Rightarrow> string \<Rightarrow> string \<Rightarrow> string \<Rightarrow> policy_op \<Rightarrow> rand \<Rightarrow> hub \<Rightarrow> (err + topic) \<times> hub" where
  "run_policy d env os path tid actorID (PolicyEdit e) rid = EditTopic d env os path tid actorID e rid"
| "run_policy d env os path tid actorID (PolicyArchive g reason) rid = ArchiveTopic d env os path tid actorID g reason rid"
| "run_policy d env os path tid actorID (PolicyRestore g reason c e) rid = RestoreTopic d env os path tid actorID g reason c e rid"
| "run_policy d env os path tid actorID (PolicyGrant target g grant) rid = SetMaintainer d env os path tid actorID target g grant rid"

fun expected_of :: "policy_op \<Rightarrow> int" where
  "expected_of (PolicyEdit e) = te_ExpectedGeneration e"
| "expected_of (PolicyArchive g reason) = g"
| "expected_of (PolicyRestore g reason c e) = g"
| "expected_of (PolicyGrant target g grant) = g"

fun owner_only :: "policy_op \<Rightarrow> bool" where
  "owner_only (PolicyGrant target g grant) = True"
| "owner_only _ = False"

lemma run_policy_change:
  assumes "run_policy d env os path tid actorID op rid h = (Inr out, h')"
  shows "\<exists>ev scope. resolve os path = Inr ev \<and> boundScope os h ev = Inr scope
    \<and> policy_change scope tid actorID (expected_of op) (owner_only op) (env_now env) h h'"
proof (cases op)
  case (PolicyEdit e)
  with assms show ?thesis
    by (auto simp: EditTopic_def guarded_write_Inr_iff write_Inr_iff elim!: editTopic_body_policy)
next
  case (PolicyArchive g reason)
  with assms show ?thesis
    by (auto simp: ArchiveTopic_def guarded_write_Inr_iff write_Inr_iff elim!: archiveTopic_body_policy)
next
  case (PolicyRestore g reason c e)
  with assms show ?thesis
    by (auto simp: RestoreTopic_def guarded_write_Inr_iff write_Inr_iff elim!: restoreTopic_body_policy)
next
  case (PolicyGrant target g grant)
  with assms show ?thesis
    by (auto simp: SetMaintainer_def guarded_write_Inr_iff write_Inr_iff elim!: setMaintainer_body_policy)
qed

lemma run_policy_Inl: "run_policy d env os path tid actorID op rid h = (Inl e, h') \<Longrightarrow> h' = h"
  by (cases op) (auto simp: EditTopic_def ArchiveTopic_def RestoreTopic_def SetMaintainer_def dest: guarded_write_Inl)

lemma policy_change_generation:
  assumes "policy_change scope tid actorID expected oo now h h'" and "distinct (map tp_id (topics h))"
    and "r \<in> set (topics h')" and "tp_id r = tid"
  shows "tp_generation r = expected + 1"
proof -
  from assms(1) obtain r0 f where r0: "find_topic h scope tid = Some r0" "tp_generation r0 = expected"
    and f: "\<forall>x. policy_row expected x (f x)"
    and t: "topics h' = update_where (\<lambda>x. tp_id x = tid) f (topics h)"
    by (auto simp: policy_change_def)
  from assms(3) t obtain x where x: "x \<in> set (topics h)" "r = (if tp_id x = tid then f x else x)"
    by (auto simp: set_update_where)
  then have id: "tp_id x = tid" using f assms(4) by (auto simp: policy_row_def split: if_splits)
  have "x = r0"
    using find_topic_SomeD[OF r0(1)] x(1) id assms(2) by (auto simp: distinct_map inj_on_def)
  then show ?thesis using f x(2) id r0(2) by (simp add: policy_row_def)
qed

definition passed_deadline :: "topic_row \<Rightarrow> int \<Rightarrow> int option" where
  "passed_deadline r now = (case tp_expires_at r of None \<Rightarrow> None | Some e \<Rightarrow> if e \<le> now then Some e else None)"

definition earlier :: "int option \<Rightarrow> int option \<Rightarrow> int option" where
  "earlier a b = (case a of None \<Rightarrow> b | Some x \<Rightarrow> (case b of None \<Rightarrow> Some x | Some y \<Rightarrow> Some (min x y)))"

section \<open>Archive and restore\<close>

lemma scanTopic_row: "scanTopic h now r = Inr t \<Longrightarrow> \<exists>kind. t = topic_of_row r kind now"
  by (auto simp: scanTopic_Inr)

definition archived_row :: "string \<Rightarrow> int \<Rightarrow> string \<Rightarrow> topic_row \<Rightarrow> topic_row" where
  "archived_row actorID now reason r = r\<lparr>tp_archived_at := Some now, tp_archive_actor := Some actorID,
     tp_archive_reason := Some reason, tp_generation := tp_generation r + 1\<rparr>"

lemma archiveTopic_body_Inr:
  assumes "archiveTopic_body os ev tid actorID expected reason rid h now = Inr (out, h')"
  obtains scope r kind a where "boundScope os h ev = Inr scope" "find_topic h scope tid = Some r"
    "scope_kind_of h scope = Inr kind" "tp_archived_at r = None" "tp_generation r = expected" "1 \<le> expected"
    "actor_exists h actorID" "tp_owner r = actorID \<or> is_maintainer h tid actorID"
    "h' = h\<lparr>topics := update_where (\<lambda>x. tp_id x = tid) (archived_row actorID now reason) (topics h),
            audits := audits h @ [a]\<rparr>"
proof -
  from assms obtain scope old h1 where s: "boundScope os h ev = Inr scope"
    and w: "topicForWrite h scope tid actorID expected now False = Inr old" and na: "to_ArchivedAt old = None"
    and u: "update_topic tid (archived_row actorID now reason) h = Inr h1"
    and a: "appendAudit tid actorID ''archive'' now (AuTopic old) (AuTopic out) rid h1 = Inr h'"
    by (auto simp: archiveTopic_body_def archived_row_def[abs_def])
  from w obtain r where r: "find_topic h scope tid = Some r" "scanTopic h now r = Inr old" "1 \<le> expected"
    "tp_generation r = expected" "actor_exists h actorID" "tp_owner r = actorID \<or> is_maintainer h tid actorID"
    by (auto simp: topicForWrite_Inr)
  from r(2) obtain kind where k: "scope_kind_of h (tp_scope r) = Inr kind" "old = topic_of_row r kind now"
    by (auto simp: scanTopic_Inr)
  from a obtain row where "h' = h1\<lparr>audits := audits h1 @ [row]\<rparr>" by (rule appendAudit_Inr)
  with update_topic_Inr[OF u] have "h' = h\<lparr>topics := update_where (\<lambda>x. tp_id x = tid) (archived_row actorID now reason) (topics h),
      audits := audits h @ [row]\<rparr>" by simp
  then show thesis
    using find_topic_SomeD[OF r(1)] k na by (intro that[OF s r(1) _ _ r(4,3,5,6)]) auto
qed

text \<open>Bindings and global scope are read from tables no policy change touches.\<close>

lemma boundScope_cong:
  "scopes h' = scopes h \<Longrightarrow> bindings h' = bindings h \<Longrightarrow> boundScope os h' ev = boundScope os h ev"
  by (simp add: boundScope_def global_scope_def binding_of_def)

text \<open>The archived row of a topic without a deadline can be restored at any time.\<close>

lemma restoreTopic_body_succeeds:
  assumes "boundScope os h ev = Inr scope" and "find_topic h scope tid = Some r"
    and "List.find (\<lambda>t. tp_id t = tid) (topics h) = Some r"
    and "tp_archived_at r \<noteq> None" and "tp_expires_at r = None" and "tp_generation r = expected" and "1 \<le> expected"
    and "actor_exists h actorID" and "tp_owner r = actorID \<or> is_maintainer h tid actorID"
    and "\<forall>t \<in> set (topics h). 0 < tp_generation t" and "scope_kind_of h scope = Inr kind"
    and "randomID rid = Inr i" and "i \<notin> au_id ` set (audits h)"
  shows "\<exists>out h'. restoreTopic_body os ev tid actorID expected reason False e rid h now = Inr (out, h')
     \<and> to_State out = ''active'' \<and> to_PolicyGeneration out = expected + 1
     \<and> topics h' = update_where (\<lambda>x. tp_id x = tid) (\<lambda>r. r\<lparr>tp_expires_at := None, tp_archived_at := None,
         tp_archive_actor := None, tp_archive_reason := None, tp_generation := tp_generation r + 1\<rparr>) (topics h)"
proof -
  let ?f = "\<lambda>r. r\<lparr>tp_expires_at := None, tp_archived_at := None, tp_archive_actor := None,
              tp_archive_reason := None, tp_generation := tp_generation r + 1\<rparr>"
  let ?h1 = "h\<lparr>topics := update_where (\<lambda>x. tp_id x = tid) ?f (topics h)\<rparr>"
  have r: "r \<in> set (topics h)" "tp_scope r = scope" "tp_id r = tid" using find_topic_SomeD[OF assms(2)] by auto
  have w: "topicForWrite h scope tid actorID expected now False = Inr (topic_of_row r kind now)"
    using assms r by (auto simp: topicForWrite_Inr scanTopic_Inr)
  have s: "to_State (topic_of_row r kind now) \<noteq> ''active''" using assms(4) by (simp add: topic_active_iff)
  have u: "update_topic tid ?f h = Inr ?h1"
    using assms(10) by (auto simp: update_topic_def Let_def archive_columns_ok_def)
  have "List.find (\<lambda>t. tp_id t = tid) (topics ?h1) = Some (?f r)"
    using assms(3) r by (simp add: find_update_where)
  moreover have "scope_kind_of ?h1 scope = Inr kind" using assms(11) by (simp add: scope_kind_of_def)
  ultimately have l: "reloadTopic ?h1 tid now = Inr (topic_of_row (?f r) kind now)"
    using r by (simp add: reloadTopic_def scanTopic_def)
  have te: "topic_exists ?h1 tid" using r by (auto simp: topic_exists_def key_image_update)
  have a: "\<exists>h3. appendAudit tid actorID ''restore'' now (AuTopic (topic_of_row r kind now))
      (AuRestore (topic_of_row (?f r) kind now) reason) rid ?h1 = Inr h3 \<and> topics h3 = topics ?h1"
    using te assms(8,12,13) by (simp add: appendAudit_def insert_audit_def actor_exists_def)
  show ?thesis
    using a assms(4) by (auto simp: restoreTopic_body_def assms(1,5) w s u l assms(6) topic_active_iff)
qed

lemma update_where_twice:
  assumes "\<And>r. r \<in> set rows \<Longrightarrow> P r \<Longrightarrow> P (f r)" and "\<And>r. r \<in> set rows \<Longrightarrow> P r \<Longrightarrow> g (f r) = k r"
  shows "update_where P g (update_where P f rows) = update_where P k rows"
  using assms by (auto simp: update_where_def)

section \<open>Properties\<close>

text \<open>
  The pattern that \<open>ListTopics\<close> builds from a query, with its wildcards escaped,
  matches a topic exactly when the lower-cased query occurs literally in its key, its name or
  its description, the case of ASCII letters aside: no character of the query is a wildcard.
\<close>

theorem search_is_containment:
  "topic_matches (query_pattern golower q) t \<longleftrightarrow>
     contains_ci (golower q) (tp_key t) \<or> contains_ci (golower q) (tp_name t)
     \<or> contains_ci (golower q) (tp_description t)"
  by (simp add: topic_matches_def query_pattern_def like_query contains_ci_lower del: like.simps)

text \<open>
  The effective archive of a topic: the moment is the earlier of the manual archive and
  the deadline that has passed, the reason names which of the two it was (the deadline wins a
  tie), and a topic with neither is active.
\<close>

theorem effective_archive:
  "to_EffectiveArchivedAt (topic_of_row r kind now)
     = map_option fromMillis (earlier (passed_deadline r now) (tp_archived_at r))
   \<and> to_State (topic_of_row r kind now)
     = (if earlier (passed_deadline r now) (tp_archived_at r) = None then ''active'' else ''archived'')
   \<and> to_EffectiveReason (topic_of_row r kind now)
     = (case earlier (passed_deadline r now) (tp_archived_at r) of
          None \<Rightarrow> ''''
        | Some t \<Rightarrow> if passed_deadline r now = Some t then ''expired'' else ''manual'')"
  by (auto simp: topic_of_row_def expired_first_def passed_deadline_def earlier_def Let_def min_def
      split: option.splits)

definition demo_archive :: "(err + topic) \<times> hub" where
  "demo_archive = run_policy demo_db (demo_env 1000) demo_os ''global:'' ''t'' ''alice''
     (PolicyArchive 1 ''stale'') (demo_bytes 1) demo_topic_hub"

lemma demo_archive_ok:
  "run_policy demo_db (demo_env 1000) demo_os ''global:'' ''t'' ''alice'' (PolicyArchive 1 ''stale'') (demo_bytes 1)
     demo_topic_hub = (Inr (projr (fst demo_archive)), snd demo_archive)"
proof -
  have "\<not> isl (fst demo_archive)" by code_simp
  from run_okD[OF this] show ?thesis by (simp add: demo_archive_def)
qed

text \<open>
  C20: Editing, archiving, restoring and changing the maintainers of a topic obey the one
  contract of a policy change: the caller is enrolled and is the owner (or, where delegation
  is allowed, a maintainer), named the current policy generation, and on success the
  generation is one higher, the topic keeps its identity and owner, exactly one audit row is
  appended, and no table other than topics, roles and audits changes.
\<close>

theorem policy_contract:
  assumes "run_policy d env os path tid actorID op rid h = (Inr out, h')"
  shows "\<exists>ev scope. resolve os path = Inr ev \<and> boundScope os h ev = Inr scope
    \<and> policy_change scope tid actorID (expected_of op) (owner_only op) (env_now env) h h'"
  using assms by (rule run_policy_change)

theorem policy_contract_witness:
  "\<exists>ev scope. resolve demo_os ''global:'' = Inr ev \<and> boundScope demo_os demo_topic_hub ev = Inr scope
     \<and> policy_change scope ''t'' ''alice'' 1 False 1000 demo_topic_hub (snd demo_archive)"
  using policy_contract[OF demo_archive_ok] by (simp add: env_now_def demo_env_def)

text \<open>
  Compare-and-swap on the policy generation: once one policy change has succeeded with an
  expected generation, no change of any kind, by any actor through any repository, succeeds
  on the new state with the same expected generation; it fails and changes nothing.
\<close>

theorem policy_one_winner:
  assumes "run_policy d env os path tid actorID op rid h = (Inr out, h1)"
    and "distinct (map tp_id (topics h))"
    and "expected_of op' = expected_of op"
  shows "\<exists>e. run_policy d' env' os' path' tid actorID' op' rid' h1 = (Inl e, h1)"
proof (cases "run_policy d' env' os' path' tid actorID' op' rid' h1")
  case (Pair r h2)
  show ?thesis
  proof (cases r)
    case (Inl e)
    with Pair run_policy_Inl show ?thesis by fastforce
  next
    case (Inr t)
    obtain scope where p: "policy_change scope tid actorID (expected_of op) (owner_only op) (env_now env) h h1"
      using run_policy_change[OF assms(1)] by auto
    obtain scope' r where r: "find_topic h1 scope' tid = Some r" "tp_generation r = expected_of op"
      using run_policy_change[OF Pair[unfolded Inr]] assms(3) by (auto simp: policy_change_def)
    from policy_change_generation[OF p assms(2)] find_topic_SomeD[OF r(1)] r(2) show ?thesis by auto
  qed
qed

theorem policy_one_winner_witness:
  "\<exists>e. run_policy demo_db (demo_env 2000) demo_os ''global:'' ''t'' ''alice'' (PolicyGrant ''bob'' 1 True) (demo_bytes 2)
        (snd demo_archive) = (Inl e, snd demo_archive)"
  by (rule policy_one_winner[OF demo_archive_ok]) (simp_all add: demo_topic_hub_def)

text \<open>
  Archiving is reversible: after a topic without a deadline has been archived, its
  archiver restores it with the next generation, whatever the clock then says; the topic is active again and,
  but for the generation (two higher than before), its row is what it was.
\<close>

theorem restore_undoes_archive:
  assumes "ArchiveTopic d env os path tid actorID g reason rid h = (Inr out, h1)"
    and "unique_keys h" and "\<forall>t \<in> set (topics h). 0 < tp_generation t \<and> archive_columns_ok t"
    and "\<forall>t \<in> set (topics h). tp_id t = tid \<longrightarrow> tp_expires_at t = None"
    and "admit d env' h1 = Inr ()" and "commit_fault env' = None"
    and "cleanText reason' 1000 = Inr clean" and "randomID rid' = Inr i" and "i \<notin> au_id ` set (audits h1)"
  shows "\<exists>out2 h2. RestoreTopic d env' os path tid actorID (g + 1) reason' False None rid' h1 = (Inr out2, h2)
    \<and> to_State out2 = ''active''
    \<and> topics h2 = update_where (\<lambda>x. tp_id x = tid) (\<lambda>r. r\<lparr>tp_generation := tp_generation r + 2\<rparr>) (topics h)"
proof -
  from assms(1) obtain reason1 ev where pre: "\<not> readOnly d" "resolve os path = Inr ev"
    and body: "archiveTopic_body os ev tid actorID g reason1 rid h (env_now env) = Inr (out, h1)"
    by (auto simp: ArchiveTopic_def guarded_write_Inr_iff write_Inr_iff)
  let ?fa = "archived_row actorID (env_now env) reason1"
  from body obtain scope r kind a where A: "boundScope os h ev = Inr scope" "find_topic h scope tid = Some r"
    "scope_kind_of h scope = Inr kind" "tp_archived_at r = None" "tp_generation r = g" "1 \<le> g"
    "actor_exists h actorID" "tp_owner r = actorID \<or> is_maintainer h tid actorID"
    and h1: "h1 = h\<lparr>topics := update_where (\<lambda>x. tp_id x = tid) ?fa (topics h), audits := audits h @ [a]\<rparr>"
    by (rule archiveTopic_body_Inr)
  have r: "r \<in> set (topics h)" "tp_scope r = scope" "tp_id r = tid" using find_topic_SomeD[OF A(2)] by auto
  have ids: "distinct (map tp_id (topics h))" using assms(2) by (simp add: unique_keys_def keys_topics_def)
  have only: "x = r" if "x \<in> set (topics h)" "tp_id x = tid" for x
    using that r ids by (auto simp: distinct_map inj_on_def)
  have f1: "find_topic h1 scope tid = Some (?fa r)"
    using A(2) r by (simp add: h1 find_topic_def find_update_where archived_row_def)
  have f2: "List.find (\<lambda>t. tp_id t = tid) (topics h1) = Some (?fa r)"
    using find_map_keys[OF ids r(1)] r by (simp add: h1 find_update_where archived_row_def)
  have e: "tp_expires_at (?fa r) = None" using assms(4) r by (simp add: archived_row_def)
  have "\<exists>out2 h2. restoreTopic_body os ev tid actorID (g + 1) clean False None rid' h1 (env_now env') = Inr (out2, h2)
     \<and> to_State out2 = ''active'' \<and> to_PolicyGeneration out2 = g + 1 + 1
     \<and> topics h2 = update_where (\<lambda>x. tp_id x = tid) (\<lambda>r. r\<lparr>tp_expires_at := None, tp_archived_at := None,
         tp_archive_actor := None, tp_archive_reason := None, tp_generation := tp_generation r + 1\<rparr>) (topics h1)"
  proof (rule restoreTopic_body_succeeds[OF _ f1 f2])
    show "boundScope os h1 ev = Inr scope" using A(1) boundScope_cong[of h1 h] by (simp add: h1)
    show "scope_kind_of h1 scope = Inr kind" using A(3) by (simp add: h1 scope_kind_of_def)
    show "\<forall>t \<in> set (topics h1). 0 < tp_generation t"
      using assms(3) by (auto simp: h1 set_update_where archived_row_def)
  qed (use A assms e in \<open>auto simp: h1 actor_exists_def is_maintainer_def archived_row_def\<close>)
  moreover have "update_where (\<lambda>x. tp_id x = tid) (\<lambda>r. r\<lparr>tp_expires_at := None, tp_archived_at := None,
         tp_archive_actor := None, tp_archive_reason := None, tp_generation := tp_generation r + 1\<rparr>) (topics h1)
     = update_where (\<lambda>x. tp_id x = tid) (\<lambda>r. r\<lparr>tp_generation := tp_generation r + 2\<rparr>) (topics h)"
  proof -
    have "archive_columns_ok r" using assms(3) r by auto
    then have "tp_archive_actor r = None" "tp_archive_reason r = None" "tp_archived_at r = None" "tp_expires_at r = None"
      using A(4) assms(4) r by (auto simp: archive_columns_ok_def)
    then have row: "(?fa r)\<lparr>tp_expires_at := None, tp_archived_at := None, tp_archive_actor := None,
        tp_archive_reason := None, tp_generation := tp_generation (?fa r) + 1\<rparr> = r\<lparr>tp_generation := tp_generation r + 2\<rparr>"
      by (cases r) (simp add: archived_row_def)
    have topics1: "topics h1 = update_where (\<lambda>x. tp_id x = tid) ?fa (topics h)" by (simp add: h1)
    show ?thesis
      unfolding topics1 using row by (intro update_where_twice) (auto simp: archived_row_def dest!: only)
  qed
  ultimately show ?thesis
    using pre assms(5,6,7) by (auto simp: RestoreTopic_def guarded_write_Inr_iff write_Inr_iff)
qed
theorem restore_undoes_archive_witness:
  "\<exists>out2 h2. RestoreTopic demo_db (demo_env 2000) demo_os ''global:'' ''t'' ''alice'' 2 ''back'' False None (demo_bytes 2)
        (snd demo_archive) = (Inr out2, h2)
    \<and> to_State out2 = ''active''
    \<and> topics h2 = update_where (\<lambda>x. tp_id x = ''t'') (\<lambda>r. r\<lparr>tp_generation := tp_generation r + 2\<rparr>) (topics demo_topic_hub)"
proof -
  have run: "ArchiveTopic demo_db (demo_env 1000) demo_os ''global:'' ''t'' ''alice'' 1 ''stale'' (demo_bytes 1)
      demo_topic_hub = (Inr (projr (fst demo_archive)), snd demo_archive)"
    using demo_archive_ok by simp
  have keys: "unique_keys demo_topic_hub" by code_simp
  have rows: "\<forall>t \<in> set (topics demo_topic_hub). 0 < tp_generation t \<and> archive_columns_ok t" by code_simp
  have ad: "admit demo_db (demo_env 2000) (snd demo_archive) = Inr ()" by code_simp
  have clean: "cleanText ''back'' 1000 = Inr ''back''" by code_simp
  have i: "randomID (demo_bytes 2) = Inr (concat (replicate 16 ''02''))" by code_simp
  have fresh: "concat (replicate 16 ''02'') \<notin> au_id ` set (audits (snd demo_archive))" by code_simp
  show ?thesis
    using restore_undoes_archive[OF run keys rows _ ad _ clean i fresh]
    by (simp add: demo_topic_hub_def demo_topic_def demo_env_def)
qed

end
