(* ===== verification/Messages.thy ===== *)
theory Messages
  imports Topics "HOL-Library.Multiset"
begin

text \<open>
  \<open>internal/hubstore/message.go\<close> and \<open>vote.go\<close>: the append-only publication stream of a scope,
  messages with revisions, pins and votes, idempotent retries, and the scan of a sequence
  range. \<open>sha\<close> is SHA-256 in hex and \<open>enc\<close> the JSON encoding of the fingerprinted intent;
  both are parameters.
\<close>

section \<open>Values\<close>

record publication =
  pu_EntryID :: string
  pu_ScopeID :: string
  pu_TopicID :: string
  pu_ActorID :: string
  pu_Kind :: string
  pu_Sequence :: int
  pu_CommittedAt :: gotime
  pu_OccurredAt :: "gotime option"
  pu_ExpiresAt :: "gotime option"
  pu_SourceRefs :: "source_ref list"
  pu_CorrelationRefs :: "string list"
  pu_IdempotencyKey :: string
  pu_Replayed :: bool

record message =
  me_Publication :: publication
  me_MessageID :: string
  me_Revision :: int
  me_Text :: string
  me_Pinned :: bool
  me_Upvotes :: int
  me_Downvotes :: int
  me_Score :: int

record messageInput =
  mi_AuthorityID :: string
  mi_Text :: string
  mi_ExpiresAt :: "gotime option"
  mi_OccurredAt :: "gotime option"
  mi_SourceRefs :: "source_ref list"
  mi_CorrelationRefs :: "string list"
  mi_IdempotencyKey :: string

record messageRevisionInput =
  mr_Input :: messageInput
  mr_ExpectedRevision :: int
  mr_ChangeExpiry :: bool

record messageList =
  ml_Limit :: int
  ml_Offset :: int
  ml_Ranked :: bool

section \<open>Validation, normalisation, fingerprint\<close>

definition valid_idempotency_key :: "string \<Rightarrow> bool" where
  "valid_idempotency_key k \<longleftrightarrow> \<not> (length k > 128 \<or> \<not> valid_utf8 k \<or> TrimSpace k \<noteq> k)"

definition validateMessageInput :: "messageInput \<Rightarrow> err + unit" where
  "validateMessageInput inp =
     bindE (requireE (validMessageText (mi_Text inp) \<and> valid_idempotency_key (mi_IdempotencyKey inp)) ErrInvalidInput) (\<lambda>_.
     bindE (requireE (valid_time_option (mi_OccurredAt inp)) ErrInvalidInput) (\<lambda>_.
     bindE (requireE (valid_time_option (mi_ExpiresAt inp)) ErrInvalidInput) (\<lambda>_.
       validateRefs (mi_SourceRefs inp) (mi_CorrelationRefs inp))))"

text \<open>A nil slice is the empty list already; the times are truncated to milliseconds.\<close>

definition normalizeMessageInput :: "messageInput \<Rightarrow> messageInput" where
  "normalizeMessageInput inp =
     inp\<lparr>mi_ExpiresAt := truncate_time (mi_ExpiresAt inp), mi_OccurredAt := truncate_time (mi_OccurredAt inp)\<rparr>"

record messageIntent =
  in_MessageID :: string
  in_ExpectedRevision :: int
  in_ChangeExpiry :: bool
  in_Text :: string
  in_ExpiresAt :: "gotime option"
  in_OccurredAt :: "gotime option"
  in_SourceRefs :: "source_ref list"
  in_CorrelationRefs :: "string list"

definition fingerprint ::
  "(string \<Rightarrow> string) \<Rightarrow> (messageIntent \<Rightarrow> string) \<Rightarrow> messageInput \<Rightarrow> string \<Rightarrow> int \<Rightarrow> bool \<Rightarrow> string" where
  "fingerprint sha enc inp messageID expectedRevision changeExpiry =
     sha (enc \<lparr>in_MessageID = messageID, in_ExpectedRevision = expectedRevision, in_ChangeExpiry = changeExpiry,
               in_Text = mi_Text inp, in_ExpiresAt = mi_ExpiresAt inp, in_OccurredAt = mi_OccurredAt inp,
               in_SourceRefs = mi_SourceRefs inp, in_CorrelationRefs = mi_CorrelationRefs inp\<rparr>)"

definition expectedAuthority :: "db \<Rightarrow> string \<Rightarrow> err + unit" where
  "expectedAuthority d aid =
     (if aid = '''' then Inl ErrInvalidInput else if aid \<noteq> authorityID d then Inl ErrReplayGap else Inr ())"

section \<open>Reading rows\<close>

definition find_publication :: "hub \<Rightarrow> string \<Rightarrow> publication_row option" where
  "find_publication h e = List.find (\<lambda>p. pb_entry p = e) (publications h)"

definition find_revision :: "hub \<Rightarrow> string \<Rightarrow> revision_row option" where
  "find_revision h e = List.find (\<lambda>r. rv_entry r = e) (revisions h)"

definition find_head :: "hub \<Rightarrow> string \<Rightarrow> head_row option" where
  "find_head h m = List.find (\<lambda>r. hd_message r = m) (heads h)"

definition scanPublication :: "publication_row \<Rightarrow> err + publication" where
  "scanPublication p =
     bindE (unmarshal (pb_source_refs p)) (\<lambda>sources.
     bindE (unmarshal (pb_correlation_refs p)) (\<lambda>correlations.
       Inr \<lparr>pu_EntryID = pb_entry p, pu_ScopeID = pb_scope p, pu_TopicID = pb_topic p, pu_ActorID = pb_actor p,
            pu_Kind = pb_kind p, pu_Sequence = pb_sequence p, pu_CommittedAt = fromMillis (pb_committed_at p),
            pu_OccurredAt = map_option fromMillis (pb_occurred_at p),
            pu_ExpiresAt = map_option fromMillis (pb_expires_at p),
            pu_SourceRefs = sources, pu_CorrelationRefs = correlations,
            pu_IdempotencyKey = string_of_null (pb_key p), pu_Replayed = False\<rparr>))"

definition vote_count :: "hub \<Rightarrow> string \<Rightarrow> int \<Rightarrow> int \<Rightarrow> int" where
  "vote_count h m n value =
     int (length (filter (\<lambda>v. vt_message v = m \<and> vt_revision v = n \<and> vt_value v = value) (votes h)))"

definition message_score :: "hub \<Rightarrow> string \<Rightarrow> int \<Rightarrow> int" where
  "message_score h m n =
     sum_list (map vt_value (filter (\<lambda>v. vt_message v = m \<and> vt_revision v = n) (votes h)))"

definition scanMessage :: "hub \<Rightarrow> publication_row \<Rightarrow> revision_row \<Rightarrow> head_row \<Rightarrow> err + message" where
  "scanMessage h p r m =
     bindE (scanPublication p) (\<lambda>pub.
     let up = vote_count h (rv_message r) (rv_revision r) 1;
         down = vote_count h (rv_message r) (rv_revision r) (- 1)
     in Inr \<lparr>me_Publication = pub, me_MessageID = rv_message r, me_Revision = rv_revision r, me_Text = rv_text r,
             me_Pinned = (hd_pinned m \<and> hd_entry m = pb_entry p),
             me_Upvotes = up, me_Downvotes = down, me_Score = up - down\<rparr>)"

text \<open>
  \<open>FROM publications p JOIN message_revisions r ON r.entry_id=p.entry_id JOIN message_heads h
  ON h.message_id=r.message_id WHERE p.entry_id=?\<close>; no row is \<open>missing\<close>.
\<close>

definition messageByEntry :: "err \<Rightarrow> hub \<Rightarrow> string \<Rightarrow> err + message" where
  "messageByEntry missing h e =
     bindE (optionE missing (find_publication h e)) (\<lambda>p.
     bindE (optionE missing (find_revision h e)) (\<lambda>r.
     bindE (optionE missing (find_head h (rv_message r))) (\<lambda>m.
       scanMessage h p r m)))"

section \<open>Appending\<close>

definition verifySourceRefs :: "hub \<Rightarrow> source_ref list \<Rightarrow> err + unit" where
  "verifySourceRefs h sources =
     forE (\<lambda>ref. if sr_Kind ref \<noteq> ''hub_entry'' then Inr ()
                 else requireE ((sr_ScopeID ref, sr_Reference ref)
                        \<in> (\<lambda>p. (pb_scope p, pb_entry p)) ` set (publications h)) ErrNotFound) sources"

definition prunedKey :: "hub \<Rightarrow> string \<Rightarrow> string \<Rightarrow> string \<Rightarrow> string \<Rightarrow> bool" where
  "prunedKey h scope topic actor key \<longleftrightarrow>
     key \<noteq> '''' \<and> (\<exists>r \<in> set (pruned_idems h).
        pi_scope r = scope \<and> pi_topic r = topic \<and> pi_actor r = actor \<and> pi_key r = key)"

definition find_idem :: "hub \<Rightarrow> string \<Rightarrow> string \<Rightarrow> string \<Rightarrow> string \<Rightarrow> idem_row option" where
  "find_idem h scope topic actor key = List.find (\<lambda>r. idem_key r = (scope, topic, actor, key)) (idems h)"

text \<open>\<open>None\<close>: not a replay, go on.\<close>

definition replayMessage ::
  "hub \<Rightarrow> string \<Rightarrow> string \<Rightarrow> string \<Rightarrow> string \<Rightarrow> string \<Rightarrow> err + message option" where
  "replayMessage h scope topic actor key fp =
     (if key = '''' then Inr None
      else (case find_idem h scope topic actor key of
          None \<Rightarrow> if prunedKey h scope topic actor key then Inl ErrReplayGap else Inr None
        | Some r \<Rightarrow>
            if ik_fingerprint r \<noteq> fp then Inl ErrIdempotencyConflict
            else bindE (messageByEntry ErrScan h (ik_entry r)) (\<lambda>m.
                   Inr (Some (m\<lparr>me_Publication := (me_Publication m)\<lparr>pu_Replayed := True\<rparr>\<rparr>)))))"

definition find_counter :: "hub \<Rightarrow> string \<Rightarrow> counter_row option" where
  "find_counter h scope = List.find (\<lambda>c. ct_scope c = scope) (counters h)"

text \<open>The next sequence of a scope, 1 where it has no counter row yet.\<close>

definition next_of :: "hub \<Rightarrow> string \<Rightarrow> int" where
  "next_of h scope = (case find_counter h scope of None \<Rightarrow> 1 | Some c \<Rightarrow> ct_next c)"

definition nextSequence :: "string \<Rightarrow> hub \<Rightarrow> err + (int \<times> hub)" where
  "nextSequence scope h =
     bindE (insert_counter_ignore scope h) (\<lambda>h1.
     bindE (optionE ErrScan (find_counter h1 scope)) (\<lambda>c.
     bindE (update_counter scope (ct_next c + 1) h1) (\<lambda>h2.
       Inr (ct_next c, h2))))"

definition null_key :: "string \<Rightarrow> string option" where
  "null_key k = (if k \<noteq> '''' then Some k else None)"

definition insert_key :: "string \<Rightarrow> string \<Rightarrow> string \<Rightarrow> string \<Rightarrow> string \<Rightarrow> string \<Rightarrow> hub \<Rightarrow> err + hub" where
  "insert_key scope tid actorID key fp entry h =
     (if key \<noteq> '''' then mapErr uniqueOrOriginal (insert_idem
         \<lparr>ik_scope = scope, ik_topic = tid, ik_actor = actorID, ik_key = key, ik_fingerprint = fp, ik_entry = entry\<rparr> h)
      else Inr h)"

definition appendMessage ::
  "int \<Rightarrow> string \<Rightarrow> string \<Rightarrow> string \<Rightarrow> string \<Rightarrow> int \<Rightarrow> messageInput \<Rightarrow> int option \<Rightarrow> string \<Rightarrow> rand \<Rightarrow> hub \<Rightarrow> err + (message \<times> hub)" where
  "appendMessage now scope tid actorID messageID revision inp expiry fp rid h =
     bindE (verifySourceRefs h (mi_SourceRefs inp)) (\<lambda>_.
     bindE (nextSequence scope h) (\<lambda>(sequence, h1).
     bindE (randomID rid) (\<lambda>entryID.
     bindE (insert_publication \<lparr>pb_entry = entryID, pb_scope = scope, pb_topic = tid, pb_actor = actorID,
              pb_kind = ''message'', pb_sequence = sequence, pb_committed_at = now,
              pb_occurred_at = map_option unixMilli (mi_OccurredAt inp), pb_expires_at = expiry,
              pb_source_refs = JText (mi_SourceRefs inp), pb_correlation_refs = JText (mi_CorrelationRefs inp),
              pb_key = null_key (mi_IdempotencyKey inp)\<rparr> h1) (\<lambda>h2.
     bindE (if revision = 1 then insert_head \<lparr>hd_message = messageID, hd_scope = scope, hd_topic = tid,
              hd_author = actorID, hd_revision = revision, hd_entry = entryID, hd_pinned = False\<rparr> h2
            else Inr h2) (\<lambda>h3.
     bindE (insert_revision \<lparr>rv_message = messageID, rv_scope = scope, rv_topic = tid, rv_revision = revision,
              rv_entry = entryID, rv_text = mi_Text inp, rv_expires_at = expiry\<rparr> h3) (\<lambda>h4.
     bindE (if revision > 1 then update_head_revision messageID revision entryID h4 else Inr h4) (\<lambda>h5.
     bindE (insert_key scope tid actorID (mi_IdempotencyKey inp) fp entryID h5) (\<lambda>h6.
     bindE (messageByEntry ErrScan h6 entryID) (\<lambda>m.
       Inr (m, h6))))))))))"

definition postMessage_body ::
  "os \<Rightarrow> repoEvidence \<Rightarrow> string \<Rightarrow> string \<Rightarrow> messageInput \<Rightarrow> string \<Rightarrow> rand \<Rightarrow> rand \<Rightarrow> hub \<Rightarrow> int \<Rightarrow> err + (message \<times> hub)" where
  "postMessage_body os ev tid actorID inp fp r1 r2 h now =
     bindE (boundScope os h ev) (\<lambda>scope.
     bindE (enrolled h actorID) (\<lambda>_.
     bindE (replayMessage h scope tid actorID (mi_IdempotencyKey inp) fp) (\<lambda>replay.
     (case replay of Some m \<Rightarrow> Inr (m, h) | None \<Rightarrow>
     bindE (selectTopic h scope tid now) (\<lambda>topic.
     bindE (requireE (to_State topic = ''active'') ErrArchived) (\<lambda>_.
     bindE (expiryMillis (mi_ExpiresAt inp) now) (\<lambda>expiry.
     bindE (randomID r1) (\<lambda>messageID.
       appendMessage now scope tid actorID messageID 1 inp expiry fp r2 h))))))))"

definition PostMessage ::
  "(string \<Rightarrow> string) \<Rightarrow> (messageIntent \<Rightarrow> string) \<Rightarrow> db \<Rightarrow> env \<Rightarrow> os \<Rightarrow> string \<Rightarrow> string \<Rightarrow> string \<Rightarrow> messageInput
     \<Rightarrow> rand \<Rightarrow> rand \<Rightarrow> hub \<Rightarrow> (err + message) \<times> hub" where
  "PostMessage sha enc d env os repoPath tid actorID inp0 r1 r2 =
     guarded_write d env
       (bindE (expectedAuthority d (mi_AuthorityID inp0)) (\<lambda>_.
        bindE (validateMessageInput inp0) (\<lambda>_.
        let inp = normalizeMessageInput inp0 in
        bindE (resolve os repoPath) (\<lambda>ev.
          Inr (postMessage_body os ev tid actorID inp (fingerprint sha enc inp '''' 0 True) r1 r2)))))"

definition find_head_in :: "hub \<Rightarrow> string \<Rightarrow> string \<Rightarrow> string \<Rightarrow> head_row option" where
  "find_head_in h scope tid m =
     List.find (\<lambda>r. hd_scope r = scope \<and> hd_topic r = tid \<and> hd_message r = m) (heads h)"

text \<open>The deadline of the current revision must not have passed.\<close>

definition unexpired_entry :: "hub \<Rightarrow> string \<Rightarrow> int \<Rightarrow> err + int option" where
  "unexpired_entry h entry now =
     bindE (optionE ErrScan (find_publication h entry)) (\<lambda>p.
     bindE (requireE (\<not> (case pb_expires_at p of None \<Rightarrow> False | Some e \<Rightarrow> e \<le> now)) ErrExpired) (\<lambda>_.
       Inr (pb_expires_at p)))"

definition revisedExpiry :: "messageRevisionInput \<Rightarrow> int option \<Rightarrow> int \<Rightarrow> err + int option" where
  "revisedExpiry inp oldExpiry now =
     (if mr_ChangeExpiry inp then expiryMillis (mi_ExpiresAt (mr_Input inp)) now
      else if mi_ExpiresAt (mr_Input inp) \<noteq> None then Inl ErrInvalidInput
      else Inr oldExpiry)"

definition reviseMessage_body ::
  "os \<Rightarrow> repoEvidence \<Rightarrow> string \<Rightarrow> string \<Rightarrow> string \<Rightarrow> messageRevisionInput \<Rightarrow> string \<Rightarrow> rand \<Rightarrow> hub \<Rightarrow> int \<Rightarrow> err + (message \<times> hub)" where
  "reviseMessage_body os ev tid messageID actorID inp fp rid h now =
     bindE (boundScope os h ev) (\<lambda>scope.
     bindE (enrolled h actorID) (\<lambda>_.
     bindE (replayMessage h scope tid actorID (mi_IdempotencyKey (mr_Input inp)) fp) (\<lambda>replay.
     (case replay of Some m \<Rightarrow> Inr (m, h) | None \<Rightarrow>
     bindE (selectTopic h scope tid now) (\<lambda>topic.
     bindE (requireE (to_State topic = ''active'') ErrArchived) (\<lambda>_.
     bindE (optionE ErrNotFound (find_head_in h scope tid messageID)) (\<lambda>m.
     bindE (requireE (hd_author m = actorID) ErrUnauthorized) (\<lambda>_.
     bindE (requireE (hd_revision m = mr_ExpectedRevision inp) ErrConflict) (\<lambda>_.
     bindE (unexpired_entry h (hd_entry m) now) (\<lambda>oldExpiry.
     bindE (revisedExpiry inp oldExpiry now) (\<lambda>expiry.
       appendMessage now scope tid actorID messageID (hd_revision m + 1) (mr_Input inp) expiry fp rid h)))))))))))"

definition ReviseMessage ::
  "(string \<Rightarrow> string) \<Rightarrow> (messageIntent \<Rightarrow> string) \<Rightarrow> db \<Rightarrow> env \<Rightarrow> os \<Rightarrow> string \<Rightarrow> string \<Rightarrow> string \<Rightarrow> string
     \<Rightarrow> messageRevisionInput \<Rightarrow> rand \<Rightarrow> hub \<Rightarrow> (err + message) \<times> hub" where
  "ReviseMessage sha enc d env os repoPath tid messageID actorID inp0 rid =
     guarded_write d env
       (bindE (expectedAuthority d (mi_AuthorityID (mr_Input inp0))) (\<lambda>_.
        bindE (validateMessageInput (mr_Input inp0)) (\<lambda>_.
        bindE (requireE (\<not> mr_ExpectedRevision inp0 < 1) ErrInvalidInput) (\<lambda>_.
        let inp = inp0\<lparr>mr_Input := normalizeMessageInput (mr_Input inp0)\<rparr> in
        bindE (resolve os repoPath) (\<lambda>ev.
          Inr (reviseMessage_body os ev tid messageID actorID inp
                 (fingerprint sha enc (mr_Input inp) messageID (mr_ExpectedRevision inp) (mr_ChangeExpiry inp)) rid))))))"

section \<open>Pins and votes\<close>

definition set_pin :: "string \<Rightarrow> int \<Rightarrow> string \<Rightarrow> bool \<Rightarrow> bool \<Rightarrow> int \<Rightarrow> rand \<Rightarrow> hub \<Rightarrow> err + hub" where
  "set_pin messageID revision actorID oldPin value now rid h =
     (if oldPin \<noteq> value then
        bindE (randomID rid) (\<lambda>id.
          insert_pin \<lparr>pn_id = id, pn_message = messageID, pn_revision = revision, pn_actor = actorID,
                      pn_pinned = value, pn_at = now\<rparr> (update_head_pinned messageID value h))
      else Inr h)"

definition pinMessage_body ::
  "os \<Rightarrow> repoEvidence \<Rightarrow> string \<Rightarrow> string \<Rightarrow> string \<Rightarrow> int \<Rightarrow> int \<Rightarrow> bool \<Rightarrow> rand \<Rightarrow> hub \<Rightarrow> int \<Rightarrow> err + (message \<times> hub)" where
  "pinMessage_body os ev tid messageID actorID expectedGeneration expectedRevision pin rid h now =
     bindE (boundScope os h ev) (\<lambda>scope.
     bindE (topicForWrite h scope tid actorID expectedGeneration now False) (\<lambda>topic.
     bindE (requireE (to_State topic = ''active'') ErrArchived) (\<lambda>_.
     bindE (optionE ErrNotFound (find_head_in h scope tid messageID)) (\<lambda>m.
     bindE (requireE (hd_revision m = expectedRevision) ErrConflict) (\<lambda>_.
     bindE (unexpired_entry h (hd_entry m) now) (\<lambda>_.
     bindE (set_pin messageID (hd_revision m) actorID (hd_pinned m) pin now rid h) (\<lambda>h1.
     bindE (messageByEntry ErrScan h1 (hd_entry m)) (\<lambda>out.
       Inr (out, h1)))))))))"

definition PinMessage ::
  "db \<Rightarrow> env \<Rightarrow> os \<Rightarrow> string \<Rightarrow> string \<Rightarrow> string \<Rightarrow> string \<Rightarrow> string \<Rightarrow> int \<Rightarrow> int \<Rightarrow> bool \<Rightarrow> rand \<Rightarrow> hub \<Rightarrow> (err + message) \<times> hub" where
  "PinMessage d env os repoPath tid messageID actorID authority expectedGeneration expectedRevision pin rid =
     guarded_write d env
       (bindE (expectedAuthority d authority) (\<lambda>_.
        bindE (requireE (\<not> expectedRevision < 1) ErrInvalidInput) (\<lambda>_.
        bindE (resolve os repoPath) (\<lambda>ev.
          Inr (pinMessage_body os ev tid messageID actorID expectedGeneration expectedRevision pin rid)))))"

definition cast_vote :: "string \<Rightarrow> int \<Rightarrow> string \<Rightarrow> int \<Rightarrow> hub \<Rightarrow> err + hub" where
  "cast_vote messageID revision actorID value h =
     (if value = 0 then Inr (h\<lparr>votes := delete_where (vote_at messageID revision actorID) (votes h)\<rparr>)
      else upsert_vote \<lparr>vt_message = messageID, vt_revision = revision, vt_actor = actorID, vt_value = value\<rparr> h)"

definition voteMessage_body ::
  "os \<Rightarrow> repoEvidence \<Rightarrow> string \<Rightarrow> string \<Rightarrow> string \<Rightarrow> int \<Rightarrow> int \<Rightarrow> hub \<Rightarrow> int \<Rightarrow> err + (message \<times> hub)" where
  "voteMessage_body os ev tid messageID actorID revision value h now =
     bindE (boundScope os h ev) (\<lambda>scope.
     bindE (enrolled h actorID) (\<lambda>_.
     bindE (selectTopic h scope tid now) (\<lambda>topic.
     bindE (requireE (to_State topic = ''active'') ErrArchived) (\<lambda>_.
     bindE (optionE ErrNotFound (find_head_in h scope tid messageID)) (\<lambda>m.
     bindE (requireE (hd_revision m = revision) ErrConflict) (\<lambda>_.
     bindE (unexpired_entry h (hd_entry m) now) (\<lambda>_.
     bindE (cast_vote messageID revision actorID value h) (\<lambda>h1.
     bindE (messageByEntry ErrScan h1 (hd_entry m)) (\<lambda>out.
       Inr (out, h1))))))))))"

definition VoteMessage ::
  "db \<Rightarrow> env \<Rightarrow> os \<Rightarrow> string \<Rightarrow> string \<Rightarrow> string \<Rightarrow> string \<Rightarrow> string \<Rightarrow> int \<Rightarrow> int \<Rightarrow> hub \<Rightarrow> (err + message) \<times> hub" where
  "VoteMessage d env os repoPath tid messageID actorID authority revision value =
     guarded_write d env
       (bindE (expectedAuthority d authority) (\<lambda>_.
        bindE (requireE (\<not> (revision < 1 \<or> value < - 1 \<or> value > 1)) ErrInvalidInput) (\<lambda>_.
        bindE (resolve os repoPath) (\<lambda>ev.
          Inr (voteMessage_body os ev tid messageID actorID revision value)))))"

section \<open>Discovery and history\<close>

record pinChange =
  pc_ID :: string
  pc_MessageID :: string
  pc_Revision :: int
  pc_ActorID :: string
  pc_Pinned :: bool
  pc_At :: gotime

definition messageListBounds :: "messageList \<Rightarrow> err + messageList" where
  "messageListBounds opts =
     (let opts = opts\<lparr>ml_Limit := default_limit (ml_Limit opts)\<rparr>
      in bindE (requireE (\<not> (ml_Limit opts < 1 \<or> ml_Limit opts > 100 \<or> ml_Offset opts < 0)) ErrInvalidInput) (\<lambda>_.
           Inr opts))"

definition PinHistory :: "os \<Rightarrow> string \<Rightarrow> string \<Rightarrow> string \<Rightarrow> messageList \<Rightarrow> hub \<Rightarrow> err + pinChange list" where
  "PinHistory os repoPath tid messageID opts0 h =
     bindE (messageListBounds opts0) (\<lambda>opts.
     bindE (LookupRepo os repoPath h) (\<lambda>scope.
     bindE (requireE (find_head_in h (scope_ID scope) tid messageID \<noteq> None) ErrNotFound) (\<lambda>_.
       Inr (map (\<lambda>p. \<lparr>pc_ID = pn_id p, pc_MessageID = pn_message p, pc_Revision = pn_revision p,
                      pc_ActorID = pn_actor p, pc_Pinned = pn_pinned p, pc_At = fromMillis (pn_at p)\<rparr>)
         (page_of (ml_Limit opts) (ml_Offset opts)
           (sort_key pn_at (filter (\<lambda>p. pn_message p = messageID) (pins h))))))))"

text \<open>A joined row of \<open>message_heads\<close>, \<open>message_revisions\<close> and \<open>publications\<close>.\<close>

type_synonym message_join = "publication_row \<times> revision_row \<times> head_row"

definition current_join :: "hub \<Rightarrow> head_row \<Rightarrow> message_join option" where
  "current_join h m = (case (find_revision h (hd_entry m), find_publication h (hd_entry m)) of
     (Some r, Some p) \<Rightarrow> Some (p, r, m) | _ \<Rightarrow> None)"

definition pin_rank :: "bool \<Rightarrow> int" where
  "pin_rank b = (if b then 1 else 0)"

definition message_order :: "hub \<Rightarrow> bool \<Rightarrow> message_join \<Rightarrow> int \<times> int \<times> int \<times> string" where
  "message_order h ranked = (\<lambda>(p, r, m).
     (pin_rank (hd_pinned m), if ranked then message_score h (rv_message r) (rv_revision r) else 0,
      pb_sequence p, pb_entry p))"

definition current_messages :: "hub \<Rightarrow> string \<Rightarrow> string \<Rightarrow> int \<Rightarrow> message_join list" where
  "current_messages h scope tid now =
     filter (\<lambda>(p, r, m). case pb_expires_at p of None \<Rightarrow> True | Some e \<Rightarrow> e > now)
       (List.map_filter (current_join h) (filter (\<lambda>m. hd_scope m = scope \<and> hd_topic m = tid) (heads h)))"

definition ListMessages :: "os \<Rightarrow> string \<Rightarrow> string \<Rightarrow> messageList \<Rightarrow> gotime \<Rightarrow> hub \<Rightarrow> err + message list" where
  "ListMessages os repoPath tid opts0 clk h =
     bindE (messageListBounds opts0) (\<lambda>opts.
     bindE (LookupRepo os repoPath h) (\<lambda>scope.
     bindE (ShowTopic os repoPath tid clk h) (\<lambda>topic.
       if to_State topic \<noteq> ''active'' then Inr []
       else mapE (\<lambda>(p, r, m). scanMessage h p r m)
         (page_of (ml_Limit opts) (ml_Offset opts)
           (rev (sort_key (message_order h (ml_Ranked opts))
             (current_messages h (scope_ID scope) tid (unixMilli clk))))))))"

text \<open>The visibility checks of a read that is not historical.\<close>

definition visible :: "os \<Rightarrow> string \<Rightarrow> string \<Rightarrow> gotime option \<Rightarrow> bool \<Rightarrow> gotime \<Rightarrow> hub \<Rightarrow> err + unit" where
  "visible os repoPath tid expires historical clk h =
     (if historical then Inr ()
      else bindE (ShowTopic os repoPath tid clk h) (\<lambda>topic.
           bindE (requireE (to_State topic = ''active'') ErrArchived) (\<lambda>_.
             requireE (case expires of None \<Rightarrow> True | Some e \<Rightarrow> time_Before clk e) ErrExpired)))"

definition ReadMessage :: "os \<Rightarrow> string \<Rightarrow> string \<Rightarrow> string \<Rightarrow> bool \<Rightarrow> gotime \<Rightarrow> hub \<Rightarrow> err + message" where
  "ReadMessage os repoPath tid messageID historical clk h =
     bindE (LookupRepo os repoPath h) (\<lambda>scope.
     bindE (optionE ErrNotFound (find_head_in h (scope_ID scope) tid messageID)) (\<lambda>m.
     bindE (optionE ErrNotFound (current_join h m)) (\<lambda>(p, r, _).
     bindE (scanMessage h p r m) (\<lambda>msg.
     bindE (visible os repoPath tid (pu_ExpiresAt (me_Publication msg)) historical clk h) (\<lambda>_.
       Inr msg)))))"

definition ReadPublication :: "os \<Rightarrow> string \<Rightarrow> string \<Rightarrow> bool \<Rightarrow> gotime \<Rightarrow> hub \<Rightarrow> err + message" where
  "ReadPublication os repoPath entryID historical clk h =
     bindE (LookupRepo os repoPath h) (\<lambda>scope.
     bindE (optionE ErrNotFound (find_publication h entryID)) (\<lambda>p.
     bindE (requireE (pb_scope p = scope_ID scope) ErrNotFound) (\<lambda>_.
     bindE (messageByEntry ErrNotFound h entryID) (\<lambda>msg.
     bindE (visible os repoPath (pu_TopicID (me_Publication msg)) (pu_ExpiresAt (me_Publication msg)) historical clk h) (\<lambda>_.
       Inr msg)))))"

definition revision_join :: "hub \<Rightarrow> revision_row \<Rightarrow> message_join option" where
  "revision_join h r = (case (find_publication h (rv_entry r), find_head h (rv_message r)) of
     (Some p, Some m) \<Rightarrow> Some (p, r, m) | _ \<Rightarrow> None)"

definition MessageHistory :: "os \<Rightarrow> string \<Rightarrow> string \<Rightarrow> string \<Rightarrow> messageList \<Rightarrow> hub \<Rightarrow> err + message list" where
  "MessageHistory os repoPath tid messageID opts0 h =
     bindE (messageListBounds opts0) (\<lambda>opts.
     bindE (LookupRepo os repoPath h) (\<lambda>scope.
     bindE (requireE (find_head_in h (scope_ID scope) tid messageID \<noteq> None) ErrNotFound) (\<lambda>_.
       mapE (\<lambda>(p, r, m). scanMessage h p r m)
         (page_of (ml_Limit opts) (ml_Offset opts)
           (List.map_filter (revision_join h)
             (sort_key rv_revision
               (filter (\<lambda>r. rv_scope r = scope_ID scope \<and> rv_topic r = tid \<and> rv_message r = messageID) (revisions h))))))))"

section \<open>Scanning a range of the stream\<close>

record gap =
  gp_From :: int
  gp_To :: int
  gp_Reason :: string

text \<open>\<open>addGap\<close> of \<open>subscription.go\<close>: an interval is appended, or extends the last one.\<close>

definition addGap :: "gap list \<Rightarrow> int \<Rightarrow> int \<Rightarrow> string \<Rightarrow> gap list" where
  "addGap g from to reason =
     (if from > to then g
      else if g \<noteq> [] \<and> gp_Reason (last g) = reason \<and> gp_To (last g) + 1 = from
      then butlast g @ [(last g)\<lparr>gp_To := to\<rparr>]
      else g @ [\<lparr>gp_From = from, gp_To = to, gp_Reason = reason\<rparr>])"

text \<open>
  \<open>addMissingGaps\<close> of \<open>retention.go\<close>: the positions \<open>from..to\<close> have no publication; those in a
  recorded pruned range are \<open>pruned\<close>, the others \<open>unavailable\<close>.
\<close>

fun missing_loop :: "range_row list \<Rightarrow> gap list \<Rightarrow> int \<Rightarrow> int \<Rightarrow> gap list \<times> int" where
  "missing_loop [] g from to = (g, from)"
| "missing_loop (r # rs) g from to =
     (let g1 = (if pr_from r > from then addGap g from (pr_from r - 1) ''unavailable'' else g);
          first = (if pr_from r < from then from else pr_from r);
          last' = (if pr_to r > to then to else pr_to r)
      in missing_loop rs (addGap g1 first last' ''pruned'') (last' + 1) to)"

definition ranges_between :: "hub \<Rightarrow> string \<Rightarrow> int \<Rightarrow> int \<Rightarrow> range_row list" where
  "ranges_between h scope from to =
     sort_key pr_from (filter (\<lambda>r. pr_scope r = scope \<and> pr_to r \<ge> from \<and> pr_from r \<le> to) (pruned_ranges h))"

definition addMissingGaps :: "hub \<Rightarrow> string \<Rightarrow> gap list \<Rightarrow> int \<Rightarrow> int \<Rightarrow> gap list" where
  "addMissingGaps h scope g from to =
     (if from > to then g
      else (case missing_loop (ranges_between h scope from to) g from to of
          (g1, from1) \<Rightarrow> if from1 \<le> to then addGap g1 from1 to ''unavailable'' else g1))"

record publicationPage =
  pp_ScopeID :: string
  pp_AsOf :: gotime
  pp_HighWater :: int
  pp_LowWater :: int
  pp_RetentionEpoch :: int
  pp_NextScanPosition :: int
  pp_Entries :: "publication list"
  pp_Gaps :: "gap list"

text \<open>Whether the topic is archived (its columns) and whether the entry is expired, as of a moment.\<close>

definition scan_reason :: "topic_row \<Rightarrow> publication_row \<Rightarrow> int \<Rightarrow> string" where
  "scan_reason t p asOf =
     (if tp_archived_at t \<noteq> None \<or> (case tp_expires_at t of None \<Rightarrow> False | Some e \<Rightarrow> e \<le> asOf) then ''archived''
      else if (case pb_expires_at p of None \<Rightarrow> False | Some e \<Rightarrow> e \<le> asOf) then ''expired''
      else '''')"

text \<open>\<open>FROM publications p JOIN topics t \<dots> WHERE p.scope_id=? AND p.sequence>? ORDER BY p.sequence\<close>.\<close>

definition publications_after :: "hub \<Rightarrow> string \<Rightarrow> int \<Rightarrow> (publication_row \<times> topic_row) list" where
  "publications_after h scope position =
     List.map_filter (\<lambda>p. map_option (Pair p) (List.find (\<lambda>t. tp_id t = pb_topic p) (topics h)))
       (sort_key pb_sequence (filter (\<lambda>p. pb_scope p = scope \<and> pb_sequence p > position) (publications h)))"

fun scan_rows ::
  "hub \<Rightarrow> string \<Rightarrow> bool \<Rightarrow> int \<Rightarrow> (publication_row \<times> topic_row) list \<Rightarrow> publicationPage \<Rightarrow> err + publicationPage" where
  "scan_rows h scope historical asOf [] page = Inr page"
| "scan_rows h scope historical asOf ((p, t) # rows) page =
     bindE (scanPublication p) (\<lambda>entry.
       let page1 = (if pb_sequence p > pp_NextScanPosition page + 1
                    then page\<lparr>pp_Gaps := addMissingGaps h scope (pp_Gaps page) (pp_NextScanPosition page + 1) (pb_sequence p - 1)\<rparr>
                    else page);
           page2 = page1\<lparr>pp_NextScanPosition := pb_sequence p\<rparr>;
           reason = (if historical then '''' else scan_reason t p asOf)
       in scan_rows h scope historical asOf rows
            (if reason \<noteq> ''''
             then page2\<lparr>pp_Gaps := pp_Gaps page2 @ [\<lparr>gp_From = pb_sequence p, gp_To = pb_sequence p, gp_Reason = reason\<rparr>]\<rparr>
             else page2\<lparr>pp_Entries := pp_Entries page2 @ [entry]\<rparr>))"

text \<open>
  When the scope has no counter row yet, only the low-water mark is read: the retention epoch
  of the page stays 0.
\<close>

definition page_header :: "hub \<Rightarrow> string \<Rightarrow> err + (int \<times> int \<times> int)" where
  "page_header h scope =
     bindE (optionE ErrScan (List.find (\<lambda>s. sc_id s = scope) (scopes h))) (\<lambda>s.
       (case find_counter h scope of
          Some c \<Rightarrow> Inr (ct_next c, sc_low_water s, retention_epoch h)
        | None \<Rightarrow> Inr (1, sc_low_water s, 0)))"

definition ScanPublications :: "os \<Rightarrow> string \<Rightarrow> int \<Rightarrow> int \<Rightarrow> bool \<Rightarrow> gotime \<Rightarrow> hub \<Rightarrow> err + publicationPage" where
  "ScanPublications os repoPath after limit historical clk h =
     bindE (requireE (\<not> (after < 0 \<or> limit < 1 \<or> limit > 100)) ErrInvalidInput) (\<lambda>_.
     bindE (LookupRepo os repoPath h) (\<lambda>scope.
     bindE (page_header h (scope_ID scope)) (\<lambda>(next, low, epoch).
     let page = \<lparr>pp_ScopeID = scope_ID scope, pp_AsOf = clk, pp_HighWater = next - 1, pp_LowWater = low,
                 pp_RetentionEpoch = epoch,
                 pp_NextScanPosition = (if after < low then low else after), pp_Entries = [],
                 pp_Gaps = (if after < low then [\<lparr>gp_From = after + 1, gp_To = low, gp_Reason = ''pruned''\<rparr>] else [])\<rparr>
     in scan_rows h (scope_ID scope) historical (unixMilli clk)
          (take (nat limit) (publications_after h (scope_ID scope) (pp_NextScanPosition page))) page)))"

section \<open>Lemmas: gaps\<close>

text \<open>The sequence positions a list of gaps stands for, in order.\<close>

definition gap_positions :: "gap list \<Rightarrow> int list" where
  "gap_positions gs = concat (map (\<lambda>g. [gp_From g..gp_To g]) gs)"

definition gaps_ok :: "gap list \<Rightarrow> bool" where
  "gaps_ok gs \<longleftrightarrow> (\<forall>g \<in> set gs. gp_From g \<le> gp_To g)"

lemma gap_positions_simps [simp]:
  "gap_positions [] = []"
  "gap_positions (g # gs) = [gp_From g..gp_To g] @ gap_positions gs"
  "gap_positions (gs @ gs') = gap_positions gs @ gap_positions gs'"
  by (simp_all add: gap_positions_def)

lemma gaps_ok_simps [simp]:
  "gaps_ok []"
  "gaps_ok (gs @ gs') \<longleftrightarrow> gaps_ok gs \<and> gaps_ok gs'"
  "gaps_ok (g # gs) \<longleftrightarrow> gp_From g \<le> gp_To g \<and> gaps_ok gs"
  by (auto simp: gaps_ok_def)

lemma upto_join: "a \<le> b + 1 \<Longrightarrow> b \<le> c \<Longrightarrow> [a..b] @ [b + 1..c] = [a..c :: int]"
proof (cases "a \<le> b")
  case False
  moreover assume "a \<le> b + 1"
  ultimately have "a = b + 1" by simp
  then show ?thesis by simp
qed (use upto_split2[of a b c] in simp)

lemma addGap_positions:
  assumes "gaps_ok gs"
  shows "gap_positions (addGap gs from to reason) = gap_positions gs @ [from..to] \<and> gaps_ok (addGap gs from to reason)"
proof (cases "gs \<noteq> [] \<and> gp_Reason (last gs) = reason \<and> gp_To (last gs) + 1 = from \<and> from \<le> to")
  case True
  then obtain hs g where gs: "gs = hs @ [g]" by (metis append_butlast_last_id)
  have "[gp_From g..gp_To g] @ [gp_To g + 1..to] = [gp_From g..to]"
    by (rule upto_join) (use True assms in \<open>auto simp: gs\<close>)
  with True assms show ?thesis by (auto simp: addGap_def gs)
next
  case False
  with assms show ?thesis by (auto simp: addGap_def)
qed

text \<open>
  The recorded pruned ranges of a hub: every range is an interval, and the ranges of a scope
  are disjoint.
\<close>

definition ranges_ok :: "hub \<Rightarrow> bool" where
  "ranges_ok h \<longleftrightarrow> (\<forall>r \<in> set (pruned_ranges h). pr_from r \<le> pr_to r)
     \<and> pairwise (\<lambda>r s. pr_scope r = pr_scope s \<longrightarrow> pr_to r < pr_from s \<or> pr_to s < pr_from r) (set (pruned_ranges h))
     \<and> distinct (pruned_ranges h)"

lemma sorted_ranges:
  assumes "\<forall>r \<in> set rs. pr_from r \<le> pr_to r" and "distinct rs"
    and "pairwise (\<lambda>r s. pr_to r < pr_from s \<or> pr_to s < pr_from r) (set rs)" and "sorted (map pr_from rs)"
  shows "sorted_wrt (\<lambda>r s. pr_to r < pr_from s) rs"
  using assms
proof (induction rs)
  case (Cons r rs)
  have "pr_to r < pr_from s" if "s \<in> set rs" for s
  proof -
    have "r \<noteq> s" "pr_from r \<le> pr_from s" using Cons.prems that by auto
    moreover have "pr_to r < pr_from s \<or> pr_to s < pr_from r"
      using Cons.prems(3) that \<open>r \<noteq> s\<close> by (auto simp: pairwise_def)
    ultimately show ?thesis using Cons.prems(1) that by fastforce
  qed
  moreover have "sorted_wrt (\<lambda>r s. pr_to r < pr_from s) rs"
    using Cons by (intro Cons.IH) (auto simp: pairwise_def)
  ultimately show ?case by simp
qed simp

lemma ranges_between_sorted:
  assumes "ranges_ok h"
  shows "sorted_wrt (\<lambda>r s. pr_to r < pr_from s) (ranges_between h scope from to)"
    and "\<forall>r \<in> set (ranges_between h scope from to). pr_from r \<le> pr_to r \<and> from \<le> pr_to r \<and> pr_from r \<le> to"
proof -
  let ?rs = "ranges_between h scope from to"
  show all: "\<forall>r \<in> set ?rs. pr_from r \<le> pr_to r \<and> from \<le> pr_to r \<and> pr_from r \<le> to"
    using assms by (auto simp: ranges_between_def ranges_ok_def)
  show "sorted_wrt (\<lambda>r s. pr_to r < pr_from s) ?rs"
  proof (rule sorted_ranges)
    show "pairwise (\<lambda>r s. pr_to r < pr_from s \<or> pr_to s < pr_from r) (set ?rs)"
      using assms by (auto simp: ranges_between_def ranges_ok_def pairwise_def)
  qed (use all assms in \<open>auto simp: ranges_between_def ranges_ok_def\<close>)
qed

lemma missing_loop_positions:
  assumes "gaps_ok gs" and "sorted_wrt (\<lambda>r s. pr_to r < pr_from s) rs"
    and "\<forall>r \<in> set rs. pr_from r \<le> pr_to r \<and> from \<le> pr_to r \<and> pr_from r \<le> to" and "from \<le> to + 1"
    and "missing_loop rs gs from to = (gs', from')"
  shows "gap_positions gs' = gap_positions gs @ [from..from' - 1] \<and> gaps_ok gs' \<and> from \<le> from' \<and> from' \<le> to + 1"
  using assms
proof (induction rs gs "from" to rule: missing_loop.induct)
  case (2 r rs gs "from" to)
  define g1 where "g1 = (if pr_from r > from then addGap gs from (pr_from r - 1) ''unavailable'' else gs)"
  define first where "first = (if pr_from r < from then from else pr_from r)"
  define fin where "fin = (if pr_to r > to then to else pr_to r)"
  have g1: "gap_positions g1 = gap_positions gs @ [from..first - 1]" "gaps_ok g1"
    using addGap_positions[OF 2(2)] 2(2) by (auto simp: g1_def first_def)
  note g2 = addGap_positions[OF g1(2), of first fin "''pruned''"]
  have bounds: "from \<le> first" "first \<le> fin + 1" "fin \<le> to" using 2(4,5) by (auto simp: first_def fin_def)
  have step: "missing_loop rs (addGap g1 first fin ''pruned'') (fin + 1) to = (gs', from')"
    using 2(6) by (simp add: g1_def first_def fin_def Let_def)
  have rest: "\<forall>s \<in> set rs. pr_from s \<le> pr_to s \<and> fin + 1 \<le> pr_to s \<and> pr_from s \<le> to"
  proof
    fix s assume "s \<in> set rs"
    then have "pr_to r < pr_from s" "pr_from s \<le> pr_to s" "pr_from s \<le> to" using 2(3,4) by auto
    then show "pr_from s \<le> pr_to s \<and> fin + 1 \<le> pr_to s \<and> pr_from s \<le> to" by (auto simp: fin_def)
  qed
  have "gap_positions gs' = gap_positions (addGap g1 first fin ''pruned'') @ [fin + 1..from' - 1]
      \<and> gaps_ok gs' \<and> fin + 1 \<le> from' \<and> from' \<le> to + 1"
    by (rule 2(1)[OF g1_def first_def fin_def])
      (use g2 2(3) rest bounds step in auto)
  moreover have "[from..first - 1] @ [first..fin] @ [fin + 1..from' - 1] = [from..from' - 1]"
    if "fin + 1 \<le> from'"
    using upto_join[of first fin "from' - 1"] upto_join[of "from" "first - 1" "from' - 1"] bounds that by simp
  ultimately show ?case using g1 g2 bounds by auto
qed simp

lemma addMissingGaps_positions:
  assumes "gaps_ok gs" and "ranges_ok h"
  shows "gap_positions (addMissingGaps h scope gs from to) = gap_positions gs @ [from..to]
    \<and> gaps_ok (addMissingGaps h scope gs from to)"
proof (cases "from > to")
  case False
  obtain g1 f1 where m: "missing_loop (ranges_between h scope from to) gs from to = (g1, f1)" by (meson surj_pair)
  note p = missing_loop_positions[OF assms(1) ranges_between_sorted[OF assms(2)] _ m]
  show ?thesis
  proof (cases "f1 \<le> to")
    case True
    have "[from..f1 - 1] @ [f1..to] = [from..to]"
      using upto_join[of "from" "f1 - 1" to] p True False by simp
    with True False p m addGap_positions[of g1 f1 to] show ?thesis by (auto simp: addMissingGaps_def)
  next
    case False': False
    with p False have "f1 = to + 1" by simp
    with False False' p m show ?thesis by (auto simp: addMissingGaps_def)
  qed
qed (use assms in \<open>simp add: addMissingGaps_def\<close>)

section \<open>Lemmas: the scan of a range\<close>

lemma scanPublication_Inr:
  assumes "scanPublication p = Inr e"
  shows "pu_Sequence e = pb_sequence p" "pu_EntryID e = pb_entry p" "pu_ScopeID e = pb_scope p"
    "pu_TopicID e = pb_topic p" "pu_Kind e = pb_kind p" "\<not> pu_Replayed e" "pu_ActorID e = pb_actor p"
    "pu_IdempotencyKey e = string_of_null (pb_key p)" "pu_ExpiresAt e = map_option fromMillis (pb_expires_at p)"
  using assms by (auto simp: scanPublication_def)

lemma find_counter_None_iff: "find_counter h scope = None \<longleftrightarrow> scope \<notin> ct_scope ` set (counters h)"
  by (auto simp: find_counter_def find_None_iff)

text \<open>The rows after a position come in strictly increasing order of their sequence.\<close>

lemma map_filter_pair: "map fst (List.map_filter (\<lambda>p. map_option (Pair p) (f p)) ps) = filter (\<lambda>p. f p \<noteq> None) ps"
  by (induction ps) (auto simp: List.map_filter_simps split: option.splits)

lemma publications_after_sorted:
  assumes "distinct (map (\<lambda>p. (pb_scope p, pb_sequence p)) (publications h))"
  shows "sorted_wrt (<) (map (pb_sequence \<circ> fst) (publications_after h scope position))"
    and "\<forall>(p, t) \<in> set (publications_after h scope position).
           p \<in> set (publications h) \<and> pb_scope p = scope \<and> position < pb_sequence p"
proof -
  let ?ps = "filter (\<lambda>p. pb_scope p = scope \<and> position < pb_sequence p) (publications h)"
  let ?ss = "sort_key pb_sequence ?ps"
  have "distinct (map (\<lambda>p. (pb_scope p, pb_sequence p)) ?ps)" using assms by (simp add: distinct_map_filter)
  then have "inj_on pb_sequence (set ?ps)" "distinct ?ps"
    by (auto simp: distinct_map inj_on_def)
  then have "distinct (map pb_sequence ?ss)" by (simp add: distinct_map)
  then have s: "sorted_wrt (<) (map pb_sequence ?ss)" by (simp add: strict_sorted_iff)
  have fst: "map fst (publications_after h scope position)
     = filter (\<lambda>p. List.find (\<lambda>t. tp_id t = pb_topic p) (topics h) \<noteq> None) ?ss"
    unfolding publications_after_def by (rule map_filter_pair)
  have "map (pb_sequence \<circ> fst) (publications_after h scope position) = map pb_sequence (map fst (publications_after h scope position))"
    by simp
  then show "sorted_wrt (<) (map (pb_sequence \<circ> fst) (publications_after h scope position))"
    using s unfolding fst by (simp add: sorted_wrt_map sorted_wrt_filter)
  have "set (map fst (publications_after h scope position)) \<subseteq> set ?ps" unfolding fst by auto
  then show "\<forall>(p, t) \<in> set (publications_after h scope position).
           p \<in> set (publications h) \<and> pb_scope p = scope \<and> position < pb_sequence p"
    by force
qed

text \<open>
  The rows of a page partition the positions passed over: every position is an entry or in a
  gap, once.
\<close>

definition page_positions :: "publicationPage \<Rightarrow> int list" where
  "page_positions page = map pu_Sequence (pp_Entries page) @ gap_positions (pp_Gaps page)"

lemma mset_upto_join: "a \<le> b + 1 \<Longrightarrow> b \<le> c \<Longrightarrow> mset [a..b] + mset [b + 1..c] = mset [a..c :: int]"
  using upto_join[of a b c] by (metis mset_append)

lemma scan_rows_positions:
  assumes "scan_rows h scope historical asOf rows page = Inr page'" and "ranges_ok h" and "gaps_ok (pp_Gaps page)"
    and "sorted_wrt (<) (pp_NextScanPosition page # map (pb_sequence \<circ> fst) rows)"
  shows "mset (page_positions page') = mset (page_positions page) + mset [pp_NextScanPosition page + 1..pp_NextScanPosition page']
    \<and> gaps_ok (pp_Gaps page') \<and> pp_NextScanPosition page \<le> pp_NextScanPosition page'
    \<and> pp_NextScanPosition page' = (if rows = [] then pp_NextScanPosition page else pb_sequence (fst (last rows)))"
  using assms
proof (induction h scope historical asOf rows page arbitrary: page' rule: scan_rows.induct)
  case (2 h scope historical asOf p t rows page)
  let ?n = "pp_NextScanPosition page" and ?s = "pb_sequence p"
  define page1 where "page1 = (if pb_sequence p > ?n + 1
      then page\<lparr>pp_Gaps := addMissingGaps h scope (pp_Gaps page) (?n + 1) (?s - 1)\<rparr> else page)"
  define page2 where "page2 = page1\<lparr>pp_NextScanPosition := ?s\<rparr>"
  define reason where "reason = (if historical then '''' else scan_reason t p asOf)"
  from 2(2) obtain entry where e: "scanPublication p = Inr entry" by auto
  define page3 where "page3 = (if reason \<noteq> ''''
     then page2\<lparr>pp_Gaps := pp_Gaps page2 @ [\<lparr>gp_From = ?s, gp_To = ?s, gp_Reason = reason\<rparr>]\<rparr>
     else page2\<lparr>pp_Entries := pp_Entries page2 @ [entry]\<rparr>)"
  have step: "scan_rows h scope historical asOf rows page3 = Inr page'"
    using 2(2)[unfolded scan_rows.simps e bindE_simps Let_def]
    unfolding page3_def page2_def reason_def page1_def .
  have lt: "?n < ?s" using 2(5) by simp
  have g1: "gap_positions (pp_Gaps page1) = gap_positions (pp_Gaps page) @ [?n + 1..?s - 1]" "gaps_ok (pp_Gaps page1)"
    using addMissingGaps_positions[OF 2(4,3), of scope "?n + 1" "?s - 1"] 2(4) lt by (auto simp: page1_def)
  have same: "pp_Entries page1 = pp_Entries page" "pp_NextScanPosition page3 = ?s"
    by (auto simp: page1_def page2_def page3_def)
  have "[?n + 1..?s - 1] @ [?s..?s] = [?n + 1..?s]" using upto_join[of "?n + 1" "?s - 1" ?s] lt by simp
  then have join: "mset [?n + 1..?s] = mset [?n + 1..?s - 1] + {#?s#}"
    by (metis mset_append upto_single mset_single_iff_right)
  have p3: "mset (page_positions page3) = mset (page_positions page) + mset [?n + 1..?s]" "gaps_ok (pp_Gaps page3)"
    using g1 scanPublication_Inr(1)[OF e]
    by (auto simp: page3_def page2_def page_positions_def same join)
  have IH: "mset (page_positions page') = mset (page_positions page3) + mset [?s + 1..pp_NextScanPosition page']
    \<and> gaps_ok (pp_Gaps page') \<and> ?s \<le> pp_NextScanPosition page'
    \<and> pp_NextScanPosition page' = (if rows = [] then ?s else pb_sequence (fst (last rows)))"
    using 2(1)[OF e page1_def page2_def reason_def, of page'] step 2(3,5) p3(2) same(2)
    by (auto simp: page3_def)
  then show ?case
    using p3(1) mset_upto_join[of "?n + 1" ?s "pp_NextScanPosition page'"] lt by auto
qed simp
lemma ScanPublications_start:
  assumes "ScanPublications os path after limit historical clk h = Inr page"
  obtains scope page0 rows where "scan_rows h scope historical (unixMilli clk) rows page0 = Inr page"
    "rows = take (nat limit) (publications_after h scope (pp_NextScanPosition page0))"
    "page_positions page0 = [after + 1..pp_NextScanPosition page0]" "gaps_ok (pp_Gaps page0)"
    "after \<le> pp_NextScanPosition page0" "pp_Entries page0 = []" "1 \<le> limit"
  using assms unfolding ScanPublications_def
  by (auto simp: Let_def page_positions_def intro!: that)

lemma scan_rows_entries:
  "scan_rows h scope historical asOf rows page = Inr page' \<Longrightarrow>
     length (pp_Entries page') \<le> length (pp_Entries page) + length rows"
  by (induction h scope historical asOf rows page arbitrary: page' rule: scan_rows.induct)
    (fastforce simp: Let_def split: if_splits)+

definition demo_publication :: "string \<Rightarrow> int \<Rightarrow> publication_row" where
  "demo_publication e n = \<lparr>pb_entry = e, pb_scope = ''g'', pb_topic = ''t'', pb_actor = ''alice'', pb_kind = ''message'',
     pb_sequence = n, pb_committed_at = 1, pb_occurred_at = None, pb_expires_at = None,
     pb_source_refs = JText [], pb_correlation_refs = JText [], pb_key = None\<rparr>"

text \<open>Publications at 3 and 5, a pruned range over 1 and 2, and nothing at 4.\<close>

definition demo_stream_hub :: hub where
  "demo_stream_hub = demo_topic_hub\<lparr>
     counters := [\<lparr>ct_scope = ''g'', ct_next = 6\<rparr>],
     publications := [demo_publication ''a'' 3, demo_publication ''b'' 5],
     pruned_ranges := [\<lparr>pr_scope = ''g'', pr_from = 1, pr_to = 2, pr_prune = ''p''\<rparr>]\<rparr>"

lemma demo_stream_keys: "unique_keys demo_stream_hub"
  by code_simp

lemma demo_stream_ranges: "ranges_ok demo_stream_hub"
  by (simp add: ranges_ok_def demo_stream_hub_def demo_topic_hub_def)

section \<open>Properties: scanning\<close>

text \<open>
  A scan loses nothing and repeats nothing: the positions from the one after the cursor up to the
  returned scan position are each accounted for exactly once, either as an entry or inside a gap (pruned,
  unavailable, archived or expired), the scan never moves backwards and returns at most
  \<open>limit\<close> entries.
\<close>

theorem scan_partitions:
  assumes "ScanPublications os path after limit historical clk h = Inr page"
    and "unique_keys h" and "ranges_ok h"
  shows "mset (map pu_Sequence (pp_Entries page) @ gap_positions (pp_Gaps page)) = mset [after + 1..pp_NextScanPosition page]
    \<and> after \<le> pp_NextScanPosition page \<and> int (length (pp_Entries page)) \<le> limit"
proof -
  from assms(1) obtain scope page0 rows where
    run: "scan_rows h scope historical (unixMilli clk) rows page0 = Inr page"
    and rows: "rows = take (nat limit) (publications_after h scope (pp_NextScanPosition page0))"
    and p0: "page_positions page0 = [after + 1..pp_NextScanPosition page0]" "gaps_ok (pp_Gaps page0)"
      "after \<le> pp_NextScanPosition page0" "pp_Entries page0 = []" "1 \<le> limit"
    by (rule ScanPublications_start)
  have keys: "distinct (map (\<lambda>p. (pb_scope p, pb_sequence p)) (publications h))"
    using assms(2) by (simp add: unique_keys_def keys_messages_def)
  note after = publications_after_sorted[OF keys, of scope "pp_NextScanPosition page0"]
  have "sorted_wrt (<) (map (pb_sequence \<circ> fst) rows)"
    using after(1) unfolding rows by (metis sorted_wrt_take take_map)
  moreover have "\<forall>x \<in> set rows. pp_NextScanPosition page0 < pb_sequence (fst x)"
    using after(2) unfolding rows by (fastforce dest: in_set_takeD)
  ultimately have "sorted_wrt (<) (pp_NextScanPosition page0 # map (pb_sequence \<circ> fst) rows)" by auto
  note s = scan_rows_positions[OF run assms(3) p0(2) this]
  have "length rows \<le> nat limit" by (simp add: rows)
  then have "int (length (pp_Entries page)) \<le> limit" using scan_rows_entries[OF run] p0(4,5) by simp
  moreover have "mset (page_positions page) = mset [after + 1..pp_NextScanPosition page]"
    using s p0(3) mset_upto_join[of "after + 1" "pp_NextScanPosition page0" "pp_NextScanPosition page"]
    unfolding p0(1) by simp
  ultimately show ?thesis using s p0(3) by (simp add: page_positions_def)
qed

definition demo_scan :: "err + publicationPage" where
  "demo_scan = ScanPublications demo_os ''global:'' 0 10 False (fromMillis 1000) demo_stream_hub"

theorem scan_partitions_witness:
  "mset (map pu_Sequence (pp_Entries (projr demo_scan)) @ gap_positions (pp_Gaps (projr demo_scan))) = mset [1..5]"
proof -
  have ok: "\<not> isl demo_scan" by code_simp
  have next5: "pp_NextScanPosition (projr demo_scan) = 5" by code_simp
  show ?thesis
    using scan_partitions[OF value_okD[OF ok, unfolded demo_scan_def] demo_stream_keys demo_stream_ranges] next5
    by (simp add: demo_scan_def)
qed

section \<open>Lemmas: appending\<close>

lemma nextSequence_Inr:
  assumes "nextSequence scope h = Inr (n, h')"
  obtains cs where "n = next_of h scope" "h' = h\<lparr>counters := cs\<rparr>" "next_of h' scope = n + 1" "0 < n + 1"
    "\<And>s. s \<noteq> scope \<Longrightarrow> next_of h' s = next_of h s"
    "ct_scope ` set cs = insert scope (ct_scope ` set (counters h))"
proof -
  from assms obtain h1 c where h1: "insert_counter_ignore scope h = Inr h1" and c: "find_counter h1 scope = Some c"
    and u: "update_counter scope (ct_next c + 1) h1 = Inr h'" and n: "n = ct_next c"
    by (auto simp: nextSequence_def)
  let ?f = "\<lambda>c. c\<lparr>ct_next := n + 1\<rparr>"
  have cin: "c \<in> set (counters h1)" "ct_scope c = scope"
    using c by (auto simp: find_counter_def dest!: find_SomeD_conj)
  then have h': "h' = h1\<lparr>counters := update_where (\<lambda>c. ct_scope c = scope) ?f (counters h1)\<rparr>" and pos: "0 < n + 1"
    using u by (auto simp: update_counter_def n)
  have find': "find_counter h' s = map_option (\<lambda>c. if ct_scope c = scope then ?f c else c) (find_counter h1 s)" for s
    unfolding h' find_counter_def by (simp add: find_update_where)
  have h1': "h1 = h \<and> find_counter h scope = Some c
     \<or> scope \<notin> ct_scope ` set (counters h) \<and> h1 = h\<lparr>counters := counters h @ [\<lparr>ct_scope = scope, ct_next = 1\<rparr>]\<rparr>"
    using h1 c by (auto simp: insert_counter_ignore_def split: if_splits)
  have same: "next_of h1 s = next_of h s" for s
    using h1' by (elim disjE conjE)
      (simp, auto simp: next_of_def find_counter_def find_append split: option.splits if_splits)
  have other: "next_of h' s = next_of h s" if "s \<noteq> scope" for s
  proof -
    have "next_of h' s = next_of h1 s"
      using that find'[of s] by (auto simp: next_of_def find_counter_def dest!: find_SomeD_conj split: option.splits)
    then show ?thesis by (simp add: same)
  qed
  show thesis
  proof (rule that)
    show "n = next_of h scope" using c n same[of scope] by (simp add: next_of_def)
    show "h' = h\<lparr>counters := counters h'\<rparr>" using h1' h' by auto
    show "next_of h' scope = n + 1" using c find'[of scope] cin by (simp add: next_of_def)
    show "ct_scope ` set (counters h') = insert scope (ct_scope ` set (counters h))"
      using h1' cin by (auto simp: h' key_image_update)
  qed (use pos other in auto)
qed

text \<open>The row an append writes, and the state after it.\<close>

definition message_publication ::
  "int \<Rightarrow> string \<Rightarrow> string \<Rightarrow> string \<Rightarrow> messageInput \<Rightarrow> int option \<Rightarrow> string \<Rightarrow> int \<Rightarrow> publication_row" where
  "message_publication now scope tid actorID inp expiry entryID n =
     \<lparr>pb_entry = entryID, pb_scope = scope, pb_topic = tid, pb_actor = actorID, pb_kind = ''message'',
      pb_sequence = n, pb_committed_at = now, pb_occurred_at = map_option unixMilli (mi_OccurredAt inp),
      pb_expires_at = expiry, pb_source_refs = JText (mi_SourceRefs inp),
      pb_correlation_refs = JText (mi_CorrelationRefs inp), pb_key = null_key (mi_IdempotencyKey inp)\<rparr>"

definition message_revision ::
  "string \<Rightarrow> string \<Rightarrow> string \<Rightarrow> int \<Rightarrow> string \<Rightarrow> messageInput \<Rightarrow> int option \<Rightarrow> revision_row" where
  "message_revision messageID scope tid revision entryID inp expiry =
     \<lparr>rv_message = messageID, rv_scope = scope, rv_topic = tid, rv_revision = revision, rv_entry = entryID,
      rv_text = mi_Text inp, rv_expires_at = expiry\<rparr>"

definition heads_after ::
  "string \<Rightarrow> string \<Rightarrow> string \<Rightarrow> string \<Rightarrow> int \<Rightarrow> string \<Rightarrow> head_row list \<Rightarrow> head_row list" where
  "heads_after scope tid actorID messageID revision entryID hs =
     (if revision = 1 then hs @ [\<lparr>hd_message = messageID, hd_scope = scope, hd_topic = tid, hd_author = actorID,
        hd_revision = 1, hd_entry = entryID, hd_pinned = False\<rparr>]
      else update_where (\<lambda>r. hd_message r = messageID)
             (\<lambda>r. r\<lparr>hd_revision := revision, hd_entry := entryID, hd_pinned := False\<rparr>) hs)"

definition idems_after ::
  "string \<Rightarrow> string \<Rightarrow> string \<Rightarrow> string \<Rightarrow> string \<Rightarrow> string \<Rightarrow> idem_row list \<Rightarrow> idem_row list" where
  "idems_after scope tid actorID key fp entryID is =
     (if key \<noteq> '''' then is @ [\<lparr>ik_scope = scope, ik_topic = tid, ik_actor = actorID, ik_key = key,
        ik_fingerprint = fp, ik_entry = entryID\<rparr>] else is)"

lemma appendMessage_Inr:
  assumes "appendMessage now scope tid actorID messageID revision inp expiry fp rid h = Inr (m, h')" and "1 \<le> revision"
  obtains entryID cs n where "randomID rid = Inr entryID" "n = next_of h scope"
    "next_of h' scope = n + 1" "\<And>s. s \<noteq> scope \<Longrightarrow> next_of h' s = next_of h s"
    "h' = h\<lparr>counters := cs,
       publications := publications h @ [message_publication now scope tid actorID inp expiry entryID n],
       heads := heads_after scope tid actorID messageID revision entryID (heads h),
       revisions := revisions h @ [message_revision messageID scope tid revision entryID inp expiry],
       idems := idems_after scope tid actorID (mi_IdempotencyKey inp) fp entryID (idems h)\<rparr>"
    "messageByEntry ErrScan h' entryID = Inr m"
    "find_publication h' entryID = Some (message_publication now scope tid actorID inp expiry entryID n)"
    "find_revision h' entryID = Some (message_revision messageID scope tid revision entryID inp expiry)"
    "mi_IdempotencyKey inp \<noteq> '''' \<longrightarrow> (\<exists>r. find_idem h' scope tid actorID (mi_IdempotencyKey inp) = Some r
        \<and> ik_fingerprint r = fp \<and> ik_entry r = entryID)"
    "revision = 1 \<longrightarrow> messageID \<notin> hd_message ` set (heads h)"
proof -
  from assms(1) obtain n h1 entryID h2 h3 h4 h5 where
    s: "nextSequence scope h = Inr (n, h1)" and e: "randomID rid = Inr entryID"
    and p: "insert_publication (message_publication now scope tid actorID inp expiry entryID n) h1 = Inr h2"
    and hd: "(if revision = 1 then insert_head \<lparr>hd_message = messageID, hd_scope = scope, hd_topic = tid,
              hd_author = actorID, hd_revision = revision, hd_entry = entryID, hd_pinned = False\<rparr> h2
            else Inr h2) = Inr h3"
    and r: "insert_revision (message_revision messageID scope tid revision entryID inp expiry) h3 = Inr h4"
    and u: "(if revision > 1 then update_head_revision messageID revision entryID h4 else Inr h4) = Inr h5"
    and k: "insert_key scope tid actorID (mi_IdempotencyKey inp) fp entryID h5 = Inr h'"
    and m: "messageByEntry ErrScan h' entryID = Inr m"
    unfolding appendMessage_def message_publication_def message_revision_def by auto
  from s obtain cs where n: "n = next_of h scope" and h1: "h1 = h\<lparr>counters := cs\<rparr>" and n1: "next_of h1 scope = n + 1"
    and o: "\<And>s. s \<noteq> scope \<Longrightarrow> next_of h1 s = next_of h s"
    by (rule nextSequence_Inr) blast
  have h2: "h2 = h1\<lparr>publications := publications h @ [message_publication now scope tid actorID inp expiry entryID n]\<rparr>"
    using p by (simp add: insert_publication_def h1)
  have h3: "h3 = (if revision = 1 then h2\<lparr>heads := heads_after scope tid actorID messageID revision entryID (heads h)\<rparr> else h2)"
    using hd by (simp add: insert_head_def heads_after_def h2 h1 split: if_splits)
  have h4: "h4 = h3\<lparr>revisions := revisions h @ [message_revision messageID scope tid revision entryID inp expiry]\<rparr>"
    using r by (simp add: insert_revision_def h3 h2 h1 split: if_splits)
  have h5: "h5 = h4\<lparr>heads := heads_after scope tid actorID messageID revision entryID (heads h)\<rparr>"
  proof (cases "revision = 1")
    case True
    with u have "h5 = h4" by simp
    with True show ?thesis by (simp add: h4 h3)
  next
    case False
    with assms(2) u have "h5 = h4\<lparr>heads := update_where (\<lambda>r. hd_message r = messageID)
        (\<lambda>r. r\<lparr>hd_revision := revision, hd_entry := entryID, hd_pinned := False\<rparr>) (heads h4)\<rparr>"
      by (simp add: update_head_revision_def Let_def)
    moreover have "heads h4 = heads h" using False by (simp add: h4 h3 h2 h1)
    ultimately show ?thesis using False by (simp add: heads_after_def)
  qed
  have h': "h' = h5\<lparr>idems := idems_after scope tid actorID (mi_IdempotencyKey inp) fp entryID (idems h)\<rparr>"
    using k by (auto simp: insert_key_def insert_idem_def idems_after_def h5 h4 h3 h2 h1 split: if_splits)
  have whole: "h' = h\<lparr>counters := cs,
       publications := publications h @ [message_publication now scope tid actorID inp expiry entryID n],
       heads := heads_after scope tid actorID messageID revision entryID (heads h),
       revisions := revisions h @ [message_revision messageID scope tid revision entryID inp expiry],
       idems := idems_after scope tid actorID (mi_IdempotencyKey inp) fp entryID (idems h)\<rparr>"
    by (simp add: h' h5 h4 h3 h2 h1)
  have nx: "next_of h' s = next_of h1 s" for s by (simp add: whole h1 next_of_def find_counter_def)
  have fp': "find_publication h' entryID = Some (message_publication now scope tid actorID inp expiry entryID n)"
    using publication_table.find_inserted[OF p]
    by (simp add: find_publication_def whole h2 message_publication_def)
  have fr: "find_revision h' entryID = Some (message_revision messageID scope tid revision entryID inp expiry)"
    using revision_table.find_inserted[OF r] by (simp add: find_revision_def whole h4 message_revision_def)
  have fi: "\<exists>r. find_idem h' scope tid actorID (mi_IdempotencyKey inp) = Some r \<and> ik_fingerprint r = fp \<and> ik_entry r = entryID"
    if "mi_IdempotencyKey inp \<noteq> ''''"
    using k that idem_table.find_inserted[of "\<lparr>ik_scope = scope, ik_topic = tid, ik_actor = actorID,
        ik_key = mi_IdempotencyKey inp, ik_fingerprint = fp, ik_entry = entryID\<rparr>" h5 h']
    by (auto simp: insert_key_def find_idem_def idem_key_def)
  have fresh: "revision = 1 \<longrightarrow> messageID \<notin> hd_message ` set (heads h)"
    using hd by (auto simp: insert_head_def h2 h1)
  show thesis
    using that[OF e n _ _ whole m fp' fr _ fresh] nx n1 o fi by auto
qed
definition as_replay :: "message \<Rightarrow> message" where
  "as_replay m = m\<lparr>me_Publication := (me_Publication m)\<lparr>pu_Replayed := True\<rparr>\<rparr>"

lemma as_replay_idem: "pu_Replayed (me_Publication m) \<Longrightarrow> as_replay m = m"
  by (simp add: as_replay_def)

lemma replayMessage_Some:
  "replayMessage h scope tid actorID key fp = Inr (Some m) \<longleftrightarrow>
     key \<noteq> '''' \<and> (\<exists>r m0. find_idem h scope tid actorID key = Some r \<and> ik_fingerprint r = fp
       \<and> messageByEntry ErrScan h (ik_entry r) = Inr m0 \<and> m = as_replay m0)"
  by (auto simp: replayMessage_def as_replay_def split: option.splits if_splits)

lemma messageByEntry_fresh: "messageByEntry e h entry = Inr m \<Longrightarrow> \<not> pu_Replayed (me_Publication m)"
  by (auto simp: messageByEntry_def scanMessage_def Let_def scanPublication_Inr(6))

lemma replayMessage_replayed: "replayMessage h scope tid actorID key fp = Inr (Some m) \<Longrightarrow> pu_Replayed (me_Publication m)"
  by (auto simp: replayMessage_Some as_replay_def)

lemma postMessage_body_cases:
  assumes "postMessage_body os ev tid actorID inp fp r1 r2 h now = Inr (m, h')"
  obtains scope where "boundScope os h ev = Inr scope" "actor_exists h actorID"
      "replayMessage h scope tid actorID (mi_IdempotencyKey inp) fp = Inr (Some m)" "h' = h"
  | scope topic expiry messageID where "boundScope os h ev = Inr scope" "actor_exists h actorID"
      "selectTopic h scope tid now = Inr topic" "to_State topic = ''active''"
      "expiryMillis (mi_ExpiresAt inp) now = Inr expiry" "randomID r1 = Inr messageID"
      "appendMessage now scope tid actorID messageID 1 inp expiry fp r2 h = Inr (m, h')"
proof -
  from assms obtain scope replay where s: "boundScope os h ev = Inr scope" "actor_exists h actorID"
    "replayMessage h scope tid actorID (mi_IdempotencyKey inp) fp = Inr replay"
    and rest: "(case replay of Some m \<Rightarrow> Inr (m, h) | None \<Rightarrow>
      bindE (selectTopic h scope tid now) (\<lambda>topic.
      bindE (requireE (to_State topic = ''active'') ErrArchived) (\<lambda>_.
      bindE (expiryMillis (mi_ExpiresAt inp) now) (\<lambda>expiry.
      bindE (randomID r1) (\<lambda>messageID.
        appendMessage now scope tid actorID messageID 1 inp expiry fp r2 h))))) = Inr (m, h')"
    unfolding postMessage_body_def bindE_Inr_iff by auto
  show thesis
  proof (cases replay)
    case (Some m')
    with rest s show thesis by (intro that(1)) auto
  next
    case None
    with rest obtain topic expiry messageID where "selectTopic h scope tid now = Inr topic" "to_State topic = ''active''"
      "expiryMillis (mi_ExpiresAt inp) now = Inr expiry" "randomID r1 = Inr messageID"
      "appendMessage now scope tid actorID messageID 1 inp expiry fp r2 h = Inr (m, h')" by auto
    with s show thesis by (intro that(2))
  qed
qed

lemma reviseMessage_body_cases:
  assumes "reviseMessage_body os ev tid messageID actorID inp fp rid h now = Inr (m, h')"
  obtains scope where "boundScope os h ev = Inr scope"
      "replayMessage h scope tid actorID (mi_IdempotencyKey (mr_Input inp)) fp = Inr (Some m)" "h' = h"
  | scope topic r expiry where "boundScope os h ev = Inr scope"
      "selectTopic h scope tid now = Inr topic" "to_State topic = ''active''"
      "find_head_in h scope tid messageID = Some r" "hd_author r = actorID" "hd_revision r = mr_ExpectedRevision inp"
      "appendMessage now scope tid actorID messageID (hd_revision r + 1) (mr_Input inp) expiry fp rid h = Inr (m, h')"
      "opt_all (\<lambda>v. now < v) expiry"
proof -
  from assms obtain scope replay where s: "boundScope os h ev = Inr scope" "actor_exists h actorID"
    "replayMessage h scope tid actorID (mi_IdempotencyKey (mr_Input inp)) fp = Inr replay"
    and rest: "(case replay of Some m \<Rightarrow> Inr (m, h) | None \<Rightarrow>
      bindE (selectTopic h scope tid now) (\<lambda>topic.
      bindE (requireE (to_State topic = ''active'') ErrArchived) (\<lambda>_.
      bindE (optionE ErrNotFound (find_head_in h scope tid messageID)) (\<lambda>m.
      bindE (requireE (hd_author m = actorID) ErrUnauthorized) (\<lambda>_.
      bindE (requireE (hd_revision m = mr_ExpectedRevision inp) ErrConflict) (\<lambda>_.
      bindE (unexpired_entry h (hd_entry m) now) (\<lambda>oldExpiry.
      bindE (revisedExpiry inp oldExpiry now) (\<lambda>expiry.
        appendMessage now scope tid actorID messageID (hd_revision m + 1) (mr_Input inp) expiry fp rid h)))))))) = Inr (m, h')"
    unfolding reviseMessage_body_def bindE_Inr_iff by auto
  show thesis
  proof (cases replay)
    case (Some m')
    with rest s show thesis by (intro that(1)) auto
  next
    case None
    with rest obtain topic r old expiry where p: "selectTopic h scope tid now = Inr topic" "to_State topic = ''active''"
      "find_head_in h scope tid messageID = Some r" "hd_author r = actorID" "hd_revision r = mr_ExpectedRevision inp"
      "appendMessage now scope tid actorID messageID (hd_revision r + 1) (mr_Input inp) expiry fp rid h = Inr (m, h')"
      and e: "unexpired_entry h (hd_entry r) now = Inr old" "revisedExpiry inp old now = Inr expiry" by auto
    have "opt_all (\<lambda>v. now < v) old" using e(1)
      by (auto simp: unexpired_entry_def opt_all_iff not_le split: option.splits)
    then have "opt_all (\<lambda>v. now < v) expiry"
      using e(2) by (auto simp: revisedExpiry_def dest: expiryMillis_future split: if_splits)
    with p s show thesis by (intro that(2))
  qed
qed

lemma PostMessage_Inr:
  assumes "PostMessage sha enc d env os path tid actorID inp r1 r2 h = (Inr m, h')"
  obtains ev where "resolve os path = Inr ev" "\<not> readOnly d" "expectedAuthority d (mi_AuthorityID inp) = Inr ()"
    "validateMessageInput inp = Inr ()"
    "postMessage_body os ev tid actorID (normalizeMessageInput inp)
       (fingerprint sha enc (normalizeMessageInput inp) '''' 0 True) r1 r2 h (env_now env) = Inr (m, h')"
  using assms by (auto simp: PostMessage_def guarded_write_Inr_iff write_Inr_iff Let_def)

lemma ReviseMessage_Inr:
  assumes "ReviseMessage sha enc d env os path tid messageID actorID inp rid h = (Inr m, h')"
  obtains ev inp' where "inp' = inp\<lparr>mr_Input := normalizeMessageInput (mr_Input inp)\<rparr>" "1 \<le> mr_ExpectedRevision inp"
    "resolve os path = Inr ev"
    "reviseMessage_body os ev tid messageID actorID inp'
       (fingerprint sha enc (mr_Input inp') messageID (mr_ExpectedRevision inp') (mr_ChangeExpiry inp')) rid h (env_now env)
       = Inr (m, h')"
  using assms by (auto simp: ReviseMessage_def guarded_write_Inr_iff write_Inr_iff Let_def)

lemma normalize_key [simp]: "mi_IdempotencyKey (normalizeMessageInput inp) = mi_IdempotencyKey inp"
  "mi_Text (normalizeMessageInput inp) = mi_Text inp" "mi_AuthorityID (normalizeMessageInput inp) = mi_AuthorityID inp"
  by (simp_all add: normalizeMessageInput_def)

text \<open>After a keyed post the key answers with the message it made.\<close>

lemma posted_key:
  assumes "postMessage_body os ev tid actorID inp fp r1 r2 h now = Inr (m, h')" and "mi_IdempotencyKey inp \<noteq> ''''"
  obtains scope r m0 where "boundScope os h' ev = Inr scope" "actor_exists h' actorID"
    "find_idem h' scope tid actorID (mi_IdempotencyKey inp) = Some r" "ik_fingerprint r = fp"
    "messageByEntry ErrScan h' (ik_entry r) = Inr m0" "as_replay m = as_replay m0"
  using assms(1)
proof (cases rule: postMessage_body_cases)
  case (1 scope)
  then show thesis using that by (auto simp: replayMessage_Some as_replay_def)
next
  case (2 scope topic expiry messageID)
  show thesis
  proof (rule appendMessage_Inr[OF 2(7)])
    fix entryID cs n
    assume h': "h' = h\<lparr>counters := cs,
       publications := publications h @ [message_publication now scope tid actorID inp expiry entryID n],
       heads := heads_after scope tid actorID messageID 1 entryID (heads h),
       revisions := revisions h @ [message_revision messageID scope tid 1 entryID inp expiry],
       idems := idems_after scope tid actorID (mi_IdempotencyKey inp) fp entryID (idems h)\<rparr>"
      and m: "messageByEntry ErrScan h' entryID = Inr m"
      and k: "mi_IdempotencyKey inp \<noteq> '''' \<longrightarrow> (\<exists>r. find_idem h' scope tid actorID (mi_IdempotencyKey inp) = Some r
        \<and> ik_fingerprint r = fp \<and> ik_entry r = entryID)"
    have "boundScope os h' ev = Inr scope" using 2(1) boundScope_cong[of h' h os ev] by (simp add: h')
    moreover have "actor_exists h' actorID" using 2(2) by (simp add: h' actor_exists_def)
    ultimately show thesis using k m assms(2) that by blast
  qed simp
qed

section \<open>Properties: posting and revising\<close>

text \<open>Posts of the demonstration database.\<close>

definition demo_input :: "string \<Rightarrow> string \<Rightarrow> messageInput" where
  "demo_input key text = \<lparr>mi_AuthorityID = ''hub'', mi_Text = text, mi_ExpiresAt = None, mi_OccurredAt = None,
     mi_SourceRefs = [], mi_CorrelationRefs = [], mi_IdempotencyKey = key\<rparr>"

definition demo_enc :: "messageIntent \<Rightarrow> string" where
  "demo_enc i = in_Text i"

definition demo_post :: "(err + message) \<times> hub" where
  "demo_post = PostMessage (\<lambda>s. s) demo_enc demo_db (demo_env 1000) demo_os ''global:'' ''t'' ''bob''
     (demo_input ''k1'' ''hello'') (demo_bytes 1) (demo_bytes 2) demo_topic_hub"

text \<open>The database after that post, written out, and after its revision.\<close>

definition demo_message_id :: string where
  "demo_message_id = ''01010101010101010101010101010101''"

definition demo_posted :: "string \<Rightarrow> int \<Rightarrow> int \<Rightarrow> string option \<Rightarrow> publication_row" where
  "demo_posted e n at key = \<lparr>pb_entry = e, pb_scope = ''g'', pb_topic = ''t'', pb_actor = ''bob'', pb_kind = ''message'',
     pb_sequence = n, pb_committed_at = at, pb_occurred_at = None, pb_expires_at = None, pb_source_refs = JText [],
     pb_correlation_refs = JText [], pb_key = key\<rparr>"

definition demo_head :: "int \<Rightarrow> string \<Rightarrow> head_row" where
  "demo_head n e = \<lparr>hd_message = demo_message_id, hd_scope = ''g'', hd_topic = ''t'', hd_author = ''bob'',
     hd_revision = n, hd_entry = e, hd_pinned = False\<rparr>"

definition demo_revision_row :: "int \<Rightarrow> string \<Rightarrow> string \<Rightarrow> revision_row" where
  "demo_revision_row n e text = \<lparr>rv_message = demo_message_id, rv_scope = ''g'', rv_topic = ''t'', rv_revision = n,
     rv_entry = e, rv_text = text, rv_expires_at = None\<rparr>"

definition demo_one :: hub where
  "demo_one = demo_topic_hub\<lparr>counters := [\<lparr>ct_scope = ''g'', ct_next = 2\<rparr>],
     publications := [demo_posted ''02020202020202020202020202020202'' 1 1000 (Some ''k1'')],
     heads := [demo_head 1 ''02020202020202020202020202020202''],
     revisions := [demo_revision_row 1 ''02020202020202020202020202020202'' ''hello''],
     idems := [\<lparr>ik_scope = ''g'', ik_topic = ''t'', ik_actor = ''bob'', ik_key = ''k1'', ik_fingerprint = ''hello'',
       ik_entry = ''02020202020202020202020202020202''\<rparr>]\<rparr>"

definition demo_two :: hub where
  "demo_two = demo_one\<lparr>counters := [\<lparr>ct_scope = ''g'', ct_next = 3\<rparr>],
     publications := publications demo_one @ [demo_posted ''03030303030303030303030303030303'' 2 1500 None],
     heads := [demo_head 2 ''03030303030303030303030303030303''],
     revisions := revisions demo_one @ [demo_revision_row 2 ''03030303030303030303030303030303'' ''hello again'']\<rparr>"

lemma demo_post_hub: "snd demo_post = demo_one"
  by code_simp

lemma demo_post_ok:
  "PostMessage (\<lambda>s. s) demo_enc demo_db (demo_env 1000) demo_os ''global:'' ''t'' ''bob''
     (demo_input ''k1'' ''hello'') (demo_bytes 1) (demo_bytes 2) demo_topic_hub = (Inr (projr (fst demo_post)), demo_one)"
proof -
  have "\<not> isl (fst demo_post)" by code_simp
  from run_okD[OF this] show ?thesis by (simp add: demo_post_def demo_post_hub[unfolded demo_post_def])
qed

text \<open>
  A new post takes the next sequence of its scope and nothing else: when \<open>PostMessage\<close>
  returns a message that is not a replay, the actor is enrolled, the topic is active at the
  commit, the message carries revision 1, the given text and the sequence the scope's counter held, the counter
  is one higher, the counters of the other scopes are unchanged, and the publications are
  the earlier ones followed by the new one.
\<close>

theorem post_appends:
  assumes "PostMessage sha enc d env os path tid actorID inp r1 r2 h = (Inr m, h')"
    and "\<not> pu_Replayed (me_Publication m)"
  shows "\<exists>scope p topic. actor_exists h actorID
    \<and> selectTopic h scope tid (env_now env) = Inr topic \<and> to_State topic = ''active''
    \<and> pu_Sequence (me_Publication m) = next_of h scope \<and> next_of h' scope = next_of h scope + 1
    \<and> (\<forall>s. s \<noteq> scope \<longrightarrow> next_of h' s = next_of h s)
    \<and> publications h' = publications h @ [p] \<and> scanPublication p = Inr (me_Publication m) \<and> pb_scope p = scope
    \<and> me_Revision m = 1 \<and> me_Text m = mi_Text inp"
proof -
  from assms(1) obtain ev where
    "postMessage_body os ev tid actorID (normalizeMessageInput inp)
       (fingerprint sha enc (normalizeMessageInput inp) '''' 0 True) r1 r2 h (env_now env) = Inr (m, h')"
    by (rule PostMessage_Inr)
  then show ?thesis
  proof (cases rule: postMessage_body_cases)
    case (1 scope)
    with assms(2) show ?thesis by (auto dest: replayMessage_replayed)
  next
    case (2 scope topic expiry messageID)
    show ?thesis
    proof (rule appendMessage_Inr[OF 2(7)])
      fix entryID cs n
      assume n: "n = next_of h scope" "next_of h' scope = n + 1" "\<And>s. s \<noteq> scope \<Longrightarrow> next_of h' s = next_of h s"
        and h': "h' = h\<lparr>counters := cs,
           publications := publications h @ [message_publication (env_now env) scope tid actorID (normalizeMessageInput inp) expiry entryID n],
           heads := heads_after scope tid actorID messageID 1 entryID (heads h),
           revisions := revisions h @ [message_revision messageID scope tid 1 entryID (normalizeMessageInput inp) expiry],
           idems := idems_after scope tid actorID (mi_IdempotencyKey (normalizeMessageInput inp))
             (fingerprint sha enc (normalizeMessageInput inp) '''' 0 True) entryID (idems h)\<rparr>"
        and m: "messageByEntry ErrScan h' entryID = Inr m"
        and p: "find_publication h' entryID
          = Some (message_publication (env_now env) scope tid actorID (normalizeMessageInput inp) expiry entryID n)"
        and r: "find_revision h' entryID
          = Some (message_revision messageID scope tid 1 entryID (normalizeMessageInput inp) expiry)"
      let ?p = "message_publication (env_now env) scope tid actorID (normalizeMessageInput inp) expiry entryID n"
      from m p r have s: "scanPublication ?p = Inr (me_Publication m)" "me_Revision m = 1" "me_Text m = mi_Text inp"
        by (auto simp: messageByEntry_def scanMessage_def Let_def message_revision_def)
      have "pu_Sequence (me_Publication m) = n" using scanPublication_Inr(1)[OF s(1)] by (simp add: message_publication_def)
      with 2 n s show ?thesis
        by (intro exI[of _ scope] exI[of _ ?p] exI[of _ topic]) (auto simp: h' message_publication_def)
    qed simp
  qed
qed

text \<open>
  C31: A retry of a keyed post is answered, not repeated: after a post with an idempotency key
  has succeeded, the same request (with whatever fresh random bytes, at any later clock)
  returns the same message marked as replayed and leaves the database as it is.
\<close>

theorem post_retry_is_idempotent:
  assumes "PostMessage sha enc d env os path tid actorID inp r1 r2 h = (Inr m, h1)"
    and "mi_IdempotencyKey inp \<noteq> ''''" and "admit d env' h1 = Inr ()" and "commit_fault env' = None"
  shows "PostMessage sha enc d env' os path tid actorID inp r1' r2' h1 = (Inr (as_replay m), h1)"
proof -
  from assms(1) obtain ev where ev: "resolve os path = Inr ev" "\<not> readOnly d" "expectedAuthority d (mi_AuthorityID inp) = Inr ()"
    "validateMessageInput inp = Inr ()"
    and body: "postMessage_body os ev tid actorID (normalizeMessageInput inp)
       (fingerprint sha enc (normalizeMessageInput inp) '''' 0 True) r1 r2 h (env_now env) = Inr (m, h1)"
    by (rule PostMessage_Inr)
  from posted_key[OF body] assms(2) obtain scope r m0 where k: "boundScope os h1 ev = Inr scope" "actor_exists h1 actorID"
    "find_idem h1 scope tid actorID (mi_IdempotencyKey inp) = Some r"
    "ik_fingerprint r = fingerprint sha enc (normalizeMessageInput inp) '''' 0 True"
    "messageByEntry ErrScan h1 (ik_entry r) = Inr m0" "as_replay m = as_replay m0"
    by auto
  have "replayMessage h1 scope tid actorID (mi_IdempotencyKey inp)
      (fingerprint sha enc (normalizeMessageInput inp) '''' 0 True) = Inr (Some (as_replay m))"
    using k assms(2) by (auto simp: replayMessage_Some)
  then have "postMessage_body os ev tid actorID (normalizeMessageInput inp)
       (fingerprint sha enc (normalizeMessageInput inp) '''' 0 True) r1' r2' h1 (env_now env') = Inr (as_replay m, h1)"
    using k by (simp add: postMessage_body_def)
  then show ?thesis
    using ev assms(3,4) by (auto simp: PostMessage_def guarded_write_Inr_iff write_Inr_iff Let_def)
qed

theorem post_retry_is_idempotent_witness:
  "PostMessage (\<lambda>s. s) demo_enc demo_db (demo_env 9000) demo_os ''global:'' ''t'' ''bob''
     (demo_input ''k1'' ''hello'') (demo_bytes 7) (demo_bytes 8) demo_one
   = (Inr (as_replay (projr (fst demo_post))), demo_one)"
proof (rule post_retry_is_idempotent[OF demo_post_ok])
  show "mi_IdempotencyKey (demo_input ''k1'' ''hello'') \<noteq> ''''" by (simp add: demo_input_def)
  show "admit demo_db (demo_env 9000) demo_one = Inr ()" by code_simp
  show "commit_fault (demo_env 9000) = None" by (simp add: demo_env_def)
qed

text \<open>
  A key names one intent: after a keyed post has succeeded, a valid request of the same
  actor for the same topic with the same key but another fingerprint is refused with
  \<open>ErrIdempotencyConflict\<close> and changes nothing.
\<close>

theorem key_reuse_conflicts:
  assumes "PostMessage sha enc d env os path tid actorID inp r1 r2 h = (Inr m, h1)"
    and "mi_IdempotencyKey inp \<noteq> ''''" and "admit d env' h1 = Inr ()"
    and "mi_IdempotencyKey inp' = mi_IdempotencyKey inp" and "mi_AuthorityID inp' = mi_AuthorityID inp"
    and "validateMessageInput inp' = Inr ()"
    and "fingerprint sha enc (normalizeMessageInput inp') '''' 0 True \<noteq> fingerprint sha enc (normalizeMessageInput inp) '''' 0 True"
  shows "PostMessage sha enc d env' os path tid actorID inp' r1' r2' h1 = (Inl ErrIdempotencyConflict, h1)"
proof -
  from assms(1) obtain ev where ev: "resolve os path = Inr ev" "\<not> readOnly d" "expectedAuthority d (mi_AuthorityID inp) = Inr ()"
    and body: "postMessage_body os ev tid actorID (normalizeMessageInput inp)
       (fingerprint sha enc (normalizeMessageInput inp) '''' 0 True) r1 r2 h (env_now env) = Inr (m, h1)"
    by (rule PostMessage_Inr)
  obtain scope r m0 where k: "boundScope os h1 ev = Inr scope" "actor_exists h1 actorID"
    "find_idem h1 scope tid actorID (mi_IdempotencyKey inp) = Some r"
    "ik_fingerprint r = fingerprint sha enc (normalizeMessageInput inp) '''' 0 True"
    using posted_key[OF body] assms(2) by (metis normalize_key(1))
  have "postMessage_body os ev tid actorID (normalizeMessageInput inp')
       (fingerprint sha enc (normalizeMessageInput inp') '''' 0 True) r1' r2' h1 (env_now env') = Inl ErrIdempotencyConflict"
    using k assms(2,4,7) by (simp add: postMessage_body_def replayMessage_def enrolled_def)
  then show ?thesis
    using ev assms(3,5,6)
    by (simp add: PostMessage_def guarded_write_def hub_write_def classifySQLite_def Let_def)
qed

theorem key_reuse_conflicts_witness:
  "PostMessage (\<lambda>s. s) demo_enc demo_db (demo_env 9000) demo_os ''global:'' ''t'' ''bob''
     (demo_input ''k1'' ''other'') (demo_bytes 7) (demo_bytes 8) demo_one
   = (Inl ErrIdempotencyConflict, demo_one)"
proof (rule key_reuse_conflicts[OF demo_post_ok])
  show "admit demo_db (demo_env 9000) demo_one = Inr ()" by code_simp
  show "validateMessageInput (demo_input ''k1'' ''other'') = Inr ()" by code_simp
  show "fingerprint (\<lambda>s. s) demo_enc (normalizeMessageInput (demo_input ''k1'' ''other'')) '''' 0 True
     \<noteq> fingerprint (\<lambda>s. s) demo_enc (normalizeMessageInput (demo_input ''k1'' ''hello'')) '''' 0 True" by code_simp
qed (simp_all add: demo_input_def)
lemma find_head_in_SomeD:
  "find_head_in h scope tid mid = Some r \<Longrightarrow> r \<in> set (heads h) \<and> hd_scope r = scope \<and> hd_topic r = tid \<and> hd_message r = mid"
  by (auto simp: find_head_in_def dest!: find_SomeD_conj)

lemma find_head_unique:
  assumes "distinct (map hd_message (heads h))" and "r \<in> set (heads h)"
  shows "find_head h (hd_message r) = Some r"
  unfolding find_head_def by (rule find_map_keys[OF assms])

text \<open>What a revision that is not a replay does.\<close>

lemma revise_new:
  assumes "ReviseMessage sha enc d env os path tid messageID actorID inp rid h = (Inr m, h')"
    and "\<not> pu_Replayed (me_Publication m)"
  obtains scope r entryID n expiry where "find_head_in h scope tid messageID = Some r"
    "hd_author r = actorID" "hd_revision r = mr_ExpectedRevision inp" "1 \<le> mr_ExpectedRevision inp"
    "heads h' = update_where (\<lambda>r. hd_message r = messageID)
       (\<lambda>r. r\<lparr>hd_revision := mr_ExpectedRevision inp + 1, hd_entry := entryID, hd_pinned := False\<rparr>) (heads h)"
    "revisions h' = revisions h @ [message_revision messageID scope tid (mr_ExpectedRevision inp + 1) entryID
       (normalizeMessageInput (mr_Input inp)) expiry]"
    "publications h' = publications h @ [message_publication (env_now env) scope tid actorID
       (normalizeMessageInput (mr_Input inp)) expiry entryID n]" "n = next_of h scope"
    "messageByEntry ErrScan h' entryID = Inr m"
    "find_revision h' entryID = Some (message_revision messageID scope tid (mr_ExpectedRevision inp + 1) entryID
       (normalizeMessageInput (mr_Input inp)) expiry)"
proof -
  from assms(1) obtain ev inp' where inp': "inp' = inp\<lparr>mr_Input := normalizeMessageInput (mr_Input inp)\<rparr>"
    and one: "1 \<le> mr_ExpectedRevision inp" and
    body: "reviseMessage_body os ev tid messageID actorID inp'
       (fingerprint sha enc (mr_Input inp') messageID (mr_ExpectedRevision inp') (mr_ChangeExpiry inp')) rid h (env_now env)
       = Inr (m, h')"
    by (rule ReviseMessage_Inr)
  from body show thesis
  proof (cases rule: reviseMessage_body_cases)
    case (1 scope)
    with assms(2) show thesis by (auto dest: replayMessage_replayed)
  next
    case (2 scope topic r expiry)
    have rev: "hd_revision r + 1 = mr_ExpectedRevision inp + 1" using 2(6) by (simp add: inp')
    have pos: "1 \<le> mr_ExpectedRevision inp + 1" "mr_ExpectedRevision inp + 1 \<noteq> 1" using one by auto
    show thesis
      by (rule appendMessage_Inr[OF 2(7)[unfolded rev] pos(1)], rule that[OF 2(4,5)])
        (use 2(6) one pos in \<open>auto simp: inp' heads_after_def\<close>)
  qed
qed

text \<open>
  A revision is an append by the author: when \<open>ReviseMessage\<close> returns a message that is
  not a replay, the caller is the message's author and named its current revision, the new
  revision is one higher and unpinned and carries the given text, the head points at it and its pin is cleared,
  and every earlier revision and publication is still there in front of the new ones.
\<close>

theorem revise_advances:
  assumes "ReviseMessage sha enc d env os path tid messageID actorID inp rid h = (Inr m, h')"
    and "\<not> pu_Replayed (me_Publication m)" and "distinct (map hd_message (heads h))"
  shows "\<exists>scope r. find_head_in h scope tid messageID = Some r \<and> hd_author r = actorID
    \<and> hd_revision r = mr_ExpectedRevision inp
    \<and> me_Revision m = mr_ExpectedRevision inp + 1 \<and> me_Text m = mi_Text (mr_Input inp) \<and> \<not> me_Pinned m
    \<and> find_head h' messageID = Some (r\<lparr>hd_revision := mr_ExpectedRevision inp + 1,
         hd_entry := pu_EntryID (me_Publication m), hd_pinned := False\<rparr>)
    \<and> (\<exists>rv. revisions h' = revisions h @ [rv]) \<and> (\<exists>p. publications h' = publications h @ [p])"
proof (rule revise_new[OF assms(1,2)])
  fix scope r entryID n expiry
  let ?f = "\<lambda>r. r\<lparr>hd_revision := mr_ExpectedRevision inp + 1, hd_entry := entryID, hd_pinned := False\<rparr>"
  assume r: "find_head_in h scope tid messageID = Some r" "hd_author r = actorID" "hd_revision r = mr_ExpectedRevision inp"
    and hs: "heads h' = update_where (\<lambda>r. hd_message r = messageID) ?f (heads h)"
    and rs: "revisions h' = revisions h @ [message_revision messageID scope tid (mr_ExpectedRevision inp + 1) entryID
       (normalizeMessageInput (mr_Input inp)) expiry]"
    and ps: "publications h' = publications h @ [message_publication (env_now env) scope tid actorID
       (normalizeMessageInput (mr_Input inp)) expiry entryID n]"
    and m: "messageByEntry ErrScan h' entryID = Inr m"
    and fr: "find_revision h' entryID = Some (message_revision messageID scope tid (mr_ExpectedRevision inp + 1) entryID
       (normalizeMessageInput (mr_Input inp)) expiry)"
  have "find_head h messageID = Some r"
    using find_head_unique[OF assms(3)] find_head_in_SomeD[OF r(1)] by auto
  then have head: "find_head h' messageID = Some (?f r)"
    using find_head_in_SomeD[OF r(1)] by (simp add: find_head_def hs find_update_where)
  from m fr head obtain p where p: "scanPublication p = Inr (me_Publication m)" "pb_entry p = entryID"
    and out: "me_Revision m = mr_ExpectedRevision inp + 1" "me_Text m = mi_Text (mr_Input inp)" "\<not> me_Pinned m"
    by (auto simp: messageByEntry_def scanMessage_def Let_def message_revision_def find_publication_def dest!: find_SomeD_conj)
  show ?thesis
    using r head out rs ps scanPublication_Inr(2)[OF p(1)] p(2) by auto
qed

text \<open>
  Compare-and-swap on the revision: once a revision has succeeded, no other revision of
  the message with the same expected revision, by anyone, with any content, makes a new
  revision: it fails, or answers an earlier keyed request, and in both cases changes nothing.
\<close>

theorem revise_one_winner:
  assumes "ReviseMessage sha enc d env os path tid messageID actorID inp rid h = (Inr m, h1)"
    and "\<not> pu_Replayed (me_Publication m)"
    and "mr_ExpectedRevision inp' = mr_ExpectedRevision inp"
    and "ReviseMessage sha enc d env' os' path' tid messageID actorID' inp' rid' h1 = (result, h2)"
  shows "h2 = h1 \<and> (\<forall>m'. result = Inr m' \<longrightarrow> pu_Replayed (me_Publication m'))"
proof (cases result)
  case (Inl e)
  with assms(4) show ?thesis by (auto simp: ReviseMessage_def dest: guarded_write_Inl)
next
  case (Inr m')
  show ?thesis
  proof (cases "pu_Replayed (me_Publication m')")
    case True
    from assms(4)[unfolded Inr] obtain ev inp'' where
      body: "reviseMessage_body os' ev tid messageID actorID' inp''
        (fingerprint sha enc (mr_Input inp'') messageID (mr_ExpectedRevision inp'') (mr_ChangeExpiry inp'')) rid' h1 (env_now env')
        = Inr (m', h2)" and "inp'' = inp'\<lparr>mr_Input := normalizeMessageInput (mr_Input inp')\<rparr>" "1 \<le> mr_ExpectedRevision inp'"
      by (rule ReviseMessage_Inr)
    from body have "h2 = h1"
    proof (cases rule: reviseMessage_body_cases)
      case (2 scope topic r expiry)
      have "1 \<le> hd_revision r + 1" using 2(6) \<open>1 \<le> mr_ExpectedRevision inp'\<close> \<open>inp'' = _\<close> by simp
      from 2(7) this show ?thesis
        by (rule appendMessage_Inr) (use True messageByEntry_fresh in blast)
    qed
    with True Inr show ?thesis by simp
  next
    case False
    obtain entryID where hs: "heads h1 = update_where (\<lambda>r. hd_message r = messageID)
       (\<lambda>r. r\<lparr>hd_revision := mr_ExpectedRevision inp + 1, hd_entry := entryID, hd_pinned := False\<rparr>) (heads h)"
      by (rule revise_new[OF assms(1,2)])
    obtain scope r where r: "find_head_in h1 scope tid messageID = Some r" "hd_revision r = mr_ExpectedRevision inp'"
      by (rule revise_new[OF assms(4)[unfolded Inr] False])
    from find_head_in_SomeD[OF r(1)] have rin: "r \<in> set (heads h1)" and rm: "hd_message r = messageID" by auto
    from rin[unfolded hs set_update_where] obtain x where
      x: "r = (if hd_message x = messageID
        then x\<lparr>hd_revision := mr_ExpectedRevision inp + 1, hd_entry := entryID, hd_pinned := False\<rparr> else x)"
      by blast
    have "hd_revision r = mr_ExpectedRevision inp + 1"
      using x rm by (cases "hd_message x = messageID") simp_all
    with r(2) assms(3) show ?thesis by simp
  qed
qed

section \<open>Properties: votes\<close>

lemma filter_update_where:
  assumes "\<And>r. Q (f r) = Q r"
  shows "filter Q (update_where P f rows) = update_where P f (filter Q rows)"
  by (induction rows) (simp_all add: update_where_def assms)

lemma update_where_none: "\<forall>r \<in> set rows. \<not> P r \<Longrightarrow> update_where P f rows = rows"
  by (induction rows) (simp_all add: update_where_def)

lemma vote_at_update [simp]: "vote_at m n a (v\<lparr>vt_value := x\<rparr>) = vote_at m n a v"
  by (simp add: vote_at_def)

definition own_votes :: "hub \<Rightarrow> string \<Rightarrow> int \<Rightarrow> string \<Rightarrow> int list" where
  "own_votes h m n a = map vt_value (filter (vote_at m n a) (votes h))"

definition other_votes :: "hub \<Rightarrow> string \<Rightarrow> int \<Rightarrow> string \<Rightarrow> vote_row list" where
  "other_votes h m n a = filter (\<lambda>v. \<not> vote_at m n a v) (votes h)"

lemma own_votes_length:
  assumes "distinct (map (\<lambda>v. (vt_message v, vt_revision v, vt_actor v)) (votes h))"
  shows "length (own_votes h m n a) \<le> 1"
  using rows_affected_one[OF assms, of "vote_at m n a" "(m, n, a)"]
  by (simp add: own_votes_def rows_affected_def vote_at_def)

lemma cast_vote_Inr:
  assumes "cast_vote m n a value h = Inr h'"
    and "distinct (map (\<lambda>v. (vt_message v, vt_revision v, vt_actor v)) (votes h))"
  shows "own_votes h' m n a = (if value = 0 then [] else [value]) \<and> other_votes h' m n a = other_votes h m n a
    \<and> h' = h\<lparr>votes := votes h'\<rparr>"
proof (cases "value = 0")
  case True
  with assms(1) show ?thesis
    by (auto simp: cast_vote_def own_votes_def other_votes_def delete_where_def filter_empty_conv)
next
  case False
  let ?r = "\<lparr>vt_message = m, vt_revision = n, vt_actor = a, vt_value = value\<rparr>"
  have h': "h' = h\<lparr>votes := (if \<exists>v \<in> set (votes h). vote_at m n a v
      then update_where (vote_at m n a) (\<lambda>v. v\<lparr>vt_value := value\<rparr>) (votes h) else votes h @ [?r])\<rparr>"
    using assms(1) False by (simp add: cast_vote_def upsert_vote_def Let_def)
  show ?thesis
  proof (cases "\<exists>v \<in> set (votes h). vote_at m n a v")
    case True
    then have "filter (vote_at m n a) (votes h) \<noteq> []" by (auto simp: filter_empty_conv)
    moreover have "length (filter (vote_at m n a) (votes h)) \<le> 1"
      using own_votes_length[OF assms(2), of m n a] by (simp add: own_votes_def)
    ultimately obtain v where v: "filter (vote_at m n a) (votes h) = [v]"
      by (cases "filter (vote_at m n a) (votes h)") auto
    then have "vote_at m n a v" by (metis filter_eq_ConsD)
    with v True False show ?thesis
      by (simp add: h' own_votes_def other_votes_def filter_update_where update_where_none)
        (simp add: update_where_def)
  next
    case no: False
    then have "filter (vote_at m n a) (votes h) = []" by (auto simp: filter_empty_conv)
    with no False show ?thesis by (simp add: h' own_votes_def other_votes_def) (simp add: vote_at_def)
  qed
qed

lemma score_sum:
  assumes "\<forall>v \<in> set vs. vt_value v \<in> {-1, 1}"
  shows "int (length (filter (\<lambda>v. P v \<and> vt_value v = 1) vs)) - int (length (filter (\<lambda>v. P v \<and> vt_value v = -1) vs))
    = sum_list (map vt_value (filter P vs))"
  using assms by (induction vs) auto

lemma message_score_counts:
  assumes "\<forall>v \<in> set (votes h). vt_value v \<in> {-1, 1}"
  shows "vote_count h m n 1 - vote_count h m n (- 1) = message_score h m n"
  using score_sum[OF assms, of "\<lambda>v. vt_message v = m \<and> vt_revision v = n"]
  by (simp add: vote_count_def message_score_def conj_assoc)

lemma cast_vote_values:
  assumes "cast_vote m n a value h = Inr h'" and "\<forall>v \<in> set (votes h). vt_value v \<in> {-1, 1}"
  shows "\<forall>v \<in> set (votes h'). vt_value v \<in> {-1, 1}"
  using assms by (auto simp: cast_vote_def upsert_vote_def Let_def delete_where_def set_update_where split: if_splits)

text \<open>
  A vote replaces the voter's earlier vote: after \<open>VoteMessage\<close> the actor has exactly the
  one vote just cast on that revision (none for value 0), the votes of everyone else on
  everything are as before, no other table changed, and the score the call returns is the sum
  of the votes stored.
\<close>

theorem vote_replaces:
  assumes "VoteMessage d env os path tid mid actorID authority revision value h = (Inr m, h')"
    and "distinct (map (\<lambda>v. (vt_message v, vt_revision v, vt_actor v)) (votes h))"
    and "\<forall>v \<in> set (votes h). vt_value v \<in> {-1, 1}"
  shows "own_votes h' mid revision actorID = (if value = 0 then [] else [value])
    \<and> other_votes h' mid revision actorID = other_votes h mid revision actorID
    \<and> h' = h\<lparr>votes := votes h'\<rparr>
    \<and> me_Score m = message_score h' (me_MessageID m) (me_Revision m)"
proof -
  from assms(1) obtain ev e where c: "cast_vote mid revision actorID value h = Inr h'"
    and out: "messageByEntry ErrScan h' e = Inr m"
    by (auto simp: VoteMessage_def guarded_write_Inr_iff write_Inr_iff voteMessage_body_def)
  have "me_Score m = vote_count h' (me_MessageID m) (me_Revision m) 1 - vote_count h' (me_MessageID m) (me_Revision m) (- 1)"
    using out by (auto simp: messageByEntry_def scanMessage_def Let_def)
  with cast_vote_Inr[OF c assms(2)] message_score_counts[OF cast_vote_values[OF c assms(3)]] show ?thesis by simp
qed

end
