(* ===== verification/Events.thy ===== *)
theory Events
  imports Messages
begin

text \<open>
  \<open>internal/hubstore/event.go\<close>: JSON documents decoded without ambiguity, the policy on
  schema keywords, registration and retirement of event schemas, and the publication of
  events validated by a registered schema. The JSON lexer and \<open>json.Marshal\<close>, SHA-256 and the
  third-party schema compiler are parameters.
\<close>

section \<open>JSON\<close>

datatype json =
    JNull | JBool bool | JNumber string | JString string
  | JArray "json list" | JObject "(string \<times> json) list"

text \<open>
  The tokens of \<open>json.Decoder\<close>; \<open>TScalar\<close> carries a value that is not composite, \<open>TErr\<close> is
  the point where the decoder reports malformed input, the end of the list is \<open>io.EOF\<close>.
\<close>

datatype jtoken = TOpenObj | TCloseObj | TOpenArr | TCloseArr | TScalar json | TErr

text \<open>
  \<open>decodeValue\<close> and its two loops; the node counter is threaded. The comparison of lengths in
  the loops holds always (\<open>decode_shorter\<close>): the recursion consumes tokens.
\<close>

function (sequential)
      decodeValue :: "int \<Rightarrow> int \<Rightarrow> int \<Rightarrow> int \<Rightarrow> jtoken list \<Rightarrow> err + (json \<times> int \<times> jtoken list)"
  and decodeMembers :: "int \<Rightarrow> int \<Rightarrow> int \<Rightarrow> int \<Rightarrow> (string \<times> json) list \<Rightarrow> jtoken list \<Rightarrow> err + (json \<times> int \<times> jtoken list)"
  and decodeElems :: "int \<Rightarrow> int \<Rightarrow> int \<Rightarrow> int \<Rightarrow> json list \<Rightarrow> jtoken list \<Rightarrow> err + (json \<times> int \<times> jtoken list)"
where
  "decodeValue depth maxDepth nodes maxNodes ts =
     bindE (requireE (\<not> (depth > maxDepth \<or> nodes + 1 > maxNodes)) ErrInvalidInput) (\<lambda>_.
       (case ts of
          [] \<Rightarrow> Inl ErrInvalidInput
        | TOpenObj # r \<Rightarrow> decodeMembers depth maxDepth (nodes + 1) maxNodes [] r
        | TOpenArr # r \<Rightarrow> decodeElems depth maxDepth (nodes + 1) maxNodes [] r
        | TScalar v # r \<Rightarrow> Inr (v, nodes + 1, r)
        | _ \<Rightarrow> Inl ErrInvalidInput))"
| "decodeMembers depth maxDepth nodes maxNodes obj ts =
     (case ts of
        TCloseObj # r \<Rightarrow> Inr (JObject obj, nodes, r)
      | TScalar (JString key) # r \<Rightarrow>
          if key \<in> fst ` set obj then Inl ErrInvalidInput
          else bindE (decodeValue (depth + 1) maxDepth nodes maxNodes r) (\<lambda>(v, nodes', r').
                 if length r' < length r then decodeMembers depth maxDepth nodes' maxNodes (obj @ [(key, v)]) r'
                 else Inl ErrInvalidInput)
      | _ \<Rightarrow> Inl ErrInvalidInput)"
| "decodeElems depth maxDepth nodes maxNodes arr ts =
     (case ts of
        TCloseArr # r \<Rightarrow> Inr (JArray arr, nodes, r)
      | TCloseObj # r \<Rightarrow> Inl ErrInvalidInput
      | _ \<Rightarrow> bindE (decodeValue (depth + 1) maxDepth nodes maxNodes ts) (\<lambda>(v, nodes', r').
               if length r' < length ts then decodeElems depth maxDepth nodes' maxNodes (arr @ [v]) r'
               else Inl ErrInvalidInput))"
  by pat_completeness auto
termination
  by (relation "measure (\<lambda>x. case x of
        Inl (_, _, _, _, ts) \<Rightarrow> 2 * length ts
      | Inr (Inl (_, _, _, _, _, ts)) \<Rightarrow> 2 * length ts + 1
      | Inr (Inr (_, _, _, _, _, ts)) \<Rightarrow> 2 * length ts + 1)") auto

declare decodeValue.simps [simp del] decodeMembers.simps [simp del] decodeElems.simps [simp del]

definition decodeUnique ::
  "(string \<Rightarrow> jtoken list) \<Rightarrow> (json \<Rightarrow> string) \<Rightarrow> string \<Rightarrow> int \<Rightarrow> int \<Rightarrow> int \<Rightarrow> err + (json \<times> string)" where
  "decodeUnique lexer marshal raw maxBytes maxDepth maxNodes =
     bindE (requireE (\<not> (length raw = 0 \<or> int (length raw) > maxBytes \<or> \<not> valid_utf8 raw)) ErrInvalidInput) (\<lambda>_.
     bindE (decodeValue 0 maxDepth 0 maxNodes (lexer raw)) (\<lambda>(v, nodes, rest).
     bindE (requireE (rest = []) ErrInvalidInput) (\<lambda>_.
       Inr (v, marshal v))))"

section \<open>Schema policy\<close>

definition EventDialect :: string where
  "EventDialect = ''https://json-schema.org/draft/2020-12/schema''"

definition unsupported_keywords :: "string list" where
  "unsupported_keywords = [''$ref'', ''$dynamicRef'', ''$recursiveRef'', ''$id'', ''$vocabulary'', ''allOf'',
     ''anyOf'', ''oneOf'', ''not'', ''if'', ''then'', ''else'', ''contains'', ''uniqueItems'',
     ''unevaluatedProperties'', ''unevaluatedItems'', ''patternProperties'', ''dependentSchemas'']"

lemma forE_cong [fundef_cong]:
  "xs = ys \<Longrightarrow> (\<And>x. x \<in> set ys \<Longrightarrow> f x = g x) \<Longrightarrow> forE f xs = forE g ys"
proof (induction ys arbitrary: xs)
  case (Cons y ys)
  then have "forE f ys = forE g ys" "f y = g y" by simp_all
  then show ?case using Cons.prems(1) by simp
qed simp

lemma size_object_member: "(k, v) \<in> set ms \<Longrightarrow> size v < Suc (size_list (size_prod (\<lambda>_. 0) size) ms)"
  by (induction ms) auto

lemma size_array_member: "(v :: json) \<in> set vs \<Longrightarrow> size v < Suc (size_list size vs)"
  by (induction vs) auto

function (sequential) checkSchemaPolicy :: "json \<Rightarrow> bool \<Rightarrow> err + unit" where
  "checkSchemaPolicy (JObject members) root =
     forE (\<lambda>(k, item).
       if k \<in> set unsupported_keywords then Inl ErrUnsupportedSchema
       else if k = ''$schema'' then requireE (root \<and> item = JString EventDialect) ErrUnsupportedSchema
       else if k \<in> {''properties'', ''$defs''} then
         (case item of
            JObject children \<Rightarrow> forE (\<lambda>(_, child). checkSchemaPolicy child False) children
          | _ \<Rightarrow> Inr ())
       else if k \<in> {''items'', ''additionalProperties'', ''propertyNames''} then checkSchemaPolicy item False
       else if k = ''prefixItems'' then
         (case item of
            JArray children \<Rightarrow> forE (\<lambda>child. checkSchemaPolicy child False) children
          | _ \<Rightarrow> Inr ())
       else Inr ()) members"
| "checkSchemaPolicy _ root = Inr ()"
  by pat_completeness auto
termination
proof (relation "measure (\<lambda>(v, _). size v)", goal_cases)
  case 1
  show ?case by simp
next
  case (2 members root x k item children y c)
  then show ?case
    by (auto dest!: size_object_member)
next
  case (3 members root x k item)
  then show ?case by (auto dest!: size_object_member)
next
  case (4 members root x k item children y)
  then show ?case by (auto dest!: size_object_member size_array_member)
qed

text \<open>
  The third-party compiler and validator, and what the bounded worker does with a job: it
  ends, times out (or gets no slot in time), or the context is cancelled.
\<close>

record schema_engine =
  se_compile :: "json \<Rightarrow> bool"
  se_validate :: "json \<Rightarrow> json \<Rightarrow> bool"

datatype work_outcome = WorkDone | WorkTimeout | WorkCancelled err

definition boundedSchemaWork :: "work_outcome \<Rightarrow> err \<Rightarrow> err + 'a \<Rightarrow> err + 'a" where
  "boundedSchemaWork out timeoutError work = (case out of
     WorkDone \<Rightarrow> work | WorkTimeout \<Rightarrow> Inl timeoutError | WorkCancelled e \<Rightarrow> Inl e)"

definition compileEventSchema :: "schema_engine \<Rightarrow> json \<Rightarrow> err + json" where
  "compileEventSchema eng v = (if se_compile eng v then Inr v else Inl ErrSchemaInvalid)"

section \<open>Registered schemas\<close>

record eventSchema =
  sc_TopicID :: string
  sc_TypeKey :: string
  sc_Version :: int
  sc_Schema :: string
  sc_SHA256 :: string
  sc_RegisteredBy :: string
  sc_RegisteredAt :: gotime
  sc_RetiredBy :: string
  sc_RetiredAt :: "gotime option"

definition scanEventSchema :: "(string \<Rightarrow> string) \<Rightarrow> schema_row \<Rightarrow> err + eventSchema" where
  "scanEventSchema sha r =
     (if es_dialect r \<noteq> EventDialect \<or> es_sha256 r \<noteq> sha (es_json r) then Inl ErrUnsupportedFormat
      else Inr \<lparr>sc_TopicID = es_topic r, sc_TypeKey = es_type r, sc_Version = es_version r,
                sc_Schema = es_json r, sc_SHA256 = es_sha256 r, sc_RegisteredBy = es_registered_by r,
                sc_RegisteredAt = fromMillis (es_registered_at r),
                sc_RetiredBy = string_of_null (es_retired_by r),
                sc_RetiredAt = map_option fromMillis (es_retired_at r)\<rparr>)"

definition find_schema :: "hub \<Rightarrow> string \<Rightarrow> string \<Rightarrow> int \<Rightarrow> schema_row option" where
  "find_schema h tid key version = List.find (\<lambda>r. schema_key r = (tid, key, version)) (schemas h)"

definition bump_generation :: "string \<Rightarrow> hub \<Rightarrow> err + hub" where
  "bump_generation tid h = update_topic tid (\<lambda>r. r\<lparr>tp_generation := tp_generation r + 1\<rparr>) h"

definition registerEventSchema_body ::
  "(string \<Rightarrow> string) \<Rightarrow> os \<Rightarrow> repoEvidence \<Rightarrow> string \<Rightarrow> string \<Rightarrow> int \<Rightarrow> string \<Rightarrow> int \<Rightarrow> string \<Rightarrow> rand
     \<Rightarrow> hub \<Rightarrow> int \<Rightarrow> err + (eventSchema \<times> hub)" where
  "registerEventSchema_body sha os ev tid actorID expected typeKey version canonical rid h now =
     bindE (boundScope os h ev) (\<lambda>scope.
     bindE (topicForWrite h scope tid actorID expected now False) (\<lambda>topic.
     bindE (requireE (to_State topic = ''active'') ErrArchived) (\<lambda>_.
     bindE (mapErr uniqueOrOriginal (insert_schema
        \<lparr>es_topic = tid, es_type = typeKey, es_version = version, es_dialect = EventDialect, es_json = canonical,
         es_sha256 = sha canonical, es_registered_by = actorID, es_registered_at = now,
         es_retired_by = None, es_retired_at = None\<rparr> h)) (\<lambda>h1.
     bindE (bump_generation tid h1) (\<lambda>h2.
     bindE (optionE ErrScan (find_schema h2 tid typeKey version)) (\<lambda>r.
     bindE (scanEventSchema sha r) (\<lambda>out.
     bindE (appendAudit tid actorID ''register_event_schema'' now AuNull
              (AuRegister typeKey version (sc_SHA256 out)) rid h2) (\<lambda>h3.
       Inr (out, h3)))))))))"

definition RegisterEventSchema ::
  "(string \<Rightarrow> jtoken list) \<Rightarrow> (json \<Rightarrow> string) \<Rightarrow> (string \<Rightarrow> string) \<Rightarrow> schema_engine \<Rightarrow> work_outcome \<Rightarrow> db \<Rightarrow> env \<Rightarrow> os
     \<Rightarrow> string \<Rightarrow> string \<Rightarrow> string \<Rightarrow> int \<Rightarrow> string \<Rightarrow> int \<Rightarrow> string \<Rightarrow> rand \<Rightarrow> hub \<Rightarrow> (err + eventSchema) \<times> hub" where
  "RegisterEventSchema lexer marshal sha eng work d env os repoPath tid actorID expected typeKey version raw rid =
     guarded_write d env
       (bindE (requireE (\<not> (\<not> validTypeKey typeKey \<or> version < 1)) ErrInvalidInput) (\<lambda>_.
        bindE (mapErr (\<lambda>_. ErrSchemaInvalid) (decodeUnique lexer marshal raw (16 * 1024) 16 256)) (\<lambda>(v, canonical).
        bindE (requireE (case v of JObject _ \<Rightarrow> True | _ \<Rightarrow> False) ErrSchemaInvalid) (\<lambda>_.
        bindE (checkSchemaPolicy v True) (\<lambda>_.
        bindE (boundedSchemaWork work ErrUnsupportedSchema (compileEventSchema eng v)) (\<lambda>_.
        bindE (resolve os repoPath) (\<lambda>ev.
          Inr (registerEventSchema_body sha os ev tid actorID expected typeKey version canonical rid))))))))"

definition live_schema :: "string \<times> string \<times> int \<Rightarrow> schema_row \<Rightarrow> bool" where
  "live_schema k r \<longleftrightarrow> schema_key r = k \<and> es_retired_at r = None"

definition retire_schema :: "string \<times> string \<times> int \<Rightarrow> string \<Rightarrow> int \<Rightarrow> hub \<Rightarrow> err + hub" where
  "retire_schema k actorID now h = constraints True True True
     ((\<exists>r \<in> set (schemas h). live_schema k r) \<longrightarrow> actor_exists h actorID)
     (h\<lparr>schemas := update_where (live_schema k)
          (\<lambda>r. r\<lparr>es_retired_by := Some actorID, es_retired_at := Some now\<rparr>) (schemas h)\<rparr>)"

definition retireEventSchema_body ::
  "(string \<Rightarrow> string) \<Rightarrow> os \<Rightarrow> repoEvidence \<Rightarrow> string \<Rightarrow> string \<Rightarrow> int \<Rightarrow> string \<Rightarrow> int \<Rightarrow> rand \<Rightarrow> hub \<Rightarrow> int
     \<Rightarrow> err + (eventSchema \<times> hub)" where
  "retireEventSchema_body sha os ev tid actorID expected typeKey version rid h now =
     bindE (boundScope os h ev) (\<lambda>scope.
     bindE (topicForWrite h scope tid actorID expected now False) (\<lambda>topic.
     bindE (requireE (to_State topic = ''active'') ErrArchived) (\<lambda>_.
     bindE (retire_schema (tid, typeKey, version) actorID now h) (\<lambda>h1.
     bindE (requireE (rows_affected (live_schema (tid, typeKey, version)) (schemas h) \<noteq> 0) ErrVersionUnknown) (\<lambda>_.
     bindE (bump_generation tid h1) (\<lambda>h2.
     bindE (optionE ErrScan (find_schema h2 tid typeKey version)) (\<lambda>r.
     bindE (scanEventSchema sha r) (\<lambda>out.
     bindE (appendAudit tid actorID ''retire_event_schema'' now AuNull (AuRetire typeKey version) rid h2) (\<lambda>h3.
       Inr (out, h3))))))))))"

definition RetireEventSchema ::
  "(string \<Rightarrow> string) \<Rightarrow> db \<Rightarrow> env \<Rightarrow> os \<Rightarrow> string \<Rightarrow> string \<Rightarrow> string \<Rightarrow> int \<Rightarrow> string \<Rightarrow> int \<Rightarrow> rand \<Rightarrow> hub
     \<Rightarrow> (err + eventSchema) \<times> hub" where
  "RetireEventSchema sha d env os repoPath tid actorID expected typeKey version rid =
     guarded_write d env
       (bindE (resolve os repoPath) (\<lambda>ev.
          Inr (retireEventSchema_body sha os ev tid actorID expected typeKey version rid)))"

definition ShowEventSchema ::
  "(string \<Rightarrow> string) \<Rightarrow> os \<Rightarrow> string \<Rightarrow> string \<Rightarrow> string \<Rightarrow> int \<Rightarrow> hub \<Rightarrow> err + eventSchema" where
  "ShowEventSchema sha os repoPath tid typeKey version h =
     bindE (LookupRepo os repoPath h) (\<lambda>scope.
     bindE (requireE (topic_in_scope h (scope_ID scope) tid) ErrVersionUnknown) (\<lambda>_.
     bindE (optionE ErrVersionUnknown (find_schema h tid typeKey version)) (\<lambda>r.
       scanEventSchema sha r)))"

definition ListEventSchemas ::
  "(string \<Rightarrow> string) \<Rightarrow> os \<Rightarrow> string \<Rightarrow> string \<Rightarrow> int \<Rightarrow> int \<Rightarrow> hub \<Rightarrow> err + eventSchema list" where
  "ListEventSchemas sha os repoPath tid limit0 offset h =
     bindE (page_bounds (default_limit limit0) offset) (\<lambda>_.
     bindE (LookupRepo os repoPath h) (\<lambda>scope.
     bindE (requireE (topic_in_scope h (scope_ID scope) tid) ErrNotFound) (\<lambda>_.
       mapE (scanEventSchema sha)
         (page_of (default_limit limit0) offset
           (sort_key (\<lambda>r. (es_type r, es_version r)) (filter (\<lambda>r. es_topic r = tid) (schemas h)))))))"

section \<open>Events\<close>

record event =
  en_Publication :: publication
  en_TypeKey :: string
  en_Version :: int
  en_SchemaSHA256 :: string
  en_Payload :: string
  en_CorrectsEntryID :: string

record eventInput =
  ei_AuthorityID :: string
  ei_TypeKey :: string
  ei_Version :: int
  ei_Payload :: string
  ei_CorrectsEntryID :: string
  ei_ExpiresAt :: "gotime option"
  ei_OccurredAt :: "gotime option"
  ei_SourceRefs :: "source_ref list"
  ei_CorrelationRefs :: "string list"
  ei_IdempotencyKey :: string

definition find_event :: "hub \<Rightarrow> string \<Rightarrow> event_row option" where
  "find_event h e = List.find (\<lambda>r. ev_entry r = e) (events h)"

definition scanEvent :: "publication_row \<Rightarrow> event_row \<Rightarrow> err + event" where
  "scanEvent p e = bindE (scanPublication p) (\<lambda>pub.
     Inr \<lparr>en_Publication = pub, en_TypeKey = ev_type e, en_Version = ev_version e,
          en_SchemaSHA256 = ev_sha256 e, en_Payload = ev_payload e,
          en_CorrectsEntryID = string_of_null (ev_corrects e)\<rparr>)"

definition eventByEntry :: "err \<Rightarrow> hub \<Rightarrow> string \<Rightarrow> err + event" where
  "eventByEntry missing h entry =
     bindE (optionE missing (find_publication h entry)) (\<lambda>p.
     bindE (optionE missing (find_event h entry)) (\<lambda>e. scanEvent p e))"

definition ReadEvent :: "os \<Rightarrow> string \<Rightarrow> string \<Rightarrow> bool \<Rightarrow> gotime \<Rightarrow> hub \<Rightarrow> err + event" where
  "ReadEvent os repoPath entryID historical clk h =
     bindE (LookupRepo os repoPath h) (\<lambda>scope.
     bindE (optionE ErrNotFound (find_publication h entryID)) (\<lambda>p.
     bindE (requireE (pb_scope p = scope_ID scope) ErrNotFound) (\<lambda>_.
     bindE (eventByEntry ErrNotFound h entryID) (\<lambda>e.
     bindE (visible os repoPath (pu_TopicID (en_Publication e)) (pu_ExpiresAt (en_Publication e)) historical clk h) (\<lambda>_.
       Inr e)))))"

record eventIntent =
  ev_in_TypeKey :: string
  ev_in_Version :: int
  ev_in_Payload :: string
  ev_in_Corrects :: string
  ev_in_ExpiresAt :: "gotime option"
  ev_in_OccurredAt :: "gotime option"
  ev_in_Sources :: "source_ref list"
  ev_in_Correlations :: "string list"

definition eventFingerprint ::
  "(string \<Rightarrow> string) \<Rightarrow> (eventIntent \<Rightarrow> string) \<Rightarrow> eventInput \<Rightarrow> string \<Rightarrow> string" where
  "eventFingerprint sha enc inp canonical =
     sha (enc \<lparr>ev_in_TypeKey = ei_TypeKey inp, ev_in_Version = ei_Version inp, ev_in_Payload = canonical,
               ev_in_Corrects = ei_CorrectsEntryID inp, ev_in_ExpiresAt = ei_ExpiresAt inp,
               ev_in_OccurredAt = ei_OccurredAt inp, ev_in_Sources = ei_SourceRefs inp,
               ev_in_Correlations = ei_CorrelationRefs inp\<rparr>)"

definition mark_replayed :: "event \<Rightarrow> event" where
  "mark_replayed e = e\<lparr>en_Publication := (en_Publication e)\<lparr>pu_Replayed := True\<rparr>\<rparr>"

text \<open>The part of \<open>PublishEvent\<close> that needs no database: input checks, decoding, normalisation.\<close>

definition validateEventInput ::
  "(string \<Rightarrow> jtoken list) \<Rightarrow> (json \<Rightarrow> string) \<Rightarrow> db \<Rightarrow> eventInput \<Rightarrow> err + (eventInput \<times> json \<times> string)" where
  "validateEventInput lexer marshal d inp =
     bindE (expectedAuthority d (ei_AuthorityID inp)) (\<lambda>_.
     bindE (requireE (validTypeKey (ei_TypeKey inp) \<and> \<not> ei_Version inp < 1
                      \<and> valid_idempotency_key (ei_IdempotencyKey inp)) ErrInvalidInput) (\<lambda>_.
     bindE (requireE (valid_time_option (ei_OccurredAt inp)) ErrInvalidInput) (\<lambda>_.
     bindE (requireE (valid_time_option (ei_ExpiresAt inp)) ErrInvalidInput) (\<lambda>_.
     bindE (validateRefs (ei_SourceRefs inp) (ei_CorrelationRefs inp)) (\<lambda>_.
     bindE (decodeUnique lexer marshal (ei_Payload inp) (64 * 1024) 32 10000) (\<lambda>(v, canonical).
       Inr (inp\<lparr>ei_ExpiresAt := truncate_time (ei_ExpiresAt inp), ei_OccurredAt := truncate_time (ei_OccurredAt inp)\<rparr>,
            v, canonical)))))))"

text \<open>The lookup of an earlier publication with the same key, before the writer slot is taken.\<close>

definition replayEvent_read ::
  "os \<Rightarrow> string \<Rightarrow> string \<Rightarrow> string \<Rightarrow> string \<Rightarrow> string \<Rightarrow> gotime \<Rightarrow> hub \<Rightarrow> err + event option" where
  "replayEvent_read os repoPath tid actorID key fp clk h =
     (if key = '''' then Inr None
      else bindE (LookupRepo os repoPath h) (\<lambda>scope.
        (case find_idem h (scope_ID scope) tid actorID key of
           Some r \<Rightarrow>
             if ik_fingerprint r \<noteq> fp then Inl ErrIdempotencyConflict
             else bindE (mapErr (\<lambda>e. if e = ErrNotFound then ErrIdempotencyConflict else e)
                          (ReadEvent os repoPath (ik_entry r) True clk h)) (\<lambda>e.
                    Inr (Some (mark_replayed e)))
         | None \<Rightarrow> if prunedKey h (scope_ID scope) tid actorID key then Inl ErrReplayGap else Inr None)))"

text \<open>
  The registered schema is read, compiled and applied before the writer slot is taken; the
  digest of the schema that validated the payload is what the transaction compares.
\<close>

definition validatePayload ::
  "(string \<Rightarrow> jtoken list) \<Rightarrow> (json \<Rightarrow> string) \<Rightarrow> (string \<Rightarrow> string) \<Rightarrow> schema_engine \<Rightarrow> work_outcome \<Rightarrow> work_outcome
     \<Rightarrow> os \<Rightarrow> string \<Rightarrow> string \<Rightarrow> eventInput \<Rightarrow> json \<Rightarrow> hub \<Rightarrow> err + string" where
  "validatePayload lexer marshal sha eng w1 w2 os repoPath tid inp v h =
     bindE (ShowEventSchema sha os repoPath tid (ei_TypeKey inp) (ei_Version inp) h) (\<lambda>s.
     bindE (requireE (sc_RetiredAt s = None) ErrVersionRetired) (\<lambda>_.
     bindE (mapErr (\<lambda>_. ErrUnsupportedFormat) (decodeUnique lexer marshal (sc_Schema s) (16 * 1024) 16 256)) (\<lambda>(sv, _).
     bindE (mapErr (\<lambda>_. ErrUnsupportedFormat)
              (boundedSchemaWork w1 ErrUnsupportedFormat (compileEventSchema eng sv))) (\<lambda>compiled.
     bindE (mapErr (\<lambda>_. ErrSchemaInvalid)
              (boundedSchemaWork w2 ErrSchemaInvalid
                 (requireE (se_validate eng compiled v) ErrSchemaInvalid))) (\<lambda>_.
       Inr (sc_SHA256 s))))))"

definition replayEvent_tx ::
  "hub \<Rightarrow> string \<Rightarrow> string \<Rightarrow> string \<Rightarrow> string \<Rightarrow> string \<Rightarrow> err + event option" where
  "replayEvent_tx h scope tid actorID key fp =
     (if key = '''' then Inr None
      else (case find_idem h scope tid actorID key of
          Some r \<Rightarrow>
            if ik_fingerprint r \<noteq> fp then Inl ErrIdempotencyConflict
            else bindE (eventByEntry ErrIdempotencyConflict h (ik_entry r)) (\<lambda>e. Inr (Some (mark_replayed e)))
        | None \<Rightarrow> if prunedKey h scope tid actorID key then Inl ErrReplayGap else Inr None))"

definition null_string :: "string \<Rightarrow> string option" where
  "null_string s = (if s \<noteq> '''' then Some s else None)"

definition appendEvent ::
  "int \<Rightarrow> string \<Rightarrow> string \<Rightarrow> string \<Rightarrow> eventInput \<Rightarrow> string \<Rightarrow> string \<Rightarrow> string \<Rightarrow> int option \<Rightarrow> rand \<Rightarrow> hub
     \<Rightarrow> err + (event \<times> hub)" where
  "appendEvent now scope tid actorID inp canonical schemaSha fp expiry rid h =
     bindE (nextSequence scope h) (\<lambda>(sequence, h1).
     bindE (randomID rid) (\<lambda>entryID.
     bindE (insert_publication \<lparr>pb_entry = entryID, pb_scope = scope, pb_topic = tid, pb_actor = actorID,
              pb_kind = ''event'', pb_sequence = sequence, pb_committed_at = now,
              pb_occurred_at = map_option unixMilli (ei_OccurredAt inp), pb_expires_at = expiry,
              pb_source_refs = JText (ei_SourceRefs inp), pb_correlation_refs = JText (ei_CorrelationRefs inp),
              pb_key = null_key (ei_IdempotencyKey inp)\<rparr> h1) (\<lambda>h2.
     bindE (insert_event \<lparr>ev_entry = entryID, ev_topic = tid, ev_type = ei_TypeKey inp, ev_version = ei_Version inp,
              ev_sha256 = schemaSha, ev_payload = canonical, ev_corrects = null_string (ei_CorrectsEntryID inp)\<rparr> h2) (\<lambda>h3.
     bindE (insert_key scope tid actorID (ei_IdempotencyKey inp) fp entryID h3) (\<lambda>h4.
     bindE (eventByEntry ErrScan h4 entryID) (\<lambda>e.
       Inr (e, h4)))))))"

definition correction_target :: "hub \<Rightarrow> string \<Rightarrow> string \<Rightarrow> string \<Rightarrow> err + unit" where
  "correction_target h scope tid target =
     (if target = '''' then Inr ()
      else requireE (find_event h target \<noteq> None \<and>
             (\<exists>p \<in> set (publications h). pb_entry p = target \<and> pb_scope p = scope \<and> pb_topic p = tid)) ErrNotFound)"

definition publishEvent_body ::
  "(string \<Rightarrow> string) \<Rightarrow> os \<Rightarrow> repoEvidence \<Rightarrow> string \<Rightarrow> string \<Rightarrow> eventInput \<Rightarrow> string \<Rightarrow> string \<Rightarrow> string \<Rightarrow> rand
     \<Rightarrow> hub \<Rightarrow> int \<Rightarrow> err + (event \<times> hub)" where
  "publishEvent_body sha os ev tid actorID inp canonical schemaSha fp rid h now =
     bindE (boundScope os h ev) (\<lambda>scope.
     bindE (enrolled h actorID) (\<lambda>_.
     bindE (replayEvent_tx h scope tid actorID (ei_IdempotencyKey inp) fp) (\<lambda>replay.
     (case replay of Some e \<Rightarrow> Inr (e, h) | None \<Rightarrow>
     bindE (selectTopic h scope tid now) (\<lambda>topic.
     bindE (requireE (to_State topic = ''active'') ErrArchived) (\<lambda>_.
     bindE (optionE ErrVersionUnknown (find_schema h tid (ei_TypeKey inp) (ei_Version inp))) (\<lambda>r.
     bindE (scanEventSchema sha r) (\<lambda>current.
     bindE (requireE (sc_RetiredAt current = None) ErrVersionRetired) (\<lambda>_.
     bindE (requireE (sc_SHA256 current = schemaSha) ErrConflict) (\<lambda>_.
     bindE (expiryMillis (ei_ExpiresAt inp) now) (\<lambda>expiry.
     bindE (correction_target h scope tid (ei_CorrectsEntryID inp)) (\<lambda>_.
     bindE (verifySourceRefs h (ei_SourceRefs inp)) (\<lambda>_.
       appendEvent now scope tid actorID inp canonical schemaSha fp expiry rid h)))))))))))))"

text \<open>
  \<open>PublishEvent\<close> reads the state \<open>h0\<close> before it is admitted as the writer and runs its body on
  the state \<open>h\<close> it is admitted to: other writers may have run in between.
\<close>

definition PublishEvent ::
  "(string \<Rightarrow> jtoken list) \<Rightarrow> (json \<Rightarrow> string) \<Rightarrow> (string \<Rightarrow> string) \<Rightarrow> (eventIntent \<Rightarrow> string) \<Rightarrow> schema_engine
     \<Rightarrow> work_outcome \<Rightarrow> work_outcome \<Rightarrow> db \<Rightarrow> env \<Rightarrow> os \<Rightarrow> string \<Rightarrow> string \<Rightarrow> string \<Rightarrow> eventInput \<Rightarrow> rand
     \<Rightarrow> gotime \<Rightarrow> hub \<Rightarrow> hub \<Rightarrow> (err + event) \<times> hub" where
  "PublishEvent lexer marshal sha enc eng w1 w2 d env os repoPath tid actorID inp0 rid clk0 h0 h =
     (case bindE (validateEventInput lexer marshal d inp0) (\<lambda>(inp, v, canonical).
           let fp = eventFingerprint sha enc inp canonical in
           bindE (resolve os repoPath) (\<lambda>ev.
           bindE (replayEvent_read os repoPath tid actorID (ei_IdempotencyKey inp) fp clk0 h0) (\<lambda>replay.
           (case replay of
              Some e \<Rightarrow> Inr (Inl e)
            | None \<Rightarrow>
                bindE (validatePayload lexer marshal sha eng w1 w2 os repoPath tid inp v h0) (\<lambda>schemaSha.
                  Inr (Inr (publishEvent_body sha os ev tid actorID inp canonical schemaSha fp rid))))))) of
        Inl e \<Rightarrow> (Inl e, h)
      | Inr (Inl replayed) \<Rightarrow> (Inr replayed, h)
      | Inr (Inr fn) \<Rightarrow> hub_write d env fn h)"

end
