(* ===== verification/Subscriptions.thy ===== *)
theory Subscriptions
  imports Events
begin

text \<open>
  \<open>internal/hubstore/subscription.go\<close>: durable consumers, immutable subscriptions with a
  cursor, pages of at most \<open>limit\<close> sequence positions, and the acknowledgement of a page by
  compare-and-swap over a signed claim. HMAC-SHA-256 and the JSON form of the claim are
  parameters; \<open>base64.RawURLEncoding\<close> is modelled.
\<close>

section \<open>Consumers\<close>

record consumer =
  co_ID :: string
  co_EnrolledAt :: gotime

definition enrollConsumer_body :: "string \<Rightarrow> hub \<Rightarrow> int \<Rightarrow> err + (consumer \<times> hub)" where
  "enrollConsumer_body consumerID h now =
     (let h1 = insert_consumer_ignore \<lparr>cn_id = consumerID, cn_enrolled_at = now\<rparr> h in
      bindE (optionE ErrScan (List.find (\<lambda>c. cn_id c = consumerID) (consumers h1))) (\<lambda>c.
        Inr (\<lparr>co_ID = cn_id c, co_EnrolledAt = fromMillis (cn_enrolled_at c)\<rparr>, h1)))"

definition EnrollConsumer :: "db \<Rightarrow> env \<Rightarrow> string \<Rightarrow> string \<Rightarrow> rand \<Rightarrow> hub \<Rightarrow> (err + consumer) \<times> hub" where
  "EnrollConsumer d env authority consumerID0 rid =
     guarded_write d env
       (bindE (expectedAuthority d authority) (\<lambda>_.
        bindE (if consumerID0 = '''' then randomID rid else Inr consumerID0) (\<lambda>consumerID.
        bindE (requireE (validConsumerID consumerID) ErrInvalidInput) (\<lambda>_.
          Inr (enrollConsumer_body consumerID)))))"

section \<open>Filters\<close>

record subscribeInput =
  si_AuthorityID :: string
  si_ConsumerID :: string
  si_TopicIDs :: "string list"
  si_Kinds :: "string list"
  si_EventTypes :: "event_filter list"
  si_FromBeginning :: bool

text \<open>The loops test an item against its predecessor in the sorted list.\<close>

fun adjacent_ok :: "('a \<Rightarrow> bool) \<Rightarrow> 'a list \<Rightarrow> bool" where
  "adjacent_ok p [] = True"
| "adjacent_ok p [x] = p x"
| "adjacent_ok p (x # y # ys) = (p x \<and> x \<noteq> y \<and> adjacent_ok p (y # ys))"

definition canonicalFilters :: "subscribeInput \<Rightarrow> err + subscribeInput" where
  "canonicalFilters inp =
     bindE (requireE (\<not> (si_ConsumerID inp = '''' \<or> si_TopicIDs inp = [] \<or> length (si_TopicIDs inp) > 32
                         \<or> length (si_EventTypes inp) > 32 \<or> length (si_Kinds inp) > 2)) ErrInvalidInput) (\<lambda>_.
     let topicIDs = sort (si_TopicIDs inp);
         kinds = sort (if si_Kinds inp = [] then [''event'', ''message''] else si_Kinds inp);
         types = sort (si_EventTypes inp)
     in bindE (requireE (adjacent_ok id32 topicIDs) ErrInvalidInput) (\<lambda>_.
        bindE (requireE (adjacent_ok (\<lambda>k. k \<in> {''event'', ''message''}) kinds) ErrInvalidInput) (\<lambda>_.
        bindE (requireE (adjacent_ok (\<lambda>f. validTypeKey (fst f) \<and> \<not> snd f < 1) types) ErrInvalidInput) (\<lambda>_.
        bindE (requireE (types = [] \<or> ''event'' \<in> set kinds) ErrInvalidInput) (\<lambda>_.
          Inr (inp\<lparr>si_TopicIDs := topicIDs, si_Kinds := kinds, si_EventTypes := types\<rparr>))))))"

section \<open>Subscriptions\<close>

record subscription =
  su_ID :: string
  su_ConsumerID :: string
  su_ScopeID :: string
  su_TopicIDs :: "string list"
  su_Kinds :: "string list"
  su_EventTypes :: "event_filter list"
  su_CreatedAt :: gotime
  su_AcknowledgedSequence :: int
  su_RemovedAt :: "gotime option"

definition check_topic_filters :: "hub \<Rightarrow> string \<Rightarrow> int \<Rightarrow> event_filter list \<Rightarrow> string \<Rightarrow> err + unit" where
  "check_topic_filters h scope now types tid =
     bindE (selectTopic h scope tid now) (\<lambda>topic.
     bindE (requireE (to_State topic = ''active'') ErrArchived) (\<lambda>_.
       forE (\<lambda>f. requireE (find_schema h tid (fst f) (snd f) \<noteq> None) ErrVersionUnknown) types))"

definition subscribe_body ::
  "os \<Rightarrow> repoEvidence \<Rightarrow> subscribeInput \<Rightarrow> rand \<Rightarrow> hub \<Rightarrow> int \<Rightarrow> err + (subscription \<times> hub)" where
  "subscribe_body os ev inp rid h now =
     bindE (boundScope os h ev) (\<lambda>scope.
     bindE (requireE (consumer_exists h (si_ConsumerID inp)) ErrNotFound) (\<lambda>_.
     bindE (forE (check_topic_filters h scope now (si_EventTypes inp)) (si_TopicIDs inp)) (\<lambda>_.
     let ack = (if si_FromBeginning inp then 0 else next_of h scope - 1) in
     bindE (randomID rid) (\<lambda>id.
     bindE (insert_subscription \<lparr>sb_id = id, sb_consumer = si_ConsumerID inp, sb_scope = scope,
              sb_kinds = JText (si_Kinds inp), sb_types = JText (si_EventTypes inp), sb_created_at = now,
              sb_ack = ack, sb_removed_at = None\<rparr> h) (\<lambda>h1.
     bindE (foldE (\<lambda>tid. insert_subtopic \<lparr>st_sub = id, st_scope = scope, st_topic = tid\<rparr>) (si_TopicIDs inp) h1) (\<lambda>h2.
       Inr (\<lparr>su_ID = id, su_ConsumerID = si_ConsumerID inp, su_ScopeID = scope, su_TopicIDs = si_TopicIDs inp,
             su_Kinds = si_Kinds inp, su_EventTypes = si_EventTypes inp, su_CreatedAt = fromMillis now,
             su_AcknowledgedSequence = ack, su_RemovedAt = None\<rparr>, h2)))))))"

definition Subscribe :: "db \<Rightarrow> env \<Rightarrow> os \<Rightarrow> string \<Rightarrow> subscribeInput \<Rightarrow> rand \<Rightarrow> hub \<Rightarrow> (err + subscription) \<times> hub" where
  "Subscribe d env os repoPath inp0 rid =
     guarded_write d env
       (bindE (expectedAuthority d (si_AuthorityID inp0)) (\<lambda>_.
        bindE (canonicalFilters inp0) (\<lambda>inp.
        bindE (resolve os repoPath) (\<lambda>ev.
          Inr (subscribe_body os ev inp rid)))))"

definition find_subscription :: "hub \<Rightarrow> string \<Rightarrow> string \<Rightarrow> string \<Rightarrow> subscription_row option" where
  "find_subscription h scope consumerID sid =
     List.find (\<lambda>s. sb_id s = sid \<and> sb_consumer s = consumerID \<and> sb_scope s = scope) (subscriptions h)"

definition readSubscription :: "hub \<Rightarrow> string \<Rightarrow> string \<Rightarrow> string \<Rightarrow> err + subscription" where
  "readSubscription h scope consumerID sid =
     bindE (optionE ErrNotFound (find_subscription h scope consumerID sid)) (\<lambda>s.
     bindE (unmarshal (sb_kinds s)) (\<lambda>kinds.
     bindE (unmarshal (sb_types s)) (\<lambda>types.
       Inr \<lparr>su_ID = sb_id s, su_ConsumerID = sb_consumer s, su_ScopeID = sb_scope s,
            su_TopicIDs = sort (map st_topic (filter (\<lambda>t. st_sub t = sid) (subtopics h))),
            su_Kinds = kinds, su_EventTypes = types, su_CreatedAt = fromMillis (sb_created_at s),
            su_AcknowledgedSequence = sb_ack s, su_RemovedAt = map_option fromMillis (sb_removed_at s)\<rparr>)))"

definition ListSubscriptions :: "os \<Rightarrow> string \<Rightarrow> string \<Rightarrow> bool \<Rightarrow> hub \<Rightarrow> err + subscription list" where
  "ListSubscriptions os repoPath consumerID includeRemoved h =
     bindE (LookupRepo os repoPath h) (\<lambda>scope.
       mapE (readSubscription h (scope_ID scope) consumerID)
         (map sb_id (sort_key (\<lambda>s. (sb_created_at s, sb_id s))
           (filter (\<lambda>s. sb_scope s = scope_ID scope \<and> sb_consumer s = consumerID
                        \<and> (includeRemoved \<or> sb_removed_at s = None)) (subscriptions h)))))"

definition removeSubscription_body ::
  "os \<Rightarrow> repoEvidence \<Rightarrow> string \<Rightarrow> string \<Rightarrow> hub \<Rightarrow> int \<Rightarrow> err + (subscription \<times> hub)" where
  "removeSubscription_body os ev consumerID sid h now =
     bindE (boundScope os h ev) (\<lambda>scope.
     bindE (readSubscription h scope consumerID sid) (\<lambda>out.
       if su_RemovedAt out \<noteq> None then Inr (out, h)
       else bindE (constraints (\<forall>s \<in> set (subscriptions h). sb_id s = sid \<longrightarrow> sb_created_at s \<le> now) True True True
              (h\<lparr>subscriptions := update_where (\<lambda>s. sb_id s = sid) (\<lambda>s. s\<lparr>sb_removed_at := Some now\<rparr>) (subscriptions h)\<rparr>)) (\<lambda>h1.
            Inr (out\<lparr>su_RemovedAt := Some (fromMillis now)\<rparr>, h1))))"

definition RemoveSubscription ::
  "db \<Rightarrow> env \<Rightarrow> os \<Rightarrow> string \<Rightarrow> string \<Rightarrow> string \<Rightarrow> string \<Rightarrow> hub \<Rightarrow> (err + subscription) \<times> hub" where
  "RemoveSubscription d env os repoPath consumerID sid authority =
     guarded_write d env
       (bindE (expectedAuthority d authority) (\<lambda>_.
        bindE (resolve os repoPath) (\<lambda>ev.
          Inr (removeSubscription_body os ev consumerID sid))))"

section \<open>Claims\<close>

text \<open>\<open>base64.RawURLEncoding\<close>: six bits per character, no padding; decoding skips line breaks.\<close>

definition b64_alphabet :: string where
  "b64_alphabet = ''ABCDEFGHIJKLMNOPQRSTUVWXYZabcdefghijklmnopqrstuvwxyz0123456789-_''"

definition b64_char :: "nat \<Rightarrow> char" where
  "b64_char n = b64_alphabet ! n"

definition b64_value :: "char \<Rightarrow> nat option" where
  "b64_value c = List.find (\<lambda>n. b64_char n = c) [0..<64]"

definition byte :: "char \<Rightarrow> nat" where "byte c = of_char c"

fun b64_encode :: "string \<Rightarrow> string" where
  "b64_encode [] = []"
| "b64_encode [a] = [b64_char (byte a div 4), b64_char (byte a mod 4 * 16)]"
| "b64_encode [a, b] =
     [b64_char (byte a div 4), b64_char (byte a mod 4 * 16 + byte b div 16), b64_char (byte b mod 16 * 4)]"
| "b64_encode (a # b # c # s) =
     b64_char (byte a div 4) # b64_char (byte a mod 4 * 16 + byte b div 16)
     # b64_char (byte b mod 16 * 4 + byte c div 64) # b64_char (byte c mod 64) # b64_encode s"

fun b64_groups :: "nat list \<Rightarrow> string option" where
  "b64_groups [] = Some []"
| "b64_groups [a] = None"
| "b64_groups [a, b] = Some [char_of (a * 4 + b div 16)]"
| "b64_groups [a, b, c] = Some [char_of (a * 4 + b div 16), char_of (b mod 16 * 16 + c div 4)]"
| "b64_groups (a # b # c # d # s) =
     map_option (\<lambda>t. char_of (a * 4 + b div 16) # char_of (b mod 16 * 16 + c div 4) # char_of (c mod 4 * 64 + d) # t)
       (b64_groups s)"

definition b64_decode :: "string \<Rightarrow> string option" where
  "b64_decode s =
     (let vs = map b64_value (filter (\<lambda>c. c \<noteq> CHR 0x0A \<and> c \<noteq> CHR 0x0D) s)
      in if None \<in> set vs then None else b64_groups (map the vs))"

record ackClaim =
  cl_AuthorityID :: string
  cl_SubscriptionID :: string
  cl_ConsumerID :: string
  cl_Prior :: int
  cl_Next :: int
  cl_HighWater :: int
  cl_RetentionEpoch :: int

record claim_codec =
  cc_marshal :: "ackClaim \<Rightarrow> string"
  cc_unmarshal :: "string \<Rightarrow> ackClaim option"
  cc_hmac :: "string \<Rightarrow> string \<Rightarrow> string"

definition signClaim :: "claim_codec \<Rightarrow> string \<Rightarrow> ackClaim \<Rightarrow> string" where
  "signClaim cc secret claim =
     (let b = cc_marshal cc claim in b64_encode b @ ''.'' @ b64_encode (cc_hmac cc secret b))"

definition parseClaim :: "claim_codec \<Rightarrow> string \<Rightarrow> string \<Rightarrow> err + ackClaim" where
  "parseClaim cc secret token =
     bindE (requireE (\<not> int (length token) > 1024) ErrInvalidInput) (\<lambda>_.
     bindE (requireE (length (filter (\<lambda>c. c = CHR ''.'') token) = 1 \<and> hd token \<noteq> CHR ''.'') ErrInvalidInput) (\<lambda>_.
     bindE (optionE ErrInvalidInput (b64_decode (takeWhile (\<lambda>c. c \<noteq> CHR ''.'') token))) (\<lambda>b.
     bindE (optionE ErrInvalidInput (b64_decode (tl (dropWhile (\<lambda>c. c \<noteq> CHR ''.'') token)))) (\<lambda>sig.
     bindE (requireE (sig = cc_hmac cc secret b) ErrCursorConflict) (\<lambda>_.
       optionE ErrInvalidInput (cc_unmarshal cc b))))))"

section \<open>Pulling a page\<close>

datatype pullEntry = PullMessage message | PullEvent event

record pullPage =
  pg_SubscriptionID :: string
  pg_ConsumerID :: string
  pg_ScopeID :: string
  pg_AsOf :: gotime
  pg_HighWater :: int
  pg_LowWater :: int
  pg_RetentionEpoch :: int
  pg_PriorAcknowledged :: int
  pg_NextScanPosition :: int
  pg_Entries :: "pullEntry list"
  pg_Gaps :: "gap list"
  pg_AckToken :: string

text \<open>\<open>sort.SearchStrings\<close>: the least index whose element is not below \<open>x\<close>, by bisection.\<close>

function search_strings :: "string list \<Rightarrow> string \<Rightarrow> nat \<Rightarrow> nat \<Rightarrow> nat" where
  "search_strings a x i j =
     (if i < j then
        (let m = (i + j) div 2 in
         if \<not> a ! m \<ge> x then search_strings a x (m + 1) j else search_strings a x i m)
      else i)"
  by pat_completeness auto
termination
  by (relation "measure (\<lambda>(a, x, i, j). j - i)") auto

declare search_strings.simps [simp del]

definition containsTopic :: "string list \<Rightarrow> string \<Rightarrow> bool" where
  "containsTopic ids tid = (let i = search_strings ids tid 0 (length ids) in i < length ids \<and> ids ! i = tid)"

fun matchesEvent :: "event_filter list \<Rightarrow> string \<Rightarrow> int \<Rightarrow> bool" where
  "matchesEvent filters key version \<longleftrightarrow> filters = [] \<or> (key, version) \<in> set filters"

definition pull_reason ::
  "subscription \<Rightarrow> int \<Rightarrow> publication_row \<Rightarrow> topic_row \<Rightarrow> event_row option \<Rightarrow> string" where
  "pull_reason s asOf p t e =
     (if \<not> containsTopic (su_TopicIDs s) (pb_topic p) \<or> pb_kind p \<notin> set (su_Kinds s) then ''filtered''
      else if pb_kind p = ''event'' \<and>
           \<not> matchesEvent (su_EventTypes s) (case e of None \<Rightarrow> '''' | Some e \<Rightarrow> ev_type e)
               (case e of None \<Rightarrow> 0 | Some e \<Rightarrow> ev_version e) then ''filtered''
      else if (case tp_archived_at t of None \<Rightarrow> False | Some a \<Rightarrow> a \<le> asOf)
           \<or> (case tp_expires_at t of None \<Rightarrow> False | Some x \<Rightarrow> x \<le> asOf) then ''archived''
      else if (case pb_expires_at p of None \<Rightarrow> False | Some x \<Rightarrow> x \<le> asOf) then ''expired''
      else '''')"

text \<open>The rows of the page: gaps, the last position seen, and the selected publications.\<close>

fun pull_rows ::
  "hub \<Rightarrow> subscription \<Rightarrow> string \<Rightarrow> int \<Rightarrow> (publication_row \<times> topic_row) list \<Rightarrow> gap list \<Rightarrow> int
     \<Rightarrow> publication_row list \<Rightarrow> err + (gap list \<times> int \<times> publication_row list)" where
  "pull_rows h s scope asOf [] gaps position sel = Inr (gaps, position, sel)"
| "pull_rows h s scope asOf ((p, t) # rows) gaps position sel =
     bindE (scanPublication p) (\<lambda>_.
       let gaps1 = (if pb_sequence p > position + 1
                    then addMissingGaps h scope gaps (position + 1) (pb_sequence p - 1) else gaps);
           reason = pull_reason s asOf p t (find_event h (pb_entry p))
       in if reason \<noteq> ''''
          then pull_rows h s scope asOf rows (addGap gaps1 (pb_sequence p) (pb_sequence p) reason) (pb_sequence p) sel
          else pull_rows h s scope asOf rows gaps1 (pb_sequence p) (sel @ [p]))"

definition pull_entry :: "hub \<Rightarrow> publication_row \<Rightarrow> err + pullEntry" where
  "pull_entry h p =
     (if pb_kind p = ''message''
      then bindE (messageByEntry ErrScan h (pb_entry p)) (\<lambda>m. Inr (PullMessage m))
      else bindE (eventByEntry ErrScan h (pb_entry p)) (\<lambda>e. Inr (PullEvent e)))"

text \<open>The last position of the page: at most \<open>limit\<close> positions, never past the high water.\<close>

definition page_end :: "int \<Rightarrow> int \<Rightarrow> int \<Rightarrow> int" where
  "page_end start high limit =
     (if high > start then (if high - start > limit then start + limit else high) else start)"

definition pull_start_gaps :: "int \<Rightarrow> int \<Rightarrow> gap list \<times> int" where
  "pull_start_gaps ack low =
     (if ack < low then (addGap [] (ack + 1) low ''pruned'', low) else ([], ack))"

definition pull_positions ::
  "hub \<Rightarrow> subscription \<Rightarrow> string \<Rightarrow> int \<Rightarrow> gap list \<Rightarrow> int \<Rightarrow> int \<Rightarrow> err + (gap list \<times> publication_row list)" where
  "pull_positions h s scope asOf gaps start stop =
     (if stop > start then
        bindE (pull_rows h s scope asOf
                 (filter (\<lambda>(p, t). pb_sequence p \<le> stop) (publications_after h scope start)) gaps start [])
          (\<lambda>(gaps1, position, sel).
             Inr (if position < stop then addMissingGaps h scope gaps1 (position + 1) stop else gaps1, sel))
      else Inr (gaps, []))"

definition Pull ::
  "claim_codec \<Rightarrow> db \<Rightarrow> os \<Rightarrow> string \<Rightarrow> string \<Rightarrow> string \<Rightarrow> int \<Rightarrow> gotime \<Rightarrow> hub \<Rightarrow> err + pullPage" where
  "Pull cc d os repoPath consumerID sid limit clk h =
     bindE (requireE (\<not> (limit < 1 \<or> limit > 100)) ErrInvalidInput) (\<lambda>_.
     bindE (LookupRepo os repoPath h) (\<lambda>sco.
     let scope = scope_ID sco; high = next_of h scope - 1 in
     bindE (optionE ErrScan (List.find (\<lambda>r. sc_id r = scope) (scopes h))) (\<lambda>row.
     bindE (optionE ErrScan (pull_secret h)) (\<lambda>secret.
     bindE (readSubscription h scope consumerID sid) (\<lambda>s.
     bindE (requireE (su_RemovedAt s = None) ErrNotFound) (\<lambda>_.
     (case pull_start_gaps (su_AcknowledgedSequence s) (sc_low_water row) of (gaps0, start) \<Rightarrow>
     let stop = page_end start high limit in
     bindE (pull_positions h s scope (unixMilli clk) gaps0 start stop) (\<lambda>(gaps, sel).
     bindE (mapE (pull_entry h) sel) (\<lambda>entries.
       Inr \<lparr>pg_SubscriptionID = sid, pg_ConsumerID = consumerID, pg_ScopeID = scope, pg_AsOf = clk,
            pg_HighWater = high, pg_LowWater = sc_low_water row, pg_RetentionEpoch = retention_epoch h,
            pg_PriorAcknowledged = su_AcknowledgedSequence s, pg_NextScanPosition = stop,
            pg_Entries = entries, pg_Gaps = gaps,
            pg_AckToken = signClaim cc secret
              \<lparr>cl_AuthorityID = authorityID d, cl_SubscriptionID = sid, cl_ConsumerID = consumerID,
               cl_Prior = su_AcknowledgedSequence s, cl_Next = stop, cl_HighWater = high,
               cl_RetentionEpoch = retention_epoch h\<rparr>\<rparr>)))))))))"

section \<open>Acknowledging\<close>

definition claim_matches :: "ackClaim \<Rightarrow> string \<Rightarrow> string \<Rightarrow> string \<Rightarrow> int \<Rightarrow> int \<Rightarrow> bool" where
  "claim_matches claim authority sid consumerID prior nextPosition \<longleftrightarrow>
     cl_AuthorityID claim = authority \<and> cl_SubscriptionID claim = sid \<and> cl_ConsumerID claim = consumerID
     \<and> cl_Prior claim = prior \<and> cl_Next claim = nextPosition \<and> \<not> cl_Next claim > cl_HighWater claim"

definition ack_body ::
  "claim_codec \<Rightarrow> os \<Rightarrow> repoEvidence \<Rightarrow> string \<Rightarrow> string \<Rightarrow> string \<Rightarrow> int \<Rightarrow> int \<Rightarrow> string \<Rightarrow> hub \<Rightarrow> int \<Rightarrow> err + (int \<times> hub)" where
  "ack_body cc os ev consumerID sid authority expectedPrior nextPosition token h now =
     bindE (boundScope os h ev) (\<lambda>scope.
     bindE (optionE ErrScan (pull_secret h)) (\<lambda>secret.
     bindE (parseClaim cc secret token) (\<lambda>claim.
     bindE (requireE (claim_matches claim authority sid consumerID expectedPrior nextPosition) ErrCursorConflict) (\<lambda>_.
     bindE (requireE (cl_RetentionEpoch claim = retention_epoch h) ErrReplayGap) (\<lambda>_.
     bindE (readSubscription h scope consumerID sid) (\<lambda>s.
     bindE (requireE (su_RemovedAt s = None) ErrNotFound) (\<lambda>_.
       if su_AcknowledgedSequence s = nextPosition then Inr (nextPosition, h)
       else bindE (requireE (su_AcknowledgedSequence s = expectedPrior) ErrCursorConflict) (\<lambda>_.
            let hit = (\<lambda>r. sb_id r = sid \<and> sb_ack r = expectedPrior) in
            bindE (constraints (0 \<le> nextPosition \<or> (\<forall>r \<in> set (subscriptions h). \<not> hit r)) True True True
                     (h\<lparr>subscriptions := update_where hit (\<lambda>r. r\<lparr>sb_ack := nextPosition\<rparr>) (subscriptions h)\<rparr>)) (\<lambda>h1.
            bindE (requireE (rows_affected hit (subscriptions h) = 1) ErrCursorConflict) (\<lambda>_.
              Inr (nextPosition, h1)))))))))))"

definition Ack ::
  "claim_codec \<Rightarrow> db \<Rightarrow> env \<Rightarrow> os \<Rightarrow> string \<Rightarrow> string \<Rightarrow> string \<Rightarrow> string \<Rightarrow> int \<Rightarrow> int \<Rightarrow> string \<Rightarrow> hub \<Rightarrow> (err + int) \<times> hub" where
  "Ack cc d env os repoPath consumerID sid authority expectedPrior nextPosition token =
     guarded_write d env
       (bindE (expectedAuthority d authority) (\<lambda>_.
        bindE (requireE (\<not> (expectedPrior < 0 \<or> nextPosition < expectedPrior \<or> token = '''')) ErrInvalidInput) (\<lambda>_.
        bindE (resolve os repoPath) (\<lambda>ev.
          Inr (ack_body cc os ev consumerID sid authority expectedPrior nextPosition token)))))"

section \<open>Lemmas: base64\<close>

lemma b64_value_char: "n < 64 \<Longrightarrow> b64_value (b64_char n) = Some n"
proof -
  assume "n < 64"
  then have "n \<in> set [0..<64]" by simp
  moreover have "list_all (\<lambda>n. b64_value (b64_char n) = Some n) [0..<64]" by code_simp
  ultimately show ?thesis by (simp add: list_all_iff)
qed

definition b64_plain :: "char \<Rightarrow> bool" where
  "b64_plain c \<longleftrightarrow> c \<noteq> CHR 0x0A \<and> c \<noteq> CHR 0x0D \<and> c \<noteq> CHR ''.''"

lemma b64_char_plain: "n < 64 \<Longrightarrow> b64_plain (b64_char n)"
proof -
  assume "n < 64"
  then have "n \<in> set [0..<64]" by simp
  moreover have "list_all (\<lambda>n. b64_plain (b64_char n)) [0..<64]" by code_simp
  ultimately show ?thesis by (simp add: list_all_iff)
qed

lemma byte_less [simp]: "byte c < 256"
  by (simp add: byte_def)

lemma byte_div4 [simp]: "byte c div 4 < 64"
  using byte_less[of c] by (simp add: less_mult_imp_div_less)

text \<open>Sextets: the values an encoding spells.\<close>

fun sextets :: "string \<Rightarrow> nat list" where
  "sextets [] = []"
| "sextets [a] = [byte a div 4, byte a mod 4 * 16]"
| "sextets [a, b] = [byte a div 4, byte a mod 4 * 16 + byte b div 16, byte b mod 16 * 4]"
| "sextets (a # b # c # s) =
     byte a div 4 # (byte a mod 4 * 16 + byte b div 16) # (byte b mod 16 * 4 + byte c div 64) # byte c mod 64 # sextets s"

lemma b64_encode_sextets: "b64_encode s = map b64_char (sextets s)"
  by (induction s rule: sextets.induct) simp_all

lemma sextet_bounds: "byte a mod 4 * 16 + byte b div 16 < 64" "byte b mod 16 * 4 + byte c div 64 < 64"
  "byte a mod 4 * 16 < 64" "byte b mod 16 * 4 < 64"
proof -
  have "byte b div 16 < 16" "byte c div 64 < 4"
    using byte_less[of b] byte_less[of c] by (simp_all add: less_mult_imp_div_less)
  moreover have "byte a mod 4 \<le> 3" "byte b mod 16 \<le> 15"
    using mod_less_divisor[of 4 "byte a"] mod_less_divisor[of 16 "byte b"] by linarith+
  ultimately show "byte a mod 4 * 16 + byte b div 16 < 64" "byte b mod 16 * 4 + byte c div 64 < 64"
    "byte a mod 4 * 16 < 64" "byte b mod 16 * 4 < 64" by linarith+
qed

lemma sextets_less: "\<forall>n \<in> set (sextets s). n < 64"
  by (induction s rule: sextets.induct) (auto simp: sextet_bounds)

lemma byte_join1: "byte a div 4 * 4 + (byte a mod 4 * 16 + byte b div 16) div 16 = byte a"
proof -
  have "byte b div 16 < 16" using byte_less[of b] by (simp add: less_mult_imp_div_less)
  then have "(byte a mod 4 * 16 + byte b div 16) div 16 = byte a mod 4" by simp
  then show ?thesis by simp
qed

lemma byte_join2: "(byte a mod 4 * 16 + byte b div 16) mod 16 * 16 + (byte b mod 16 * 4 + byte c div 64) div 4 = byte b"
proof -
  have "byte b div 16 < 16" "byte c div 64 < 4"
    using byte_less[of b] byte_less[of c] by (simp_all add: less_mult_imp_div_less)
  then have "(byte a mod 4 * 16 + byte b div 16) mod 16 = byte b div 16" "(byte b mod 16 * 4 + byte c div 64) div 4 = byte b mod 16"
    by simp_all
  then show ?thesis by simp
qed

lemma byte_join3: "(byte b mod 16 * 4 + byte c div 64) mod 4 * 64 + byte c mod 64 = byte c"
proof -
  have "byte c div 64 < 4" using byte_less[of c] by (simp add: less_mult_imp_div_less)
  then have "(byte b mod 16 * 4 + byte c div 64) mod 4 = byte c div 64" by simp
  then show ?thesis by simp
qed

lemma char_byte [simp]: "char_of (byte c) = c"
  by (simp add: byte_def)

lemma b64_groups_sextets: "b64_groups (sextets s) = Some s"
proof (induction s rule: sextets.induct)
  case (2 a)
  have "byte a div 4 * 4 + byte a mod 4 * 16 div 16 = byte a" by simp
  then show ?case by (simp only: sextets.simps b64_groups.simps char_byte)
next
  case (3 a b)
  have "(byte a mod 4 * 16 + byte b div 16) mod 16 * 16 + byte b mod 16 * 4 div 4 = byte b"
    using byte_join2[of a b "CHR 0x00"] by (simp add: byte_def)
  then show ?case by (simp only: sextets.simps b64_groups.simps byte_join1 char_byte)
next
  case (4 a b c s)
  then show ?case
    by (simp only: sextets.simps b64_groups.simps byte_join1 byte_join2 byte_join3 char_byte option.map)
qed simp

lemma b64_encode_plain: "c \<in> set (b64_encode s) \<Longrightarrow> b64_plain c"
  using sextets_less[of s] b64_char_plain by (auto simp: b64_encode_sextets)

lemma b64_roundtrip: "b64_decode (b64_encode s) = Some s"
proof -
  have plain: "filter (\<lambda>c. c \<noteq> CHR 0x0A \<and> c \<noteq> CHR 0x0D) (b64_encode s) = b64_encode s"
    using b64_encode_plain by (auto simp: filter_id_conv b64_plain_def)
  have vals: "map b64_value (b64_encode s) = map Some (sextets s)"
    using sextets_less[of s] by (auto simp: b64_encode_sextets b64_value_char)
  have "None \<notin> set (map Some (sextets s))" by auto
  then show ?thesis by (simp add: b64_decode_def plain vals b64_groups_sextets comp_def)
qed

section \<open>Lemmas: claims\<close>

lemma dot_encode [simp]: "CHR ''.'' \<notin> set (b64_encode s)"
  using b64_encode_plain[of "CHR ''.''" s] by (auto simp: b64_plain_def)

lemma b64_encode_Nil [simp]: "b64_encode s = [] \<longleftrightarrow> s = []"
  by (cases s rule: b64_encode.cases) simp_all

text \<open>The codec encodes a claim as a text that is not empty and decodes to it.\<close>

definition claim_decodes :: "claim_codec \<Rightarrow> ackClaim \<Rightarrow> bool" where
  "claim_decodes cc c \<longleftrightarrow> cc_marshal cc c \<noteq> [] \<and> cc_unmarshal cc (cc_marshal cc c) = Some c"

lemma parse_signed:
  assumes "claim_decodes cc claim" and "int (length (signClaim cc secret claim)) \<le> 1024"
  shows "parseClaim cc secret (signClaim cc secret claim) = Inr claim"
proof -
  let ?b = "cc_marshal cc claim"
  let ?e = "b64_encode ?b" and ?m = "b64_encode (cc_hmac cc secret ?b)"
  have t: "signClaim cc secret claim = ?e @ CHR ''.'' # ?m" by (simp add: signClaim_def Let_def)
  have ne: "?e \<noteq> []" using assms(1) by (simp add: claim_decodes_def)
  have nodot: "filter (\<lambda>c. c = CHR ''.'') (b64_encode s) = []" for s
    by (auto simp: filter_empty_conv)
  have one: "length (filter (\<lambda>c. c = CHR ''.'') (signClaim cc secret claim)) = 1"
    by (simp add: t nodot)
  have "hd (signClaim cc secret claim) = hd ?e" using ne by (simp add: t)
  then have hd: "hd (signClaim cc secret claim) \<noteq> CHR ''.''" using ne dot_encode[of ?b] by (metis hd_in_set)
  have tw: "takeWhile (\<lambda>c. c \<noteq> CHR ''.'') (signClaim cc secret claim) = ?e"
    unfolding t by (rule trans[OF takeWhile_append2]) auto
  have dw: "dropWhile (\<lambda>c. c \<noteq> CHR ''.'') (signClaim cc secret claim) = CHR ''.'' # ?m"
    unfolding t by (rule trans[OF dropWhile_append2]) auto
  show ?thesis
    using assms one hd by (simp add: parseClaim_def tw dw b64_roundtrip claim_decodes_def)
qed

section \<open>Lemmas: bisection\<close>

lemma search_strings_steps:
  "i < j \<Longrightarrow> x \<le> a ! ((i + j) div 2) \<Longrightarrow> search_strings a x i j = search_strings a x i ((i + j) div 2)"
  "i < j \<Longrightarrow> \<not> x \<le> a ! ((i + j) div 2) \<Longrightarrow> search_strings a x i j = search_strings a x ((i + j) div 2 + 1) j"
  "\<not> i < j \<Longrightarrow> search_strings a x i j = i"
  by (subst search_strings.simps; simp add: Let_def)+

lemma search_strings_spec:
  assumes "sorted a" and "i \<le> j" and "j \<le> length a"
    and "\<And>k. k < i \<Longrightarrow> a ! k < x" and "\<And>k. j \<le> k \<Longrightarrow> k < length a \<Longrightarrow> x \<le> a ! k"
  shows "search_strings a x i j \<le> length a
    \<and> (\<forall>k < search_strings a x i j. a ! k < x) \<and> (\<forall>k. search_strings a x i j \<le> k \<longrightarrow> k < length a \<longrightarrow> x \<le> a ! k)"
  using assms
proof (induction a x i j rule: search_strings.induct)
  case (1 a x i j)
  show ?case
  proof (cases "i < j")
    case True
    let ?m = "(i + j) div 2"
    have m: "i \<le> ?m" "?m < j" using True by auto
    show ?thesis
    proof (cases "x \<le> a ! ?m")
      case le: True
      have "x \<le> a ! k" if "?m \<le> k" "k < length a" for k
        using le that 1(3) by (meson order_trans sorted_nth_mono)
      then show ?thesis
        unfolding search_strings_steps(1)[OF True le]
        by (intro 1(2)[OF True refl]) (use 1(3-6) m le in auto)
    next
      case less: False
      have lt: "a ! k < x" if "k < ?m + 1" for k
      proof -
        have "a ! k \<le> a ! ?m" using that m 1(3,5) by (intro sorted_nth_mono) auto
        with less show ?thesis by simp
      qed
      show ?thesis
        unfolding search_strings_steps(2)[OF True less]
        by (rule 1(1)[OF True refl less 1(3) _ 1(5)]) (use m lt 1(7) in auto)
    qed
  next
    case False
    with 1(4) have "i = j" by simp
    then show ?thesis
      unfolding search_strings_steps(3)[OF False] using 1(5-7) by simp
  qed
qed

lemma containsTopic_iff: "sorted ids \<Longrightarrow> containsTopic ids tid \<longleftrightarrow> tid \<in> set ids"
proof -
  assume s: "sorted ids"
  let ?i = "search_strings ids tid 0 (length ids)"
  have r: "?i \<le> length ids \<and> (\<forall>k < ?i. ids ! k < tid) \<and> (\<forall>k. ?i \<le> k \<longrightarrow> k < length ids \<longrightarrow> tid \<le> ids ! k)"
    by (rule search_strings_spec[OF s]) auto
  show ?thesis
  proof
    assume "containsTopic ids tid"
    then have "?i < length ids" "ids ! ?i = tid" by (simp_all add: containsTopic_def Let_def)
    then show "tid \<in> set ids" using nth_mem[of ?i ids] by simp
  next
    assume "tid \<in> set ids"
    then obtain k where k: "k < length ids" "ids ! k = tid" by (auto simp: in_set_conv_nth)
    have "?i \<le> k" using r k by (metis less_irrefl not_le)
    then have "ids ! ?i \<le> tid" using s k by (metis sorted_nth_mono)
    moreover have "tid \<le> ids ! ?i" using r k \<open>?i \<le> k\<close> by auto
    ultimately show "containsTopic ids tid" using k \<open>?i \<le> k\<close> by (auto simp: containsTopic_def Let_def)
  qed
qed
section \<open>Lemmas: pages\<close>

lemma pull_rows_positions:
  assumes "pull_rows h s scope asOf rows gaps position sel = Inr (gaps', position', sel')" and "ranges_ok h" and "gaps_ok gaps"
    and "sorted_wrt (<) (position # map (pb_sequence \<circ> fst) rows)"
  shows "mset (map pb_sequence sel' @ gap_positions gaps') = mset (map pb_sequence sel @ gap_positions gaps) + mset [position + 1..position']
    \<and> gaps_ok gaps' \<and> position \<le> position' \<and> set sel' \<subseteq> set sel \<union> fst ` set rows
    \<and> position' = (if rows = [] then position else pb_sequence (fst (last rows)))"
  using assms
proof (induction h s scope asOf rows gaps position sel arbitrary: gaps' position' sel' rule: pull_rows.induct)
  case (2 h s scope asOf p t rows gaps position sel)
  let ?s = "pb_sequence p"
  define gaps1 where "gaps1 = (if pb_sequence p > position + 1
                    then addMissingGaps h scope gaps (position + 1) (pb_sequence p - 1) else gaps)"
  define reason where "reason = pull_reason s asOf p t (find_event h (pb_entry p))"
  from 2(3) obtain u where u: "scanPublication p = Inr u" by auto
  have step: "(if reason \<noteq> ''''
      then pull_rows h s scope asOf rows (addGap gaps1 ?s ?s reason) ?s sel
      else pull_rows h s scope asOf rows gaps1 ?s (sel @ [p])) = Inr (gaps', position', sel')"
    using 2(3)[unfolded pull_rows.simps u bindE_simps Let_def] unfolding gaps1_def reason_def .
  have lt: "position < ?s" using 2(6) by simp
  have g1: "gap_positions gaps1 = gap_positions gaps @ [position + 1..?s - 1]" "gaps_ok gaps1"
    using addMissingGaps_positions[OF 2(5,4), of scope "position + 1" "?s - 1"] 2(5) lt by (auto simp: gaps1_def)
  have "[position + 1..?s - 1] @ [?s..?s] = [position + 1..?s]"
    using upto_join[of "position + 1" "?s - 1" ?s] lt by simp
  then have join: "mset [position + 1..?s] = mset [position + 1..?s - 1] + {#?s#}"
    by (metis mset_append upto_single mset_single_iff_right)
  have rows: "sorted_wrt (<) (?s # map (pb_sequence \<circ> fst) rows)" using 2(6) by (simp add: comp_def)
  note tail = mset_upto_join[of "position + 1" ?s position']
  show ?case
  proof (cases "reason = ''''")
    case True
    have IH: "mset (map pb_sequence sel' @ gap_positions gaps') = mset (map pb_sequence (sel @ [p]) @ gap_positions gaps1) + mset [?s + 1..position']
      \<and> gaps_ok gaps' \<and> ?s \<le> position' \<and> set sel' \<subseteq> set (sel @ [p]) \<union> fst ` set rows
      \<and> position' = (if rows = [] then ?s else pb_sequence (fst (last rows)))"
      by (rule 2(2)[OF u gaps1_def reason_def]) (use True step 2(4) g1(2) rows in \<open>auto simp: comp_def\<close>)
    then show ?thesis using g1(1) join tail lt by auto
  next
    case False
    note g2 = addGap_positions[OF g1(2), of ?s ?s reason]
    have IH: "mset (map pb_sequence sel' @ gap_positions gaps') = mset (map pb_sequence sel @ gap_positions (addGap gaps1 ?s ?s reason)) + mset [?s + 1..position']
      \<and> gaps_ok gaps' \<and> ?s \<le> position' \<and> set sel' \<subseteq> set sel \<union> fst ` set rows
      \<and> position' = (if rows = [] then ?s else pb_sequence (fst (last rows)))"
      by (rule 2(1)[OF u gaps1_def reason_def]) (use False step 2(4) g2 rows in \<open>auto simp: comp_def\<close>)
    then show ?thesis using g1(1) g2 join tail lt by auto
  qed
qed simp

definition entry_sequence :: "pullEntry \<Rightarrow> int" where
  "entry_sequence e = (case e of PullMessage m \<Rightarrow> pu_Sequence (me_Publication m)
     | PullEvent v \<Rightarrow> pu_Sequence (en_Publication v))"

lemma pull_entry_sequence:
  assumes "pull_entry h p = Inr e" and "distinct (map pb_entry (publications h))" and "p \<in> set (publications h)"
  shows "entry_sequence e = pb_sequence p"
proof -
  have f: "find_publication h (pb_entry p) = Some p"
    unfolding find_publication_def by (rule find_map_keys[OF assms(2,3)])
  show ?thesis
    using assms(1) f
    by (auto simp: pull_entry_def entry_sequence_def messageByEntry_def eventByEntry_def scanMessage_def scanEvent_def
        Let_def scanPublication_Inr(1) split: if_splits)
qed

lemma page_end_bounds:
  assumes "1 \<le> limit"
  shows "start \<le> page_end start high limit" "page_end start high limit \<le> start + limit"
    "page_end start high limit \<le> max start high"
  using assms by (auto simp: page_end_def)

lemma pull_positions_partition:
  assumes "pull_positions h s scope asOf gaps start stop = Inr (gaps', sel)" and "ranges_ok h" and "gaps_ok gaps"
    and "distinct (map (\<lambda>p. (pb_scope p, pb_sequence p)) (publications h))" and "start \<le> stop"
  shows "mset (map pb_sequence sel @ gap_positions gaps') = mset (gap_positions gaps) + mset [start + 1..stop]
    \<and> set sel \<subseteq> set (publications h)"
proof (cases "stop > start")
  case False
  with assms(1,5) show ?thesis by (auto simp: pull_positions_def)
next
  case True
  let ?rows = "filter (\<lambda>(p, t). pb_sequence p \<le> stop) (publications_after h scope start)"
  from assms(1) True obtain g1 position where
    rows: "pull_rows h s scope asOf ?rows gaps start [] = Inr (g1, position, sel)"
    and g': "gaps' = (if position < stop then addMissingGaps h scope g1 (position + 1) stop else g1)"
    by (auto simp: pull_positions_def)
  note after = publications_after_sorted[OF assms(4), of scope start]
  have "sorted_wrt (<) (map (pb_sequence \<circ> fst) ?rows)"
    using after(1) by (simp add: sorted_wrt_map sorted_wrt_filter)
  moreover have "\<forall>x \<in> set ?rows. start < pb_sequence (fst x)" using after(2) by fastforce
  ultimately have "sorted_wrt (<) (start # map (pb_sequence \<circ> fst) ?rows)" by auto
  note r = pull_rows_positions[OF rows assms(2,3) this]
  have le: "position \<le> stop"
  proof (cases "?rows = []")
    case False
    then have "last ?rows \<in> set ?rows" by (rule last_in_set)
    then have "pb_sequence (fst (last ?rows)) \<le> stop" by (auto split: prod.splits)
    with r False show ?thesis by simp
  qed (use r True in simp)
  have "gap_positions gaps' = gap_positions g1 @ [position + 1..stop]"
    using addMissingGaps_positions[of g1 h scope "position + 1" stop] r assms(2) le by (auto simp: g')
  moreover have "set sel \<subseteq> set (publications h)" using r after(2) by fastforce
  moreover have "mset (map pb_sequence sel @ gap_positions g1) = mset (gap_positions gaps) + mset [start + 1..position]"
    "start \<le> position"
    using r by auto
  ultimately show ?thesis
    using mset_upto_join[of "start + 1" position stop] le by simp (metis union_assoc)
qed

text \<open>What a successful pull has read.\<close>

lemma Pull_Inr:
  assumes "Pull cc d os path consumerID sid limit clk h = Inr page"
  obtains sco secret s low gaps0 start sel where
    "1 \<le> limit" "LookupRepo os path h = Inr sco" "pg_ScopeID page = scope_ID sco" "pull_secret h = Some secret"
    "readSubscription h (scope_ID sco) consumerID sid = Inr s" "su_RemovedAt s = None"
    "pg_PriorAcknowledged page = su_AcknowledgedSequence s" "pg_HighWater page = next_of h (scope_ID sco) - 1"
    "pull_start_gaps (su_AcknowledgedSequence s) low = (gaps0, start)" "pg_LowWater page = low"
    "pg_NextScanPosition page = page_end start (pg_HighWater page) limit" "pg_RetentionEpoch page = retention_epoch h"
    "pull_positions h s (scope_ID sco) (unixMilli clk) gaps0 start (pg_NextScanPosition page) = Inr (pg_Gaps page, sel)"
    "mapE (pull_entry h) sel = Inr (pg_Entries page)"
    "pg_AckToken page = signClaim cc secret
              \<lparr>cl_AuthorityID = authorityID d, cl_SubscriptionID = sid, cl_ConsumerID = consumerID,
               cl_Prior = pg_PriorAcknowledged page, cl_Next = pg_NextScanPosition page, cl_HighWater = pg_HighWater page,
               cl_RetentionEpoch = retention_epoch h\<rparr>"
    "\<exists>r \<in> set (scopes h). sc_id r = scope_ID sco \<and> sc_low_water r = low"
proof -
  from assms obtain sco :: scope and row :: scope_row and secret and s :: subscription where
    1: "\<not> (limit < 1 \<or> 100 < limit)" "LookupRepo os path h = Inr sco" "pull_secret h = Some secret"
    "readSubscription h (scope_ID sco) consumerID sid = Inr s" "su_RemovedAt s = None"
    and row: "List.find (\<lambda>r. sc_id r = scope_ID sco) (scopes h) = Some row"
    and rest: "(case pull_start_gaps (su_AcknowledgedSequence s) (sc_low_water row) of (gaps0, start) \<Rightarrow>
     bindE (pull_positions h s (scope_ID sco) (unixMilli clk) gaps0 start (page_end start (next_of h (scope_ID sco) - 1) limit)) (\<lambda>(gaps, sel).
     bindE (mapE (pull_entry h) sel) (\<lambda>entries.
       Inr \<lparr>pg_SubscriptionID = sid, pg_ConsumerID = consumerID, pg_ScopeID = scope_ID sco, pg_AsOf = clk,
            pg_HighWater = next_of h (scope_ID sco) - 1, pg_LowWater = sc_low_water row, pg_RetentionEpoch = retention_epoch h,
            pg_PriorAcknowledged = su_AcknowledgedSequence s,
            pg_NextScanPosition = page_end start (next_of h (scope_ID sco) - 1) limit,
            pg_Entries = entries, pg_Gaps = gaps,
            pg_AckToken = signClaim cc secret
              \<lparr>cl_AuthorityID = authorityID d, cl_SubscriptionID = sid, cl_ConsumerID = consumerID,
               cl_Prior = su_AcknowledgedSequence s, cl_Next = page_end start (next_of h (scope_ID sco) - 1) limit,
               cl_HighWater = next_of h (scope_ID sco) - 1,
               cl_RetentionEpoch = retention_epoch h\<rparr>\<rparr>))) = Inr page"
    unfolding Pull_def Let_def bindE_Inr_iff requireE_Inr_iff optionE_Inr_iff
    apply (elim exE conjE)
    subgoal premises p for u sco row secret s v by (rule p(1)[OF p(2,3,5,6,7,4,8)])
    done
  have "\<exists>r \<in> set (scopes h). sc_id r = scope_ID sco \<and> sc_low_water r = sc_low_water row"
    using find_SomeD[OF row] by blast
  moreover obtain gaps0 start where g: "pull_start_gaps (su_AcknowledgedSequence s) (sc_low_water row) = (gaps0, start)" by fastforce
  moreover from rest g obtain sel where "pull_positions h s (scope_ID sco) (unixMilli clk) gaps0 start (pg_NextScanPosition page) = Inr (pg_Gaps page, sel)"
    "mapE (pull_entry h) sel = Inr (pg_Entries page)" "pg_ScopeID page = scope_ID sco"
    "pg_PriorAcknowledged page = su_AcknowledgedSequence s" "pg_HighWater page = next_of h (scope_ID sco) - 1"
    "pg_LowWater page = sc_low_water row" "pg_NextScanPosition page = page_end start (pg_HighWater page) limit"
    "pg_RetentionEpoch page = retention_epoch h"
    "pg_AckToken page = signClaim cc secret
              \<lparr>cl_AuthorityID = authorityID d, cl_SubscriptionID = sid, cl_ConsumerID = consumerID,
               cl_Prior = pg_PriorAcknowledged page, cl_Next = pg_NextScanPosition page, cl_HighWater = pg_HighWater page,
               cl_RetentionEpoch = retention_epoch h\<rparr>"
    by (auto simp: Let_def)
  moreover have "1 \<le> limit" using 1(1) by simp
  ultimately show thesis using 1 g by (intro that)
qed
section \<open>Lemmas: acknowledging\<close>

lemma ack_body_Inr:
  assumes "ack_body cc os ev consumerID sid authority prior nxt token h now = Inr (n, h')"
  obtains scope secret claim s where "boundScope os h ev = Inr scope" "pull_secret h = Some secret"
    "parseClaim cc secret token = Inr claim" "claim_matches claim authority sid consumerID prior nxt"
    "cl_RetentionEpoch claim = retention_epoch h" "readSubscription h scope consumerID sid = Inr s" "su_RemovedAt s = None"
    "n = nxt" "(su_AcknowledgedSequence s = nxt \<and> h' = h) \<or> (su_AcknowledgedSequence s = prior
      \<and> h' = h\<lparr>subscriptions := update_where (\<lambda>r. sb_id r = sid \<and> sb_ack r = prior) (\<lambda>r. r\<lparr>sb_ack := nxt\<rparr>) (subscriptions h)\<rparr>)"
proof -
  from assms obtain scope secret claim and s :: subscription where
    1: "boundScope os h ev = Inr scope" "pull_secret h = Some secret"
    "parseClaim cc secret token = Inr claim" "claim_matches claim authority sid consumerID prior nxt"
    "cl_RetentionEpoch claim = retention_epoch h" "readSubscription h scope consumerID sid = Inr s" "su_RemovedAt s = None"
    and rest: "(if su_AcknowledgedSequence s = nxt then Inr (nxt, h)
       else bindE (requireE (su_AcknowledgedSequence s = prior) ErrCursorConflict) (\<lambda>_.
            let hit = (\<lambda>r. sb_id r = sid \<and> sb_ack r = prior) in
            bindE (constraints (0 \<le> nxt \<or> (\<forall>r \<in> set (subscriptions h). \<not> hit r)) True True True
                     (h\<lparr>subscriptions := update_where hit (\<lambda>r. r\<lparr>sb_ack := nxt\<rparr>) (subscriptions h)\<rparr>)) (\<lambda>h1.
            bindE (requireE (rows_affected hit (subscriptions h) = 1) ErrCursorConflict) (\<lambda>_.
              Inr (nxt, h1))))) = Inr (n, h')"
    unfolding ack_body_def bindE_Inr_iff[of "boundScope os h ev"] bindE_Inr_iff[of "optionE ErrScan (pull_secret h)"]
    by auto
  from rest have "n = nxt" "(su_AcknowledgedSequence s = nxt \<and> h' = h) \<or> (su_AcknowledgedSequence s = prior
      \<and> h' = h\<lparr>subscriptions := update_where (\<lambda>r. sb_id r = sid \<and> sb_ack r = prior) (\<lambda>r. r\<lparr>sb_ack := nxt\<rparr>) (subscriptions h)\<rparr>)"
    by (auto simp: Let_def split: if_splits)
  with 1 show thesis by (intro that)
qed

lemma readSubscription_Inr:
  assumes "readSubscription h scope consumerID sid = Inr s"
  obtains row where "find_subscription h scope consumerID sid = Some row" "su_AcknowledgedSequence s = sb_ack row"
    "su_RemovedAt s = map_option fromMillis (sb_removed_at row)" "row \<in> set (subscriptions h)" "sb_id row = sid"
proof -
  from assms obtain row where row: "find_subscription h scope consumerID sid = Some row" "su_AcknowledgedSequence s = sb_ack row"
    "su_RemovedAt s = map_option fromMillis (sb_removed_at row)"
    by (auto simp: readSubscription_def)
  then have "row \<in> set (subscriptions h) \<and> sb_id row = sid"
    by (auto simp: find_subscription_def dest!: find_SomeD_conj)
  with row show thesis by (intro that) auto
qed

lemma Ack_Inr:
  assumes "Ack cc d env os path consumerID sid authority prior nxt token h = (Inr n, h')"
  obtains ev where "resolve os path = Inr ev" "0 \<le> prior" "prior \<le> nxt"
    "ack_body cc os ev consumerID sid authority prior nxt token h (env_now env) = Inr (n, h')"
  using assms by (auto simp: Ack_def guarded_write_Inr_iff write_Inr_iff)

text \<open>Reading a subscription after its cursor has moved.\<close>

lemma readSubscription_moved:
  assumes "readSubscription h scope consumerID sid = Inr s"
    and "h' = h\<lparr>subscriptions := update_where (\<lambda>r. sb_id r = sid \<and> sb_ack r = prior) (\<lambda>r. r\<lparr>sb_ack := nxt\<rparr>) (subscriptions h)\<rparr>"
    and "su_AcknowledgedSequence s = prior"
  shows "readSubscription h' scope consumerID sid = Inr (s\<lparr>su_AcknowledgedSequence := nxt\<rparr>)"
proof -
  from assms(1) obtain row where row: "find_subscription h scope consumerID sid = Some row" "su_AcknowledgedSequence s = sb_ack row"
    "sb_id row = sid" by (rule readSubscription_Inr)
  have "find_subscription h' scope consumerID sid = Some (row\<lparr>sb_ack := nxt\<rparr>)"
    using row assms(3) by (simp add: assms(2) find_subscription_def find_update_where)
  with assms(1) row(1) show ?thesis by (auto simp: readSubscription_def assms(2))
qed
section \<open>Properties\<close>

text \<open>
  \<open>base64.RawURLEncoding\<close>, as the acknowledgement tokens use it, decodes every byte
  string it encodes.
\<close>

theorem base64_roundtrip: "b64_decode (b64_encode s) = Some s"
  by (rule b64_roundtrip)

text \<open>
  C33: A token that \<open>signClaim\<close> makes is accepted by \<open>parseClaim\<close> under the same secret and
  yields the claim it was made from, for any codec that decodes the claim, any keyed hash, and tokens within the size limit.
\<close>

theorem signed_claim_parses:
  assumes "cc_marshal cc claim \<noteq> []" and "cc_unmarshal cc (cc_marshal cc claim) = Some claim"
    and "int (length (signClaim cc secret claim)) \<le> 1024"
  shows "parseClaim cc secret (signClaim cc secret claim) = Inr claim"
  using assms by (intro parse_signed) (simp_all add: claim_decodes_def)

definition demo_claim :: ackClaim where
  "demo_claim = \<lparr>cl_AuthorityID = ''hub'', cl_SubscriptionID = ''s'', cl_ConsumerID = ''c'', cl_Prior = 0, cl_Next = 2,
     cl_HighWater = 2, cl_RetentionEpoch = 0\<rparr>"

definition demo_codec :: claim_codec where
  "demo_codec = \<lparr>cc_marshal = (\<lambda>c. if c = demo_claim then ''claim'' else ''other''),
     cc_unmarshal = (\<lambda>b. if b = ''claim'' then Some demo_claim else None), cc_hmac = (\<lambda>k b. take 4 k @ b)\<rparr>"

theorem signed_claim_parses_witness:
  "parseClaim demo_codec ''secret'' (signClaim demo_codec ''secret'' demo_claim) = Inr demo_claim"
  by (rule signed_claim_parses; code_simp)

text \<open>
  The bisection of \<open>containsTopic\<close> decides membership in the sorted list of topic identifiers.
\<close>

theorem bisection_is_membership:
  assumes "sorted ids"
  shows "containsTopic ids tid \<longleftrightarrow> tid \<in> set ids"
  by (rule containsTopic_iff[OF assms])

theorem bisection_is_membership_witness:
  "containsTopic [''a'', ''ab'', ''b''] ''ab'' \<longleftrightarrow> ''ab'' \<in> set [''a'', ''ab'', ''b'']"
  by (rule bisection_is_membership) code_simp

text \<open>A consumer with a subscription to the topic of the demonstration database, from the beginning.\<close>

definition demo_sub_hub :: hub where
  "demo_sub_hub = demo_two\<lparr>
     consumers := [\<lparr>cn_id = ''c'', cn_enrolled_at = 1\<rparr>],
     subscriptions := [\<lparr>sb_id = ''s'', sb_consumer = ''c'', sb_scope = ''g'', sb_kinds = JText [''event'', ''message''],
        sb_types = JText [], sb_created_at = 1, sb_ack = 0, sb_removed_at = None\<rparr>],
     subtopics := [\<lparr>st_sub = ''s'', st_scope = ''g'', st_topic = ''t''\<rparr>]\<rparr>"

definition demo_pull :: "err + pullPage" where
  "demo_pull = Pull demo_codec demo_db demo_os ''global:'' ''c'' ''s'' 10 (fromMillis 1600) demo_sub_hub"

lemma demo_pull_ok: "Pull demo_codec demo_db demo_os ''global:'' ''c'' ''s'' 10 (fromMillis 1600) demo_sub_hub = Inr (projr demo_pull)"
proof -
  have "\<not> isl demo_pull" by code_simp
  from value_okD[OF this] show ?thesis by (simp add: demo_pull_def)
qed

lemma demo_sub_keys: "unique_keys demo_sub_hub" "ranges_ok demo_sub_hub"
proof -
  show "unique_keys demo_sub_hub" by code_simp
  have "pruned_ranges demo_sub_hub = []" by code_simp
  then show "ranges_ok demo_sub_hub" by (simp add: ranges_ok_def)
qed

text \<open>
  C17: A page loses nothing and repeats nothing: the positions from the one after the
  consumer's cursor up to the page's end are each accounted for exactly once, as an entry or inside a gap (pruned,
  unavailable, filtered, archived or expired); the page advances by at most \<open>limit\<close> positions
  beyond the cursor or the low-water mark, and not past the high water.
\<close>

theorem pull_partitions:
  assumes "Pull cc d os path consumerID sid limit clk h = Inr page" and "unique_keys h" and "ranges_ok h"
  shows "mset (map entry_sequence (pg_Entries page) @ gap_positions (pg_Gaps page))
       = mset [pg_PriorAcknowledged page + 1..pg_NextScanPosition page]
    \<and> max (pg_PriorAcknowledged page) (pg_LowWater page) \<le> pg_NextScanPosition page
    \<and> pg_NextScanPosition page \<le> max (pg_PriorAcknowledged page) (pg_LowWater page) + limit
    \<and> pg_NextScanPosition page \<le> max (max (pg_PriorAcknowledged page) (pg_LowWater page)) (pg_HighWater page)"
proof (rule Pull_Inr[OF assms(1)])
  fix sco secret s low gaps0 start sel
  assume lim: "1 \<le> limit" and prior: "pg_PriorAcknowledged page = su_AcknowledgedSequence s"
    and g: "pull_start_gaps (su_AcknowledgedSequence s) low = (gaps0, start)" "pg_LowWater page = low"
    and stop: "pg_NextScanPosition page = page_end start (pg_HighWater page) limit"
    and pos: "pull_positions h s (scope_ID sco) (unixMilli clk) gaps0 start (pg_NextScanPosition page) = Inr (pg_Gaps page, sel)"
    and entries: "mapE (pull_entry h) sel = Inr (pg_Entries page)"
  let ?prior = "pg_PriorAcknowledged page"
  note b = page_end_bounds[OF lim, of start "pg_HighWater page", folded stop]
  have st: "start = max ?prior low" using g prior by (auto simp: pull_start_gaps_def split: if_splits)
  have g0: "gap_positions gaps0 = [?prior + 1..start]" "gaps_ok gaps0"
    using g prior addGap_positions[of "[]" "?prior + 1" low "''pruned''"]
    by (auto simp: pull_start_gaps_def split: if_splits)
  have keys: "distinct (map pb_entry (publications h))" "distinct (map (\<lambda>p. (pb_scope p, pb_sequence p)) (publications h))"
    using assms(2) by (auto simp: unique_keys_def keys_messages_def)
  note p = pull_positions_partition[OF pos assms(3) g0(2) keys(2) b(1)]
  have "list_all2 (\<lambda>p e. pull_entry h p = Inr e) sel (pg_Entries page)" using entries by (simp add: mapE_Inr_iff)
  then have "map entry_sequence (pg_Entries page) = map pb_sequence sel"
    using p keys(1)
    by (auto simp: list_all2_conv_all_nth list_eq_iff_nth_eq intro!: pull_entry_sequence)
  moreover have "mset (gap_positions gaps0) + mset [start + 1..pg_NextScanPosition page]
      = mset [?prior + 1..pg_NextScanPosition page]"
    unfolding g0(1) by (rule mset_upto_join) (use st b in auto)
  ultimately show ?thesis using p b st g(2) by auto
qed

theorem pull_partitions_witness:
  "mset (map entry_sequence (pg_Entries (projr demo_pull)) @ gap_positions (pg_Gaps (projr demo_pull))) = mset [1..2]"
proof -
  have n: "pg_NextScanPosition (projr demo_pull) = 2" "pg_PriorAcknowledged (projr demo_pull) = 0" by code_simp+
  show ?thesis using pull_partitions[OF demo_pull_ok demo_sub_keys] n by simp
qed
text \<open>The claim a page's token carries.\<close>

definition page_claim :: "db \<Rightarrow> string \<Rightarrow> string \<Rightarrow> pullPage \<Rightarrow> ackClaim" where
  "page_claim d sid consumerID page =
     \<lparr>cl_AuthorityID = authorityID d, cl_SubscriptionID = sid, cl_ConsumerID = consumerID,
      cl_Prior = pg_PriorAcknowledged page, cl_Next = pg_NextScanPosition page, cl_HighWater = pg_HighWater page,
      cl_RetentionEpoch = pg_RetentionEpoch page\<rparr>"

lemma signClaim_nonempty: "signClaim cc secret claim \<noteq> []"
  by (simp add: signClaim_def Let_def)

text \<open>
  C18: Pull, then acknowledge: a page that was read and is acknowledged with its own token moves the consumer's
  cursor from the page's prior position to its end, so that the next page begins right after
  it; acknowledging the same page again succeeds with the same answer and changes nothing.
\<close>

theorem ack_advances:
  assumes "Pull cc d os path consumerID sid limit clk h = Inr page"
    and "resolve os path = Inr ev" and "boundScope os h ev = Inr (pg_ScopeID page)"
    and "claim_decodes cc (page_claim d sid consumerID page)" and "int (length (pg_AckToken page)) \<le> 1024"
    and "admit d env h = Inr ()" and "commit_fault env = None" and "\<not> readOnly d" and "authorityID d \<noteq> ''''"
    and "0 \<le> pg_PriorAcknowledged page" and "pg_NextScanPosition page \<le> pg_HighWater page" and "unique_keys h"
  shows "\<exists>h1. Ack cc d env os path consumerID sid (authorityID d) (pg_PriorAcknowledged page) (pg_NextScanPosition page)
        (pg_AckToken page) h = (Inr (pg_NextScanPosition page), h1)
    \<and> (\<exists>s. readSubscription h1 (pg_ScopeID page) consumerID sid = Inr s \<and> su_AcknowledgedSequence s = pg_NextScanPosition page)
    \<and> Ack cc d env os path consumerID sid (authorityID d) (pg_PriorAcknowledged page) (pg_NextScanPosition page)
        (pg_AckToken page) h1 = (Inr (pg_NextScanPosition page), h1)"
proof (rule Pull_Inr[OF assms(1)])
  fix sco :: scope and secret and s :: subscription and low gaps0 start and sel :: "publication_row list"
  assume lim: "1 \<le> limit" and sco: "pg_ScopeID page = scope_ID sco" and secret: "pull_secret h = Some secret"
    and s: "readSubscription h (scope_ID sco) consumerID sid = Inr s" "su_RemovedAt s = None"
    and prior: "pg_PriorAcknowledged page = su_AcknowledgedSequence s"
    and g: "pull_start_gaps (su_AcknowledgedSequence s) low = (gaps0, start)"
    and stop: "pg_NextScanPosition page = page_end start (pg_HighWater page) limit" and epoch: "pg_RetentionEpoch page = retention_epoch h"
    and token: "pg_AckToken page = signClaim cc secret
              \<lparr>cl_AuthorityID = authorityID d, cl_SubscriptionID = sid, cl_ConsumerID = consumerID,
               cl_Prior = pg_PriorAcknowledged page, cl_Next = pg_NextScanPosition page, cl_HighWater = pg_HighWater page,
               cl_RetentionEpoch = retention_epoch h\<rparr>"
  let ?prior = "pg_PriorAcknowledged page" and ?next = "pg_NextScanPosition page"
  let ?claim = "page_claim d sid consumerID page"
  have token': "pg_AckToken page = signClaim cc secret ?claim" using token epoch by (simp add: page_claim_def)
  have parse: "parseClaim cc secret (pg_AckToken page) = Inr ?claim"
    using parse_signed[OF assms(4)] assms(5) by (simp add: token')
  have match: "claim_matches ?claim (authorityID d) sid consumerID ?prior ?next"
    using assms(11) by (simp add: claim_matches_def page_claim_def)
  have le: "?prior \<le> ?next"
    using page_end_bounds(1)[OF lim, of start "pg_HighWater page", folded stop] g prior
    by (auto simp: pull_start_gaps_def split: if_splits)
  let ?hit = "\<lambda>r. sb_id r = sid \<and> sb_ack r = ?prior"
  let ?h1 = "if ?prior = ?next then h else
    h\<lparr>subscriptions := update_where ?hit (\<lambda>r. r\<lparr>sb_ack := ?next\<rparr>) (subscriptions h)\<rparr>"
  have one: "rows_affected ?hit (subscriptions h) = 1"
  proof -
    from s(1) obtain row where "sb_ack row = ?prior" "row \<in> set (subscriptions h)" "sb_id row = sid"
      using prior by (auto elim!: readSubscription_Inr)
    then have "rows_affected ?hit (subscriptions h) > 0" by (auto simp: rows_affected_pos)
    moreover have "rows_affected ?hit (subscriptions h) \<le> 1"
      using assms(12) by (intro rows_affected_one[where key = sb_id and k = sid]) (auto simp: unique_keys_def keys_events_def)
    ultimately show ?thesis by simp
  qed
  have common: "claim_matches ?claim (authorityID d) sid consumerID ?prior ?next"
    "cl_RetentionEpoch ?claim = retention_epoch h"
    using match epoch by (simp_all add: page_claim_def)
  have first: "ack_body cc os ev consumerID sid (authorityID d) ?prior ?next (pg_AckToken page) h (env_now env) = Inr (?next, ?h1)"
    using assms(3,10) le secret parse common s prior one sco
    by (simp add: ack_body_def Let_def)
  have s1: "\<exists>s1. readSubscription ?h1 (scope_ID sco) consumerID sid = Inr s1 \<and> su_AcknowledgedSequence s1 = ?next
      \<and> su_RemovedAt s1 = None"
  proof (cases "?prior = ?next")
    case True
    with s prior show ?thesis by auto
  next
    case False
    with readSubscription_moved[OF s(1) refl prior[symmetric], of ?next] s(2) show ?thesis by auto
  qed
  then obtain s1 where s1: "readSubscription ?h1 (scope_ID sco) consumerID sid = Inr s1" "su_AcknowledgedSequence s1 = ?next"
      "su_RemovedAt s1 = None" by blast
  have bs: "boundScope os ?h1 ev = Inr (scope_ID sco)" using assms(3) sco boundScope_cong[of ?h1 h os ev] by simp
  have sec: "pull_secret ?h1 = Some secret" "retention_epoch ?h1 = retention_epoch h" using secret by auto
  have again: "ack_body cc os ev consumerID sid (authorityID d) ?prior ?next (pg_AckToken page) ?h1 (env_now env) = Inr (?next, ?h1)"
    unfolding ack_body_def bs sec(1) using parse common s1 sec(2) by simp
  have same: "db_id ?h1 = db_id h" "format_version ?h1 = format_version h" "user_version ?h1 = user_version h" by auto
  have ad: "admit d env ?h1 = Inr ()" using assms(6) unfolding admit_def same .
  have tok: "pg_AckToken page \<noteq> ''''" by (simp add: token' signClaim_nonempty)
  have run: "Ack cc d env os path consumerID sid (authorityID d) ?prior ?next (pg_AckToken page) x = (Inr ?next, ?h1)"
    if "admit d env x = Inr ()" "ack_body cc os ev consumerID sid (authorityID d) ?prior ?next (pg_AckToken page) x (env_now env) = Inr (?next, ?h1)" for x
    using that assms(2,7,8,9,10) le tok
    by (simp add: Ack_def guarded_write_def expectedAuthority_def write_Inr_iff)
  show ?thesis
    unfolding sco using run[OF assms(6) first] run[OF ad again] s1(1,2)
    by (intro exI[of _ ?h1] conjI exI[of _ s1])
qed
theorem ack_advances_witness:
  "\<exists>h1. Ack demo_codec demo_db (demo_env 1700) demo_os ''global:'' ''c'' ''s'' ''hub'' 0 2 (pg_AckToken (projr demo_pull)) demo_sub_hub
     = (Inr 2, h1)"
proof -
  have ev: "resolve demo_os ''global:'' = Inr (no_evidence\<lparr>re_kind := ''global''\<rparr>)" by code_simp
  have sc: "boundScope demo_os demo_sub_hub (no_evidence\<lparr>re_kind := ''global''\<rparr>) = Inr (pg_ScopeID (projr demo_pull))" by code_simp
  have dec: "claim_decodes demo_codec (page_claim demo_db ''s'' ''c'' (projr demo_pull))" by code_simp
  have len: "int (length (pg_AckToken (projr demo_pull))) \<le> 1024" by code_simp
  have ad: "admit demo_db (demo_env 1700) demo_sub_hub = Inr ()" by code_simp
  have n: "pg_NextScanPosition (projr demo_pull) = 2" "pg_PriorAcknowledged (projr demo_pull) = 0"
    "pg_HighWater (projr demo_pull) = 2" by code_simp+
  show ?thesis
    using ack_advances[OF demo_pull_ok ev sc dec len ad _ _ _ _ _ demo_sub_keys(1)] n
    by (auto simp: demo_env_def demo_db_def)
qed

text \<open>
  A cursor never moves back: whatever a successful \<open>Ack\<close> is given, no subscription's
  acknowledged position decreases, nothing else of any subscription changes, and no other
  table does.
\<close>

theorem ack_monotone:
  assumes "Ack cc d env os path consumerID sid authority prior nxt token h = (Inr n, h')"
  shows "n = nxt \<and> h' = h\<lparr>subscriptions := subscriptions h'\<rparr>
    \<and> list_all2 (\<lambda>r r'. sb_ack r \<le> sb_ack r' \<and> r' = r\<lparr>sb_ack := sb_ack r'\<rparr>) (subscriptions h) (subscriptions h')"
proof (rule Ack_Inr[OF assms])
  fix ev assume le: "prior \<le> nxt" and body: "ack_body cc os ev consumerID sid authority prior nxt token h (env_now env) = (Inr (n, h'))"
  show ?thesis
  proof (rule ack_body_Inr[OF body])
    fix s :: subscription
    assume n: "n = nxt" and h': "(su_AcknowledgedSequence s = nxt \<and> h' = h) \<or> (su_AcknowledgedSequence s = prior
      \<and> h' = h\<lparr>subscriptions := update_where (\<lambda>r. sb_id r = sid \<and> sb_ack r = prior) (\<lambda>r. r\<lparr>sb_ack := nxt\<rparr>) (subscriptions h)\<rparr>)"
    then show ?thesis
      using le by (auto simp: update_where_def list_all2_conv_all_nth)
  qed
qed

definition demo_ack :: "(err + int) \<times> hub" where
  "demo_ack = Ack demo_codec demo_db (demo_env 1700) demo_os ''global:'' ''c'' ''s'' ''hub'' 0 2
     (signClaim demo_codec (replicate 32 CHR ''s'') demo_claim) demo_sub_hub"

theorem ack_monotone_witness:
  "list_all2 (\<lambda>r r'. sb_ack r \<le> sb_ack r' \<and> r' = r\<lparr>sb_ack := sb_ack r'\<rparr>) (subscriptions demo_sub_hub) (subscriptions (snd demo_ack))"
proof -
  have ok: "\<not> isl (fst demo_ack)" by code_simp
  show ?thesis using ack_monotone[OF run_okD[OF ok, unfolded demo_ack_def]] by (simp add: demo_ack_def)
qed

text \<open>
  A token made before a prune is dead after it: when the retention epoch of the claim is
  not the hub's, acknowledging with the token fails, and changes nothing.
\<close>

theorem ack_fenced_by_prune:
  assumes "claim_decodes cc claim" and "int (length (signClaim cc secret claim)) \<le> 1024"
    and "pull_secret h = Some secret" and "cl_RetentionEpoch claim \<noteq> retention_epoch h"
  shows "\<exists>e. Ack cc d env os path consumerID sid authority prior nxt (signClaim cc secret claim) h = (Inl e, h)"
proof (cases "Ack cc d env os path consumerID sid authority prior nxt (signClaim cc secret claim) h")
  case (Pair r h')
  show ?thesis
  proof (cases r)
    case (Inl e)
    with Pair show ?thesis by (auto simp: Ack_def dest: guarded_write_Inl)
  next
    case (Inr n)
    have False
    proof (rule Ack_Inr[OF Pair[unfolded Inr]])
      fix ev assume body: "ack_body cc os ev consumerID sid authority prior nxt (signClaim cc secret claim) h (env_now env) = Inr (n, h')"
      show False
        by (rule ack_body_Inr[OF body]) (use parse_signed[OF assms(1,2)] assms(3,4) in auto)
    qed
    then show ?thesis ..
  qed
qed

end
