(* ===== verification/Filters.thy ===== *)
theory Filters
  imports Subscriptions "HOL-Library.Multiset"
begin

text \<open>
  The canonical form of a subscription's filters (\<open>canonicalFilters\<close> of
  \<open>internal/hubstore/subscription.go\<close>).
\<close>

section \<open>Properties: filters\<close>

lemma adjacent_ok_sorted:
  "sorted xs \<Longrightarrow> adjacent_ok p xs \<longleftrightarrow> distinct xs \<and> list_all p xs" for xs :: "'a::linorder list"
  by (induction p xs rule: adjacent_ok.induct) (auto dest: antisym)

lemma canonicalFilters_Inr:
  "canonicalFilters inp = Inr out \<longleftrightarrow>
     si_ConsumerID inp \<noteq> '''' \<and> si_TopicIDs inp \<noteq> [] \<and> length (si_TopicIDs inp) \<le> 32 \<and> length (si_EventTypes inp) \<le> 32
     \<and> length (si_Kinds inp) \<le> 2 \<and> distinct (si_TopicIDs inp) \<and> list_all id32 (si_TopicIDs inp)
     \<and> distinct (si_Kinds inp) \<and> set (si_Kinds inp) \<subseteq> {''event'', ''message''}
     \<and> distinct (si_EventTypes inp) \<and> list_all (\<lambda>f. validTypeKey (fst f) \<and> 1 \<le> snd f) (si_EventTypes inp)
     \<and> (si_EventTypes inp = [] \<or> si_Kinds inp = [] \<or> ''event'' \<in> set (si_Kinds inp))
     \<and> out = inp\<lparr>si_TopicIDs := sort (si_TopicIDs inp),
          si_Kinds := (if si_Kinds inp = [] then [''event'', ''message''] else sort (si_Kinds inp)),
          si_EventTypes := sort (si_EventTypes inp)\<rparr>"
proof -
  have e: "sort [''event'', ''message''] = [''event'', ''message'']" by code_simp
  have l: "list_all p (sort xs) = list_all p xs" for p and xs :: "'a::linorder list" by (simp add: list_all_iff)
  have n: "sort xs = [] \<longleftrightarrow> xs = []" for xs :: "'a::linorder list" by (metis length_0_conv length_sort)
  show ?thesis
    unfolding canonicalFilters_def Let_def bindE_Inr_iff
    by (cases "si_Kinds inp = []") (auto simp: e adjacent_ok_sorted l n list_all_iff not_less)
qed

lemma sort_of_set:
  fixes xs ys :: "'a::linorder list"
  assumes "distinct xs" and "set xs = set ys" and "sorted ys" and "distinct ys"
  shows "sort xs = ys"
  by (rule sorted_distinct_set_unique) (use assms in auto)

lemma subset_pair: "S \<subseteq> {a, b} \<Longrightarrow> S \<noteq> {} \<Longrightarrow> S = {a} \<or> S = {b} \<or> S = {a, b}"
  by blast

lemma sorted_kinds:
  assumes "distinct ks" and "set ks \<subseteq> {''event'', ''message''}" and "ks \<noteq> []"
  shows "sort ks \<in> {[''event''], [''message''], [''event'', ''message'']}"
proof -
  have s: "sorted [''event'', ''message'']" by code_simp
  consider "set ks = set [''event'']" | "set ks = set [''message'']" | "set ks = set [''event'', ''message'']"
    using subset_pair[OF assms(2)] assms(3) by (simp only: set_empty list.set) blast
  then show ?thesis
  proof cases
    case 3
    then show ?thesis using sort_of_set[OF assms(1) 3 s] by simp
  qed (use sort_of_set[OF assms(1)] in force)+
qed

lemma mset_sort: "mset xs = mset ys \<Longrightarrow> sort xs = sort ys" for xs ys :: "'a::linorder list"
  by (metis mset_sort properties_for_sort sorted_sort)

text \<open>
  A subscription's filters are put in a canonical form: sorted, without duplicates, naming the same topics and
  event types; the form does not depend on the order in which the caller listed them, and canonicalising it
  again changes nothing.
\<close>

theorem filters_canonical:
  assumes "canonicalFilters inp = Inr out"
  shows "sorted (si_TopicIDs out) \<and> distinct (si_TopicIDs out) \<and> set (si_TopicIDs out) = set (si_TopicIDs inp)
    \<and> sorted (si_EventTypes out) \<and> distinct (si_EventTypes out) \<and> set (si_EventTypes out) = set (si_EventTypes inp)
    \<and> si_Kinds out \<in> {[''event''], [''message''], [''event'', ''message'']}
    \<and> canonicalFilters out = Inr out
    \<and> (\<forall>ts ks es. mset ts = mset (si_TopicIDs inp) \<and> mset ks = mset (si_Kinds inp) \<and> mset es = mset (si_EventTypes inp) \<longrightarrow>
         canonicalFilters (inp\<lparr>si_TopicIDs := ts, si_Kinds := ks, si_EventTypes := es\<rparr>) = Inr out)"
proof -
  note v = assms[unfolded canonicalFilters_Inr]
  have s: "sorted [''event'', ''message'']" by code_simp
  have kinds: "si_Kinds out \<in> {[''event''], [''message''], [''event'', ''message'']}"
    using v sorted_kinds[of "si_Kinds inp"] by (cases "si_Kinds inp = []") simp_all
  have l: "list_all p (sort xs) = list_all p xs" for p and xs :: "'a::linorder list" by (simp add: list_all_iff)
  have n: "sort xs = [] \<longleftrightarrow> xs = []" for xs :: "'a::linorder list" by (metis length_0_conv length_sort)
  have "si_EventTypes out = [] \<or> ''event'' \<in> set (si_Kinds out)" using v by auto
  then have again: "canonicalFilters out = Inr out"
    using v kinds s by (auto simp: canonicalFilters_Inr l n sorted_sort_id)
  have perm: "canonicalFilters (inp\<lparr>si_TopicIDs := ts, si_Kinds := ks, si_EventTypes := es\<rparr>) = Inr out"
    if m: "mset ts = mset (si_TopicIDs inp)" "mset ks = mset (si_Kinds inp)" "mset es = mset (si_EventTypes inp)" for ts ks es
  proof -
    note eqs = m[THEN mset_eq_setD] m[THEN mset_eq_length] m[THEN mset_sort] m[THEN mset_eq_imp_distinct_iff]
    have "ts = [] \<longleftrightarrow> si_TopicIDs inp = []" "ks = [] \<longleftrightarrow> si_Kinds inp = []" "es = [] \<longleftrightarrow> si_EventTypes inp = []" using m by auto
    then show ?thesis using v by (simp add: canonicalFilters_Inr eqs list_all_iff)
  qed
  from v kinds again perm show ?thesis by auto
qed

end
