(* ===== verification/Retention.thy ===== *)
theory Retention
  imports Events
begin

text \<open>
  \<open>internal/hubstore/retention.go\<close>: which publications a cutoff makes prunable (whole messages,
  superseded revisions, whole correction chains), the batch, the single transaction that
  deletes them, and the durable record of what was removed: pruned ranges, pruned keys, the
  low-water mark and the retention epoch.
\<close>

section \<open>Reports\<close>

definition PruneBatchLimit :: int where "PruneBatchLimit = 10000"

record pruneScope =
  ps_ScopeID :: string
  ps_Entries :: int
  ps_PayloadBytes :: int
  ps_Gaps :: "gap list"

record pruneReport =
  rp_Cutoff :: gotime
  rp_DryRun :: bool
  rp_Entries :: int
  rp_PayloadBytes :: int
  rp_More :: bool
  rp_PlanDigest :: string
  rp_Scopes :: "pruneScope list"
  rp_BackupPath :: string
  rp_RetentionEpoch :: int

text \<open>The \<open>dependencies\<close> text of an entry: the head, the votes and the pins it would take along.\<close>

record pruneDeps =
  dp_current :: "string option"
  dp_revision :: "int option"
  dp_pinned :: "bool option"
  dp_votes :: "(string \<times> int) list"
  dp_pins :: "(string \<times> bool) list"

text \<open>The group prefix of the query: a message, a single revision, an event chain.\<close>

datatype group = MGroup string | RGroup string | EGroup string

fun group_id :: "group \<Rightarrow> string" where
  "group_id (MGroup m) = ''M:'' @ m"
| "group_id (RGroup e) = ''R:'' @ e"
| "group_id (EGroup r) = ''E:'' @ r"

record pruneEntry =
  pe_id :: string
  pe_scope :: string
  pe_topic :: string
  pe_actor :: string
  pe_key :: string
  pe_kind :: string
  pe_group :: group
  pe_dependencies :: pruneDeps
  pe_sequence :: int
  pe_bytes :: int
  pe_depth :: int

section \<open>Candidates\<close>

text \<open>
  The recursive query \<open>event_roots\<close>: the root of an event's correction chain and its depth.
  The fuel is the number of events; \<open>event_root_enough\<close> shows it suffices.
\<close>

fun event_root :: "hub \<Rightarrow> nat \<Rightarrow> string \<Rightarrow> (string \<times> int) option" where
  "event_root h 0 e = None"
| "event_root h (Suc fuel) e =
     (case find_event h e of
        None \<Rightarrow> None
      | Some r \<Rightarrow> (case ev_corrects r of
          None \<Rightarrow> Some (e, 0)
        | Some c \<Rightarrow> map_option (\<lambda>(root, n). (root, n + 1)) (event_root h fuel c)))"

definition root_of :: "hub \<Rightarrow> string \<Rightarrow> (string \<times> int) option" where
  "root_of h e = event_root h (length (events h)) e"

definition event_roots :: "hub \<Rightarrow> (string \<times> string \<times> int) list" where
  "event_roots h =
     List.map_filter (\<lambda>r. map_option (\<lambda>(root, n). (ev_entry r, root, n)) (root_of h (ev_entry r))) (events h)"

definition committed_at :: "hub \<Rightarrow> string \<Rightarrow> int option" where
  "committed_at h e = map_option pb_committed_at (find_publication h e)"

definition before_cutoff :: "hub \<Rightarrow> int \<Rightarrow> string \<Rightarrow> bool" where
  "before_cutoff h cutoff e = (case committed_at h e of None \<Rightarrow> False | Some t \<Rightarrow> t < cutoff)"

text \<open>\<open>old_chains\<close>: every member of the chain was committed before the cutoff.\<close>

definition old_chain :: "hub \<Rightarrow> int \<Rightarrow> string \<Rightarrow> bool" where
  "old_chain h cutoff root \<longleftrightarrow>
     (\<exists>(e, r, n) \<in> set (event_roots h). r = root \<and> committed_at h e \<noteq> None) \<and>
     (\<forall>(e, r, n) \<in> set (event_roots h). r = root \<and> committed_at h e \<noteq> None \<longrightarrow> before_cutoff h cutoff e)"

text \<open>\<open>old_heads\<close>: unpinned, and no revision was committed at or after the cutoff.\<close>

definition old_head :: "hub \<Rightarrow> int \<Rightarrow> head_row \<Rightarrow> bool" where
  "old_head h cutoff m \<longleftrightarrow>
     \<not> hd_pinned m \<and> before_cutoff h cutoff (hd_entry m)
     \<and> (\<forall>r \<in> set (revisions h). rv_message r = hd_message m \<longrightarrow>
           (case committed_at h (rv_entry r) of None \<Rightarrow> True | Some t \<Rightarrow> t < cutoff))"

definition old_message :: "hub \<Rightarrow> int \<Rightarrow> string \<Rightarrow> bool" where
  "old_message h cutoff mid \<longleftrightarrow> (\<exists>m \<in> set (heads h). hd_message m = mid \<and> old_head h cutoff m)"

definition superseded :: "hub \<Rightarrow> int \<Rightarrow> revision_row \<Rightarrow> bool" where
  "superseded h cutoff r \<longleftrightarrow>
     (\<exists>m \<in> set (heads h). hd_message m = rv_message r \<and> hd_entry m \<noteq> rv_entry r)
     \<and> before_cutoff h cutoff (rv_entry r) \<and> \<not> old_message h cutoff (rv_message r)"

definition candidates :: "hub \<Rightarrow> int \<Rightarrow> (group \<times> string \<times> int) list" where
  "candidates h cutoff =
     map (\<lambda>r. (MGroup (rv_message r), rv_entry r, 0)) (filter (\<lambda>r. old_message h cutoff (rv_message r)) (revisions h))
     @ map (\<lambda>r. (RGroup (rv_entry r), rv_entry r, 0)) (filter (superseded h cutoff) (revisions h))
     @ map (\<lambda>(e, root, n). (EGroup root, e, n)) (filter (\<lambda>(e, root, n). old_chain h cutoff root) (event_roots h))"

definition deps_of :: "hub \<Rightarrow> string \<Rightarrow> pruneDeps" where
  "deps_of h e = (case find_revision h e of
     None \<Rightarrow> \<lparr>dp_current = None, dp_revision = None, dp_pinned = None, dp_votes = [], dp_pins = []\<rparr>
   | Some r \<Rightarrow>
       let m = find_head h (rv_message r);
           vs = filter (\<lambda>v. vt_message v = rv_message r \<and> vt_revision v = rv_revision r) (votes h);
           ps = filter (\<lambda>p. pn_message p = rv_message r \<and> pn_revision p = rv_revision r) (pins h)
       in \<lparr>dp_current = map_option hd_entry m, dp_revision = map_option hd_revision m,
           dp_pinned = map_option hd_pinned m,
           dp_votes = sort_key fst (map (\<lambda>v. (vt_actor v, vt_value v)) vs),
           dp_pins = sort_key fst (map (\<lambda>p. (pn_id p, pn_pinned p)) ps)\<rparr>)"

text \<open>\<open>refs_bytes\<close> is the length of the two JSON columns of a publication (a parameter).\<close>

definition entry_bytes :: "(publication_row \<Rightarrow> int) \<Rightarrow> hub \<Rightarrow> publication_row \<Rightarrow> int" where
  "entry_bytes refs_bytes h p =
     refs_bytes p
     + (case find_event h (pb_entry p) of None \<Rightarrow> 0 | Some e \<Rightarrow> int (length (ev_payload e)))
     + (case find_revision h (pb_entry p) of None \<Rightarrow> 0 | Some r \<Rightarrow> int (length (rv_text r)))"

definition prune_entry ::
  "(publication_row \<Rightarrow> int) \<Rightarrow> hub \<Rightarrow> group \<times> string \<times> int \<Rightarrow> pruneEntry option" where
  "prune_entry refs_bytes h = (\<lambda>(g, e, n). map_option (\<lambda>p.
     \<lparr>pe_id = pb_entry p, pe_scope = pb_scope p, pe_topic = pb_topic p, pe_actor = pb_actor p,
      pe_key = string_of_null (pb_key p), pe_kind = pb_kind p, pe_group = g, pe_dependencies = deps_of h e,
      pe_sequence = pb_sequence p, pe_bytes = entry_bytes refs_bytes h p, pe_depth = n\<rparr>) (find_publication h e))"

definition group_members :: "pruneEntry list \<Rightarrow> group \<Rightarrow> pruneEntry list" where
  "group_members es g = filter (\<lambda>e. pe_group e = g) es"

definition first_sequence :: "pruneEntry list \<Rightarrow> group \<Rightarrow> int" where
  "first_sequence es g = Min (pe_sequence ` set (group_members es g))"

text \<open>\<open>ORDER BY p.scope_id, first_sequence, group_id, p.sequence\<close>.\<close>

definition ordered_entries :: "pruneEntry list \<Rightarrow> pruneEntry list" where
  "ordered_entries es =
     sort_key (\<lambda>e. (pe_scope e, first_sequence es (pe_group e), group_id (pe_group e), pe_sequence e)) es"

text \<open>
  The batching loop: a group is taken whole; the batch stops before the group that would pass
  the limit, and a group that alone passes it is an error.
\<close>

fun batch_loop ::
  "(group \<Rightarrow> int) \<Rightarrow> group option \<Rightarrow> pruneEntry list \<Rightarrow> pruneEntry list \<Rightarrow> err + (pruneEntry list \<times> bool)" where
  "batch_loop gsize grp entries [] = Inr (entries, False)"
| "batch_loop gsize grp entries (e # rows) =
     (if Some (pe_group e) \<noteq> grp then
        (if entries \<noteq> [] \<and> int (length entries) + gsize (pe_group e) > PruneBatchLimit then Inr (entries, True)
         else if gsize (pe_group e) > PruneBatchLimit then Inl ErrInvalidInput
         else batch_loop gsize (Some (pe_group e)) (entries @ [e]) rows)
      else batch_loop gsize grp (entries @ [e]) rows)"

definition pruneCandidates ::
  "(publication_row \<Rightarrow> int) \<Rightarrow> hub \<Rightarrow> int \<Rightarrow> err + (pruneEntry list \<times> bool)" where
  "pruneCandidates refs_bytes h cutoff =
     (let es = List.map_filter (prune_entry refs_bytes h) (candidates h cutoff)
      in batch_loop (\<lambda>g. int (length (group_members es g))) None [] (ordered_entries es))"

fun report_loop :: "pruneEntry list \<Rightarrow> pruneScope list \<Rightarrow> pruneScope list" where
  "report_loop [] scs = scs"
| "report_loop (e # es) scs =
     (let scs1 = (if scs = [] \<or> ps_ScopeID (last scs) \<noteq> pe_scope e
                  then scs @ [\<lparr>ps_ScopeID = pe_scope e, ps_Entries = 0, ps_PayloadBytes = 0, ps_Gaps = []\<rparr>]
                  else scs);
          s = last scs1
      in report_loop es (butlast scs1 @
           [s\<lparr>ps_Entries := ps_Entries s + 1, ps_PayloadBytes := ps_PayloadBytes s + pe_bytes e,
              ps_Gaps := addGap (ps_Gaps s) (pe_sequence e) (pe_sequence e) ''pruned''\<rparr>]))"

text \<open>\<open>digest\<close> is \<open>candidateDigest\<close>: SHA-256 of the formatted entries (a parameter).\<close>

definition make_report ::
  "(pruneEntry list \<Rightarrow> string) \<Rightarrow> hub \<Rightarrow> gotime \<Rightarrow> pruneEntry list \<Rightarrow> bool \<Rightarrow> bool \<Rightarrow> pruneReport" where
  "make_report digest h cutoff entries hasMore dry =
     \<lparr>rp_Cutoff = cutoff, rp_DryRun = dry, rp_Entries = int (length entries),
      rp_PayloadBytes = sum_list (map pe_bytes entries), rp_More = hasMore, rp_PlanDigest = digest entries,
      rp_Scopes = report_loop (sort_key (\<lambda>e. (pe_scope e, pe_sequence e)) entries) [],
      rp_BackupPath = '''', rp_RetentionEpoch = retention_epoch h\<rparr>"

definition validPruneCutoff :: "gotime \<Rightarrow> err + unit" where
  "validPruneCutoff cutoff =
     requireE (\<not> (time_IsZero cutoff \<or> zone_offset cutoff \<noteq> 0 \<or> unixMilli cutoff \<le> 0)) ErrInvalidInput"

definition PlanHubPrune ::
  "(int \<Rightarrow> string) \<Rightarrow> (publication_row \<Rightarrow> int) \<Rightarrow> (pruneEntry list \<Rightarrow> string) \<Rightarrow> gotime \<Rightarrow> hub \<Rightarrow> err + pruneReport" where
  "PlanHubPrune dg refs_bytes digest cutoff h =
     bindE (validPruneCutoff cutoff) (\<lambda>_.
     bindE (probe dg h) (\<lambda>_.
     bindE (pruneCandidates refs_bytes h (unixMilli cutoff)) (\<lambda>(entries, hasMore).
       Inr (make_report digest h cutoff entries hasMore True))))"

section \<open>Deletion\<close>

text \<open>
  The deletions the schema guards: outside a retention transaction the triggers abort them;
  rows that other rows reference cannot go.
\<close>

definition delete_guard :: "hub \<Rightarrow> bool \<Rightarrow> bool \<Rightarrow> hub \<Rightarrow> err + hub" where
  "delete_guard h hit referenced h' =
     (if hit \<and> \<not> retention_enabled h then Inl sql_trigger
      else if referenced then Inl sql_foreign_key else Inr h')"

definition delete_idem :: "string \<Rightarrow> string \<Rightarrow> string \<Rightarrow> string \<Rightarrow> hub \<Rightarrow> err + hub" where
  "delete_idem scope tid actorID key h =
     (let P = (\<lambda>r. idem_key r = (scope, tid, actorID, key))
      in delete_guard h (\<exists>r \<in> set (idems h). P r) False (h\<lparr>idems := delete_where P (idems h)\<rparr>))"

definition revision_of_entry :: "hub \<Rightarrow> string \<Rightarrow> string \<Rightarrow> int \<Rightarrow> bool" where
  "revision_of_entry h e mid n \<longleftrightarrow>
     (\<exists>r \<in> set (revisions h). rv_entry r = e \<and> rv_message r = mid \<and> rv_revision r = n)"

definition delete_votes_of :: "string \<Rightarrow> hub \<Rightarrow> hub" where
  "delete_votes_of e h = h\<lparr>votes := delete_where (\<lambda>v. revision_of_entry h e (vt_message v) (vt_revision v)) (votes h)\<rparr>"

definition delete_pins_of :: "string \<Rightarrow> hub \<Rightarrow> err + hub" where
  "delete_pins_of e h =
     (let P = (\<lambda>p. revision_of_entry h e (pn_message p) (pn_revision p))
      in delete_guard h (\<exists>p \<in> set (pins h). P p) False (h\<lparr>pins := delete_where P (pins h)\<rparr>))"

text \<open>Deleting a revision cascades to its votes; a pin audit row keeps it.\<close>

definition delete_revision :: "string \<Rightarrow> hub \<Rightarrow> err + hub" where
  "delete_revision e h =
     delete_guard h (\<exists>r \<in> set (revisions h). rv_entry r = e)
       (\<exists>p \<in> set (pins h). revision_of_entry h e (pn_message p) (pn_revision p))
       (h\<lparr>revisions := delete_where (\<lambda>r. rv_entry r = e) (revisions h),
          votes := delete_where (\<lambda>v. revision_of_entry h e (vt_message v) (vt_revision v)) (votes h)\<rparr>)"

definition delete_head :: "string \<Rightarrow> hub \<Rightarrow> err + hub" where
  "delete_head mid h =
     (if \<exists>m \<in> set (heads h). hd_message m = mid then
        (if (\<exists>r \<in> set (revisions h). rv_message r = mid) \<or> (\<exists>p \<in> set (pins h). pn_message p = mid)
         then Inl sql_foreign_key
         else Inr (h\<lparr>heads := delete_where (\<lambda>m. hd_message m = mid) (heads h)\<rparr>))
      else Inl ErrConflict)"

definition delete_event :: "string \<Rightarrow> hub \<Rightarrow> err + hub" where
  "delete_event e h =
     delete_guard h (\<exists>r \<in> set (events h). ev_entry r = e)
       (\<exists>r \<in> set (events h). ev_corrects r = Some e \<and> ev_entry r \<noteq> e)
       (h\<lparr>events := delete_where (\<lambda>r. ev_entry r = e) (events h)\<rparr>)"

definition entry_referenced :: "hub \<Rightarrow> string \<Rightarrow> bool" where
  "entry_referenced h e \<longleftrightarrow>
     (\<exists>m \<in> set (heads h). hd_entry m = e) \<or> (\<exists>r \<in> set (revisions h). rv_entry r = e)
     \<or> (\<exists>i \<in> set (idems h). ik_entry i = e) \<or> (\<exists>v \<in> set (events h). ev_entry v = e)"

definition delete_publication :: "string \<Rightarrow> hub \<Rightarrow> err + hub" where
  "delete_publication e h =
     (if entry_exists h e
      then delete_guard h True (entry_referenced h e)
             (h\<lparr>publications := delete_where (\<lambda>p. pb_entry p = e) (publications h)\<rparr>)
      else Inl ErrConflict)"

definition insert_pruned_idem :: "pruned_idem_row \<Rightarrow> hub \<Rightarrow> err + hub" where
  "insert_pruned_idem r h = constraints True True
     ((pi_scope r, pi_topic r, pi_actor r, pi_key r)
        \<notin> (\<lambda>i. (pi_scope i, pi_topic i, pi_actor i, pi_key i)) ` set (pruned_idems h))
     (topic_in_scope h (pi_scope r) (pi_topic r))
     (h\<lparr>pruned_idems := pruned_idems h @ [r]\<rparr>)"

section \<open>Pruned ranges\<close>

text \<open>\<open>mergePrunedRange\<close>: the new range grows while a recorded range overlaps or touches it.\<close>

definition touches :: "range_row \<Rightarrow> int \<Rightarrow> int \<Rightarrow> bool" where
  "touches r first final \<longleftrightarrow> pr_to r \<ge> first - 1 \<and> pr_from r \<le> final + 1"

definition grow :: "range_row list \<Rightarrow> int \<Rightarrow> int \<Rightarrow> int \<times> int" where
  "grow rs first final =
     fold (\<lambda>r (a, b). (if pr_from r < a then pr_from r else a, if pr_to r > b then pr_to r else b))
       (filter (\<lambda>r. touches r first final) rs) (first, final)"

lemma fold_grow_mono:
  "fold (\<lambda>r (a, b). (if pr_from r < a then pr_from r else a, if pr_to r > b then pr_to r else b)) rs (a, b) = (a', b')
   \<Longrightarrow> a' \<le> a \<and> b \<le> b' \<and> (\<forall>r \<in> set rs. a' \<le> pr_from r \<and> pr_to r \<le> b')
     \<and> (a' = a \<or> (\<exists>r \<in> set rs. a' = pr_from r)) \<and> (b' = b \<or> (\<exists>r \<in> set rs. b' = pr_to r))"
proof (induction rs arbitrary: a b)
  case (Cons r rs)
  let ?a = "if pr_from r < a then pr_from r else a" and ?b = "if pr_to r > b then pr_to r else b"
  have "fold (\<lambda>r (a, b). (if pr_from r < a then pr_from r else a, if pr_to r > b then pr_to r else b)) rs (?a, ?b) = (a', b')"
    using Cons.prems by simp
  from Cons.IH[OF this] show ?case by (auto split: if_splits)
qed simp

lemma grow_mono:
  assumes "grow rs a b = (a', b')"
  shows "a' \<le> a" "b \<le> b'" "\<And>r. r \<in> set rs \<Longrightarrow> touches r a b \<Longrightarrow> a' \<le> pr_from r \<and> pr_to r \<le> b'"
    "a' = a \<or> (\<exists>r \<in> set rs. touches r a b \<and> a' = pr_from r)"
    "b' = b \<or> (\<exists>r \<in> set rs. touches r a b \<and> b' = pr_to r)"
  using fold_grow_mono[of "filter (\<lambda>r. touches r a b) rs" a b a' b'] assms
  by (auto simp: grow_def)

text \<open>A range is inside when it lies within the new one; each round that changes adds one.\<close>

definition outside :: "range_row list \<Rightarrow> int \<Rightarrow> int \<Rightarrow> nat" where
  "outside rs a b = length (filter (\<lambda>r. \<not> (a \<le> pr_from r \<and> pr_to r \<le> b)) rs)"

lemma length_filter_mono: "\<forall>x \<in> set xs. P x \<longrightarrow> Q x \<Longrightarrow> length (filter P xs) \<le> length (filter Q xs)"
  by (induction xs) auto

lemma length_filter_less:
  assumes "\<And>x. x \<in> set xs \<Longrightarrow> P x \<Longrightarrow> Q x" and "y \<in> set xs" and "Q y" and "\<not> P y"
  shows "length (filter P xs) < length (filter Q xs)"
  using assms
proof (induction xs)
  case (Cons x xs)
  have le: "length (filter P xs) \<le> length (filter Q xs)"
    by (rule length_filter_mono) (use Cons.prems(1) in auto)
  show ?case
  proof (cases "y \<in> set xs")
    case True
    then have "length (filter P xs) < length (filter Q xs)" using Cons by auto
    then show ?thesis using Cons.prems(1) by auto
  next
    case False
    then have "y = x" using Cons.prems(2) by simp
    then show ?thesis using Cons.prems le by auto
  qed
qed simp

lemma outside_grow:
  assumes g: "grow rs a b = (a', b')" and "(a', b') \<noteq> (a, b)"
  shows "outside rs a' b' < outside rs a b"
proof -
  note m = grow_mono[OF g]
  obtain r where r: "r \<in> set rs" "touches r a b" "\<not> (a \<le> pr_from r \<and> pr_to r \<le> b)"
    using m(1,2,4,5) assms(2) by fastforce
  show ?thesis
    unfolding outside_def
    by (rule length_filter_less[where y = r]) (use m r in auto)
qed

function merge_bounds :: "range_row list \<Rightarrow> int \<Rightarrow> int \<Rightarrow> int \<times> int" where
  "merge_bounds rs first final =
     (let (a, b) = grow rs first final in if (a, b) \<noteq> (first, final) then merge_bounds rs a b else (first, final))"
  by pat_completeness auto
termination
proof (relation "measure (\<lambda>(rs, a, b). outside rs a b)", goal_cases)
  case 1
  show ?case by simp
next
  case (2 rs first final x xa y)
  then have "outside rs xa y < outside rs first final"
    using outside_grow[of rs first final xa y] by (cases x) auto
  with 2 show ?case by (metis case_prod_conv in_measure)
qed

declare merge_bounds.simps [simp del]

definition mergePrunedRange :: "string \<Rightarrow> int \<Rightarrow> int \<Rightarrow> string \<Rightarrow> hub \<Rightarrow> err + hub" where
  "mergePrunedRange scope first0 last0 pruneID h =
     (case merge_bounds (filter (\<lambda>r. pr_scope r = scope) (pruned_ranges h)) first0 last0 of (first, final) \<Rightarrow>
      let kept = delete_where (\<lambda>r. pr_scope r = scope \<and> touches r first final) (pruned_ranges h);
          new = \<lparr>pr_scope = scope, pr_from = first, pr_to = final, pr_prune = pruneID\<rparr>
      in constraints (0 < first \<and> first \<le> final) True
           (\<forall>r \<in> set kept. \<not> (pr_scope r = scope \<and> pr_from r = first)) (scope_exists h scope)
           (h\<lparr>pruned_ranges := kept @ [new]\<rparr>))"

section \<open>The prune transaction\<close>

definition prune_keys_step :: "string \<Rightarrow> pruneEntry \<Rightarrow> hub \<Rightarrow> err + hub" where
  "prune_keys_step pid e h =
     bindE (if pe_key e \<noteq> '''' then
              bindE (insert_pruned_idem \<lparr>pi_scope = pe_scope e, pi_topic = pe_topic e, pi_actor = pe_actor e,
                       pi_key = pe_key e, pi_prune = pid\<rparr> h) (\<lambda>h1.
                delete_idem (pe_scope e) (pe_topic e) (pe_actor e) (pe_key e) h1)
            else Inr h) (\<lambda>h1.
       if pe_kind e = ''message'' then delete_pins_of (pe_id e) (delete_votes_of (pe_id e) h1) else Inr h1)"

definition prune_revision_step :: "pruneEntry \<Rightarrow> hub \<Rightarrow> err + hub" where
  "prune_revision_step e h = (if pe_kind e = ''message'' then delete_revision (pe_id e) h else Inr h)"

definition message_groups :: "pruneEntry list \<Rightarrow> string list" where
  "message_groups es =
     remdups (List.map_filter (\<lambda>e. case pe_group e of MGroup m \<Rightarrow> Some m | _ \<Rightarrow> None) es)"

definition prune_event_step :: "pruneEntry \<Rightarrow> hub \<Rightarrow> err + hub" where
  "prune_event_step e h = (if pe_kind e = ''event'' then delete_event (pe_id e) h else Inr h)"

definition children_first :: "pruneEntry list \<Rightarrow> pruneEntry list" where
  "children_first es = sort_key (\<lambda>e. - pe_depth e) es"

definition merge_scope :: "string \<Rightarrow> pruneScope \<Rightarrow> hub \<Rightarrow> err + hub" where
  "merge_scope pid s = foldE (\<lambda>g. mergePrunedRange (ps_ScopeID s) (gp_From g) (gp_To g) pid) (ps_Gaps s)"

text \<open>The first retained sequence minus one, or the high water when nothing is retained.\<close>

definition low_water_target :: "hub \<Rightarrow> string \<Rightarrow> int option" where
  "low_water_target h scope =
     (let seqs = map pb_sequence (filter (\<lambda>p. pb_scope p = scope) (publications h))
      in if seqs \<noteq> [] then Some (Min (set seqs) - 1)
         else map_option (\<lambda>c. ct_next c - 1) (List.find (\<lambda>c. ct_scope c = scope) (counters h)))"

definition raise_low_water :: "pruneScope \<Rightarrow> hub \<Rightarrow> hub" where
  "raise_low_water s h = (case low_water_target h (ps_ScopeID s) of
     None \<Rightarrow> h
   | Some n \<Rightarrow> h\<lparr>scopes := update_where (\<lambda>r. sc_id r = ps_ScopeID s \<and> sc_low_water r < n)
                  (\<lambda>r. r\<lparr>sc_low_water := n\<rparr>) (scopes h)\<rparr>)"

definition delete_entries :: "string \<Rightarrow> pruneEntry list \<Rightarrow> hub \<Rightarrow> err + hub" where
  "delete_entries pid entries h =
     bindE (foldE (prune_keys_step pid) entries h) (\<lambda>h1.
     bindE (foldE prune_revision_step entries h1) (\<lambda>h2.
     bindE (foldE delete_head (message_groups entries) h2) (\<lambda>h3.
     bindE (foldE prune_event_step (children_first entries) h3) (\<lambda>h4.
       foldE (\<lambda>e. delete_publication (pe_id e)) entries h4))))"

definition pruneHub_body ::
  "(publication_row \<Rightarrow> int) \<Rightarrow> (pruneEntry list \<Rightarrow> string) \<Rightarrow> gotime \<Rightarrow> pruneReport \<Rightarrow> err + string \<Rightarrow> rand
     \<Rightarrow> hub \<Rightarrow> int \<Rightarrow> err + (pruneReport \<times> hub)" where
  "pruneHub_body refs_bytes digest cutoff plan backup rid h now =
     bindE (requireE (\<not> unixMilli cutoff \<ge> now) ErrInvalidInput) (\<lambda>_.
     bindE backup (\<lambda>path.
     bindE (pruneCandidates refs_bytes h (unixMilli cutoff)) (\<lambda>(entries, hasMore).
     bindE (requireE (hasMore = rp_More plan \<and> int (length entries) = rp_Entries plan
                      \<and> digest entries = rp_PlanDigest plan) ErrBusyRetryable) (\<lambda>_.
     let report = make_report digest h cutoff entries hasMore False in
     bindE (requireE (rp_PayloadBytes report = rp_PayloadBytes plan) ErrBusyRetryable) (\<lambda>_.
     bindE (randomID rid) (\<lambda>pid.
     bindE (delete_entries pid entries (h\<lparr>retention_enabled := True\<rparr>)) (\<lambda>h1.
     bindE (foldE (merge_scope pid) (rp_Scopes report) h1) (\<lambda>h2.
     let h3 = fold raise_low_water (rp_Scopes report) (h2\<lparr>retention_enabled := False\<rparr>);
         h4 = h3\<lparr>retention_epoch := retention_epoch h3 + 1\<rparr>;
         out = report\<lparr>rp_RetentionEpoch := retention_epoch h4\<rparr>
     in bindE (insert_prune_audit \<lparr>pa_id = pid, pa_cutoff = unixMilli cutoff, pa_at = now, pa_backup = path,
                 pa_available = True, pa_entries = rp_Entries out, pa_bytes = rp_PayloadBytes out,
                 pa_epoch = rp_RetentionEpoch out\<rparr> h4) (\<lambda>h5.
          Inr (out\<lparr>rp_BackupPath := path\<rparr>, h5))))))))))"

text \<open>
  \<open>PruneHub\<close>: \<open>reconcile\<close> and \<open>backup\<close> are the outcomes of the backup files' maintenance and
  of the verified snapshot; the plan is made on the state \<open>h0\<close> read before admission.
\<close>

definition PruneHub ::
  "(int \<Rightarrow> string) \<Rightarrow> (publication_row \<Rightarrow> int) \<Rightarrow> (pruneEntry list \<Rightarrow> string) \<Rightarrow> db \<Rightarrow> env \<Rightarrow> gotime \<Rightarrow> gotime
     \<Rightarrow> err + unit \<Rightarrow> err + string \<Rightarrow> rand \<Rightarrow> hub \<Rightarrow> hub \<Rightarrow> (err + pruneReport) \<times> hub" where
  "PruneHub dg refs_bytes digest d env cutoff clk0 reconcile backup rid h0 h =
     (case bindE (requireE (\<not> readOnly d) ErrUnauthorized) (\<lambda>_.
           bindE (validPruneCutoff cutoff) (\<lambda>_.
           bindE (requireE (time_Before cutoff clk0) ErrInvalidInput) (\<lambda>_.
           bindE reconcile (\<lambda>_.
             PlanHubPrune dg refs_bytes digest cutoff h0)))) of
        Inl e \<Rightarrow> (Inl e, h)
      | Inr plan \<Rightarrow>
          if rp_Entries plan = 0 then (Inr (plan\<lparr>rp_DryRun := False\<rparr>), h)
          else hub_write d env (pruneHub_body refs_bytes digest cutoff plan backup rid) h)"

section \<open>Disk headroom\<close>

text \<open>64-bit unsigned arithmetic: the comparison is written so that nothing can wrap.\<close>

definition sufficientBackupHeadroom :: "64 word \<Rightarrow> 64 word \<Rightarrow> bool" where
  "sufficientBackupHeadroom free dbBytes \<longleftrightarrow>
     (let reserve = 64 * 1024 * 1024 in free \<ge> reserve \<and> dbBytes \<le> (free - reserve) div 2)"

section \<open>Lemmas: pruned ranges\<close>

text \<open>What a list of ranges covers, and that no two of them overlap or touch.\<close>

definition covered :: "range_row list \<Rightarrow> int set" where
  "covered rs = (\<Union>r \<in> set rs. {pr_from r..pr_to r})"

definition scope_ranges :: "hub \<Rightarrow> string \<Rightarrow> range_row list" where
  "scope_ranges h scope = filter (\<lambda>r. pr_scope r = scope) (pruned_ranges h)"

definition separated :: "hub \<Rightarrow> bool" where
  "separated h \<longleftrightarrow> (\<forall>r \<in> set (pruned_ranges h). 0 < pr_from r \<and> pr_from r \<le> pr_to r)
     \<and> pairwise (\<lambda>r s. pr_scope r = pr_scope s \<longrightarrow> pr_to r + 1 < pr_from s \<or> pr_to s + 1 < pr_from r) (set (pruned_ranges h))
     \<and> distinct (pruned_ranges h)"

lemma separated_ranges_ok: "separated h \<Longrightarrow> ranges_ok h"
  by (fastforce simp: separated_def ranges_ok_def pairwise_def)

lemma covered_simps [simp]:
  "covered [] = {}"
  "covered (r # rs) = {pr_from r..pr_to r} \<union> covered rs"
  "covered (rs @ ss) = covered rs \<union> covered ss"
  by (auto simp: covered_def)

lemma in_covered: "x \<in> covered rs \<longleftrightarrow> (\<exists>r \<in> set rs. pr_from r \<le> x \<and> x \<le> pr_to r)"
  by (auto simp: covered_def)

lemma grow_covers:
  assumes "grow rs a b = (a', b')" and "a \<le> b" and "a' \<le> x" and "x \<le> b'"
  shows "x \<in> {a..b} \<union> covered rs"
proof -
  note g = grow_mono[OF assms(1)]
  consider "x < a" | "b < x" | "a \<le> x" "x \<le> b" by linarith
  then show ?thesis
  proof cases
    case 1
    with g(4) assms(3) obtain r where r: "r \<in> set rs" "touches r a b" "a' = pr_from r" by auto
    then have "pr_from r \<le> x" "x \<le> pr_to r" using 1 assms(3) by (auto simp: touches_def)
    with r(1) show ?thesis by (auto simp: in_covered)
  next
    case 2
    with g(5) assms(4) obtain r where r: "r \<in> set rs" "touches r a b" "b' = pr_to r" by auto
    then have "pr_from r \<le> x" "x \<le> pr_to r" using 2 assms(4) by (auto simp: touches_def)
    with r(1) show ?thesis by (auto simp: in_covered)
  qed simp
qed

lemma merge_bounds_spec:
  assumes "merge_bounds rs a b = (a', b')" and "a \<le> b"
  shows "a' \<le> a \<and> b \<le> b' \<and> (\<forall>r \<in> set rs. touches r a' b' \<longrightarrow> a' \<le> pr_from r \<and> pr_to r \<le> b')
    \<and> {a'..b'} \<subseteq> {a..b} \<union> covered rs"
  using assms
proof (induction rs a b rule: merge_bounds.induct)
  case (1 rs a b)
  obtain a1 b1 where g: "grow rs a b = (a1, b1)" by (cases "grow rs a b")
  note m = grow_mono[OF g]
  show ?case
  proof (cases "(a1, b1) = (a, b)")
    case True
    then have "(a', b') = (a, b)" using "1.prems"(1) g by (simp add: merge_bounds.simps[of rs a b])
    then show ?thesis using m(3) True by auto
  next
    case False
    then have r: "merge_bounds rs a1 b1 = (a', b')" using "1.prems"(1) g by (simp add: merge_bounds.simps[of rs a b])
    have "a1 \<le> b1" using m(1,2) "1.prems"(2) by linarith
    with "1.IH"[OF g[symmetric] refl False r] have ih: "a' \<le> a1" "b1 \<le> b'"
      "\<forall>r \<in> set rs. touches r a' b' \<longrightarrow> a' \<le> pr_from r \<and> pr_to r \<le> b'" "{a'..b'} \<subseteq> {a1..b1} \<union> covered rs" by auto
    have "{a1..b1} \<subseteq> {a..b} \<union> covered rs"
      using grow_covers[OF g "1.prems"(2)] unfolding atLeastAtMost_iff by (intro subsetI) simp
    then show ?thesis using ih m(1,2) by auto
  qed
qed

lemma mergePrunedRange_Inr:
  assumes "mergePrunedRange scope a b pid h = Inr h'"
  obtains a' b' where "merge_bounds (scope_ranges h scope) a b = (a', b')" "0 < a'" "a' \<le> b'" "scope_exists h scope"
    "h' = h\<lparr>pruned_ranges := delete_where (\<lambda>r. pr_scope r = scope \<and> touches r a' b') (pruned_ranges h)
        @ [\<lparr>pr_scope = scope, pr_from = a', pr_to = b', pr_prune = pid\<rparr>]\<rparr>"
  using assms by (auto simp: mergePrunedRange_def scope_ranges_def Let_def split: prod.splits)

text \<open>Merging a range keeps the recorded ranges apart and adds exactly its positions.\<close>

lemma mergePrunedRange_spec:
  assumes m: "mergePrunedRange scope a b pid h = Inr h'" and "a \<le> b" and s: "separated h"
  shows "separated h'" and "covered (scope_ranges h' scope) = covered (scope_ranges h scope) \<union> {a..b}"
    and "\<And>other. other \<noteq> scope \<Longrightarrow> scope_ranges h' other = scope_ranges h other"
proof -
  from m obtain a' b' where mb: "merge_bounds (scope_ranges h scope) a b = (a', b')" and pos: "0 < a'" "a' \<le> b'"
    and h': "h' = h\<lparr>pruned_ranges := delete_where (\<lambda>r. pr_scope r = scope \<and> touches r a' b') (pruned_ranges h)
        @ [\<lparr>pr_scope = scope, pr_from = a', pr_to = b', pr_prune = pid\<rparr>]\<rparr>"
    by (rule mergePrunedRange_Inr) blast
  let ?kept = "delete_where (\<lambda>r. pr_scope r = scope \<and> touches r a' b') (pruned_ranges h)"
    and ?new = "\<lparr>pr_scope = scope, pr_from = a', pr_to = b', pr_prune = pid\<rparr>"
  note spec = merge_bounds_spec[OF mb assms(2)]
  have apart: "pr_to r + 1 < a' \<or> b' + 1 < pr_from r" if "r \<in> set ?kept" "pr_scope r = scope" for r
    using that by (auto simp: in_delete_where touches_def)
  have kept: "set ?kept \<subseteq> set (pruned_ranges h)" by (auto simp: in_delete_where)
  have "?new \<notin> set ?kept" using apart[of ?new] pos by auto
  moreover have "distinct ?kept" using s by (simp add: separated_def delete_where_def)
  ultimately have "distinct (?kept @ [?new])" by simp
  moreover have "pairwise (\<lambda>r s. pr_scope r = pr_scope s \<longrightarrow> pr_to r + 1 < pr_from s \<or> pr_to s + 1 < pr_from r) (set ?kept)"
    using s kept unfolding separated_def by (blast intro: pairwise_subset)
  then have "pairwise (\<lambda>r s. pr_scope r = pr_scope s \<longrightarrow> pr_to r + 1 < pr_from s \<or> pr_to s + 1 < pr_from r) (set (?kept @ [?new]))"
    using apart by (auto simp: pairwise_insert)
  moreover have "\<forall>r \<in> set (?kept @ [?new]). 0 < pr_from r \<and> pr_from r \<le> pr_to r"
    using s kept pos by (auto simp: separated_def)
  ultimately show "separated h'" by (simp add: separated_def h')
  show "scope_ranges h' other = scope_ranges h other" if "other \<noteq> scope" for other
    using that by (auto simp: scope_ranges_def h' delete_where_def intro: filter_cong)
  have sr: "scope_ranges h' scope = filter (\<lambda>r. \<not> touches r a' b') (scope_ranges h scope) @ [?new]"
    by (auto simp: scope_ranges_def h' delete_where_def intro!: filter_cong)
  show "covered (scope_ranges h' scope) = covered (scope_ranges h scope) \<union> {a..b}"
  proof (rule set_eqI)
    fix x
    have "x \<in> covered (scope_ranges h' scope) \<longleftrightarrow>
      (\<exists>r \<in> set (scope_ranges h scope). \<not> touches r a' b' \<and> pr_from r \<le> x \<and> x \<le> pr_to r) \<or> a' \<le> x \<and> x \<le> b'"
      by (auto simp: sr in_covered)
    also have "\<dots> \<longleftrightarrow> x \<in> covered (scope_ranges h scope) \<union> {a..b}"
      using spec by (auto simp: in_covered subset_iff)
    finally show "x \<in> covered (scope_ranges h' scope) \<longleftrightarrow> x \<in> covered (scope_ranges h scope) \<union> {a..b}" .
  qed
qed

section \<open>Lemmas: the batch\<close>

lemma batch_loop_take:
  assumes "batch_loop gsize grp acc rows = Inr (out, hasMore)"
  shows "\<exists>k. out = acc @ take k rows \<and> (hasMore \<longleftrightarrow> k < length rows)
    \<and> (hasMore \<longrightarrow> out \<noteq> [] \<and> (Some (pe_group (rows ! k)) \<noteq> (if k = 0 then grp else Some (pe_group (rows ! (k - 1))))))"
  using assms
proof (induction gsize grp acc rows arbitrary: out rule: batch_loop.induct)
  case (1 gsize grp acc)
  then show ?case by (intro exI[of _ 0]) auto
next
  case (2 gsize grp acc e rows)
  let ?next = "batch_loop gsize (Some (pe_group e)) (acc @ [e]) rows"
  have step: "\<exists>k. out = acc @ take k (e # rows) \<and> (hasMore \<longleftrightarrow> k < length (e # rows))
    \<and> (hasMore \<longrightarrow> out \<noteq> [] \<and> (Some (pe_group ((e # rows) ! k)) \<noteq> (if k = 0 then grp else Some (pe_group ((e # rows) ! (k - 1))))))"
    if "\<exists>k. out = (acc @ [e]) @ take k rows \<and> (hasMore \<longleftrightarrow> k < length rows)
    \<and> (hasMore \<longrightarrow> out \<noteq> [] \<and> (Some (pe_group (rows ! k)) \<noteq> (if k = 0 then Some (pe_group e) else Some (pe_group (rows ! (k - 1))))))"
  proof -
    from that obtain k where "out = (acc @ [e]) @ take k rows" "hasMore \<longleftrightarrow> k < length rows"
      "hasMore \<longrightarrow> out \<noteq> [] \<and> (Some (pe_group (rows ! k)) \<noteq> (if k = 0 then Some (pe_group e) else Some (pe_group (rows ! (k - 1)))))"
      by blast
    then show ?thesis by (intro exI[of _ "Suc k"]) (auto simp: nth_Cons' split: if_splits)
  qed
  show ?case
  proof (cases "Some (pe_group e) \<noteq> grp")
    case True
    show ?thesis
    proof (cases "acc \<noteq> [] \<and> int (length acc) + gsize (pe_group e) > PruneBatchLimit")
      case stop: True
      with True "2.prems" have "out = acc" "hasMore" by auto
      then show ?thesis using True stop by (intro exI[of _ 0]) auto
    next
      case False
      with True "2.prems" have l: "gsize (pe_group e) \<le> PruneBatchLimit" and n: "?next = Inr (out, hasMore)"
        by (auto split: if_splits)
      show ?thesis by (rule step, rule "2.IH"(1)[OF True False]) (use l n in auto)
    qed
  next
    case False
    then have grp: "grp = Some (pe_group e)" by simp
    with "2.prems" have n: "batch_loop gsize grp (acc @ [e]) rows = Inr (out, hasMore)" by simp
    show ?thesis by (rule step) (rule "2.IH"(2)[OF False n, unfolded grp])
  qed
qed

text \<open>No batch is longer than the limit.\<close>

definition in_group :: "group option \<Rightarrow> pruneEntry list \<Rightarrow> nat" where
  "in_group grp rows = length (takeWhile (\<lambda>e. Some (pe_group e) = grp) rows)"

lemma in_group_le: "in_group (Some g) rows \<le> length (filter (\<lambda>e. pe_group e = g) rows)"
  unfolding in_group_def by (induction rows) auto

lemma batch_loop_bound:
  assumes "batch_loop gsize grp acc rows = Inr (out, hasMore)"
    and "\<forall>g. int (length (filter (\<lambda>e. pe_group e = g) rows)) \<le> gsize g"
    and "int (length acc + in_group grp rows) \<le> PruneBatchLimit"
  shows "int (length out) \<le> PruneBatchLimit"
  using assms
proof (induction gsize grp acc rows arbitrary: out rule: batch_loop.induct)
  case (2 gsize grp acc e rows)
  let ?next = "batch_loop gsize (Some (pe_group e)) (acc @ [e]) rows"
  have g: "\<forall>g. int (length (filter (\<lambda>e. pe_group e = g) rows)) \<le> gsize g"
  proof
    fix g
    have "length (filter (\<lambda>e. pe_group e = g) rows) \<le> length (filter (\<lambda>e. pe_group e = g) (e # rows))" by simp
    with "2.prems"(2)[rule_format, of g] show "int (length (filter (\<lambda>e. pe_group e = g) rows)) \<le> gsize g" by linarith
  qed
  have own: "int (Suc (in_group (Some (pe_group e)) rows)) \<le> gsize (pe_group e)"
    using in_group_le[of "pe_group e" rows] "2.prems"(2)[rule_format, of "pe_group e"] by simp
  show ?case
  proof (cases "Some (pe_group e) \<noteq> grp")
    case True
    show ?thesis
    proof (cases "acc \<noteq> [] \<and> int (length acc) + gsize (pe_group e) > PruneBatchLimit")
      case stop: True
      with True "2.prems" show ?thesis by auto
    next
      case False
      with True "2.prems"(1) have l: "gsize (pe_group e) \<le> PruneBatchLimit" and n: "?next = Inr (out, hasMore)"
        by (auto split: if_splits)
      show ?thesis
        by (rule "2.IH"(1)[OF True False _ n g]) (use own l False in auto)
    qed
  next
    case False
    then have grp: "grp = Some (pe_group e)" by simp
    with "2.prems"(1) have n: "?next = Inr (out, hasMore)" by simp
    show ?thesis
      by (rule "2.IH"(2)[OF False _ g]) (use n "2.prems"(3) grp in \<open>auto simp: in_group_def\<close>)
  qed
qed (auto simp: in_group_def)

section \<open>Lemmas: what a prune deletes\<close>

lemma delete_guard_Inr: "delete_guard h hit ref h1 = Inr h' \<longleftrightarrow> (hit \<longrightarrow> retention_enabled h) \<and> \<not> ref \<and> h' = h1"
  by (auto simp: delete_guard_def)

definition kind_ids :: "string \<Rightarrow> pruneEntry list \<Rightarrow> string set" where
  "kind_ids k es = pe_id ` {e \<in> set es. pe_kind e = k}"

lemma kind_ids_simps [simp]:
  "kind_ids k [] = {}"
  "kind_ids k (e # es) = (if pe_kind e = k then insert (pe_id e) (kind_ids k es) else kind_ids k es)"
  by (auto simp: kind_ids_def)

definition entry_key :: "pruneEntry \<Rightarrow> string \<times> string \<times> string \<times> string" where
  "entry_key e = (pe_scope e, pe_topic e, pe_actor e, pe_key e)"

definition pruned_key :: "pruned_idem_row \<Rightarrow> string \<times> string \<times> string \<times> string" where
  "pruned_key r = (pi_scope r, pi_topic r, pi_actor r, pi_key r)"

text \<open>The first loop: only keys, votes and pins change; every key of an entry moves.\<close>

lemma prune_keys_step_Inr:
  assumes "prune_keys_step pid e h = Inr h'"
  obtains ik pk vs ps where "h' = h\<lparr>idems := ik, pruned_idems := pk, votes := vs, pins := ps\<rparr>"
    "set ik \<subseteq> set (idems h)" "set (pruned_idems h) \<subseteq> set pk"
    "pe_key e \<noteq> '''' \<longrightarrow> entry_key e \<in> pruned_key ` set pk \<and> entry_key e \<notin> idem_key ` set ik"
proof -
  from assms obtain h1 where k: "(if pe_key e \<noteq> '''' then
              bindE (insert_pruned_idem \<lparr>pi_scope = pe_scope e, pi_topic = pe_topic e, pi_actor = pe_actor e,
                       pi_key = pe_key e, pi_prune = pid\<rparr> h) (\<lambda>h1.
                delete_idem (pe_scope e) (pe_topic e) (pe_actor e) (pe_key e) h1)
            else Inr h) = Inr h1"
    and d: "(if pe_kind e = ''message'' then delete_pins_of (pe_id e) (delete_votes_of (pe_id e) h1) else Inr h1) = Inr h'"
    unfolding prune_keys_step_def bindE_Inr_iff by blast
  have h1: "h1 = h\<lparr>idems := idems h1, pruned_idems := pruned_idems h1\<rparr>" "set (idems h1) \<subseteq> set (idems h)"
    "set (pruned_idems h) \<subseteq> set (pruned_idems h1)"
    "pe_key e \<noteq> '''' \<longrightarrow> entry_key e \<in> pruned_key ` set (pruned_idems h1) \<and> entry_key e \<notin> idem_key ` set (idems h1)"
    using k by (auto simp: insert_pruned_idem_def delete_idem_def delete_guard_Inr Let_def in_delete_where
        entry_key_def pruned_key_def split: if_splits)
  have h': "h' = h1\<lparr>votes := votes h', pins := pins h'\<rparr>"
    using d by (auto simp: delete_pins_of_def delete_votes_of_def delete_guard_Inr Let_def split: if_splits)
  have "h' = h\<lparr>idems := idems h1, pruned_idems := pruned_idems h1, votes := votes h', pins := pins h'\<rparr>"
    by (subst h', subst h1(1)) simp
  from that[OF this] h1(2-4) show thesis by simp
qed

lemma prune_keys_fold:
  assumes "foldE (prune_keys_step pid) es h = Inr h'"
  obtains ik pk vs ps where "h' = h\<lparr>idems := ik, pruned_idems := pk, votes := vs, pins := ps\<rparr>"
    "set ik \<subseteq> set (idems h)" "set (pruned_idems h) \<subseteq> set pk"
    "\<forall>e \<in> set es. pe_key e \<noteq> '''' \<longrightarrow> entry_key e \<in> pruned_key ` set pk \<and> entry_key e \<notin> idem_key ` set ik"
  using assms
proof (induction es arbitrary: h thesis)
  case Nil
  then show ?case 
    by (intro Nil.prems(1)[where ik = "idems h" and pk = "pruned_idems h" and vs = "votes h" and ps = "pins h"]) auto
next
  case (Cons e es)
  from Cons.prems(2) obtain h1 where s: "prune_keys_step pid e h = Inr h1" and f: "foldE (prune_keys_step pid) es h1 = Inr h'"
    by auto
  from s obtain ik pk vs ps where h1: "h1 = h\<lparr>idems := ik, pruned_idems := pk, votes := vs, pins := ps\<rparr>"
    "set ik \<subseteq> set (idems h)" "set (pruned_idems h) \<subseteq> set pk"
    "pe_key e \<noteq> '''' \<longrightarrow> entry_key e \<in> pruned_key ` set pk \<and> entry_key e \<notin> idem_key ` set ik"
    by (rule prune_keys_step_Inr)
  show ?case
  proof (rule Cons.IH[OF _ f])
    fix ik' pk' vs' ps'
    assume h': "h' = h1\<lparr>idems := ik', pruned_idems := pk', votes := vs', pins := ps'\<rparr>"
      and sub: "set ik' \<subseteq> set (idems h1)" "set (pruned_idems h1) \<subseteq> set pk'"
      and all: "\<forall>e \<in> set es. pe_key e \<noteq> '''' \<longrightarrow> entry_key e \<in> pruned_key ` set pk' \<and> entry_key e \<notin> idem_key ` set ik'"
    have "h' = h\<lparr>idems := ik', pruned_idems := pk', votes := vs', pins := ps'\<rparr>" by (simp add: h' h1(1))
    moreover have "\<forall>x \<in> set (e # es). pe_key x \<noteq> '''' \<longrightarrow> entry_key x \<in> pruned_key ` set pk' \<and> entry_key x \<notin> idem_key ` set ik'"
      using all h1 sub by (auto simp: image_iff subset_iff)
    ultimately show thesis using Cons.prems(1) h1 sub by (auto simp: subset_iff)
  qed
qed

lemma prune_revision_fold:
  assumes "foldE prune_revision_step es h = Inr h'"
  shows "\<exists>vs. h' = h\<lparr>revisions := filter (\<lambda>r. rv_entry r \<notin> kind_ids ''message'' es) (revisions h), votes := vs\<rparr>"
  using assms
proof (induction es arbitrary: h)
  case Nil
  then show ?case by (intro exI[of _ "votes h"]) simp
next
  case (Cons e es)
  from Cons.prems obtain h1 where s: "prune_revision_step e h = Inr h1" and f: "foldE prune_revision_step es h1 = Inr h'"
    by auto
  from Cons.IH[OF f] obtain vs where
    h': "h' = h1\<lparr>revisions := filter (\<lambda>r. rv_entry r \<notin> kind_ids ''message'' es) (revisions h1), votes := vs\<rparr>" by blast
  show ?case
  proof (cases "pe_kind e = ''message''")
    case True
    with s obtain vs1 where "h1 = h\<lparr>revisions := delete_where (\<lambda>r. rv_entry r = pe_id e) (revisions h), votes := vs1\<rparr>"
      by (auto simp: prune_revision_step_def delete_revision_def delete_guard_Inr)
    then show ?thesis using True by (intro exI[of _ vs]) (simp add: h' delete_where_def conj_commute)
  next
    case False
    with s show ?thesis by (intro exI[of _ vs]) (simp add: h' prune_revision_step_def)
  qed
qed

lemma delete_heads_fold:
  "foldE delete_head gs h = Inr h' \<Longrightarrow> h' = h\<lparr>heads := filter (\<lambda>m. hd_message m \<notin> set gs) (heads h)\<rparr>"
proof (induction gs arbitrary: h)
  case (Cons g gs)
  from Cons.prems obtain h1 where s: "delete_head g h = Inr h1" and f: "foldE delete_head gs h1 = Inr h'" by auto
  from s have "h1 = h\<lparr>heads := delete_where (\<lambda>m. hd_message m = g) (heads h)\<rparr>"
    by (auto simp: delete_head_def split: if_splits)
  with Cons.IH[OF f] show ?case by (simp add: delete_where_def conj_commute)
qed simp

lemma delete_events_fold:
  "foldE prune_event_step es h = Inr h' \<Longrightarrow> h' = h\<lparr>events := filter (\<lambda>r. ev_entry r \<notin> kind_ids ''event'' es) (events h)\<rparr>"
proof (induction es arbitrary: h)
  case (Cons e es)
  from Cons.prems obtain h1 where s: "prune_event_step e h = Inr h1" and f: "foldE prune_event_step es h1 = Inr h'" by auto
  from s have "h1 = (if pe_kind e = ''event'' then h\<lparr>events := delete_where (\<lambda>r. ev_entry r = pe_id e) (events h)\<rparr> else h)"
    by (auto simp: prune_event_step_def delete_event_def delete_guard_Inr split: if_splits)
  with Cons.IH[OF f] show ?case by (simp add: delete_where_def conj_commute)
qed simp

lemma delete_publications_fold:
  assumes "foldE (\<lambda>e. delete_publication (pe_id e)) es h = Inr h'"
  shows "h' = h\<lparr>publications := filter (\<lambda>p. pb_entry p \<notin> pe_id ` set es) (publications h)\<rparr>
    \<and> pe_id ` set es \<subseteq> pb_entry ` set (publications h)"
  using assms
proof (induction es arbitrary: h)
  case (Cons e es)
  from Cons.prems obtain h1 where s: "delete_publication (pe_id e) h = Inr h1"
    and f: "foldE (\<lambda>e. delete_publication (pe_id e)) es h1 = Inr h'" by auto
  from s have h1: "h1 = h\<lparr>publications := delete_where (\<lambda>p. pb_entry p = pe_id e) (publications h)\<rparr>"
    and e: "pe_id e \<in> pb_entry ` set (publications h)"
    by (auto simp: delete_publication_def delete_guard_Inr entry_exists_def split: if_splits)
  from Cons.IH[OF f] have ih: "h' = h1\<lparr>publications := filter (\<lambda>p. pb_entry p \<notin> pe_id ` set es) (publications h1)\<rparr>"
    "pe_id ` set es \<subseteq> pb_entry ` set (publications h1)" by auto
  have "pb_entry ` set (publications h1) \<subseteq> pb_entry ` set (publications h)" by (auto simp: h1 in_delete_where)
  with ih(2) e have "pe_id ` set (e # es) \<subseteq> pb_entry ` set (publications h)" by auto
  with ih(1) show ?case by (simp add: h1 delete_where_def conj_commute)
qed simp

lemma kind_ids_children_first: "kind_ids k (children_first es) = kind_ids k es"
  by (simp add: kind_ids_def children_first_def)

lemma delete_entries_Inr:
  assumes "delete_entries pid es h = Inr h'"
  obtains ik pk vs ps where
    "h' = h\<lparr>idems := ik, pruned_idems := pk, votes := vs, pins := ps,
       revisions := filter (\<lambda>r. rv_entry r \<notin> kind_ids ''message'' es) (revisions h),
       heads := filter (\<lambda>m. hd_message m \<notin> set (message_groups es)) (heads h),
       events := filter (\<lambda>r. ev_entry r \<notin> kind_ids ''event'' es) (events h),
       publications := filter (\<lambda>p. pb_entry p \<notin> pe_id ` set es) (publications h)\<rparr>"
    "set ik \<subseteq> set (idems h)" "set (pruned_idems h) \<subseteq> set pk"
    "\<forall>e \<in> set es. pe_key e \<noteq> '''' \<longrightarrow> entry_key e \<in> pruned_key ` set pk \<and> entry_key e \<notin> idem_key ` set ik"
    "pe_id ` set es \<subseteq> pb_entry ` set (publications h)"
proof -
  from assms obtain h1 h2 h3 h4 where f: "foldE (prune_keys_step pid) es h = Inr h1" "foldE prune_revision_step es h1 = Inr h2"
    "foldE delete_head (message_groups es) h2 = Inr h3" "foldE prune_event_step (children_first es) h3 = Inr h4"
    "foldE (\<lambda>e. delete_publication (pe_id e)) es h4 = Inr h'"
    unfolding delete_entries_def by auto
  from f(1) obtain ik pk vs ps where h1: "h1 = h\<lparr>idems := ik, pruned_idems := pk, votes := vs, pins := ps\<rparr>"
    and k: "set ik \<subseteq> set (idems h)" "set (pruned_idems h) \<subseteq> set pk"
    "\<forall>e \<in> set es. pe_key e \<noteq> '''' \<longrightarrow> entry_key e \<in> pruned_key ` set pk \<and> entry_key e \<notin> idem_key ` set ik"
    by (rule prune_keys_fold)
  obtain vs' where h2: "h2 = h1\<lparr>revisions := filter (\<lambda>r. rv_entry r \<notin> kind_ids ''message'' es) (revisions h1), votes := vs'\<rparr>"
    using prune_revision_fold[OF f(2)] by blast
  note h3 = delete_heads_fold[OF f(3)]
  note h4 = delete_events_fold[OF f(4), unfolded kind_ids_children_first]
  note h5 = delete_publications_fold[OF f(5)]
  show thesis
    by (rule that[where ik = ik and pk = pk and vs = vs' and ps = ps]) (use h5 k in \<open>simp_all add: h4 h3 h2 h1\<close>)
qed

section \<open>Lemmas: what a prune records\<close>

definition scope_gaps :: "pruneScope list \<Rightarrow> string \<Rightarrow> int set" where
  "scope_gaps scs s = (\<Union>c \<in> {c \<in> set scs. ps_ScopeID c = s}. set (gap_positions (ps_Gaps c)))"

lemma scope_gaps_append [simp]: "scope_gaps (scs @ scs') s = scope_gaps scs s \<union> scope_gaps scs' s"
  by (auto simp: scope_gaps_def)

lemma scope_gaps_simps [simp]:
  "scope_gaps [] s = {}"
  "scope_gaps (c # scs) s = (if ps_ScopeID c = s then set (gap_positions (ps_Gaps c)) \<union> scope_gaps scs s else scope_gaps scs s)"
  by (auto simp: scope_gaps_def)

definition entry_positions :: "pruneEntry list \<Rightarrow> string \<Rightarrow> int set" where
  "entry_positions es s = pe_sequence ` {e \<in> set es. pe_scope e = s}"

lemma entry_positions_simps [simp]:
  "entry_positions [] s = {}"
  "entry_positions (e # es) s = (if pe_scope e = s then insert (pe_sequence e) (entry_positions es s) else entry_positions es s)"
  by (auto simp: entry_positions_def)

lemma report_loop_gaps:
  assumes "\<forall>c \<in> set scs. gaps_ok (ps_Gaps c)"
  shows "(\<forall>c \<in> set (report_loop es scs). gaps_ok (ps_Gaps c))
    \<and> scope_gaps (report_loop es scs) s = scope_gaps scs s \<union> entry_positions es s"
  using assms
proof (induction es arbitrary: scs)
  case (Cons e es)
  define scs1 where "scs1 = (if scs = [] \<or> ps_ScopeID (last scs) \<noteq> pe_scope e
                  then scs @ [\<lparr>ps_ScopeID = pe_scope e, ps_Entries = 0, ps_PayloadBytes = 0, ps_Gaps = []\<rparr>]
                  else scs)"
  have s1: "\<forall>c \<in> set scs1. gaps_ok (ps_Gaps c)" "scope_gaps scs1 s = scope_gaps scs s" "scs1 \<noteq> []"
    "ps_ScopeID (last scs1) = pe_scope e"
    using Cons.prems by (auto simp: scs1_def)
  define c where "c = last scs1"
  define c' where "c' = c\<lparr>ps_Entries := ps_Entries c + 1, ps_PayloadBytes := ps_PayloadBytes c + pe_bytes e,
              ps_Gaps := addGap (ps_Gaps c) (pe_sequence e) (pe_sequence e) ''pruned''\<rparr>"
  have split: "scs1 = butlast scs1 @ [c]" using s1(3) by (simp add: c_def)
  have c: "gaps_ok (ps_Gaps c)" "ps_ScopeID c = pe_scope e" using s1 by (auto simp: c_def)
  have ag: "gaps_ok (ps_Gaps c')" "set (gap_positions (ps_Gaps c')) = insert (pe_sequence e) (set (gap_positions (ps_Gaps c)))"
    using addGap_positions[OF c(1), of "pe_sequence e" "pe_sequence e" "''pruned''"] by (auto simp: c'_def)
  have "scope_gaps scs1 s = scope_gaps (butlast scs1) s \<union> scope_gaps [c] s" by (subst split) simp
  moreover have "scope_gaps (butlast scs1 @ [c']) s = scope_gaps (butlast scs1) s \<union> scope_gaps [c'] s" by simp
  moreover have "ps_ScopeID c' = pe_scope e" using c by (simp add: c'_def)
  ultimately have g: "scope_gaps (butlast scs1 @ [c']) s = scope_gaps scs s \<union> (if pe_scope e = s then {pe_sequence e} else {})"
    using s1(2) ag(2) c(2) by auto
  have "\<forall>d \<in> set (butlast scs1 @ [c']). gaps_ok (ps_Gaps d)" using s1(1) ag(1) by (auto dest: in_set_butlastD)
  from Cons.IH[OF this] g have
    "(\<forall>d \<in> set (report_loop es (butlast scs1 @ [c'])). gaps_ok (ps_Gaps d))
     \<and> scope_gaps (report_loop es (butlast scs1 @ [c'])) s = scope_gaps scs s \<union> entry_positions (e # es) s" by auto
  moreover have "report_loop (e # es) scs = report_loop es (butlast scs1 @ [c'])"
    by (simp add: Let_def scs1_def c_def c'_def)
  ultimately show ?case by simp
qed simp

lemma merge_gaps:
  assumes "foldE (\<lambda>g. mergePrunedRange scope (gp_From g) (gp_To g) pid) gs h = Inr h'" and "gaps_ok gs" and "separated h"
  shows "separated h' \<and> covered (scope_ranges h' scope) = covered (scope_ranges h scope) \<union> set (gap_positions gs)
    \<and> (\<forall>other. other \<noteq> scope \<longrightarrow> scope_ranges h' other = scope_ranges h other) \<and> (\<exists>rs. h' = h\<lparr>pruned_ranges := rs\<rparr>)"
  using assms
proof (induction gs arbitrary: h)
  case Nil
  then have same: "h' = h" by simp
  have ex: "\<exists>rs. h' = h\<lparr>pruned_ranges := rs\<rparr>" by (rule exI[of _ "pruned_ranges h"]) (simp add: same)
  show ?case by (intro conjI ex) (use Nil.prems(3) same in simp_all)
next
  case (Cons g gs)
  from Cons.prems(1) obtain h1 where m: "mergePrunedRange scope (gp_From g) (gp_To g) pid h = Inr h1"
    and f: "foldE (\<lambda>g. mergePrunedRange scope (gp_From g) (gp_To g) pid) gs h1 = Inr h'" by auto
  have "gp_From g \<le> gp_To g" using Cons.prems(2) by simp
  note s = mergePrunedRange_spec[OF m this Cons.prems(3)]
  obtain rs where h1: "h1 = h\<lparr>pruned_ranges := rs\<rparr>" using m by (rule mergePrunedRange_Inr) blast
  from Cons.IH[OF f _ s(1)] Cons.prems(2) obtain rs' where ih: "separated h'"
    "covered (scope_ranges h' scope) = covered (scope_ranges h1 scope) \<union> set (gap_positions gs)"
    "\<forall>other. other \<noteq> scope \<longrightarrow> scope_ranges h' other = scope_ranges h1 other" "h' = h1\<lparr>pruned_ranges := rs'\<rparr>" by auto
  have "h' = h\<lparr>pruned_ranges := rs'\<rparr>" by (simp add: ih(4) h1)
  then have ex: "\<exists>rs. h' = h\<lparr>pruned_ranges := rs\<rparr>" ..
  show ?case by (intro conjI ex) (use ih(1-3) s(2,3) in auto)
qed

lemma merge_scopes:
  assumes "foldE (merge_scope pid) scs h = Inr h'" and "\<forall>c \<in> set scs. gaps_ok (ps_Gaps c)" and "separated h"
  shows "separated h' \<and> covered (scope_ranges h' s) = covered (scope_ranges h s) \<union> scope_gaps scs s
    \<and> (\<exists>rs. h' = h\<lparr>pruned_ranges := rs\<rparr>)"
  using assms
proof (induction scs arbitrary: h)
  case Nil
  then have same: "h' = h" by simp
  have ex: "\<exists>rs. h' = h\<lparr>pruned_ranges := rs\<rparr>" by (rule exI[of _ "pruned_ranges h"]) (simp add: same)
  show ?case by (intro conjI ex) (use Nil.prems(3) same in simp_all)
next
  case (Cons c scs)
  from Cons.prems(1) obtain h1 where m0: "merge_scope pid c h = Inr h1" and f: "foldE (merge_scope pid) scs h1 = Inr h'"
    by auto
  note m = m0[unfolded merge_scope_def]
  from merge_gaps[OF m _ Cons.prems(3)] Cons.prems(2) obtain rs where
    g: "separated h1" "covered (scope_ranges h1 (ps_ScopeID c)) = covered (scope_ranges h (ps_ScopeID c)) \<union> set (gap_positions (ps_Gaps c))"
    "\<forall>other. other \<noteq> ps_ScopeID c \<longrightarrow> scope_ranges h1 other = scope_ranges h other" "h1 = h\<lparr>pruned_ranges := rs\<rparr>" by auto
  from Cons.IH[OF f _ g(1)] Cons.prems(2) obtain rs' where
    ih: "separated h'" "covered (scope_ranges h' s) = covered (scope_ranges h1 s) \<union> scope_gaps scs s" "h' = h1\<lparr>pruned_ranges := rs'\<rparr>"
    by auto
  have "h' = h\<lparr>pruned_ranges := rs'\<rparr>" by (simp add: ih(3) g(4))
  then have ex: "\<exists>rs. h' = h\<lparr>pruned_ranges := rs\<rparr>" ..
  show ?case by (intro conjI ex) (use ih(1,2) g(2,3) in auto)
qed

section \<open>Lemmas: candidates\<close>

lemma map_filter_set: "y \<in> set (List.map_filter f xs) \<longleftrightarrow> (\<exists>x \<in> set xs. f x = Some y)"
  by (induction xs) (auto simp: List.map_filter_def split: option.splits)

lemma pruneCandidates_Inr:
  assumes "pruneCandidates refs_bytes h cutoff = Inr (entries, hasMore)" and "e \<in> set entries"
  obtains g n p where "(g, pe_id e, n) \<in> set (candidates h cutoff)" "pe_group e = g"
    "find_publication h (pe_id e) = Some p" "pb_entry p = pe_id e" "p \<in> set (publications h)"
    "pe_scope e = pb_scope p" "pe_topic e = pb_topic p" "pe_actor e = pb_actor p" "pe_kind e = pb_kind p"
    "pe_sequence e = pb_sequence p" "pe_key e = string_of_null (pb_key p)"
proof -
  define es where "es = List.map_filter (prune_entry refs_bytes h) (candidates h cutoff)"
  from assms(1) obtain k where "entries = take k (ordered_entries es)"
    using batch_loop_take by (fastforce simp: pruneCandidates_def Let_def es_def)
  with assms(2) have "e \<in> set es" by (auto simp: ordered_entries_def dest: in_set_takeD)
  then obtain g x n p where c: "(g, x, n) \<in> set (candidates h cutoff)" and f: "find_publication h x = Some p"
    and e: "e = \<lparr>pe_id = pb_entry p, pe_scope = pb_scope p, pe_topic = pb_topic p, pe_actor = pb_actor p,
      pe_key = string_of_null (pb_key p), pe_kind = pb_kind p, pe_group = g, pe_dependencies = deps_of h x,
      pe_sequence = pb_sequence p, pe_bytes = entry_bytes refs_bytes h p, pe_depth = n\<rparr>"
    by (auto simp: es_def map_filter_set prune_entry_def)
  have p: "p \<in> set (publications h)" "pb_entry p = x"
    using f find_SomeD[of "\<lambda>p. pb_entry p = x" "publications h" p] by (simp_all add: find_publication_def)
  show thesis by (rule that[of g n p]) (use c f p in \<open>simp_all add: e\<close>)
qed

lemma candidate_before:
  assumes "(g, x, n) \<in> set (candidates h cutoff)" and "find_publication h x = Some p"
  shows "pb_committed_at p < cutoff"
proof -
  have c: "committed_at h x = Some (pb_committed_at p)" using assms(2) by (simp add: committed_at_def)
  have b: "before_cutoff h cutoff x \<Longrightarrow> pb_committed_at p < cutoff" using c by (simp add: before_cutoff_def)
  consider (message) r where "r \<in> set (revisions h)" "x = rv_entry r" "old_message h cutoff (rv_message r)"
    | (revision) r where "x = rv_entry r" "superseded h cutoff r"
    | (event) root where "(x, root, n) \<in> set (event_roots h)" "old_chain h cutoff root"
    using assms(1) by (auto simp: candidates_def)
  then show ?thesis
  proof cases
    case message
    then show ?thesis using c by (fastforce simp: old_message_def old_head_def)
  next
    case revision
    then show ?thesis by (intro b) (simp add: superseded_def)
  next
    case event
    then show ?thesis using c by (intro b) (fastforce simp: old_chain_def)
  qed
qed

lemma candidate_message:
  assumes "(MGroup m, x, n) \<in> set (candidates h cutoff)"
  shows "old_message h cutoff m"
  using assms by (auto simp: candidates_def)

lemma message_groups_iff: "m \<in> set (message_groups es) \<longleftrightarrow> (\<exists>e \<in> set es. pe_group e = MGroup m)"
proof -
  have "(case g of MGroup m \<Rightarrow> Some m | _ \<Rightarrow> None) = Some m \<longleftrightarrow> g = MGroup m" for g by (cases g) auto
  then show ?thesis by (simp add: message_groups_def map_filter_set)
qed

text \<open>A pinned message is no prune group.\<close>

lemma pinned_not_pruned:
  assumes "pruneCandidates refs_bytes h cutoff = Inr (entries, hasMore)" and "distinct (map hd_message (heads h))"
    and m: "m \<in> set (heads h)" "hd_pinned m"
  shows "hd_message m \<notin> set (message_groups entries)"
proof
  assume "hd_message m \<in> set (message_groups entries)"
  then obtain e where e: "e \<in> set entries" "pe_group e = MGroup (hd_message m)" by (auto simp: message_groups_iff)
  from pruneCandidates_Inr[OF assms(1) e(1)] e(2) obtain n where
    "(MGroup (hd_message m), pe_id e, n) \<in> set (candidates h cutoff)" by metis
  then have "old_message h cutoff (hd_message m)" by (rule candidate_message)
  then obtain m' where m': "m' \<in> set (heads h)" "hd_message m' = hd_message m" "\<not> hd_pinned m'"
    by (auto simp: old_message_def old_head_def)
  from inj_onD[of hd_message "set (heads h)" m' m] m m' assms(2) show False by (simp add: distinct_map)
qed

section \<open>Lemmas: the whole prune\<close>

lemma raise_low_water_frame: "\<exists>ss. raise_low_water s h = h\<lparr>scopes := ss\<rparr>"
  by (cases "low_water_target h (ps_ScopeID s)") (auto simp: raise_low_water_def intro: exI[of _ "scopes h"])

lemma fold_low_water_frame: "\<exists>ss. fold raise_low_water scs h = h\<lparr>scopes := ss\<rparr>"
proof (induction scs arbitrary: h)
  case Nil
  then show ?case by (intro exI[of _ "scopes h"]) simp
next
  case (Cons c scs)
  obtain ss where s: "raise_low_water c h = h\<lparr>scopes := ss\<rparr>" using raise_low_water_frame by blast
  obtain ss' where "fold raise_low_water scs (h\<lparr>scopes := ss\<rparr>) = h\<lparr>scopes := ss, scopes := ss'\<rparr>" using Cons.IH by blast
  then have "fold raise_low_water (c # scs) h = h\<lparr>scopes := ss'\<rparr>" by (simp add: s)
  then show ?case by blast
qed

lemma pruneHub_parts:
  assumes "pruneHub_body refs_bytes digest cutoff plan backup rid h now = Inr (out, h')"
  obtains path entries hasMore pid h1 h2 h3 report row where
    "unixMilli cutoff < now" "backup = Inr path"
    "pruneCandidates refs_bytes h (unixMilli cutoff) = Inr (entries, hasMore)"
    "report = make_report digest h cutoff entries hasMore False"
    "randomID rid = Inr pid"
    "delete_entries pid entries (h\<lparr>retention_enabled := True\<rparr>) = Inr h1"
    "foldE (merge_scope pid) (rp_Scopes report) h1 = Inr h2"
    "h3 = fold raise_low_water (rp_Scopes report) (h2\<lparr>retention_enabled := False\<rparr>)"
    "insert_prune_audit row (h3\<lparr>retention_epoch := retention_epoch h3 + 1\<rparr>) = Inr h'"
  using assms unfolding pruneHub_body_def bindE_Inr_iff Let_def
  by (elim exE conjE) (auto split: prod.splits intro!: that)

text \<open>What one prune does to the tables, on the way to the low-water update.\<close>

definition pruned_state :: "pruneEntry list \<Rightarrow> hub \<Rightarrow> hub \<Rightarrow> bool" where
  "pruned_state es h h' \<longleftrightarrow> (\<exists>ss ik pk vs ps rs pa.
     h' = h\<lparr>scopes := ss, idems := ik, pruned_idems := pk, votes := vs, pins := ps, pruned_ranges := rs, prune_audits := pa,
       revisions := filter (\<lambda>r. rv_entry r \<notin> kind_ids ''message'' es) (revisions h),
       heads := filter (\<lambda>m. hd_message m \<notin> set (message_groups es)) (heads h),
       events := filter (\<lambda>r. ev_entry r \<notin> kind_ids ''event'' es) (events h),
       publications := filter (\<lambda>p. pb_entry p \<notin> pe_id ` set es) (publications h),
       retention_enabled := False, retention_epoch := retention_epoch h + 1\<rparr>)"

lemma pruneHub_Inr:
  assumes "pruneHub_body refs_bytes digest cutoff plan backup rid h now = Inr (out, h')" and "separated h"
  obtains entries hasMore where "pruneCandidates refs_bytes h (unixMilli cutoff) = Inr (entries, hasMore)"
    "unixMilli cutoff < now" "pruned_state entries h h'"
    "\<forall>e \<in> set entries. pe_key e \<noteq> '''' \<longrightarrow>
       entry_key e \<in> pruned_key ` set (pruned_idems h') \<and> entry_key e \<notin> idem_key ` set (idems h')"
    "separated h'" "\<And>s. covered (scope_ranges h' s) = covered (scope_ranges h s) \<union> entry_positions entries s"
    "\<exists>h2 scs. publications h2 = publications h' \<and> counters h2 = counters h' \<and> scopes h2 = scopes h
       \<and> scopes h' = scopes (fold raise_low_water scs h2)"
  using assms(1)
proof (rule pruneHub_parts)
  fix path entries hasMore pid h1 h2 h3 report row
  assume cut: "unixMilli cutoff < now" and cand: "pruneCandidates refs_bytes h (unixMilli cutoff) = Inr (entries, hasMore)"
    and report: "report = make_report digest h cutoff entries hasMore False"
    and d: "delete_entries pid entries (h\<lparr>retention_enabled := True\<rparr>) = Inr h1"
    and m: "foldE (merge_scope pid) (rp_Scopes report) h1 = Inr h2"
    and h3: "h3 = fold raise_low_water (rp_Scopes report) (h2\<lparr>retention_enabled := False\<rparr>)"
    and r: "insert_prune_audit row (h3\<lparr>retention_epoch := retention_epoch h3 + 1\<rparr>) = Inr h'"
  let ?g = "sort_key (\<lambda>e. (pe_scope e, pe_sequence e)) entries"
  have scs: "rp_Scopes report = report_loop ?g []" by (simp add: report make_report_def)
  have gaps: "\<forall>c \<in> set (rp_Scopes report). gaps_ok (ps_Gaps c)"
    "\<And>s. scope_gaps (rp_Scopes report) s = entry_positions entries s"
    using report_loop_gaps[of "[]" ?g] by (simp_all add: scs entry_positions_def)
  from d obtain ik pk vs ps where h1:
    "h1 = h\<lparr>retention_enabled := True, idems := ik, pruned_idems := pk, votes := vs, pins := ps,
       revisions := filter (\<lambda>r. rv_entry r \<notin> kind_ids ''message'' entries) (revisions h),
       heads := filter (\<lambda>m. hd_message m \<notin> set (message_groups entries)) (heads h),
       events := filter (\<lambda>r. ev_entry r \<notin> kind_ids ''event'' entries) (events h),
       publications := filter (\<lambda>p. pb_entry p \<notin> pe_id ` set entries) (publications h)\<rparr>"
    and keys: "\<forall>e \<in> set entries. pe_key e \<noteq> '''' \<longrightarrow> entry_key e \<in> pruned_key ` set pk \<and> entry_key e \<notin> idem_key ` set ik"
    by (rule delete_entries_Inr) simp
  have sep1: "separated h1" using assms(2) by (simp add: h1 separated_def)
  have cov1: "scope_ranges h1 s = scope_ranges h s" for s by (simp add: h1 scope_ranges_def)
  from merge_scopes[OF m gaps(1) sep1] obtain rs where sep2: "separated h2" and h2: "h2 = h1\<lparr>pruned_ranges := rs\<rparr>" by blast
  have cov2: "covered (scope_ranges h2 s) = covered (scope_ranges h s) \<union> entry_positions entries s" for s
    using merge_scopes[OF m gaps(1) sep1, of s] by (simp add: cov1 gaps(2))
  obtain ss where h3': "h3 = h2\<lparr>retention_enabled := False, scopes := ss\<rparr>"
    using fold_low_water_frame[of "rp_Scopes report" "h2\<lparr>retention_enabled := False\<rparr>"] by (auto simp: h3)
  obtain pa where h': "h' = h3\<lparr>retention_epoch := retention_epoch h3 + 1, prune_audits := pa\<rparr>"
    using r by (auto simp: insert_prune_audit_def)
  note all = h' h3' h2 h1
  have st: "pruned_state entries h h'"
    unfolding pruned_state_def
    by (rule exI[of _ ss], rule exI[of _ ik], rule exI[of _ pk], rule exI[of _ vs], rule exI[of _ ps], rule exI[of _ rs],
        rule exI[of _ pa]) (simp add: all)
  show thesis
  proof (rule that[OF cand cut st])
    show "separated h'" using sep2 by (simp add: h' h3' separated_def)
    show "covered (scope_ranges h' s) = covered (scope_ranges h s) \<union> entry_positions entries s" for s
      using cov2[of s] by (simp add: h' h3' scope_ranges_def)
    show "\<exists>h2 scs. publications h2 = publications h' \<and> counters h2 = counters h' \<and> scopes h2 = scopes h
       \<and> scopes h' = scopes (fold raise_low_water scs h2)"
      by (rule exI[of _ "h2\<lparr>retention_enabled := False\<rparr>"], rule exI[of _ "rp_Scopes report"])
        (simp add: h3[symmetric], simp add: all)
  qed (use keys in \<open>simp add: all\<close>)
qed

lemma PruneHub_Inr:
  assumes "PruneHub dg refs_bytes digest d env cutoff clk0 reconcile backup rid h0 h = (Inr out, h')"
  obtains "h' = h" | plan now where "pruneHub_body refs_bytes digest cutoff plan backup rid h now = Inr (out, h')" "now = env_now env"
  using assms by (auto simp: PruneHub_def write_Inr_iff split: sum.splits if_splits)

lemma PruneHub_Inl:
  "PruneHub dg refs_bytes digest d env cutoff clk0 reconcile backup rid h0 h = (Inl e, h') \<Longrightarrow> h' = h"
  by (auto simp: PruneHub_def dest: write_Inl split: sum.splits if_splits)

section \<open>Properties\<close>

text \<open>A message with two revisions, and the prune of everything before the millisecond 1400.\<close>

definition demo_prune :: "gotime \<Rightarrow> hub \<Rightarrow> (err + pruneReport) \<times> hub" where
  "demo_prune cutoff h = PruneHub (\<lambda>_. '''') (\<lambda>_. 0) (\<lambda>es. concat (map pe_id es)) demo_db (demo_env 2000) cutoff (fromMillis 2000)
     (Inr ()) (Inr ''backup'') (demo_bytes 9) h h"

lemma demo_prune_run: "\<not> isl (fst (demo_prune (fromMillis 1400) demo_two))"
  by code_simp

lemmas demo_prune_ok = run_okD[OF demo_prune_run, unfolded demo_prune_def]

lemma deleted_entry:
  assumes "pruned_state entries h h'" and "p \<in> set (publications h)" and "p \<notin> set (publications h')"
  shows "\<exists>e \<in> set entries. pe_id e = pb_entry p"
proof -
  have "pb_entry p \<in> pe_id ` set entries" using assms by (auto simp: pruned_state_def)
  then show ?thesis by (metis imageE)
qed

text \<open>
  A prune deletes publications that were committed before the cutoff and no other, keeps the order of the
  rest, and leaves the sequence counters, the topics, the audit log and the subscriptions as they were; the
  retention epoch goes up by one exactly when something may have been deleted.
\<close>

theorem prune_deletes_only_old:
  assumes run: "PruneHub dg refs_bytes digest d env cutoff clk0 reconcile backup rid h0 h = (Inr out, h')"
    and keys: "unique_keys h" and sep: "separated h"
  shows "(\<exists>keep. publications h' = filter keep (publications h))
    \<and> (\<forall>p \<in> set (publications h) - set (publications h'). pb_committed_at p < unixMilli cutoff)
    \<and> counters h' = counters h \<and> topics h' = topics h \<and> audits h' = audits h \<and> subscriptions h' = subscriptions h
    \<and> (h' = h \<or> retention_epoch h' = retention_epoch h + 1)"
  using run
proof (rule PruneHub_Inr)
  fix plan now
  assume "pruneHub_body refs_bytes digest cutoff plan backup rid h now = Inr (out, h')"
  then show ?thesis
  proof (rule pruneHub_Inr[OF _ sep])
    fix entries hasMore
    assume c: "pruneCandidates refs_bytes h (unixMilli cutoff) = Inr (entries, hasMore)" and st: "pruned_state entries h h'"
    have "pb_committed_at p < unixMilli cutoff" if p: "p \<in> set (publications h)" "p \<notin> set (publications h')" for p
    proof -
      obtain e where e: "e \<in> set entries" "pe_id e = pb_entry p" using deleted_entry[OF st p] by blast
      from c e(1) obtain g n q where q: "(g, pe_id e, n) \<in> set (candidates h (unixMilli cutoff))"
        "find_publication h (pe_id e) = Some q" by (rule pruneCandidates_Inr)
      have "find_publication h (pe_id e) = Some p"
        unfolding find_publication_def e(2) using keys p(1)
        by (intro find_map_keys) (auto simp: unique_keys_def keys_messages_def)
      with candidate_before[OF q(1)] show ?thesis by simp
    qed
    then show ?thesis using st by (auto simp: pruned_state_def)
  qed
qed (auto intro: exI[of _ "\<lambda>_. True"])

text \<open>
  C24: A pinned message survives every prune, whatever the cutoff: its head is kept as it is.
\<close>

theorem pinned_survives_prune:
  assumes run: "PruneHub dg refs_bytes digest d env cutoff clk0 reconcile backup rid h0 h = (Inr out, h')"
    and keys: "unique_keys h" and sep: "separated h"
    and m: "m \<in> set (heads h)" "hd_pinned m"
  shows "m \<in> set (heads h')"
  using run
proof (rule PruneHub_Inr)
  fix plan now
  assume "pruneHub_body refs_bytes digest cutoff plan backup rid h now = Inr (out, h')"
  then show ?thesis
  proof (rule pruneHub_Inr[OF _ sep])
    fix entries hasMore
    assume c: "pruneCandidates refs_bytes h (unixMilli cutoff) = Inr (entries, hasMore)" and st: "pruned_state entries h h'"
    have "distinct (map hd_message (heads h))" using keys by (simp add: unique_keys_def keys_messages_def)
    from pinned_not_pruned[OF c this m] st m(1) show ?thesis by (auto simp: pruned_state_def)
  qed
qed (use m in simp)

definition demo_pinned :: hub where
  "demo_pinned = demo_two\<lparr>heads := map (\<lambda>m. m\<lparr>hd_pinned := True\<rparr>) (heads demo_two)\<rparr>"

lemma demo_pinned_run: "\<not> isl (fst (demo_prune (fromMillis 1800) demo_pinned))"
  by code_simp

theorem pinned_survives_prune_witness:
  "heads demo_pinned \<noteq> [] \<and> hd (heads demo_pinned) \<in> set (heads (snd (demo_prune (fromMillis 1800) demo_pinned)))"
proof -
  have keys: "unique_keys demo_pinned" by code_simp
  have "pruned_ranges demo_pinned = []" by code_simp
  then have sep: "separated demo_pinned" by (simp add: separated_def)
  have ne: "heads demo_pinned \<noteq> []" and p: "hd_pinned (hd (heads demo_pinned))" by code_simp+
  have m: "hd (heads demo_pinned) \<in> set (heads demo_pinned)" using ne by simp
  show ?thesis
    using pinned_survives_prune[OF run_okD[OF demo_pinned_run, unfolded demo_prune_def] keys sep m p] ne
    by (simp add: demo_prune_def)
qed

text \<open>
  The idempotency key of a pruned publication is remembered: a retry of that post or publication is answered
  with \<open>ErrReplayGap\<close>, never with a second copy, whatever the retried content is.
\<close>

theorem pruned_key_is_remembered:
  assumes run: "PruneHub dg refs_bytes digest d env cutoff clk0 reconcile backup rid h0 h = (Inr out, h')"
    and keys: "unique_keys h" and sep: "separated h"
    and p: "p \<in> set (publications h)" "p \<notin> set (publications h')" "pb_key p = Some k" "k \<noteq> ''''"
  shows "replayMessage h' (pb_scope p) (pb_topic p) (pb_actor p) k fp = Inl ErrReplayGap
    \<and> replayEvent_tx h' (pb_scope p) (pb_topic p) (pb_actor p) k fp = Inl ErrReplayGap"
  using run
proof (rule PruneHub_Inr)
  fix plan now
  assume "pruneHub_body refs_bytes digest cutoff plan backup rid h now = Inr (out, h')"
  then show ?thesis
  proof (rule pruneHub_Inr[OF _ sep])
    fix entries hasMore
    assume c: "pruneCandidates refs_bytes h (unixMilli cutoff) = Inr (entries, hasMore)" and st: "pruned_state entries h h'"
      and k: "\<forall>e \<in> set entries. pe_key e \<noteq> '''' \<longrightarrow>
       entry_key e \<in> pruned_key ` set (pruned_idems h') \<and> entry_key e \<notin> idem_key ` set (idems h')"
    obtain e where e: "e \<in> set entries" "pe_id e = pb_entry p" using deleted_entry[OF st p(1,2)] by blast
    from c e(1) obtain q where q: "find_publication h (pe_id e) = Some q" "pe_scope e = pb_scope q" "pe_topic e = pb_topic q"
      "pe_actor e = pb_actor q" "pe_key e = string_of_null (pb_key q)" by (rule pruneCandidates_Inr)
    have "find_publication h (pe_id e) = Some p"
      unfolding find_publication_def e(2) using keys p(1)
      by (intro find_map_keys) (auto simp: unique_keys_def keys_messages_def)
    with q(1) have "q = p" by simp
    with q p(3,4) have key: "entry_key e = (pb_scope p, pb_topic p, pb_actor p, k)" "pe_key e \<noteq> ''''"
      by (simp_all add: entry_key_def string_of_null_def)
    from k e(1) key(2) have "entry_key e \<in> pruned_key ` set (pruned_idems h')" "entry_key e \<notin> idem_key ` set (idems h')"
      by blast+
    then have a: "(pb_scope p, pb_topic p, pb_actor p, k) \<in> pruned_key ` set (pruned_idems h')"
      and b: "(pb_scope p, pb_topic p, pb_actor p, k) \<notin> idem_key ` set (idems h')" unfolding key(1) by simp_all
    from b have "find_idem h' (pb_scope p) (pb_topic p) (pb_actor p) k = None"
      by (auto simp: find_idem_def find_None_iff image_iff)
    moreover from a p(4) have "prunedKey h' (pb_scope p) (pb_topic p) (pb_actor p) k"
      by (auto simp: prunedKey_def pruned_key_def)
    ultimately show ?thesis using p(4) by (simp add: replayMessage_def replayEvent_tx_def)
  qed
qed (use p in simp)

text \<open>
  Recording a pruned interval merges it with every recorded range it overlaps or touches: afterwards the
  ranges of all scopes are again disjoint and never adjacent, and the positions they cover are exactly those
  covered before together with the new interval.
\<close>

theorem merge_covers_exactly:
  assumes "mergePrunedRange scope a b pid h = Inr h'" and "a \<le> b" and "separated h"
  shows "separated h' \<and> covered (scope_ranges h' scope) = covered (scope_ranges h scope) \<union> {a..b}
    \<and> (\<forall>other. other \<noteq> scope \<longrightarrow> scope_ranges h' other = scope_ranges h other)"
  using mergePrunedRange_spec[OF assms] by simp

text \<open>
  A batch never holds more than \<open>PruneBatchLimit\<close> publications, and when it reports that nothing is left
  it holds every candidate.
\<close>

theorem batch_bounded:
  assumes "pruneCandidates refs_bytes h cutoff = Inr (entries, hasMore)"
  shows "int (length entries) \<le> PruneBatchLimit
    \<and> (\<not> hasMore \<longrightarrow> set entries = set (List.map_filter (prune_entry refs_bytes h) (candidates h cutoff)))"
proof -
  define es where "es = List.map_filter (prune_entry refs_bytes h) (candidates h cutoff)"
  have run: "batch_loop (\<lambda>g. int (length (group_members es g))) None [] (ordered_entries es) = Inr (entries, hasMore)"
    using assms by (simp add: pruneCandidates_def Let_def es_def)
  have perm: "mset (ordered_entries es) = mset es" by (simp add: ordered_entries_def)
  have "length (filter P (ordered_entries es)) = length (filter P es)" for P
    using arg_cong[OF perm, of "\<lambda>m. size (filter_mset P m)"] by (metis mset_filter size_mset)
  moreover have "takeWhile (\<lambda>e. False) xs = []" for xs :: "pruneEntry list" by (cases xs) simp_all
  ultimately have "int (length entries) \<le> PruneBatchLimit"
    by (intro batch_loop_bound[OF run]) (auto simp: group_members_def in_group_def PruneBatchLimit_def)
  moreover have "set entries = set es" if "\<not> hasMore"
    using batch_loop_take[OF run] that by (auto simp: ordered_entries_def)
  ultimately show ?thesis by (simp add: es_def)
qed

theorem batch_bounded_witness:
  "int (length (fst (projr (pruneCandidates (\<lambda>_. 0) demo_two 1400)))) \<le> PruneBatchLimit"
proof -
  have "\<not> isl (pruneCandidates (\<lambda>_. 0) demo_two 1400)" by code_simp
  from value_okD[OF this] obtain es b where "pruneCandidates (\<lambda>_. 0) demo_two 1400 = Inr (es, b)" by (metis surj_pair)
  with batch_bounded[OF this] show ?thesis by simp
qed

text \<open>
  C36: The headroom test is exact and nothing in it wraps around: it holds exactly when, over the natural numbers,
  twice the database plus the reserve of 64 MiB fits into the free space.
\<close>

theorem headroom_exact:
  "sufficientBackupHeadroom free dbBytes \<longleftrightarrow> 2 * unat dbBytes + 64 * 1024 * 1024 \<le> unat free"
proof (cases "64 * 1024 * 1024 \<le> unat free")
  case True
  have r: "unat (64 * 1024 * 1024 :: 64 word) = 64 * 1024 * 1024" by simp
  have le: "(64 * 1024 * 1024 :: 64 word) \<le> free" using True by (simp add: word_le_nat_alt)
  have "unat (free - 64 * 1024 * 1024) = unat free - 64 * 1024 * 1024"
    using le r by (simp add: unat_sub)
  then have "unat ((free - 64 * 1024 * 1024) div 2) = (unat free - 64 * 1024 * 1024) div 2"
    by (simp add: unat_div)
  then show ?thesis using le True by (simp add: sufficientBackupHeadroom_def word_le_nat_alt) linarith
next
  case False
  then have "\<not> (64 * 1024 * 1024 :: 64 word) \<le> free" by (simp add: word_le_nat_alt)
  then show ?thesis using False by (simp add: sufficientBackupHeadroom_def)
qed

lemma group_id_inject: "group_id g = group_id g' \<longleftrightarrow> g = g'"
  by (cases g; cases g') auto

text \<open>Between two entries with the same leading keys, a sorted list has only such entries.\<close>

lemma lex_between:
  fixes a a1 a2 :: "'a :: linorder" and b b1 b2 :: "'b :: linorder" and c c1 c2 :: "'c :: linorder"
    and d d1 d2 d' :: "'d :: linorder"
  assumes "(a, b, c, d) \<le> (a1, b1, c1, d1)" and "(a1, b1, c1, d1) \<le> (a2, b2, c2, d2)" and "(a2, b2, c2, d2) \<le> (a, b, c, d')"
  shows "c1 = c2"
  using assms by (auto simp: less_eq_prod_def)

text \<open>
  A batch takes groups whole: a message with all its revisions, or a chain of corrections, is either pruned
  completely or not touched by the batch.
\<close>

theorem groups_stay_whole:
  assumes "pruneCandidates refs_bytes h cutoff = Inr (entries, hasMore)"
    and scopes: "\<forall>e \<in> set (List.map_filter (prune_entry refs_bytes h) (candidates h cutoff)).
        \<forall>e' \<in> set (List.map_filter (prune_entry refs_bytes h) (candidates h cutoff)). pe_group e = pe_group e' \<longrightarrow> pe_scope e = pe_scope e'"
    and e: "e \<in> set entries" "e' \<in> set (List.map_filter (prune_entry refs_bytes h) (candidates h cutoff))" "pe_group e' = pe_group e"
  shows "e' \<in> set entries"
proof (rule ccontr)
  assume out: "e' \<notin> set entries"
  define es where "es = List.map_filter (prune_entry refs_bytes h) (candidates h cutoff)"
  define rows where "rows = ordered_entries es"
  define K where "K (e :: pruneEntry) = (pe_scope e, first_sequence es (pe_group e), group_id (pe_group e), pe_sequence e)" for e
  have run: "batch_loop (\<lambda>g. int (length (group_members es g))) None [] rows = Inr (entries, hasMore)"
    using assms(1) by (simp add: pruneCandidates_def Let_def es_def rows_def)
  have "(\<lambda>e. (pe_scope e, first_sequence es (pe_group e), group_id (pe_group e), pe_sequence e)) = K"
    by (simp add: fun_eq_iff K_def)
  then have sorted: "sorted (map K rows)" by (simp add: rows_def ordered_entries_def)
  have set: "set rows = set es" by (simp add: rows_def ordered_entries_def)
  from batch_loop_take[OF run] obtain k where k: "entries = take k rows" "hasMore \<longleftrightarrow> k < length rows"
    "hasMore \<longrightarrow> pe_group (rows ! k) \<noteq> pe_group (rows ! (k - 1)) \<or> k = 0" by (fastforce split: if_splits)
  from e(1) k(1) obtain i where i: "i < k" "i < length rows" "e = rows ! i" by (auto simp: in_set_conv_nth)
  from e(2) obtain j where j: "j < length rows" "e' = rows ! j"
    using set unfolding es_def[symmetric] by (metis in_set_conv_nth)
  have "k \<le> j"
  proof (rule ccontr)
    assume "\<not> k \<le> j"
    then have "rows ! j \<in> set (take k rows)" using j(1) by (auto simp: in_set_conv_nth intro!: exI[of _ j])
    with out k(1) j(2) show False by simp
  qed
  with j(1) i(1) k have diff: "pe_group (rows ! k) \<noteq> pe_group (rows ! (k - 1))" and kl: "k < length rows" by auto
  have le: "K (rows ! x) \<le> K (rows ! y)" if "x \<le> y" "y < length rows" for x y
    using sorted_nth_mono[OF sorted, of x y] that by simp
  have sc: "pe_scope e' = pe_scope e" using scopes e(2,3) set i(2,3) nth_mem[OF i(2)] by (metis es_def)
  have "K e \<le> K (rows ! (k - 1))" "K (rows ! (k - 1)) \<le> K (rows ! k)" "K (rows ! k) \<le> K e'"
    using le[of i "k - 1"] le[of "k - 1" k] le[of k j] i j kl \<open>k \<le> j\<close> by auto
  then have "group_id (pe_group (rows ! (k - 1))) = group_id (pe_group (rows ! k))"
    unfolding K_def e(3) sc by (rule lex_between)
  then show False using diff by (simp add: group_id_inject)
qed

end
