(* ===== verification/Leases.thy ===== *)
theory Leases
  imports Topics
begin

text \<open>
  \<open>internal/hubstore/lease.go\<close>: cooperative, time-bounded admission to a topic. A released
  or expired row keeps its generation, so a stale bearer never becomes current again.
  \<open>sha\<close> is SHA-256 in hex, a parameter.
\<close>

record lease =
  le_TopicID :: string
  le_State :: string
  le_Generation :: int
  le_ActorID :: string
  le_AcquiredAt :: "gotime option"
  le_ExpiresAt :: "gotime option"
  le_Token :: string

text \<open>Durations are nanoseconds: between one second and \<open>maxLeaseDuration\<close>, in milliseconds.\<close>

definition maxLeaseDuration :: int where "maxLeaseDuration = 24 * 3600 * 1000000000"

definition leaseDuration :: "int \<Rightarrow> err + int" where
  "leaseDuration d =
     (if d < 1000000000 \<or> d > maxLeaseDuration then Inl ErrInvalidInput else Inr (d div 1000000))"

definition leaseTokenHash :: "(string \<Rightarrow> string) \<Rightarrow> string \<Rightarrow> err + string" where
  "leaseTokenHash sha token =
     (if length token \<noteq> 32 \<or> \<not> isHex token then Inl ErrInvalidInput else Inr (sha token))"

definition available_lease :: "string \<Rightarrow> int \<Rightarrow> lease" where
  "available_lease tid g = \<lparr>le_TopicID = tid, le_State = ''available'', le_Generation = g, le_ActorID = '''',
     le_AcquiredAt = None, le_ExpiresAt = None, le_Token = ''''\<rparr>"

definition null_int :: "int option \<Rightarrow> int" where
  "null_int v = (case v of None \<Rightarrow> 0 | Some i \<Rightarrow> i)"

definition lease_row_of :: "hub \<Rightarrow> string \<Rightarrow> lease_row option" where
  "lease_row_of h tid = List.find (\<lambda>r. ls_topic r = tid) (leases h)"

definition leaseRow :: "hub \<Rightarrow> string \<Rightarrow> int \<Rightarrow> lease" where
  "leaseRow h tid now = (case lease_row_of h tid of
     None \<Rightarrow> available_lease tid 0
   | Some r \<Rightarrow>
       if ls_actor r \<noteq> None \<and> null_int (ls_expires_at r) > now
       then (available_lease tid (ls_generation r))\<lparr>le_State := ''held'',
              le_ActorID := string_of_null (ls_actor r),
              le_AcquiredAt := Some (fromMillis (null_int (ls_acquired_at r))),
              le_ExpiresAt := Some (fromMillis (null_int (ls_expires_at r)))\<rparr>
       else available_lease tid (ls_generation r))"

definition acquireLease_body ::
  "(string \<Rightarrow> string) \<Rightarrow> os \<Rightarrow> repoEvidence \<Rightarrow> string \<Rightarrow> string \<Rightarrow> int \<Rightarrow> rand \<Rightarrow> hub \<Rightarrow> int \<Rightarrow> err + (lease \<times> hub)" where
  "acquireLease_body sha os ev tid actorID millis rid h now =
     bindE (boundScope os h ev) (\<lambda>scope.
     bindE (selectTopic h scope tid now) (\<lambda>topic.
     bindE (requireE (to_State topic = ''active'') ErrArchived) (\<lambda>_.
     bindE (enrolled h actorID) (\<lambda>_.
     let current = leaseRow h tid now in
     bindE (requireE (le_State current \<noteq> ''held'') ErrConflict) (\<lambda>_.
     bindE (randomID rid) (\<lambda>token.
     bindE (leaseTokenHash sha token) (\<lambda>hash.
     bindE (if le_Generation current = 0
            then insert_lease \<lparr>ls_topic = tid, ls_generation = 1, ls_actor = Some actorID, ls_hash = Some hash,
                   ls_acquired_at = Some now, ls_expires_at = Some (now + millis)\<rparr> h
            else update_lease (\<lambda>r. ls_topic r = tid)
                   (\<lambda>r. r\<lparr>ls_generation := ls_generation r + 1, ls_actor := Some actorID, ls_hash := Some hash,
                          ls_acquired_at := Some now, ls_expires_at := Some (now + millis)\<rparr>) h) (\<lambda>h1.
       Inr (\<lparr>le_TopicID = tid, le_State = ''held'', le_Generation = le_Generation current + 1,
             le_ActorID = actorID, le_AcquiredAt = Some (fromMillis now),
             le_ExpiresAt = Some (fromMillis (now + millis)), le_Token = token\<rparr>, h1)))))))))"

definition AcquireLease ::
  "(string \<Rightarrow> string) \<Rightarrow> db \<Rightarrow> env \<Rightarrow> os \<Rightarrow> string \<Rightarrow> string \<Rightarrow> string \<Rightarrow> int \<Rightarrow> rand \<Rightarrow> hub \<Rightarrow> (err + lease) \<times> hub" where
  "AcquireLease sha d env os repoPath tid actorID duration rid =
     guarded_write d env
       (bindE (leaseDuration duration) (\<lambda>millis.
        bindE (resolve os repoPath) (\<lambda>ev.
          Inr (acquireLease_body sha os ev tid actorID millis rid))))"

definition ShowLease :: "os \<Rightarrow> string \<Rightarrow> string \<Rightarrow> gotime \<Rightarrow> hub \<Rightarrow> err + lease" where
  "ShowLease os repoPath tid clk h =
     bindE (LookupRepo os repoPath h) (\<lambda>scope.
     bindE (requireE (topic_in_scope h (scope_ID scope) tid) ErrNotFound) (\<lambda>_.
       Inr (leaseRow h tid (unixMilli clk))))"

text \<open>The row a bearer may renew, and the row a bearer may release.\<close>

definition renewable :: "string \<Rightarrow> string \<Rightarrow> string \<Rightarrow> int \<Rightarrow> lease_row \<Rightarrow> bool" where
  "renewable tid actorID hash now r \<longleftrightarrow>
     ls_topic r = tid \<and> ls_actor r = Some actorID \<and> ls_hash r = Some hash
     \<and> (case ls_expires_at r of None \<Rightarrow> False | Some e \<Rightarrow> e > now)"

definition releasable :: "string \<Rightarrow> string \<Rightarrow> string \<Rightarrow> lease_row \<Rightarrow> bool" where
  "releasable tid actorID hash r \<longleftrightarrow>
     ls_topic r = tid \<and> ls_actor r = Some actorID \<and> ls_hash r = Some hash"

definition renewLease_body ::
  "os \<Rightarrow> repoEvidence \<Rightarrow> string \<Rightarrow> string \<Rightarrow> string \<Rightarrow> int \<Rightarrow> hub \<Rightarrow> int \<Rightarrow> err + (lease \<times> hub)" where
  "renewLease_body os ev tid actorID hash millis h now =
     bindE (boundScope os h ev) (\<lambda>scope.
     bindE (selectTopic h scope tid now) (\<lambda>topic.
     bindE (requireE (to_State topic = ''active'') ErrArchived) (\<lambda>_.
     let current = leaseRow h tid now in
     bindE (requireE (le_State current = ''held'') ErrExpired) (\<lambda>_.
     bindE (requireE (le_ActorID current = actorID) ErrUnauthorized) (\<lambda>_.
     bindE (update_lease (renewable tid actorID hash now) (\<lambda>r. r\<lparr>ls_expires_at := Some (now + millis)\<rparr>) h) (\<lambda>h1.
     bindE (requireE (rows_affected (renewable tid actorID hash now) (leases h) = 1) ErrConflict) (\<lambda>_.
       Inr (current\<lparr>le_ExpiresAt := Some (fromMillis (now + millis))\<rparr>, h1))))))))"

definition RenewLease ::
  "(string \<Rightarrow> string) \<Rightarrow> db \<Rightarrow> env \<Rightarrow> os \<Rightarrow> string \<Rightarrow> string \<Rightarrow> string \<Rightarrow> string \<Rightarrow> int \<Rightarrow> hub \<Rightarrow> (err + lease) \<times> hub" where
  "RenewLease sha d env os repoPath tid actorID token duration =
     guarded_write d env
       (bindE (leaseDuration duration) (\<lambda>millis.
        bindE (leaseTokenHash sha token) (\<lambda>hash.
        bindE (resolve os repoPath) (\<lambda>ev.
          Inr (renewLease_body os ev tid actorID hash millis)))))"

definition releaseLease_body ::
  "os \<Rightarrow> repoEvidence \<Rightarrow> string \<Rightarrow> string \<Rightarrow> string \<Rightarrow> hub \<Rightarrow> int \<Rightarrow> err + (unit \<times> hub)" where
  "releaseLease_body os ev tid actorID hash h now =
     bindE (boundScope os h ev) (\<lambda>scope.
     bindE (selectTopic h scope tid now) (\<lambda>_.
     bindE (update_lease (releasable tid actorID hash)
              (\<lambda>r. r\<lparr>ls_actor := None, ls_hash := None, ls_acquired_at := None, ls_expires_at := None\<rparr>) h) (\<lambda>h1.
     bindE (requireE (rows_affected (releasable tid actorID hash) (leases h) = 1) ErrConflict) (\<lambda>_.
       Inr ((), h1)))))"

definition ReleaseLease ::
  "(string \<Rightarrow> string) \<Rightarrow> db \<Rightarrow> env \<Rightarrow> os \<Rightarrow> string \<Rightarrow> string \<Rightarrow> string \<Rightarrow> string \<Rightarrow> hub \<Rightarrow> (err + unit) \<times> hub" where
  "ReleaseLease sha d env os repoPath tid actorID token =
     guarded_write d env
       (bindE (leaseTokenHash sha token) (\<lambda>hash.
        bindE (resolve os repoPath) (\<lambda>ev.
          Inr (releaseLease_body os ev tid actorID hash))))"

section \<open>Lemmas\<close>

text \<open>A topic is held by an actor until a moment when its row says so.\<close>

definition held_by :: "hub \<Rightarrow> string \<Rightarrow> string \<Rightarrow> int \<Rightarrow> bool" where
  "held_by h tid actorID until \<longleftrightarrow>
     (\<exists>r. lease_row_of h tid = Some r \<and> ls_actor r = Some actorID \<and> ls_expires_at r = Some until)"

lemma leaseRow_held:
  "le_State (leaseRow h tid now) = ''held'' \<longleftrightarrow>
     (\<exists>r. lease_row_of h tid = Some r \<and> ls_actor r \<noteq> None \<and> now < null_int (ls_expires_at r))"
  by (auto simp: leaseRow_def available_lease_def split: option.splits)

lemma leaseRow_generation:
  "le_Generation (leaseRow h tid now) = (case lease_row_of h tid of None \<Rightarrow> 0 | Some r \<Rightarrow> ls_generation r)"
  by (auto simp: leaseRow_def available_lease_def split: option.splits)

lemma lease_row_of_SomeD: "lease_row_of h tid = Some r \<Longrightarrow> r \<in> set (leases h) \<and> ls_topic r = tid"
  by (auto simp: lease_row_of_def dest!: find_SomeD_conj)

lemma lease_row_of_update:
  assumes "\<And>r. ls_topic (f r) = ls_topic r"
  shows "lease_row_of (h\<lparr>leases := update_where P f (leases h)\<rparr>) tid
     = map_option (\<lambda>r. if P r then f r else r) (lease_row_of h tid)"
  by (simp add: lease_row_of_def find_update_where assms)

lemma acquireLease_body_Inr:
  assumes "acquireLease_body sha os ev tid actorID millis rid h now = Inr (l, h')"
  shows "le_State (leaseRow h tid now) \<noteq> ''held''" and "randomID rid = Inr (le_Token l)"
    and "le_Generation l = le_Generation (leaseRow h tid now) + 1"
    and "\<exists>r. lease_row_of h' tid = Some r \<and> ls_actor r = Some actorID \<and> ls_hash r = Some (sha (le_Token l))
         \<and> ls_acquired_at r = Some now \<and> ls_expires_at r = Some (now + millis) \<and> ls_generation r = le_Generation l"
proof -
  let ?g = "le_Generation (leaseRow h tid now)"
  from assms show "le_State (leaseRow h tid now) \<noteq> ''held''" "randomID rid = Inr (le_Token l)"
    "le_Generation l = ?g + 1"
    unfolding acquireLease_body_def by (auto simp: Let_def)
  from assms obtain hash where hash: "leaseTokenHash sha (le_Token l) = Inr hash"
    and l: "le_Generation l = ?g + 1"
    and w: "(if ?g = 0
            then insert_lease \<lparr>ls_topic = tid, ls_generation = 1, ls_actor = Some actorID, ls_hash = Some hash,
                   ls_acquired_at = Some now, ls_expires_at = Some (now + millis)\<rparr> h
            else update_lease (\<lambda>r. ls_topic r = tid)
                   (\<lambda>r. r\<lparr>ls_generation := ls_generation r + 1, ls_actor := Some actorID, ls_hash := Some hash,
                          ls_acquired_at := Some now, ls_expires_at := Some (now + millis)\<rparr>) h) = Inr h'"
    unfolding acquireLease_body_def by (auto simp: Let_def)
  have sha: "hash = sha (le_Token l)" using hash by (auto simp: leaseTokenHash_def split: if_splits)
  show "\<exists>r. lease_row_of h' tid = Some r \<and> ls_actor r = Some actorID \<and> ls_hash r = Some (sha (le_Token l))
         \<and> ls_acquired_at r = Some now \<and> ls_expires_at r = Some (now + millis) \<and> ls_generation r = le_Generation l"
  proof (cases "?g = 0")
    case True
    with w have fresh: "tid \<notin> ls_topic ` set (leases h)" and h': "h' = h\<lparr>leases := leases h @
        [\<lparr>ls_topic = tid, ls_generation = 1, ls_actor = Some actorID, ls_hash = Some hash,
          ls_acquired_at = Some now, ls_expires_at = Some (now + millis)\<rparr>]\<rparr>"
      by (auto simp: insert_lease_def)
    have "List.find (\<lambda>r. ls_topic r = tid) (leases h) = None" using fresh by (auto simp: find_None_iff)
    then show ?thesis using True l sha by (simp add: h' lease_row_of_def find_append)
  next
    case False
    then obtain r where r: "lease_row_of h tid = Some r" "ls_generation r = ?g"
      by (auto simp: leaseRow_generation split: option.splits)
    have h': "h' = h\<lparr>leases := update_where (\<lambda>r. ls_topic r = tid)
                   (\<lambda>r. r\<lparr>ls_generation := ls_generation r + 1, ls_actor := Some actorID, ls_hash := Some hash,
                          ls_acquired_at := Some now, ls_expires_at := Some (now + millis)\<rparr>) (leases h)\<rparr>"
      using w False by (auto simp: update_lease_def)
    show ?thesis
      using r lease_row_of_SomeD[OF r(1)] l sha by (simp add: h' lease_row_of_update)
  qed
qed

lemma AcquireLease_Inr:
  assumes "AcquireLease sha d env os path tid actorID duration rid h = (Inr l, h')"
  shows "acquireLease_body sha os (projr (resolve os path)) tid actorID (duration div 1000000) rid h (env_now env) = Inr (l, h')"
    "1000000000 \<le> duration" "duration \<le> maxLeaseDuration"
  using assms by (auto simp: AcquireLease_def guarded_write_Inr_iff write_Inr_iff leaseDuration_def split: if_splits)

text \<open>What a bearer may do is decided by the token in the row.\<close>

lemma renewLease_body_Inr:
  assumes "renewLease_body os ev tid actorID hash millis h now = Inr (l, h')" and "distinct (map ls_topic (leases h))"
    and "lease_row_of h tid = Some r"
  shows "renewable tid actorID hash now r"
proof -
  have "rows_affected (renewable tid actorID hash now) (leases h) = 1"
    using assms(1) unfolding renewLease_body_def by (auto simp: Let_def)
  then obtain x where x: "x \<in> set (leases h)" "renewable tid actorID hash now x"
    using rows_affected_pos[of "renewable tid actorID hash now" "leases h"] by auto
  have "x = r"
    using lease_row_of_SomeD[OF assms(3)] x assms(2) by (auto simp: renewable_def distinct_map inj_on_def)
  with x show ?thesis by simp
qed

lemma releaseLease_body_Inr:
  assumes "releaseLease_body os ev tid actorID hash h now = Inr (u, h')" and "distinct (map ls_topic (leases h))"
    and "lease_row_of h tid = Some r"
  shows "releasable tid actorID hash r"
proof -
  have "rows_affected (releasable tid actorID hash) (leases h) = 1"
    using assms(1) unfolding releaseLease_body_def by (auto simp: Let_def)
  then obtain x where x: "x \<in> set (leases h)" "releasable tid actorID hash x"
    using rows_affected_pos[of "releasable tid actorID hash" "leases h"] by auto
  have "x = r"
    using lease_row_of_SomeD[OF assms(3)] x assms(2) by (auto simp: releasable_def distinct_map inj_on_def)
  with x show ?thesis by simp
qed

lemma acquire_keys:
  assumes "AcquireLease sha d env os path tid actorID duration rid h = (Inr l, h')"
    and "distinct (map ls_topic (leases h))"
  shows "distinct (map ls_topic (leases h'))"
proof -
  obtain hash where "(if le_Generation (leaseRow h tid (env_now env)) = 0
        then insert_lease \<lparr>ls_topic = tid, ls_generation = 1, ls_actor = Some actorID, ls_hash = Some hash,
               ls_acquired_at = Some (env_now env), ls_expires_at = Some (env_now env + duration div 1000000)\<rparr> h
        else update_lease (\<lambda>r. ls_topic r = tid)
               (\<lambda>r. r\<lparr>ls_generation := ls_generation r + 1, ls_actor := Some actorID, ls_hash := Some hash,
                      ls_acquired_at := Some (env_now env), ls_expires_at := Some (env_now env + duration div 1000000)\<rparr>) h)
        = Inr h'"
    using AcquireLease_Inr(1)[OF assms(1)] unfolding acquireLease_body_def by (auto simp: Let_def)
  then show ?thesis
    using assms(2) by (cases "le_Generation (leaseRow h tid (env_now env)) = 0")
      (auto simp: insert_lease_def update_lease_def map_update_where)
qed

lemma RenewLease_Inl: "RenewLease sha d env os path tid actorID token duration h = (Inl e, h') \<Longrightarrow> h' = h"
  by (auto simp: RenewLease_def dest: guarded_write_Inl)

lemma ReleaseLease_Inl: "ReleaseLease sha d env os path tid actorID token h = (Inl e, h') \<Longrightarrow> h' = h"
  by (auto simp: ReleaseLease_def dest: guarded_write_Inl)

section \<open>Properties\<close>

text \<open>
  C29: Mutual exclusion: while a topic is held by an actor until a moment that has not
  come, no actor (the holder included) acquires it, whatever the duration, the path and the random token; the
  attempt fails and leaves the database as it was.
\<close>

theorem lease_exclusive:
  assumes "held_by h tid holder until" and "env_now env < until"
  shows "\<exists>e. AcquireLease sha d env os path tid actorID duration rid h = (Inl e, h)"
proof (cases "AcquireLease sha d env os path tid actorID duration rid h")
  case (Pair r h')
  show ?thesis
  proof (cases r)
    case (Inl e)
    with Pair have "h' = h" by (auto simp: AcquireLease_def dest: guarded_write_Inl)
    with Pair Inl show ?thesis by simp
  next
    case (Inr l)
    have "le_State (leaseRow h tid (env_now env)) \<noteq> ''held''"
      using acquireLease_body_Inr(1)[OF AcquireLease_Inr(1)] Pair Inr by blast
    then show ?thesis using assms by (auto simp: leaseRow_held held_by_def null_int_def)
  qed
qed

text \<open>
  A lease that was acquired is in force: the topic is held by the acquirer until the
  clock of the transaction plus the duration (in whole milliseconds), which is later than
  that clock, its generation is one above the one before, and \<open>ShowLease\<close>'s row says so at any
  moment before the deadline.
\<close>

theorem acquire_holds:
  assumes "AcquireLease sha d env os path tid actorID duration rid h = (Inr l, h')"
  shows "held_by h' tid actorID (env_now env + duration div 1000000)
    \<and> env_now env < env_now env + duration div 1000000
    \<and> le_Generation l = le_Generation (leaseRow h tid (env_now env)) + 1
    \<and> (\<forall>t. t < env_now env + duration div 1000000 \<longrightarrow>
         leaseRow h' tid t = l\<lparr>le_Token := ''''\<rparr>)"
proof -
  note b = AcquireLease_Inr[OF assms]
  note a = acquireLease_body_Inr[OF b(1)]
  from a(4) obtain r where r: "lease_row_of h' tid = Some r" "ls_actor r = Some actorID"
    "ls_acquired_at r = Some (env_now env)" "ls_expires_at r = Some (env_now env + duration div 1000000)"
    "ls_generation r = le_Generation l" by auto
  have l: "l = \<lparr>le_TopicID = tid, le_State = ''held'', le_Generation = le_Generation l,
             le_ActorID = actorID, le_AcquiredAt = Some (fromMillis (env_now env)),
             le_ExpiresAt = Some (fromMillis (env_now env + duration div 1000000)), le_Token = le_Token l\<rparr>"
    using b(1) unfolding acquireLease_body_def by (auto simp: Let_def)
  have rows: "leaseRow h' tid t = l\<lparr>le_Token := ''''\<rparr>" if "t < env_now env + duration div 1000000" for t
    using that r by (subst l) (simp add: leaseRow_def available_lease_def null_int_def string_of_null_def)
  show ?thesis
    using r b(2) a(3) rows by (auto simp: held_by_def)
qed

text \<open>
  C30: A stale bearer is fenced off: once another acquisition of the topic has succeeded, a
  token other than the one it was issued (with another hash) neither renews nor releases the
  lease, for any actor and at any later time before a further acquisition; both fail and change nothing.
\<close>

theorem stale_token_fenced:
  assumes "AcquireLease sha d env os path tid actorID duration rid h = (Inr l, h1)"
    and "distinct (map ls_topic (leases h))" and "sha stale \<noteq> sha (le_Token l)"
  shows "(\<exists>e. RenewLease sha d' env' os' path' tid actorID' stale duration' h1 = (Inl e, h1))
       \<and> (\<exists>e. ReleaseLease sha d' env' os' path' tid actorID' stale h1 = (Inl e, h1))"
proof -
  from acquireLease_body_Inr(4)[OF AcquireLease_Inr(1)[OF assms(1)]]
  obtain r where r: "lease_row_of h1 tid = Some r" "ls_hash r = Some (sha (le_Token l))" by auto
  have keys: "distinct (map ls_topic (leases h1))" using acquire_keys[OF assms(1,2)] .
  have renew: False if run: "RenewLease sha d' env' os' path' tid actorID' stale duration' h1 = (Inr x, h2)" for x h2
  proof -
    from run obtain ev hash millis where "leaseTokenHash sha stale = Inr hash"
      "renewLease_body os' ev tid actorID' hash millis h1 (env_now env') = Inr (x, h2)"
      by (auto simp: RenewLease_def guarded_write_Inr_iff write_Inr_iff)
    with renewLease_body_Inr[OF _ keys r(1)] r(2) assms(3) show False
      by (auto simp: renewable_def leaseTokenHash_def split: if_splits)
  qed
  have release: False if run: "ReleaseLease sha d' env' os' path' tid actorID' stale h1 = (Inr x, h2)" for x h2
  proof -
    from run obtain ev hash where "leaseTokenHash sha stale = Inr hash"
      "releaseLease_body os' ev tid actorID' hash h1 (env_now env') = Inr (x, h2)"
      by (auto simp: ReleaseLease_def guarded_write_Inr_iff write_Inr_iff)
    with releaseLease_body_Inr[OF _ keys r(1)] r(2) assms(3) show False
      by (auto simp: releasable_def leaseTokenHash_def split: if_splits)
  qed
  show ?thesis
    using renew release RenewLease_Inl ReleaseLease_Inl by (metis obj_sumE surj_pair)
qed
definition demo_acquire :: "(err + lease) \<times> hub" where
  "demo_acquire = AcquireLease (\<lambda>s. s) demo_db (demo_env 1000) demo_os ''global:'' ''t'' ''alice'' 60000000000
     (demo_bytes 1) demo_topic_hub"

lemma demo_acquire_ok:
  "AcquireLease (\<lambda>s. s) demo_db (demo_env 1000) demo_os ''global:'' ''t'' ''alice'' 60000000000
     (demo_bytes 1) demo_topic_hub = (Inr (projr (fst demo_acquire)), snd demo_acquire)"
proof -
  have "\<not> isl (fst demo_acquire)" by code_simp
  from run_okD[OF this] show ?thesis by (simp add: demo_acquire_def)
qed

theorem lease_exclusive_witness:
  "\<exists>e. AcquireLease (\<lambda>s. s) demo_db (demo_env 2000) demo_os ''global:'' ''t'' ''bob'' 1000000000 (demo_bytes 2)
        (snd demo_acquire) = (Inl e, snd demo_acquire)"
proof (rule lease_exclusive)
  have "(case lease_row_of (snd demo_acquire) ''t'' of None \<Rightarrow> False
     | Some r \<Rightarrow> ls_actor r = Some ''alice'' \<and> ls_expires_at r = Some 61000)" by code_simp
  then show "held_by (snd demo_acquire) ''t'' ''alice'' 61000" by (auto simp: held_by_def split: option.splits)
  show "env_now (demo_env 2000) < 61000" by (simp add: env_now_def demo_env_def)
qed

theorem acquire_holds_witness:
  "held_by (snd demo_acquire) ''t'' ''alice'' 61000"
  using acquire_holds[OF demo_acquire_ok] by (simp add: env_now_def demo_env_def)

theorem stale_token_fenced_witness:
  "\<exists>e. RenewLease (\<lambda>s. s) demo_db (demo_env 2000) demo_os ''global:'' ''t'' ''alice'' (concat (replicate 16 ''02'')) 1000000000
        (snd demo_acquire) = (Inl e, snd demo_acquire)"
proof -
  have keys: "distinct (map ls_topic (leases demo_topic_hub))" by code_simp
  have other: "concat (replicate 16 ''02'') \<noteq> le_Token (projr (fst demo_acquire))" by code_simp
  show ?thesis using stale_token_fenced[OF demo_acquire_ok keys other] by blast
qed

end
