(* ===== verification/Decoding.thy ===== *)
theory Decoding
  imports Events Samples
begin

text \<open>
  What the decoder of \<open>internal/hubstore/event.go\<close> accepts, which schemas the policy admits, and
  what is known of an event once it is published.
\<close>

section \<open>Documents and their tokens\<close>

definition scalar :: "json \<Rightarrow> bool" where
  "scalar v \<longleftrightarrow> (case v of JArray _ \<Rightarrow> False | JObject _ \<Rightarrow> False | _ \<Rightarrow> True)"

lemma scalar_simps [simp]:
  "scalar JNull" "scalar (JBool b)" "scalar (JNumber s)" "scalar (JString s)" "\<not> scalar (JArray vs)" "\<not> scalar (JObject ms)"
  by (simp_all add: scalar_def)

text \<open>The token stream of a document, its number of nodes and its height.\<close>

primrec tokens :: "json \<Rightarrow> jtoken list" where
  "tokens JNull = [TScalar JNull]"
| "tokens (JBool b) = [TScalar (JBool b)]"
| "tokens (JNumber n) = [TScalar (JNumber n)]"
| "tokens (JString s) = [TScalar (JString s)]"
| "tokens (JArray vs) = TOpenArr # concat (map tokens vs) @ [TCloseArr]"
| "tokens (JObject ms) = TOpenObj # concat (map (\<lambda>m. TScalar (JString (fst m)) # snd m) (map (map_prod id tokens) ms)) @ [TCloseObj]"

primrec nodes :: "json \<Rightarrow> int" where
  "nodes JNull = 1"
| "nodes (JBool b) = 1"
| "nodes (JNumber n) = 1"
| "nodes (JString s) = 1"
| "nodes (JArray vs) = 1 + sum_list (map nodes vs)"
| "nodes (JObject ms) = 1 + sum_list (map snd (map (map_prod id nodes) ms))"

text \<open>\<open>fits\<close>: no object has a key twice, and no value is nested deeper than \<open>room\<close>.\<close>

primrec fits :: "json \<Rightarrow> int \<Rightarrow> bool" where
  "fits JNull room \<longleftrightarrow> 0 \<le> room"
| "fits (JBool b) room \<longleftrightarrow> 0 \<le> room"
| "fits (JNumber n) room \<longleftrightarrow> 0 \<le> room"
| "fits (JString s) room \<longleftrightarrow> 0 \<le> room"
| "fits (JArray vs) room \<longleftrightarrow> 0 \<le> room \<and> (\<forall>p \<in> set (map fits vs). p (room - 1))"
| "fits (JObject ms) room \<longleftrightarrow> 0 \<le> room \<and> distinct (map fst ms)
     \<and> (\<forall>p \<in> set (map snd (map (map_prod id fits) ms)). p (room - 1))"

lemma nodes_pos: "1 \<le> nodes v"
  by (induction v) (fastforce intro!: sum_list_nonneg)+

abbreviation member_tokens :: "(string \<times> json) list \<Rightarrow> jtoken list" where
  "member_tokens ms \<equiv> concat (map (\<lambda>m. TScalar (JString (fst m)) # tokens (snd m)) ms)"

declare tokens.simps(6) [simp del] nodes.simps(6) [simp del] fits.simps(5,6) [simp del]

lemma object_simps [simp]:
  "tokens (JObject ms) = TOpenObj # member_tokens ms @ [TCloseObj]"
  "nodes (JObject ms) = 1 + (\<Sum>m\<leftarrow>ms. nodes (snd m))"
  "fits (JObject ms) room \<longleftrightarrow> 0 \<le> room \<and> distinct (map fst ms) \<and> (\<forall>m \<in> set ms. fits (snd m) (room - 1))"
  "fits (JArray vs) room \<longleftrightarrow> 0 \<le> room \<and> (\<forall>v \<in> set vs. fits v (room - 1))"
  by (simp_all add: tokens.simps(6) nodes.simps(6) fits.simps(5,6) comp_def)

lemma tokens_scalar: "scalar v \<Longrightarrow> tokens v = [TScalar v] \<and> nodes v = 1 \<and> (fits v r \<longleftrightarrow> 0 \<le> r)"
  by (cases v) auto

abbreviation lexed :: "jtoken list \<Rightarrow> bool" where
  "lexed ts \<equiv> \<forall>v. TScalar v \<in> set ts \<longrightarrow> scalar v"

lemma decode_sound:
  "decodeValue depth maxDepth n maxNodes ts = Inr (v, n', r) \<Longrightarrow> lexed ts \<Longrightarrow>
     ts = tokens v @ r \<and> n' = n + nodes v \<and> n' \<le> maxNodes \<and> fits v (maxDepth - depth)"
  "decodeMembers depth maxDepth n maxNodes obj ts = Inr (v, n', r) \<Longrightarrow> lexed ts \<Longrightarrow> distinct (map fst obj) \<Longrightarrow> n \<le> maxNodes \<Longrightarrow>
     \<exists>ms. v = JObject (obj @ ms) \<and> ts = member_tokens ms @ TCloseObj # r \<and> n' = n + sum_list (map (\<lambda>m. nodes (snd m)) ms)
       \<and> n' \<le> maxNodes \<and> distinct (map fst (obj @ ms)) \<and> (\<forall>m \<in> set ms. fits (snd m) (maxDepth - depth - 1))"
  "decodeElems depth maxDepth n maxNodes arr ts = Inr (v, n', r) \<Longrightarrow> lexed ts \<Longrightarrow> n \<le> maxNodes \<Longrightarrow>
     \<exists>vs. v = JArray (arr @ vs) \<and> ts = concat (map tokens vs) @ TCloseArr # r \<and> n' = n + sum_list (map nodes vs)
       \<and> n' \<le> maxNodes \<and> (\<forall>w \<in> set vs. fits w (maxDepth - depth - 1))"
proof (induction depth maxDepth n maxNodes ts and depth maxDepth n maxNodes obj ts and depth maxDepth n maxNodes arr ts
    arbitrary: v n' r and v n' r and v n' r rule: decodeValue_decodeMembers_decodeElems.induct)
  case (1 depth maxDepth n maxNodes ts)
  from "1.prems"(1) have ok: "depth \<le> maxDepth" "n + 1 \<le> maxNodes"
    by (auto simp: decodeValue.simps[of depth] bindE_Inr_iff)
  note run = "1.prems"(1)[unfolded decodeValue.simps[of depth]]
  show ?case
  proof (cases ts)
    case (Cons t us)
    show ?thesis
    proof (cases t)
      case TOpenObj
      with run Cons have d: "decodeMembers depth maxDepth (n + 1) maxNodes [] us = Inr (v, n', r)" by (auto simp: bindE_Inr_iff)
      have "lexed us" using "1.prems"(2) Cons by simp
      from "1.IH"(1)[OF _ Cons TOpenObj d this _ ok(2)] ok obtain ms where
        "v = JObject ms" "us = member_tokens ms @ TCloseObj # r" "n' = n + 1 + sum_list (map (\<lambda>m. nodes (snd m)) ms)" "n' \<le> maxNodes"
        "distinct (map fst ms)" "\<forall>m \<in> set ms. fits (snd m) (maxDepth - depth - 1)" by auto
      then show ?thesis using Cons TOpenObj ok by auto
    next
      case TOpenArr
      with run Cons have d: "decodeElems depth maxDepth (n + 1) maxNodes [] us = Inr (v, n', r)" by (auto simp: bindE_Inr_iff)
      have "lexed us" using "1.prems"(2) Cons by simp
      from "1.IH"(2)[OF _ Cons TOpenArr d this ok(2)] ok obtain vs where
        "v = JArray vs" "us = concat (map tokens vs) @ TCloseArr # r" "n' = n + 1 + sum_list (map nodes vs)" "n' \<le> maxNodes"
        "\<forall>w \<in> set vs. fits w (maxDepth - depth - 1)" by auto
      then show ?thesis using Cons TOpenArr ok by auto
    next
      case (TScalar w)
      have "v = w" "r = us" "n' = n + 1" using run TScalar Cons by (auto simp: bindE_Inr_iff)
      moreover have "scalar w" using "1.prems"(2) TScalar Cons by simp
      ultimately show ?thesis using tokens_scalar[of w "maxDepth - depth"] TScalar Cons ok by simp
    qed (use run Cons in \<open>auto simp: bindE_Inr_iff\<close>)
  qed (use run in \<open>auto simp: bindE_Inr_iff\<close>)
next
  case (2 depth maxDepth n maxNodes obj ts)
  note run = trans[OF decodeMembers.simps[symmetric] "2.prems"(1)]
  show ?case
  proof (cases ts)
    case (Cons t us)
    show ?thesis
    proof (cases t)
      case TCloseObj
      then show ?thesis using run Cons "2.prems" by (auto intro!: exI[of _ "[]"])
    next
      case (TScalar k)
      with run Cons obtain key where k: "k = JString key" by (cases k) auto
      with run Cons TScalar obtain w m us' where new: "key \<notin> fst ` set obj"
        and d: "decodeValue (depth + 1) maxDepth n maxNodes us = Inr (w, m, us')"
        and rest: "decodeMembers depth maxDepth m maxNodes (obj @ [(key, w)]) us' = Inr (v, n', r)" and short: "length us' < length us"
        by (auto simp: bindE_Inr_iff split: if_splits)
      have lx: "lexed us" using "2.prems"(2) Cons by simp
      from "2.IH"(1)[OF Cons TScalar k new d lx]
      have w: "us = tokens w @ us'" "m = n + nodes w" "m \<le> maxNodes" "fits w (maxDepth - (depth + 1))" by auto
      have lx': "lexed us'" using lx w(1) by simp
      have di: "distinct (map fst (obj @ [(key, w)]))" using "2.prems"(3) new by simp
      from "2.IH"(2)[OF Cons TScalar k new d _ _ short rest lx' di w(3)] obtain ms where
        "v = JObject ((obj @ [(key, w)]) @ ms)" "us' = member_tokens ms @ TCloseObj # r"
        "n' = m + sum_list (map (\<lambda>m. nodes (snd m)) ms)" "n' \<le> maxNodes" "distinct (map fst ((obj @ [(key, w)]) @ ms))"
        "\<forall>m \<in> set ms. fits (snd m) (maxDepth - depth - 1)" by auto
      then show ?thesis using Cons TScalar k w by (intro exI[of _ "(key, w) # ms"]) (auto simp: algebra_simps)
    qed (use run Cons in auto)
  qed (use run in auto)
next
  case (3 depth maxDepth n maxNodes arr ts)
  note run = trans[OF decodeElems.simps[symmetric] "3.prems"(1)]
  have step: ?case
    if tok: "ts = t # us" "t \<noteq> TCloseArr" "t \<noteq> TCloseObj"
      and P: "\<And>w m us'. decodeValue (depth + 1) maxDepth n maxNodes ts = Inr (w, m, us') \<Longrightarrow>
        ts = tokens w @ us' \<and> m = n + nodes w \<and> m \<le> maxNodes \<and> fits w (maxDepth - (depth + 1))"
      and R: "\<And>w m us'. decodeValue (depth + 1) maxDepth n maxNodes ts = Inr (w, m, us') \<Longrightarrow> length us' < length ts \<Longrightarrow>
        decodeElems depth maxDepth m maxNodes (arr @ [w]) us' = Inr (v, n', r) \<Longrightarrow> lexed us' \<Longrightarrow> m \<le> maxNodes \<Longrightarrow>
        \<exists>vs. v = JArray ((arr @ [w]) @ vs) \<and> us' = concat (map tokens vs) @ TCloseArr # r \<and> n' = m + sum_list (map nodes vs)
          \<and> n' \<le> maxNodes \<and> (\<forall>x \<in> set vs. fits x (maxDepth - depth - 1))" for t us
  proof -
    from run tok obtain w m us' where
      d: "decodeValue (depth + 1) maxDepth n maxNodes ts = Inr (w, m, us')"
      and rest: "decodeElems depth maxDepth m maxNodes (arr @ [w]) us' = Inr (v, n', r)" and short: "length us' < length ts"
      by (cases t) (auto simp: bindE_Inr_iff split: if_splits)
    note w = P[OF d]
    have "lexed us'" using "3.prems"(2) w by simp
    from R[OF d short rest this] w obtain vs where "v = JArray ((arr @ [w]) @ vs)" "us' = concat (map tokens vs) @ TCloseArr # r"
      "n' = m + sum_list (map nodes vs)" "n' \<le> maxNodes" "\<forall>x \<in> set vs. fits x (maxDepth - depth - 1)" by blast
    then show ?thesis using w by (intro exI[of _ "w # vs"]) (auto simp: algebra_simps)
  qed
  show ?case
  proof (cases ts)
    case Nil
    then show ?thesis using run by (auto simp: decodeValue.simps bindE_Inr_iff)
  next
    case (Cons t us)
    note lx = "3.prems"(2)
    show ?thesis
    proof (cases t)
      case TOpenObj
      with Cons lx "3.IH"(3)[OF Cons TOpenObj] "3.IH"(4)[OF Cons TOpenObj _ refl refl] show ?thesis
        by (intro step[of t us]) blast+
    next
      case TCloseArr
      then show ?thesis using run Cons "3.prems" by (auto intro!: exI[of _ "[]"])
    next
      case TOpenArr
      with Cons lx "3.IH"(5)[OF Cons TOpenArr] "3.IH"(6)[OF Cons TOpenArr _ refl refl] show ?thesis
        by (intro step[of t us]) blast+
    next
      case (TScalar w)
      with Cons lx "3.IH"(7)[OF Cons TScalar] "3.IH"(8)[OF Cons TScalar _ refl refl] show ?thesis
        by (intro step[of t us]) blast+
    next
      case TErr
      then show ?thesis using run Cons by (auto simp: decodeValue.simps bindE_Inr_iff)
    qed (use run Cons in auto)
  qed
qed
text \<open>Conversely a document that fits is read back from its tokens.\<close>

lemma tokens_head: "\<exists>t us. tokens v = t # us \<and> t \<notin> {TCloseArr, TCloseObj, TErr}"
  by (cases v) auto

lemma sum_nodes_nonneg: "0 \<le> (\<Sum>x\<leftarrow>xs. nodes (f x))"
  by (induction xs) (auto intro: add_nonneg_nonneg order_trans[OF zero_le_one nodes_pos])

lemma elems_complete:
  assumes "\<And>w d n r. w \<in> set vs \<Longrightarrow> fits w (D - d) \<Longrightarrow> n + nodes w \<le> N \<Longrightarrow>
      decodeValue d D n N (tokens w @ r) = Inr (w, n + nodes w, r)"
    and "\<forall>w \<in> set vs. fits w (D - (d + 1))" and "n + (\<Sum>w\<leftarrow>vs. nodes w) \<le> N"
  shows "decodeElems d D n N arr (concat (map tokens vs) @ TCloseArr # r) = Inr (JArray (arr @ vs), n + (\<Sum>w\<leftarrow>vs. nodes w), r)"
  using assms
proof (induction vs arbitrary: n arr)
  case (Cons w vs)
  obtain t us where t: "tokens w = t # us" "t \<notin> {TCloseArr, TCloseObj, TErr}" using tokens_head by blast
  let ?rest = "concat (map tokens vs) @ TCloseArr # r"
  have d: "decodeValue (d + 1) D n N (tokens w @ ?rest) = Inr (w, n + nodes w, ?rest)"
    using Cons.prems sum_nodes_nonneg[of "\<lambda>w. w" vs] by (intro Cons.prems(1)) auto
  have e: "decodeElems d D (n + nodes w) N (arr @ [w]) ?rest = Inr (JArray ((arr @ [w]) @ vs), n + nodes w + (\<Sum>w\<leftarrow>vs. nodes w), r)"
    using Cons.prems by (intro Cons.IH) (auto simp: algebra_simps)
  show ?case
    using d e t by (cases t) (simp_all add: decodeElems.simps[of d D n] algebra_simps)
qed (simp add: decodeElems.simps)

lemma members_complete:
  assumes "\<And>w d n r. w \<in> snd ` set ms \<Longrightarrow> fits w (D - d) \<Longrightarrow> n + nodes w \<le> N \<Longrightarrow>
      decodeValue d D n N (tokens w @ r) = Inr (w, n + nodes w, r)"
    and "\<forall>m \<in> set ms. fits (snd m) (D - (d + 1))" and "n + (\<Sum>m\<leftarrow>ms. nodes (snd m)) \<le> N" and "distinct (map fst (obj @ ms))"
  shows "decodeMembers d D n N obj (member_tokens ms @ TCloseObj # r) = Inr (JObject (obj @ ms), n + (\<Sum>m\<leftarrow>ms. nodes (snd m)), r)"
  using assms
proof (induction ms arbitrary: n obj)
  case (Cons m ms)
  obtain k w where m: "m = (k, w)" by (cases m)
  let ?rest = "member_tokens ms @ TCloseObj # r"
  have d: "decodeValue (d + 1) D n N (tokens w @ ?rest) = Inr (w, n + nodes w, ?rest)"
    using Cons.prems sum_nodes_nonneg[of snd ms] m by (intro Cons.prems(1)) auto
  have e: "decodeMembers d D (n + nodes w) N (obj @ [(k, w)]) ?rest =
      Inr (JObject ((obj @ [(k, w)]) @ ms), n + nodes w + (\<Sum>m\<leftarrow>ms. nodes (snd m)), r)"
    using Cons.prems m by (intro Cons.IH) (auto simp: algebra_simps)
  have "k \<notin> fst ` set obj" "tokens w \<noteq> []" using Cons.prems(4) m tokens_head[of w] by auto
  with d e show ?case by (simp add: decodeMembers.simps[of d D n] m algebra_simps)
qed (simp add: decodeMembers.simps)

lemma decode_complete:
  "fits v (D - d) \<Longrightarrow> n + nodes v \<le> N \<Longrightarrow> decodeValue d D n N (tokens v @ r) = Inr (v, n + nodes v, r)"
proof (induction v arbitrary: d n r)
  case (JArray vs)
  have "decodeElems d D (n + 1) N [] (concat (map tokens vs) @ TCloseArr # r) = Inr (JArray ([] @ vs), n + 1 + (\<Sum>w\<leftarrow>vs. nodes w), r)"
    by (rule elems_complete) (use JArray in \<open>auto simp: algebra_simps\<close>)
  then show ?case using JArray.prems sum_nodes_nonneg[of "\<lambda>w. w" vs] by (simp add: decodeValue.simps algebra_simps)
next
  case (JObject ms)
  have "decodeMembers d D (n + 1) N [] (member_tokens ms @ TCloseObj # r) =
      Inr (JObject ([] @ ms), n + 1 + (\<Sum>m\<leftarrow>ms. nodes (snd m)), r)"
    by (rule members_complete) (use JObject in \<open>auto simp: algebra_simps\<close>)
  then show ?case using JObject.prems sum_nodes_nonneg[of snd ms] by (simp add: decodeValue.simps algebra_simps)
qed (simp_all add: decodeValue.simps)

text \<open>
  C26: A document is accepted exactly when it is non-empty UTF-8 within the byte limit, its tokens are those of one
  value with nothing after it, no object has a key twice, the nesting is within the depth limit and the number of
  values within the node limit; the decoded value is that value and the stored text its canonical encoding.
\<close>

theorem decodeUnique_exact:
  assumes "lexed (lexer raw)"
  shows "decodeUnique lexer marshal raw maxBytes maxDepth maxNodes = Inr (v, c) \<longleftrightarrow>
    raw \<noteq> '''' \<and> int (length raw) \<le> maxBytes \<and> valid_utf8 raw \<and> lexer raw = tokens v \<and> fits v maxDepth \<and> nodes v \<le> maxNodes
      \<and> c = marshal v"
proof -
  have "decodeValue 0 maxDepth 0 maxNodes (lexer raw) = Inr (v, n, []) \<longleftrightarrow>
      lexer raw = tokens v \<and> fits v maxDepth \<and> n = nodes v \<and> nodes v \<le> maxNodes" for n
    using decode_sound(1)[of 0 maxDepth 0 maxNodes "lexer raw" v n "[]", OF _ assms] decode_complete[of v maxDepth 0 0 maxNodes "[]"]
    by auto
  then show ?thesis by (auto simp: decodeUnique_def bindE_Inr_iff)
qed

theorem decodeUnique_exact_witness:
  "decodeUnique (\<lambda>_. [TOpenArr, TScalar JNull, TCloseArr]) (\<lambda>_. ''[null]'') ''[ null ]'' 16 1 2 = Inr (JArray [JNull], ''[null]'')"
  using decodeUnique_exact[of "\<lambda>_. [TOpenArr, TScalar JNull, TCloseArr]" "''[ null ]''" "\<lambda>_. ''[null]''" 16 1 2 "JArray [JNull]" "''[null]''"]
  by (simp add: valid_utf8_def) code_simp

section \<open>Schema policy\<close>

text \<open>The subschemas the policy walks, with whether they are the root.\<close>

definition child :: "string \<Rightarrow> json \<Rightarrow> json \<Rightarrow> bool" where
  "child k item c \<longleftrightarrow>
     (k \<in> {''properties'', ''$defs''} \<and> (\<exists>ms. item = JObject ms \<and> c \<in> snd ` set ms))
   \<or> (k \<in> {''items'', ''additionalProperties'', ''propertyNames''} \<and> c = item)
   \<or> (k = ''prefixItems'' \<and> (\<exists>vs. item = JArray vs \<and> c \<in> set vs))"

inductive subschema :: "json \<Rightarrow> json \<Rightarrow> bool \<Rightarrow> bool" for v where
  root: "subschema v v True"
| below: "subschema v (JObject ms) r \<Longrightarrow> (k, item) \<in> set ms \<Longrightarrow> child k item c \<Longrightarrow> subschema v c False"

definition keyword_ok :: "bool \<Rightarrow> string \<times> json \<Rightarrow> bool" where
  "keyword_ok r m \<longleftrightarrow> fst m \<notin> set unsupported_keywords \<and> (fst m = ''$schema'' \<longrightarrow> r \<and> snd m = JString EventDialect)"

declare checkSchemaPolicy.simps(1) [simp del]

lemma policy_members:
  "forE (\<lambda>(_, c). checkSchemaPolicy c False) ms = Inr () \<longleftrightarrow> (\<forall>c. c \<in> snd ` set ms \<longrightarrow> checkSchemaPolicy c False = Inr ())"
  by (auto simp: forE_Inr_iff)

lemma policy_object:
  "checkSchemaPolicy (JObject ms) r = Inr () \<longleftrightarrow>
     (\<forall>m \<in> set ms. keyword_ok r m \<and> (\<forall>c. child (fst m) (snd m) c \<longrightarrow> checkSchemaPolicy c False = Inr ()))"
proof -
  have "(case m of (k, item) \<Rightarrow>
       if k \<in> set unsupported_keywords then Inl ErrUnsupportedSchema
       else if k = ''$schema'' then requireE (r \<and> item = JString EventDialect) ErrUnsupportedSchema
       else if k \<in> {''properties'', ''$defs''} then
         (case item of
            JObject children \<Rightarrow> forE (\<lambda>(_, child). checkSchemaPolicy child False) children
          | _ \<Rightarrow> Inr ())
       else if k \<in> {''items'', ''additionalProperties'', ''propertyNames''} then checkSchemaPolicy item False
       else if k = ''prefixItems'' then
         (case item of
            JArray children \<Rightarrow> forE (\<lambda>child. checkSchemaPolicy child False) children
          | _ \<Rightarrow> Inr ())
       else Inr ()) = Inr () \<longleftrightarrow>
     keyword_ok r m \<and> (\<forall>c. child (fst m) (snd m) c \<longrightarrow> checkSchemaPolicy c False = Inr ())" for m
  proof (cases m)
    case (Pair k item)
    consider "k \<in> set unsupported_keywords" | "k = ''$schema''" | "k \<in> {''properties'', ''$defs''}"
      | "k \<in> {''items'', ''additionalProperties'', ''propertyNames''}" | "k = ''prefixItems''"
      | "k \<notin> set unsupported_keywords \<union> {''$schema'', ''properties'', ''$defs'', ''items'', ''additionalProperties'', ''propertyNames'', ''prefixItems''}"
      by auto
    then show ?thesis
    proof cases
      case 1
      then show ?thesis by (simp add: Pair keyword_ok_def)
    next
      case 2
      then show ?thesis by (simp add: Pair keyword_ok_def child_def unsupported_keywords_def)
    next
      case 3
      then consider "k = ''properties''" | "k = ''$defs''" by blast
      then show ?thesis
        by cases ((cases item; simp add: Pair keyword_ok_def child_def unsupported_keywords_def policy_members),
          (cases item; simp add: Pair keyword_ok_def child_def unsupported_keywords_def policy_members))
    next
      case 4
      then have "k \<notin> set unsupported_keywords" "k \<noteq> ''$schema''" "k \<notin> {''properties'', ''$defs''}" "k \<noteq> ''prefixItems''"
        by (auto simp: unsupported_keywords_def)
      with 4 show ?thesis by (simp add: Pair keyword_ok_def child_def)
    next
      case 5
      then have "k \<notin> set unsupported_keywords" "k \<noteq> ''$schema''" "k \<notin> {''properties'', ''$defs''}"
        "k \<notin> {''items'', ''additionalProperties'', ''propertyNames''}" by (auto simp: unsupported_keywords_def)
      with 5 show ?thesis by (cases item) (simp_all add: Pair keyword_ok_def child_def forE_Inr_iff Ball_def)
    next
      case 6
      then show ?thesis by (simp add: Pair keyword_ok_def child_def)
    qed
  qed
  then show ?thesis by (simp only: checkSchemaPolicy.simps(1) forE_Inr_iff)
qed

text \<open>
  C27: A schema passes the policy exactly when no subschema the walk reaches uses an unsupported keyword, and
  \<open>$schema\<close> occurs at most at the root, naming the supported dialect.
\<close>

theorem schema_policy_exact:
  "checkSchemaPolicy v True = Inr () \<longleftrightarrow> (\<forall>ms r. subschema v (JObject ms) r \<longrightarrow> (\<forall>m \<in> set ms. keyword_ok r m))"
proof
  assume ok: "checkSchemaPolicy v True = Inr ()"
  have "checkSchemaPolicy s r = Inr ()" if "subschema v s r" for s r
    using that by induction (auto simp: ok policy_object)
  then show "\<forall>ms r. subschema v (JObject ms) r \<longrightarrow> (\<forall>m \<in> set ms. keyword_ok r m)" using policy_object by blast
next
  assume all: "\<forall>ms r. subschema v (JObject ms) r \<longrightarrow> (\<forall>m \<in> set ms. keyword_ok r m)"
  have "subschema v s r \<Longrightarrow> checkSchemaPolicy s r = Inr ()" for s r
  proof (induction "size s" arbitrary: s r rule: less_induct)
    case less
    show ?case
    proof (cases s)
      case (JObject ms)
      have "keyword_ok r m \<and> (\<forall>c. child (fst m) (snd m) c \<longrightarrow> checkSchemaPolicy c False = Inr ())" if m: "m \<in> set ms" for m
      proof (intro conjI allI impI)
        show "keyword_ok r m" using all less.prems m JObject by blast
        fix c assume c: "child (fst m) (snd m) c"
        have "size c \<le> size (snd m)" using c by (auto simp: child_def dest: size_object_member size_array_member)
        moreover have "size (snd m) < size s" using size_object_member[of "fst m" "snd m" ms] m by (simp add: JObject)
        moreover have "subschema v c False"
          using subschema.below[of v ms r "fst m" "snd m" c] less.prems m c by (simp add: JObject)
        ultimately show "checkSchemaPolicy c False = Inr ()" by (intro less.hyps) auto
      qed
      then show ?thesis by (simp add: JObject policy_object)
    qed simp_all
  qed
  then show "checkSchemaPolicy v True = Inr ()" by (blast intro: root)
qed

theorem schema_policy_exact_witness: "checkSchemaPolicy (JObject [(''items'', JObject [(''$ref'', JNull)])]) True \<noteq> Inr ()"
proof -
  let ?in = "JObject [(''$ref'', JNull)]" and ?v = "JObject [(''items'', JObject [(''$ref'', JNull)])]"
  have "subschema ?v ?in False" 
    using below[of ?v "[(''items'', ?in)]" True "''items''" ?in ?in] root[of ?v] by (simp add: child_def)
  moreover have "\<not> keyword_ok False (''$ref'', JNull)" by (simp add: keyword_ok_def unsupported_keywords_def)
  ultimately show ?thesis using schema_policy_exact[of ?v] by (metis list.set_intros(1))
qed

section \<open>Published events\<close>

lemma boundedSchemaWork_Inr [simp]: "boundedSchemaWork w e r = Inr x \<longleftrightarrow> w = WorkDone \<and> r = Inr x"
  by (cases w) (simp_all add: boundedSchemaWork_def)

lemma validatePayload_Inr:
  assumes "validatePayload lexer marshal sha eng w1 w2 os path tid inp v h = Inr s"
  obtains r sv c where "find_schema h tid (ei_TypeKey inp) (ei_Version inp) = Some r" "es_retired_at r = None" "es_sha256 r = s"
    "sha (es_json r) = s" "decodeUnique lexer marshal (es_json r) (16 * 1024) 16 256 = Inr (sv, c)" "se_compile eng sv" "se_validate eng sv v"
  using assms
  by (auto simp: validatePayload_def ShowEventSchema_def scanEventSchema_def compileEventSchema_def bindE_Inr_iff
      split: if_splits prod.splits)

lemma appendEvent_Inr:
  assumes "appendEvent now scope tid a inp js sha fp expiry rid h = Inr (e, h')"
  shows "en_TypeKey e = ei_TypeKey inp" "en_Version e = ei_Version inp" "en_SchemaSHA256 e = sha" "en_Payload e = js"
proof -
  from assms obtain q h1 i h2 h3 h4 where
    n: "nextSequence scope h = Inr (q, h1)" and
    ev: "insert_event \<lparr>ev_entry = i, ev_topic = tid, ev_type = ei_TypeKey inp, ev_version = ei_Version inp,
              ev_sha256 = sha, ev_payload = js, ev_corrects = null_string (ei_CorrectsEntryID inp)\<rparr> h2 = Inr h3" and
    k: "insert_key scope tid a (ei_IdempotencyKey inp) fp i h3 = Inr h4" and e: "eventByEntry ErrScan h4 i = Inr e"
    by (auto simp: appendEvent_def bindE_Inr_iff)
  have "events h4 = events h3" using k by (auto simp: insert_key_def insert_idem_def split: if_splits)
  then have "find_event h4 i = Some \<lparr>ev_entry = i, ev_topic = tid, ev_type = ei_TypeKey inp, ev_version = ei_Version inp,
              ev_sha256 = sha, ev_payload = js, ev_corrects = null_string (ei_CorrectsEntryID inp)\<rparr>"
    using event_table.find_inserted[OF ev] by (simp add: find_event_def)
  with e show "en_TypeKey e = ei_TypeKey inp" "en_Version e = ei_Version inp" "en_SchemaSHA256 e = sha" "en_Payload e = js"
    by (auto simp: eventByEntry_def scanEvent_def bindE_Inr_iff)
qed

text \<open>The body either answers from an earlier publication or appends under a live schema.\<close>

lemma publishEvent_parts:
  assumes "publishEvent_body sha os ev tid a inp js d fp rid h now = Inr (e, h')"
  obtains "h' = h" | scope expiry r where "appendEvent now scope tid a inp js d fp expiry rid h = Inr (e, h')"
    "correction_target h scope tid (ei_CorrectsEntryID inp) = Inr ()"
    "find_schema h tid (ei_TypeKey inp) (ei_Version inp) = Some r" "es_retired_at r = None" "es_sha256 r = d" "sha (es_json r) = d"
    "expiryMillis (ei_ExpiresAt inp) now = Inr expiry"
proof -
  from assms obtain scope replay where
    rest: "(case replay of Some e \<Rightarrow> Inr (e, h) | None \<Rightarrow>
     bindE (selectTopic h scope tid now) (\<lambda>topic.
     bindE (requireE (to_State topic = ''active'') ErrArchived) (\<lambda>_.
     bindE (optionE ErrVersionUnknown (find_schema h tid (ei_TypeKey inp) (ei_Version inp))) (\<lambda>r.
     bindE (scanEventSchema sha r) (\<lambda>current.
     bindE (requireE (sc_RetiredAt current = None) ErrVersionRetired) (\<lambda>_.
     bindE (requireE (sc_SHA256 current = d) ErrConflict) (\<lambda>_.
     bindE (expiryMillis (ei_ExpiresAt inp) now) (\<lambda>expiry.
     bindE (correction_target h scope tid (ei_CorrectsEntryID inp)) (\<lambda>_.
     bindE (verifySourceRefs h (ei_SourceRefs inp)) (\<lambda>_.
       appendEvent now scope tid a inp js d fp expiry rid h)))))))))) = Inr (e, h')"
    unfolding publishEvent_body_def bindE_Inr_iff by (elim exE conjE) (rule that)
  show thesis
  proof (cases replay)
    case None
    with rest obtain expiry r current where "appendEvent now scope tid a inp js d fp expiry rid h = Inr (e, h')"
      "correction_target h scope tid (ei_CorrectsEntryID inp) = Inr ()"
      "find_schema h tid (ei_TypeKey inp) (ei_Version inp) = Some r" and c: "scanEventSchema sha r = Inr current"
      and "sc_RetiredAt current = None" "sc_SHA256 current = d" "expiryMillis (ei_ExpiresAt inp) now = Inr expiry" by auto
    then show thesis by (intro that(2)[of scope expiry r]) (auto simp: scanEventSchema_def split: if_splits)
  qed (use rest in \<open>auto intro: that(1)\<close>)
qed

text \<open>
  C25: An event that is published conforms to a registered schema: the payload decodes to a document that the
  compiled schema, as it was read before the transaction, admits; when the event is written, the schema of that
  type and version is registered with the same digest and not retired, and the event names that digest.
\<close>

theorem published_event_is_validated:
  assumes "PublishEvent lexer marshal sha enc eng w1 w2 d env os path tid a inp rid clk0 h0 h = (Inr e, h')" and "h' \<noteq> h"
  shows "\<exists>v r0 sv c r. decodeUnique lexer marshal (ei_Payload inp) (64 * 1024) 32 10000 = Inr (v, en_Payload e)
    \<and> find_schema h0 tid (ei_TypeKey inp) (ei_Version inp) = Some r0 \<and> es_retired_at r0 = None
    \<and> decodeUnique lexer marshal (es_json r0) (16 * 1024) 16 256 = Inr (sv, c) \<and> se_compile eng sv \<and> se_validate eng sv v
    \<and> find_schema h tid (ei_TypeKey inp) (ei_Version inp) = Some r \<and> es_retired_at r = None
    \<and> sha (es_json r0) = en_SchemaSHA256 e \<and> sha (es_json r) = en_SchemaSHA256 e
    \<and> en_TypeKey e = ei_TypeKey inp \<and> en_Version e = ei_Version inp"
proof -
  from assms obtain inp' v js ev s fp where
    i: "validateEventInput lexer marshal d inp = Inr (inp', v, js)" and p: "validatePayload lexer marshal sha eng w1 w2 os path tid inp' v h0 = Inr s"
    and w: "hub_write d env (publishEvent_body sha os ev tid a inp' js s fp rid) h = (Inr e, h')"
    by (auto simp: PublishEvent_def Let_def bindE_Inr_iff split: sum.splits option.splits)
  have same: "ei_TypeKey inp' = ei_TypeKey inp" "ei_Version inp' = ei_Version inp"
    and dec: "decodeUnique lexer marshal (ei_Payload inp) (64 * 1024) 32 10000 = Inr (v, js)"
    using i by (auto simp: validateEventInput_def bindE_Inr_iff)
  have body: "publishEvent_body sha os ev tid a inp' js s fp rid h (env_now env) = Inr (e, h')" using w by (simp add: write_Inr_iff)
  from body obtain scope expiry r where app: "appendEvent (env_now env) scope tid a inp' js s fp expiry rid h = Inr (e, h')"
    and r: "find_schema h tid (ei_TypeKey inp') (ei_Version inp') = Some r" "es_retired_at r = None" "es_sha256 r = s" "sha (es_json r) = s"
    by (rule publishEvent_parts) (use assms(2) in auto)
  note e = appendEvent_Inr[OF app]
  show ?thesis using p
  proof (rule validatePayload_Inr)
    fix r0 sv c
    assume "find_schema h0 tid (ei_TypeKey inp') (ei_Version inp') = Some r0" "es_retired_at r0 = None" "es_sha256 r0 = s"
      "sha (es_json r0) = s" "decodeUnique lexer marshal (es_json r0) (16 * 1024) 16 256 = Inr (sv, c)" "se_compile eng sv" "se_validate eng sv v"
    then show ?thesis using e r dec unfolding same by auto
  qed
qed

text \<open>A schema that admits every document, and an event under it.\<close>

definition demo_engine :: schema_engine where
  "demo_engine = \<lparr>se_compile = (\<lambda>_. True), se_validate = (\<lambda>_ _. True)\<rparr>"

definition demo_lexer :: "string \<Rightarrow> jtoken list" where
  "demo_lexer s = [TOpenObj, TCloseObj]"

definition demo_schema_hub :: hub where
  "demo_schema_hub = demo_topic_hub\<lparr>schemas := [\<lparr>es_topic = ''t'', es_type = ''build'', es_version = 1, es_dialect = EventDialect,
     es_json = ''{}'', es_sha256 = ''{}'', es_registered_by = ''alice'', es_registered_at = 1, es_retired_by = None,
     es_retired_at = None\<rparr>]\<rparr>"

definition demo_event :: "string \<Rightarrow> string \<Rightarrow> eventInput" where
  "demo_event authority target = \<lparr>ei_AuthorityID = authority, ei_TypeKey = ''build'', ei_Version = 1, ei_Payload = ''{}'',
     ei_CorrectsEntryID = target, ei_ExpiresAt = None, ei_OccurredAt = None, ei_SourceRefs = [], ei_CorrelationRefs = [],
     ei_IdempotencyKey = ''''\<rparr>"

definition demo_publish :: "(err + event) \<times> hub" where
  "demo_publish = PublishEvent demo_lexer (\<lambda>_. ''{}'') (\<lambda>s. s) (\<lambda>_. ''intent'') demo_engine WorkDone WorkDone demo_db (demo_env 1000)
     demo_os ''global:'' ''t'' ''bob'' (demo_event ''hub'' '''') (demo_bytes 5) (fromMillis 1000) demo_schema_hub demo_schema_hub"

lemma demo_publish_run: "\<not> isl (fst demo_publish) \<and> publications (snd demo_publish) \<noteq> []"
  by code_simp

theorem published_event_is_validated_witness:
  "\<exists>e. fst demo_publish = Inr e \<and> en_TypeKey e = ''build'' \<and> en_SchemaSHA256 e = ''{}''"
proof -
  have run: "demo_publish = (Inr (projr (fst demo_publish)), snd demo_publish)" using demo_publish_run by (simp add: run_okD)
  have "publications demo_schema_hub = []"
    by (simp add: demo_schema_hub_def demo_topic_hub_def demo_hub_def empty_hub_def)
  then have new: "snd demo_publish \<noteq> demo_schema_hub" using demo_publish_run by metis
  have "PublishEvent demo_lexer (\<lambda>_. ''{}'') (\<lambda>s. s) (\<lambda>_. ''intent'') demo_engine WorkDone WorkDone demo_db (demo_env 1000)
     demo_os ''global:'' ''t'' ''bob'' (demo_event ''hub'' '''') (demo_bytes 5) (fromMillis 1000) demo_schema_hub demo_schema_hub
       = (Inr (projr (fst demo_publish)), snd demo_publish)" by (fold demo_publish_def) (rule run)
  from published_event_is_validated[OF this new]
  obtain r where "find_schema demo_schema_hub ''t'' ''build'' 1 = Some r" "es_json r = en_SchemaSHA256 (projr (fst demo_publish))"
    "en_TypeKey (projr (fst demo_publish)) = ''build''" by (auto simp: demo_event_def)
  moreover have "fst demo_publish = Inr (projr (fst demo_publish))" using demo_publish_run by (simp add: value_okD)
  ultimately show ?thesis by (intro exI[of _ "projr (fst demo_publish)"])
    (auto simp: find_schema_def demo_schema_hub_def schema_key_def split: if_splits)
qed

end
