(* ===== verification/Steps.thy ===== *)
theory Steps
  imports Filters Retention Leases Decoding
begin

text \<open>
  Transactions as sequences of statements. Every operation of the hub runs a body in one write
  transaction; here each body is shown to be a sequence of the statements the schema admits,
  so that a property of the database is proved once per statement (\<open>Integrity\<close>, \<open>History\<close>)
  and holds for every operation (\<open>Machine\<close>).
\<close>

section \<open>What the validators promise of a row\<close>

text \<open>
  None of this is a constraint of the schema: a row is like this because the methods validate their
  input before they write.
\<close>

definition text_ok :: "nat \<Rightarrow> string \<Rightarrow> bool" where
  "text_ok n s \<longleftrightarrow> valid_utf8 s \<and> 1 \<le> rune_count s \<and> rune_count s \<le> n
     \<and> list_all (\<lambda>r. \<not> is_control r) (runes s) \<and> list_ex (\<lambda>r. \<not> is_space r) (runes s)"

definition topic_valid :: "topic_row \<Rightarrow> bool" where
  "topic_valid t \<longleftrightarrow> validKey (tp_key t) \<and> text_ok 120 (tp_name t) \<and> text_ok 1000 (tp_description t)
     \<and> opt_all (text_ok 1000) (tp_archive_reason t)"

definition publication_valid :: "publication_row \<Rightarrow> bool" where
  "publication_valid p \<longleftrightarrow> opt_all (\<lambda>t. pb_committed_at p < t) (pb_expires_at p)
     \<and> opt_all (\<lambda>k. k \<noteq> '''' \<and> valid_idempotency_key k) (pb_key p)
     \<and> (\<exists>ss cs. pb_source_refs p = JText ss \<and> pb_correlation_refs p = JText cs \<and> validateRefs ss cs = Inr ())"

definition revision_valid :: "revision_row \<Rightarrow> bool" where
  "revision_valid r \<longleftrightarrow> validMessageText (rv_text r)"

definition schema_valid :: "schema_row \<Rightarrow> bool" where
  "schema_valid r \<longleftrightarrow> validTypeKey (es_type r) \<and> es_dialect r = EventDialect"

definition subscription_valid :: "subscription_row \<Rightarrow> bool" where
  "subscription_valid s \<longleftrightarrow> (\<exists>ks ts. sb_kinds s = JText ks \<and> sb_types s = JText ts
     \<and> ks \<in> {[''event''], [''message''], [''event'', ''message'']} \<and> sorted ts \<and> distinct ts \<and> length ts \<le> 32
     \<and> list_all (\<lambda>f. validTypeKey (fst f) \<and> 1 \<le> snd f) ts \<and> (ts = [] \<or> ''event'' \<in> set ks))"

lemma text_ok_clean: "cleanText s n = Inr t \<Longrightarrow> text_ok n t"
  by (auto simp: cleanText_Inr text_ok_def)

lemma text_ok_nonempty: "\<not> text_ok n ''''"
  by (simp add: text_ok_def rune_count_def)

lemma subscription_filters:
  assumes "canonicalFilters inp0 = Inr inp" and "sb_kinds s = JText (si_Kinds inp)" and "sb_types s = JText (si_EventTypes inp)"
  shows "subscription_valid s"
proof -
  note v = assms(1)[unfolded canonicalFilters_Inr]
  have "si_Kinds inp \<in> {[''event''], [''message''], [''event'', ''message'']}"
    using v sorted_kinds[of "si_Kinds inp0"] by auto
  then show ?thesis unfolding subscription_valid_def assms(2,3) using v by (auto simp: list_all_iff)
qed

section \<open>Statements as steps\<close>

text \<open>
  What one transaction may do, as a relation between database states: one rule per statement
  the code issues, with the shape of its arguments the code guarantees.
\<close>

definition same_topic :: "topic_row \<Rightarrow> topic_row \<Rightarrow> bool" where
  "same_topic r r' \<longleftrightarrow> tp_id r' = tp_id r \<and> tp_scope r' = tp_scope r \<and> tp_key r' = tp_key r
     \<and> tp_owner r' = tp_owner r \<and> tp_created_at r' = tp_created_at r \<and> tp_generation r \<le> tp_generation r'"

definition same_lease :: "lease_row \<Rightarrow> lease_row \<Rightarrow> bool" where
  "same_lease r r' \<longleftrightarrow> ls_topic r' = ls_topic r \<and> ls_generation r \<le> ls_generation r'"

definition at_cursor :: "string \<Rightarrow> int \<Rightarrow> subscription_row \<Rightarrow> bool" where
  "at_cursor sid prior r \<longleftrightarrow> sb_id r = sid \<and> sb_ack r = prior"

inductive stmt :: "hub \<Rightarrow> hub \<Rightarrow> bool" where
  enrol_actor: "validActorID (ac_id r) \<Longrightarrow> stmt h (insert_actor_ignore r h)"
| enrol_consumer: "validConsumerID (cn_id c) \<Longrightarrow> stmt h (insert_consumer_ignore c h)"
| enrol_scope: "insert_scope s h = Inr h' \<Longrightarrow> sc_low_water s = 0 \<Longrightarrow> stmt h h'"
| bind_repo: "insert_binding b h = Inr h' \<Longrightarrow> stmt h h'"
| create_topic: "insert_topic t h = Inr h' \<Longrightarrow> topic_valid t \<Longrightarrow> stmt h h'"
| change_topic: "update_topic tid f h = Inr h' \<Longrightarrow> (\<And>r. same_topic r (f r))
    \<Longrightarrow> (\<And>r. \<forall>t \<in> set (topics h). topic_valid t \<Longrightarrow> topic_valid r \<Longrightarrow> topic_valid (f r)) \<Longrightarrow> stmt h h'"
| change_maintainer: "change_role tid a grant h = Inr h' \<Longrightarrow> stmt h h'"
| audit: "insert_audit au h = Inr h' \<Longrightarrow> stmt h h'"
| publish: "nextSequence (pb_scope p) h = Inr (pb_sequence p, h1) \<Longrightarrow> insert_publication p h1 = Inr h'
    \<Longrightarrow> publication_valid p \<Longrightarrow> stmt h h'"
| new_head: "insert_head m h = Inr h' \<Longrightarrow> stmt h h'"
| move_head: "update_head_revision mid n e h = Inr h' \<Longrightarrow> stmt h h'"
| new_revision: "insert_revision rv h = Inr h' \<Longrightarrow> revision_valid rv \<Longrightarrow> stmt h h'"
| new_key: "insert_idem i h = Inr h' \<Longrightarrow> stmt h h'"
| pin: "insert_pin pn (update_head_pinned mid v h) = Inr h' \<Longrightarrow> stmt h h'"
| vote: "cast_vote mid n a v h = Inr h' \<Longrightarrow> stmt h h'"
| new_schema: "insert_schema es h = Inr h' \<Longrightarrow> schema_valid es \<Longrightarrow> stmt h h'"
| old_schema: "retire_schema k a now h = Inr h' \<Longrightarrow> stmt h h'"
| new_event: "insert_event ev h = Inr h' \<Longrightarrow> opt_all (\<lambda>c. c \<in> ev_entry ` set (events h)) (ev_corrects ev)
    \<Longrightarrow> validTypeKey (ev_type ev) \<Longrightarrow> stmt h h'"
| new_subscription: "insert_subscription sb h = Inr h' \<Longrightarrow> subscription_valid sb \<Longrightarrow> stmt h h'"
| new_subtopic: "insert_subtopic st h = Inr h' \<Longrightarrow> stmt h h'"
| move_cursor: "prior \<le> next_position \<Longrightarrow>
    stmt h (h\<lparr>subscriptions := update_where (at_cursor sid prior) (\<lambda>r. r\<lparr>sb_ack := next_position\<rparr>) (subscriptions h)\<rparr>)"
| end_subscription:
    "\<forall>s \<in> set (subscriptions h). sb_id s = sid \<longrightarrow> sb_created_at s \<le> now \<Longrightarrow> stmt h (h\<lparr>subscriptions := update_where (\<lambda>s. sb_id s = sid) (\<lambda>s. s\<lparr>sb_removed_at := Some now\<rparr>) (subscriptions h)\<rparr>)"
| new_lease: "insert_lease l h = Inr h' \<Longrightarrow> stmt h h'"
| change_lease: "update_lease P f h = Inr h' \<Longrightarrow> (\<And>r. same_lease r (f r)) \<Longrightarrow> stmt h h'"
| record_backup: "insert_prune_audit pa h = Inr h' \<Longrightarrow> stmt h h'"
| drop_backup: "stmt h (h\<lparr>prune_audits := update_where P (\<lambda>a. a\<lparr>pa_available := False\<rparr>) (prune_audits h)\<rparr>)"

text \<open>The statements of a prune, which run while the retention permission is on.\<close>

inductive prune_stmt :: "hub \<Rightarrow> hub \<Rightarrow> bool" where
  permission: "prune_stmt h (h\<lparr>retention_enabled := b\<rparr>)"
| record_key: "insert_pruned_idem r h = Inr h' \<Longrightarrow> prune_stmt h h'"
| drop_key: "delete_idem s t a k h = Inr h' \<Longrightarrow> prune_stmt h h'"
| drop_votes: "prune_stmt h (delete_votes_of e h)"
| drop_pins: "delete_pins_of e h = Inr h' \<Longrightarrow> prune_stmt h h'"
| drop_revision: "delete_revision e h = Inr h' \<Longrightarrow> prune_stmt h h'"
| drop_head: "delete_head m h = Inr h' \<Longrightarrow> prune_stmt h h'"
| drop_event: "delete_event e h = Inr h' \<Longrightarrow> prune_stmt h h'"
| drop_publication: "delete_publication e h = Inr h' \<Longrightarrow> prune_stmt h h'"
| record_range: "mergePrunedRange s a b pid h = Inr h' \<Longrightarrow> prune_stmt h h'"
| low_water: "prune_stmt h (raise_low_water s h)"
| epoch: "prune_stmt h (h\<lparr>retention_epoch := retention_epoch h + 1\<rparr>)"
| record_prune: "insert_prune_audit r h = Inr h' \<Longrightarrow> prune_stmt h h'"

abbreviation stmts :: "hub \<Rightarrow> hub \<Rightarrow> bool" where "stmts \<equiv> stmt\<^sup>*\<^sup>*"
abbreviation prune_stmts :: "hub \<Rightarrow> hub \<Rightarrow> bool" where "prune_stmts \<equiv> prune_stmt\<^sup>*\<^sup>*"

lemma stmts_one: "stmt h h' \<Longrightarrow> stmts h h'"
  by (rule r_into_rtranclp)

lemma stmts_snoc: "stmts h h1 \<Longrightarrow> stmt h1 h' \<Longrightarrow> stmts h h'"
  by (rule rtranclp.rtrancl_into_rtrancl)

lemma stmts_trans: "stmts h h1 \<Longrightarrow> stmts h1 h' \<Longrightarrow> stmts h h'"
  by (rule rtranclp_trans)

lemma two_stmts: "stmt h h1 \<Longrightarrow> stmt h1 h' \<Longrightarrow> stmts h h'"
  by (rule stmts_snoc[OF stmts_one])

lemmas stmt_seq = stmts_one stmts_snoc stmts_trans stmt.intros

section \<open>Scopes, actors and topics\<close>

lemma enrollGlobal_steps: "enrollGlobal rid h now = Inr (x, h') \<Longrightarrow> stmts h h'"
  by (auto simp: enrollGlobal_def split: option.splits dest!: enrol_scope intro: stmts_one)

lemma bindNewRepo_steps: "bindNewRepo os ev rid h now = Inr (x, h') \<Longrightarrow> stmts h h'"
  by (auto simp: bindNewRepo_def dest!: enrol_scope bind_repo intro: two_stmts)

lemma enrollActor_steps: "enrollActor_body a h now = Inr (x, h') \<Longrightarrow> validActorID a \<Longrightarrow> stmts h h'"
  by (auto simp: enrollActor_body_def Let_def intro!: stmts_one enrol_actor)

lemma appendAudit_step: "appendAudit tid a action now old new rid h = Inr h' \<Longrightarrow> stmt h h'"
  by (auto simp: appendAudit_def intro: stmt.intros)

lemma createTopic_steps:
  assumes "createTopic_body os ev a inp name description r1 r2 h now = Inr (x, h')"
    and "validKey (ti_Key inp)" and "cleanText n0 120 = Inr name" and "cleanText d0 1000 = Inr description"
  shows "stmts h h'"
proof -
  from assms(1) obtain t h1 at old new rid where t: "insert_topic t h = Inr h1" "tp_key t = ti_Key inp" "tp_name t = name"
      "tp_description t = description" "tp_archive_reason t = None"
    and l: "appendAudit (tp_id t) a at now old new rid h1 = Inr h'"
    unfolding createTopic_body_def bindE_Inr_iff by (elim exE conjE) (rule that, auto)
  have "topic_valid t" using assms(2) text_ok_clean[OF assms(3)] text_ok_clean[OF assms(4)] t by (simp add: topic_valid_def)
  from two_stmts[OF create_topic[OF t(1) this] appendAudit_step[OF l]] show ?thesis .
qed

lemma topic_steps:
  assumes "update_topic tid f h = Inr h1" and "appendAudit tid a action now old new rid h1 = Inr h'"
    and "\<And>r. same_topic r (f r)" and "\<And>r. \<forall>t \<in> set (topics h). topic_valid t \<Longrightarrow> topic_valid r \<Longrightarrow> topic_valid (f r)"
  shows "stmts h h'"
  by (rule two_stmts[OF change_topic[OF assms(1,3,4)] appendAudit_step[OF assms(2)]])

lemma selected_topic:
  assumes "topicForWrite h scope tid a n now ow = Inr t"
  shows "\<exists>r \<in> set (topics h). to_Name t = tp_name r \<and> to_Description t = tp_description r"
  using assms by (force simp: topicForWrite_Inr scanTopic_Inr topic_of_row_def find_topic_def Let_def dest!: find_SomeD_conj)

lemma editTopic_steps:
  assumes "editTopic_body os ev tid a edit name description rid h now = Inr (x, h')"
    and "clean_optional n0 120 = Inr name" and "clean_optional d0 1000 = Inr description"
  shows "stmts h h'"
proof -
  have ok: "name = '''' \<or> text_ok 120 name" "description = '''' \<or> text_ok 1000 description"
    using assms(2,3) by (auto simp: clean_optional_def dest: text_ok_clean split: if_splits)
  from assms(1) obtain scope old expiry h1 new where w: "topicForWrite h scope tid a (te_ExpectedGeneration edit) now False = Inr old"
    and u: "update_topic tid (\<lambda>r. r\<lparr>tp_name := (if name = '''' then to_Name old else name),
        tp_description := (if description = '''' then to_Description old else description),
        tp_expires_at := expiry, tp_generation := tp_generation r + 1\<rparr>) h = Inr h1"
    and l: "appendAudit tid a ''edit'' now (AuTopic old) new rid h1 = Inr h'"
    unfolding editTopic_body_def bindE_Inr_iff by (elim exE conjE) (rule that, auto)
  from selected_topic[OF w] obtain r where r: "r \<in> set (topics h)" "to_Name old = tp_name r" "to_Description old = tp_description r"
    by blast
  from u l show ?thesis by (rule topic_steps) (use ok r in \<open>auto simp: same_topic_def topic_valid_def\<close>)
qed

lemma archiveTopic_steps:
  "archiveTopic_body os ev tid a g reason rid h now = Inr (x, h') \<Longrightarrow> cleanText r0 1000 = Inr reason \<Longrightarrow> stmts h h'"
  by (auto simp: archiveTopic_body_def same_topic_def topic_valid_def dest: text_ok_clean elim!: topic_steps)

lemma restoreTopic_steps: "restoreTopic_body os ev tid a g reason ch ex rid h now = Inr (x, h') \<Longrightarrow> stmts h h'"
  unfolding restoreTopic_body_def bindE_Inr_iff
  by (elim exE conjE) (auto simp: same_topic_def topic_valid_def elim!: topic_steps)

lemma setMaintainer_steps:
  assumes "setMaintainer_body os ev tid w a g grant rid h now = Inr (x, h')"
  shows "stmts h h'"
proof -
  from assms obtain h1 h2 old new where c: "change_role tid a grant h = Inr h1"
    and u: "update_topic tid (\<lambda>r. r\<lparr>tp_generation := tp_generation r + 1\<rparr>) h1 = Inr h2"
    and l: "appendAudit tid w (if grant then ''grant_maintainer'' else ''revoke_maintainer'') now old new rid h2 = Inr h'"
    unfolding setMaintainer_body_def bindE_Inr_iff by (elim exE conjE) (rule that, auto)
  from c have "stmts h h1" by (rule stmts_one[OF change_maintainer])
  moreover from u l have "stmts h1 h'" by (rule topic_steps) (simp_all add: same_topic_def topic_valid_def)
  ultimately show ?thesis by (rule stmts_trans)
qed

section \<open>Messages and votes\<close>

lemma insert_key_steps: "insert_key s t a k fp e h = Inr h' \<Longrightarrow> stmts h h'"
  by (auto simp: insert_key_def intro: stmt_seq split: if_splits)

lemma appendMessage_steps:
  assumes "appendMessage now scope tid a mid n (normalizeMessageInput inp) expiry fp rid h = Inr (m, h')"
    and "validateMessageInput inp = Inr ()" and "opt_all (\<lambda>v. now < v) expiry"
  shows "stmts h h'"
proof -
  from assms(1) obtain q h1 p h2 hd h3 rv h4 e h5 where
    q: "nextSequence scope h = Inr (q, h1)"
    and p: "insert_publication p h1 = Inr h2" "pb_scope p = scope" "pb_sequence p = q"
      "pb_source_refs p = JText (mi_SourceRefs inp)" "pb_correlation_refs p = JText (mi_CorrelationRefs inp)"
      "pb_committed_at p = now" "pb_expires_at p = expiry" "pb_key p = null_key (mi_IdempotencyKey inp)"
    and hd: "(if n = 1 then insert_head hd h2 else Inr h2) = Inr h3"
    and rv: "insert_revision rv h3 = Inr h4" "rv_text rv = mi_Text inp"
    and u: "(if n > 1 then update_head_revision mid n e h4 else Inr h4) = Inr h5"
    and k: "insert_key scope tid a (mi_IdempotencyKey inp) fp e h5 = Inr h'"
    unfolding appendMessage_def normalizeMessageInput_def by auto
  have v: "publication_valid p" "revision_valid rv"
    using assms(2,3) p rv(2)
    by (auto simp: publication_valid_def revision_valid_def validateMessageInput_def null_key_def)
  from q p v have "stmts h h2" by (auto intro!: stmts_one publish)
  also from hd have "stmts h2 h3" by (auto intro: stmt_seq split: if_splits)
  also from rv v have "stmts h3 h4" by (auto intro: stmt_seq)
  also from u have "stmts h4 h5" by (auto intro: stmt_seq split: if_splits)
  also from k have "stmts h5 h'" by (rule insert_key_steps) 
  finally show ?thesis .
qed

lemma postMessage_steps:
  "postMessage_body os ev tid a (normalizeMessageInput inp) fp r1 r2 h now = Inr (x, h') \<Longrightarrow> validateMessageInput inp = Inr ()
    \<Longrightarrow> stmts h h'"
  by (erule postMessage_body_cases) (auto dest: appendMessage_steps expiryMillis_future)

lemma reviseMessage_steps:
  assumes "reviseMessage_body os ev tid mid a (inp\<lparr>mr_Input := normalizeMessageInput (mr_Input inp)\<rparr>) fp rid h now = Inr (x, h')"
    and "validateMessageInput (mr_Input inp) = Inr ()"
  shows "stmts h h'"
  using assms(1)
proof (cases rule: reviseMessage_body_cases)
  case (2 scope topic r expiry)
  from 2(7) have "appendMessage now scope tid a mid (hd_revision r + 1) (normalizeMessageInput (mr_Input inp)) expiry fp rid h = Inr (x, h')"
    by simp
  from appendMessage_steps[OF this assms(2) 2(8)] show ?thesis .
qed simp

lemma pinMessage_steps: "pinMessage_body os ev tid mid a g n v rid h now = Inr (x, h') \<Longrightarrow> stmts h h'"
  by (auto simp: pinMessage_body_def set_pin_def split: if_splits intro: stmt_seq)

lemma voteMessage_steps: "voteMessage_body os ev tid mid a n v h now = Inr (x, h') \<Longrightarrow> stmts h h'"
  by (auto simp: voteMessage_body_def intro: stmt_seq)

section \<open>Events and schemas\<close>

lemma bump_generation_steps:
  assumes "bump_generation tid h = Inr h1" and "appendAudit tid a action now old new rid h1 = Inr h'"
  shows "stmts h h'"
  using assms by (auto simp: bump_generation_def same_topic_def topic_valid_def elim!: topic_steps)

lemma registerEventSchema_steps:
  assumes "registerEventSchema_body sha os ev tid a g key v js rid h now = Inr (x, h')" and "validTypeKey key"
  shows "stmts h h'"
proof -
  from assms(1) obtain s h1 h2 old new where c: "insert_schema s h = Inr h1" "es_type s = key" "es_dialect s = EventDialect" and u: "bump_generation tid h1 = Inr h2"
    and l: "appendAudit tid a ''register_event_schema'' now old new rid h2 = Inr h'"
    unfolding registerEventSchema_body_def bindE_Inr_iff by (elim exE conjE) (rule that, auto)
  from c assms(2) have "schema_valid s" by (simp add: schema_valid_def)
  from stmts_trans[OF stmts_one[OF new_schema[OF c(1) this]] bump_generation_steps[OF u l]] show ?thesis .
qed

lemma retireEventSchema_steps:
  assumes "retireEventSchema_body sha os ev tid a g key v rid h now = Inr (x, h')"
  shows "stmts h h'"
proof -
  from assms obtain h1 h2 old new where c: "retire_schema (tid, key, v) a now h = Inr h1" and u: "bump_generation tid h1 = Inr h2"
    and l: "appendAudit tid a ''retire_event_schema'' now old new rid h2 = Inr h'"
    unfolding retireEventSchema_body_def bindE_Inr_iff by (elim exE conjE) (rule that, auto)
  from stmts_trans[OF stmts_one[OF old_schema[OF c]] bump_generation_steps[OF u l]] show ?thesis .
qed

lemma nextSequence_frame: "nextSequence scope h = Inr (q, h1) \<Longrightarrow> \<exists>cs. h1 = h\<lparr>counters := cs\<rparr>"
  by (erule nextSequence_Inr) blast

lemma find_event_key: "find_event h c = Some r \<Longrightarrow> c \<in> ev_entry ` set (events h)"
  unfolding find_event_def using find_SomeD[of "\<lambda>r. ev_entry r = c" "events h" r] by blast

text \<open>An event corrects an event that is there before it.\<close>

lemma appendEvent_steps:
  assumes a: "appendEvent now scope tid a inp js sha fp expiry rid h = Inr (x, h')"
    and c: "correction_target h scope tid (ei_CorrectsEntryID inp) = Inr ()"
    and w: "validTypeKey (ei_TypeKey inp)" "valid_idempotency_key (ei_IdempotencyKey inp)"
      "validateRefs (ei_SourceRefs inp) (ei_CorrelationRefs inp) = Inr ()" "opt_all (\<lambda>v. now < v) expiry"
  shows "stmts h h'"
proof -
  from a obtain q h1 p h2 ev h3 e where
    q: "nextSequence scope h = Inr (q, h1)"
    and p: "insert_publication p h1 = Inr h2" "pb_scope p = scope" "pb_sequence p = q"
      "pb_source_refs p = JText (ei_SourceRefs inp)" "pb_correlation_refs p = JText (ei_CorrelationRefs inp)"
      "pb_committed_at p = now" "pb_expires_at p = expiry" "pb_key p = null_key (ei_IdempotencyKey inp)"
    and ev: "insert_event ev h2 = Inr h3" "ev_corrects ev = null_string (ei_CorrectsEntryID inp)" "ev_type ev = ei_TypeKey inp"
    and k: "insert_key scope tid a (ei_IdempotencyKey inp) fp e h3 = Inr h'"
    unfolding appendEvent_def by auto
  have same: "events h2 = events h"
    using nextSequence_frame[OF q] p(1) by (auto simp: insert_publication_def)
  have "opt_all (\<lambda>c. c \<in> ev_entry ` set (events h2)) (ev_corrects ev)"
    using c unfolding same
    by (auto simp: ev(2) null_string_def correction_target_def dest: find_event_key)
  then have "stmts h2 h3" using w(1) ev(3) by (intro stmts_one new_event[OF ev(1)]) simp_all
  moreover have "publication_valid p" using w p by (auto simp: publication_valid_def null_key_def)
  with q p have "stmts h h2" by (auto intro!: stmts_one publish)
  moreover from k have "stmts h3 h'" by (rule insert_key_steps)
  ultimately show ?thesis by (blast intro: stmts_trans)
qed

lemma publishEvent_steps:
  assumes "publishEvent_body sha os ev tid a inp js d fp rid h now = Inr (x, h')"
    and "validateEventInput lexer marshal db inp0 = Inr (inp, v, js)"
  shows "stmts h h'"
proof -
  have w: "validTypeKey (ei_TypeKey inp)" "valid_idempotency_key (ei_IdempotencyKey inp)"
      "validateRefs (ei_SourceRefs inp) (ei_CorrelationRefs inp) = Inr ()"
    using assms(2) by (auto simp: validateEventInput_def)
  from assms(1) show ?thesis
    by (rule publishEvent_parts) (auto intro: appendEvent_steps[OF _ _ w] dest: expiryMillis_future)
qed

section \<open>Consumers, subscriptions and leases\<close>

lemma enrollConsumer_steps: "enrollConsumer_body c h now = Inr (x, h') \<Longrightarrow> validConsumerID c \<Longrightarrow> stmts h h'"
  by (auto simp: enrollConsumer_body_def Let_def intro!: stmts_one enrol_consumer)

lemma subtopics_steps: "foldE (\<lambda>tid. insert_subtopic (row tid)) tids h = Inr h' \<Longrightarrow> stmts h h'"
  by (erule foldE_invariant[where I = "stmts h"]) (auto intro: stmts_snoc new_subtopic)

lemma subscribe_steps:
  assumes "subscribe_body os ev inp rid h now = Inr (x, h')" and "canonicalFilters inp0 = Inr inp"
  shows "stmts h h'"
proof -
  from assms(1) obtain sb h1 row where s: "insert_subscription sb h = Inr h1" "sb_kinds sb = JText (si_Kinds inp)"
      "sb_types sb = JText (si_EventTypes inp)"
    and t: "foldE (\<lambda>tid. insert_subtopic (row tid)) (si_TopicIDs inp) h1 = Inr h'"
    unfolding subscribe_body_def bindE_Inr_iff Let_def by (elim exE conjE) (rule that, auto)
  from subscription_filters[OF assms(2) s(2,3)] have "stmt h h1" by (rule new_subscription[OF s(1)])
  from stmts_trans[OF stmts_one[OF this] subtopics_steps[OF t]] show ?thesis .
qed

lemma removeSubscription_steps: "removeSubscription_body os ev c sid h now = Inr (x, h') \<Longrightarrow> stmts h h'"
  by (auto simp: removeSubscription_body_def intro: stmts_one end_subscription split: if_splits)

lemma ack_steps:
  assumes "ack_body cc os ev c sid authority prior nxt token h now = Inr (x, h')" and "prior \<le> nxt"
  shows "stmts h h'"
proof -
  have "h' = h \<or> h' = h\<lparr>subscriptions := update_where (at_cursor sid prior) (\<lambda>r. r\<lparr>sb_ack := nxt\<rparr>) (subscriptions h)\<rparr>"
    using assms(1) unfolding ack_body_def at_cursor_def bindE_Inr_iff Let_def
    by (elim exE conjE) (auto split: if_splits)
  then show ?thesis using assms(2) by (auto intro: stmts_one move_cursor)
qed

lemma acquireLease_steps: "acquireLease_body sha os ev tid a ms rid h now = Inr (x, h') \<Longrightarrow> stmts h h'"
  unfolding acquireLease_body_def bindE_Inr_iff Let_def
  by (elim exE conjE)
    (auto simp: same_lease_def split: if_splits intro: stmts_one new_lease elim!: change_lease[THEN stmts_one])

lemma renewLease_steps: "renewLease_body os ev tid a hash ms h now = Inr (x, h') \<Longrightarrow> stmts h h'"
  unfolding renewLease_body_def bindE_Inr_iff Let_def
  by (elim exE conjE) (auto simp: same_lease_def elim!: change_lease[THEN stmts_one])

lemma releaseLease_steps: "releaseLease_body os ev tid a hash h now = Inr (x, h') \<Longrightarrow> stmts h h'"
  unfolding releaseLease_body_def bindE_Inr_iff
  by (elim exE conjE) (auto simp: same_lease_def elim!: change_lease[THEN stmts_one])

section \<open>Pruning\<close>

lemma prune_fold:
  assumes "foldE f xs h = Inr h'" and "\<And>x h h'. f x h = Inr h' \<Longrightarrow> prune_stmts h h'"
  shows "prune_stmts h h'"
  using assms(1) by (rule foldE_invariant[where I = "prune_stmts h"]) (auto intro: rtranclp_trans assms(2))

lemma prune_one: "prune_stmt h h' \<Longrightarrow> prune_stmts h h'"
  by (rule r_into_rtranclp)

lemma prune_keys_steps:
  assumes "prune_keys_step pid e h = Inr h'"
  shows "prune_stmts h h'"
proof -
  from assms obtain h1 where k: "(if pe_key e \<noteq> '''' then
              bindE (insert_pruned_idem \<lparr>pi_scope = pe_scope e, pi_topic = pe_topic e, pi_actor = pe_actor e,
                       pi_key = pe_key e, pi_prune = pid\<rparr> h) (\<lambda>h1.
                delete_idem (pe_scope e) (pe_topic e) (pe_actor e) (pe_key e) h1)
            else Inr h) = Inr h1"
    and d: "(if pe_kind e = ''message'' then delete_pins_of (pe_id e) (delete_votes_of (pe_id e) h1) else Inr h1) = Inr h'"
    unfolding prune_keys_step_def bindE_Inr_iff by blast
  from k have "prune_stmts h h1"
    by (auto split: if_splits dest!: record_key drop_key intro: rtranclp_trans[OF prune_one prune_one])
  moreover from d have "prune_stmts h1 h'"
    by (auto split: if_splits dest!: drop_pins intro: rtranclp_trans[OF prune_one prune_one] drop_votes)
  ultimately show ?thesis by (rule rtranclp_trans)
qed

lemma delete_entries_steps:
  assumes "delete_entries pid es h = Inr h'"
  shows "prune_stmts h h'"
proof -
  from assms obtain h1 h2 h3 h4 where
    "foldE (prune_keys_step pid) es h = Inr h1" "foldE prune_revision_step es h1 = Inr h2"
    "foldE delete_head (message_groups es) h2 = Inr h3" "foldE prune_event_step (children_first es) h3 = Inr h4"
    "foldE (\<lambda>e. delete_publication (pe_id e)) es h4 = Inr h'"
    unfolding delete_entries_def by auto
  then have "prune_stmts h h1" "prune_stmts h1 h2" "prune_stmts h2 h3" "prune_stmts h3 h4" "prune_stmts h4 h'"
    by (auto elim!: prune_fold intro: prune_keys_steps prune_one
        dest!: drop_revision drop_head drop_event drop_publication
        simp: prune_revision_step_def prune_event_step_def split: if_splits)
  then show ?thesis by (blast intro: rtranclp_trans)
qed

lemma raise_low_water_steps: "prune_stmts h (fold raise_low_water ss h)"
proof (induction ss arbitrary: h)
  case (Cons s ss)
  have "prune_stmts h (raise_low_water s h)" by (rule prune_one[OF low_water])
  from rtranclp_trans[OF this Cons.IH] show ?case by simp
qed simp

lemma pruneHub_steps:
  assumes "pruneHub_body refs_bytes digest cutoff plan backup rid h now = Inr (out, h')"
  shows "prune_stmts h h'"
  using assms
proof (rule pruneHub_parts)
  fix path entries hasMore pid h1 h2 h3 report row
  assume d: "delete_entries pid entries (h\<lparr>retention_enabled := True\<rparr>) = Inr h1"
    and m: "foldE (merge_scope pid) (rp_Scopes report) h1 = Inr h2"
    and h3: "h3 = fold raise_low_water (rp_Scopes report) (h2\<lparr>retention_enabled := False\<rparr>)"
    and r: "insert_prune_audit row (h3\<lparr>retention_epoch := retention_epoch h3 + 1\<rparr>) = Inr h'"
  have "prune_stmts h h1" using prune_one[OF permission] delete_entries_steps[OF d] by (rule rtranclp_trans)
  also have "prune_stmts h1 h2"
    using m by (rule prune_fold) (auto simp: merge_scope_def elim!: prune_fold intro: prune_one record_range)
  also have "prune_stmts h2 (h2\<lparr>retention_enabled := False\<rparr>)" by (rule prune_one[OF permission])
  also have "prune_stmts (h2\<lparr>retention_enabled := False\<rparr>) h3" unfolding h3 by (rule raise_low_water_steps)
  also have "prune_stmts h3 (h3\<lparr>retention_epoch := retention_epoch h3 + 1\<rparr>)" by (rule prune_one[OF epoch])
  also have "prune_stmts (h3\<lparr>retention_epoch := retention_epoch h3 + 1\<rparr>) h'" by (rule prune_one[OF record_prune[OF r]])
  finally show ?thesis .
qed

end
