(* ===== verification/Integrity.thy ===== *)
theory Integrity
  imports Steps
begin

text \<open>
  The structural invariants of the database: referential integrity (what \<open>PRAGMA
  foreign_key_check\<close> looks for), the uniqueness of every key, and the order of correction
  chains. Every statement keeps them, those of a prune included.
\<close>

section \<open>Invariants and orders of a step relation\<close>

locale step_invariant =
  fixes step :: "'s \<Rightarrow> 's \<Rightarrow> bool" and I :: "'s \<Rightarrow> bool"
  assumes kept: "step s t \<Longrightarrow> I s \<Longrightarrow> I t"
begin

lemma star: "step\<^sup>*\<^sup>* s t \<Longrightarrow> I s \<Longrightarrow> I t"
  by (induction rule: rtranclp_induct) (auto intro: kept)

end

text \<open>A preorder along which the states of a run only go up.\<close>

locale step_order =
  fixes step :: "'s \<Rightarrow> 's \<Rightarrow> bool" and R :: "'s \<Rightarrow> 's \<Rightarrow> bool"
  assumes refl: "R s s" and trans: "R s t \<Longrightarrow> R t u \<Longrightarrow> R s u" and step_up: "step s t \<Longrightarrow> R s t"
begin

lemma star_up: "step\<^sup>*\<^sup>* s t \<Longrightarrow> R s t"
  by (induction rule: rtranclp_induct) (auto intro: refl trans step_up)

end

sublocale step_order < above: step_invariant step "R s0" for s0
  by unfold_locales (auto intro: trans step_up)

section \<open>Rewriting lookups in changed tables\<close>

lemmas fk_defs = foreign_keys_ok_def fk_topics_def fk_scopes_def fk_messages_def fk_events_def fk_subscriptions_def

lemmas key_defs = unique_keys_def keys_scopes_def keys_topics_def keys_messages_def keys_events_def

lemmas exists_defs = actor_exists_def scope_exists_def topic_exists_def topic_in_scope_def entry_exists_def
  revision_exists_def consumer_exists_def

lemma ball_update: "(\<forall>r \<in> set (update_where P f rows). Q r) \<longleftrightarrow> (\<forall>r \<in> set rows. if P r then Q (f r) else Q r)"
  by (auto simp: set_update_where)

lemma bex_update: "(\<exists>r \<in> set (update_where P f rows). Q r) \<longleftrightarrow> (\<exists>r \<in> set rows. if P r then Q (f r) else Q r)"
  by (auto simp: set_update_where)

lemma ball_delete: "(\<forall>r \<in> set (delete_where P rows). Q r) \<longleftrightarrow> (\<forall>r \<in> set rows. \<not> P r \<longrightarrow> Q r)"
  by (auto simp: in_delete_where)

lemma bex_delete: "(\<exists>r \<in> set (delete_where P rows). Q r) \<longleftrightarrow> (\<exists>r \<in> set rows. \<not> P r \<and> Q r)"
  by (auto simp: in_delete_where)

lemma filter_update: "(\<And>r. Q (f r) = Q r) \<Longrightarrow> length (filter Q (update_where P f rows)) = length (filter Q rows)"
  by (induction rows) (auto simp: update_where_def)

section \<open>Referential integrity\<close>

lemma insert_scope_fk: "insert_scope s h = Inr h' \<Longrightarrow> foreign_keys_ok h \<Longrightarrow> foreign_keys_ok h'"
  by (auto simp: insert_scope_def fk_defs exists_defs opt_all_iff)

lemma insert_binding_fk: "insert_binding b h = Inr h' \<Longrightarrow> foreign_keys_ok h \<Longrightarrow> foreign_keys_ok h'"
  by (auto simp: insert_binding_def fk_defs exists_defs opt_all_iff)

lemma insert_topic_fk: "insert_topic t h = Inr h' \<Longrightarrow> foreign_keys_ok h \<Longrightarrow> foreign_keys_ok h'"
  by (auto simp: insert_topic_def fk_defs exists_defs opt_all_iff)

lemma insert_audit_fk: "insert_audit au h = Inr h' \<Longrightarrow> foreign_keys_ok h \<Longrightarrow> foreign_keys_ok h'"
  by (auto simp: insert_audit_def fk_defs exists_defs opt_all_iff)

lemma insert_publication_fk: "insert_publication p h = Inr h' \<Longrightarrow> foreign_keys_ok h \<Longrightarrow> foreign_keys_ok h'"
  by (auto simp: insert_publication_def fk_defs exists_defs opt_all_iff)

lemma insert_head_fk: "insert_head m h = Inr h' \<Longrightarrow> foreign_keys_ok h \<Longrightarrow> foreign_keys_ok h'"
  by (auto simp: insert_head_def fk_defs exists_defs opt_all_iff)

lemma insert_revision_fk: "insert_revision rv h = Inr h' \<Longrightarrow> foreign_keys_ok h \<Longrightarrow> foreign_keys_ok h'"
  by (auto simp: insert_revision_def fk_defs exists_defs opt_all_iff)

lemma insert_idem_fk: "insert_idem i h = Inr h' \<Longrightarrow> foreign_keys_ok h \<Longrightarrow> foreign_keys_ok h'"
  by (auto simp: insert_idem_def fk_defs exists_defs opt_all_iff)

lemma insert_pin_fk: "insert_pin pn h = Inr h' \<Longrightarrow> foreign_keys_ok h \<Longrightarrow> foreign_keys_ok h'"
  by (auto simp: insert_pin_def fk_defs exists_defs opt_all_iff)

lemma insert_schema_fk: "insert_schema es h = Inr h' \<Longrightarrow> foreign_keys_ok h \<Longrightarrow> foreign_keys_ok h'"
  by (auto simp: insert_schema_def fk_defs exists_defs opt_all_iff)

lemma insert_event_fk: "insert_event ev h = Inr h' \<Longrightarrow> foreign_keys_ok h \<Longrightarrow> foreign_keys_ok h'"
  by (auto simp: insert_event_def fk_defs exists_defs opt_all_iff)

lemma insert_subscription_fk: "insert_subscription sb h = Inr h' \<Longrightarrow> foreign_keys_ok h \<Longrightarrow> foreign_keys_ok h'"
  by (auto simp: insert_subscription_def fk_defs exists_defs opt_all_iff)

lemma insert_subtopic_fk: "insert_subtopic st h = Inr h' \<Longrightarrow> foreign_keys_ok h \<Longrightarrow> foreign_keys_ok h'"
  by (auto simp: insert_subtopic_def fk_defs exists_defs opt_all_iff)

lemma insert_lease_fk: "insert_lease l h = Inr h' \<Longrightarrow> foreign_keys_ok h \<Longrightarrow> foreign_keys_ok h'"
  by (auto simp: insert_lease_def fk_defs exists_defs opt_all_iff)

lemma insert_actor_ignore_fk: "foreign_keys_ok h \<Longrightarrow> foreign_keys_ok (insert_actor_ignore r h)"
  by (auto simp: insert_actor_ignore_def fk_defs exists_defs opt_all_iff)

lemma insert_consumer_ignore_fk: "foreign_keys_ok h \<Longrightarrow> foreign_keys_ok (insert_consumer_ignore r h)"
  by (auto simp: insert_consumer_ignore_def fk_defs exists_defs opt_all_iff)

lemma update_topic_fk:
  assumes "update_topic tid f h = Inr h'" "\<And>r. same_topic r (f r)" "foreign_keys_ok h"
  shows "foreign_keys_ok h'"
proof -
  have k: "tp_id (f r) = tp_id r" "tp_scope (f r) = tp_scope r" "tp_owner (f r) = tp_owner r" for r
    using assms(2)[of r] by (simp_all add: same_topic_def)
  show ?thesis using assms(1,3)
    by (auto simp: update_topic_def Let_def fk_defs exists_defs opt_all_iff ball_update key_image_update k)
qed

lemma roles_fk: "foreign_keys_ok h \<Longrightarrow> \<forall>r \<in> set rs. topic_exists h (rl_topic r) \<and> actor_exists h (rl_actor r) \<Longrightarrow>
    foreign_keys_ok (h\<lparr>roles := rs\<rparr>)"
  by (simp add: fk_defs exists_defs opt_all_iff)

lemma counters_fk: "foreign_keys_ok h \<Longrightarrow> \<forall>c \<in> set cs. scope_exists h (ct_scope c) \<Longrightarrow>
    foreign_keys_ok (h\<lparr>counters := cs\<rparr>)"
  by (simp add: fk_defs exists_defs opt_all_iff)

lemma votes_fk: "foreign_keys_ok h \<Longrightarrow>
    \<forall>v \<in> set vs. actor_exists h (vt_actor v) \<and> revision_exists h (vt_message v) (vt_revision v) \<Longrightarrow>
    foreign_keys_ok (h\<lparr>votes := vs\<rparr>)"
  by (simp add: fk_defs exists_defs opt_all_iff)

lemma change_role_fk:
  assumes "change_role tid a grant h = Inr h'" and fk: "foreign_keys_ok h"
  shows "foreign_keys_ok h'"
proof -
  have old: "\<forall>r \<in> set (roles h). topic_exists h (rl_topic r) \<and> actor_exists h (rl_actor r)"
    using fk by (simp add: foreign_keys_ok_def fk_topics_def)
  show ?thesis
  proof (cases grant)
    case True
    with assms(1) have h': "h' = h\<lparr>roles := roles h @ [\<lparr>rl_topic = tid, rl_actor = a, rl_role = ''maintainer''\<rparr>]\<rparr>"
      and new: "topic_exists h tid" "actor_exists h a"
      by (simp_all add: change_role_def insert_role_def Let_def)
    show ?thesis unfolding h' by (intro roles_fk[OF fk]) (use old new in auto)
  next
    case False
    with assms(1) obtain P where h': "h' = h\<lparr>roles := delete_where P (roles h)\<rparr>"
      by (auto simp: change_role_def Let_def split: if_splits)
    show ?thesis unfolding h' by (intro roles_fk[OF fk]) (use old in \<open>simp add: ball_delete\<close>)
  qed
qed

lemma nextSequence_fk:
  assumes "nextSequence s h = Inr (n, h')" and fk: "foreign_keys_ok h"
  shows "foreign_keys_ok h'"
proof -
  from assms(1) obtain cs where h': "h' = h\<lparr>counters := cs\<rparr>" and k: "ct_scope ` set cs = insert s (ct_scope ` set (counters h))"
    by (rule nextSequence_Inr) blast
  have old: "\<forall>c \<in> set (counters h). scope_exists h (ct_scope c)"
    using fk by (simp add: foreign_keys_ok_def fk_scopes_def)
  have "scope_exists h s"
    using assms(1) old by (auto simp: nextSequence_def insert_counter_ignore_def split: if_splits)
  have "scope_exists h (ct_scope c)" if "c \<in> set cs" for c
  proof -
    from that k have "ct_scope c \<in> insert s (ct_scope ` set (counters h))" by (metis imageI)
    with old \<open>scope_exists h s\<close> show ?thesis by auto
  qed
  then show ?thesis unfolding h' by (intro counters_fk[OF fk]) auto
qed

lemma cast_vote_fk:
  assumes "cast_vote mid n a v h = Inr h'" and fk: "foreign_keys_ok h"
  shows "foreign_keys_ok h'"
proof -
  let ?ok = "\<lambda>v. actor_exists h (vt_actor v) \<and> revision_exists h (vt_message v) (vt_revision v)"
  have old: "\<forall>v \<in> set (votes h). ?ok v"
    using fk by (simp add: foreign_keys_ok_def fk_messages_def)
  show ?thesis
  proof (cases "v = 0")
    case True
    with assms(1) have h': "h' = h\<lparr>votes := delete_where (vote_at mid n a) (votes h)\<rparr>" by (simp add: cast_vote_def)
    show ?thesis unfolding h' by (intro votes_fk[OF fk]) (use old in \<open>simp add: ball_delete\<close>)
  next
    case False
    let ?vs = "if \<exists>v \<in> set (votes h). vote_at mid n a v
      then update_where (vote_at mid n a) (\<lambda>x. x\<lparr>vt_value := v\<rparr>) (votes h)
      else votes h @ [\<lparr>vt_message = mid, vt_revision = n, vt_actor = a, vt_value = v\<rparr>]"
    from False assms(1) have h': "h' = h\<lparr>votes := ?vs\<rparr>" and new: "actor_exists h a" "revision_exists h mid n"
      by (simp_all add: cast_vote_def upsert_vote_def Let_def)
    have "\<forall>v \<in> set ?vs. ?ok v" using old new by (simp add: ball_update)
    then show ?thesis unfolding h' by (rule votes_fk[OF fk])
  qed
qed

lemma move_cursor_fk: "foreign_keys_ok h \<Longrightarrow> foreign_keys_ok (h\<lparr>subscriptions := update_where P (\<lambda>r. r\<lparr>sb_ack := n\<rparr>) (subscriptions h)\<rparr>)"
  by (auto simp: fk_defs exists_defs opt_all_iff ball_update key_image_update)

lemma end_subscription_fk: "foreign_keys_ok h \<Longrightarrow> foreign_keys_ok (h\<lparr>subscriptions := update_where P (\<lambda>r. r\<lparr>sb_removed_at := n\<rparr>) (subscriptions h)\<rparr>)"
  by (auto simp: fk_defs exists_defs opt_all_iff ball_update key_image_update)

lemma update_lease_fk:
  assumes "update_lease P f h = Inr h'" "\<And>r. same_lease r (f r)" "foreign_keys_ok h"
  shows "foreign_keys_ok h'"
proof -
  have k: "ls_topic (f r) = ls_topic r" for r using assms(2)[of r] by (simp add: same_lease_def)
  show ?thesis using assms(1,3)
    by (auto simp: update_lease_def Let_def fk_defs exists_defs opt_all_iff ball_update k)
qed

lemma heads_fk:
  assumes "foreign_keys_ok h" and k: "\<And>r. hd_message (f r) = hd_message r" "\<And>r. hd_scope (f r) = hd_scope r"
    "\<And>r. hd_topic (f r) = hd_topic r" "\<And>r. hd_author (f r) = hd_author r"
    and e: "\<And>r. P r \<Longrightarrow> r \<in> set (heads h) \<Longrightarrow> entry_exists h (hd_entry (f r))"
  shows "foreign_keys_ok (h\<lparr>heads := update_where P f (heads h)\<rparr>)"
proof -
  let ?h = "h\<lparr>heads := update_where P f (heads h)\<rparr>"
  have m: "hd_message ` set (heads ?h) = hd_message ` set (heads h)" by (simp add: key_image_update k)
  have x: "(\<exists>m \<in> set (heads ?h). hd_message m = a \<and> hd_scope m = b \<and> hd_topic m = c)
    \<longleftrightarrow> (\<exists>m \<in> set (heads h). hd_message m = a \<and> hd_scope m = b \<and> hd_topic m = c)" for a b c
    by (auto simp: bex_update k)
  have y: "(\<forall>m \<in> set (heads ?h). Q m) \<longleftrightarrow> (\<forall>r \<in> set (heads h). Q (if P r then f r else r))" for Q
    by (simp add: ball_update)
  have "fk_messages ?h"
    using assms(1) e unfolding fk_messages_def x y m
    by (simp add: foreign_keys_ok_def fk_messages_def exists_defs k)
  with assms(1) show ?thesis
    by (simp add: foreign_keys_ok_def fk_topics_def fk_scopes_def fk_events_def fk_subscriptions_def exists_defs opt_all_iff)
qed

lemma update_head_revision_fk: 
  assumes "update_head_revision mid n e h = Inr h'" "foreign_keys_ok h" shows "foreign_keys_ok h'"
proof -
  from assms(1) have h': "h' = h\<lparr>heads := update_where (\<lambda>r. hd_message r = mid)
                (\<lambda>r. r\<lparr>hd_revision := n, hd_entry := e, hd_pinned := False\<rparr>) (heads h)\<rparr>"
    and e: "mid \<in> hd_message ` set (heads h) \<longrightarrow> entry_exists h e"
    by (auto simp: update_head_revision_def Let_def)
  show ?thesis unfolding h' by (rule heads_fk) (use assms(2) e in auto)
qed

lemma update_head_pinned_fk: 
  assumes "foreign_keys_ok h" shows "foreign_keys_ok (update_head_pinned mid v h)"
  unfolding update_head_pinned_def
  by (rule heads_fk) (use assms in \<open>auto simp: foreign_keys_ok_def fk_messages_def\<close>)

lemma retire_schema_fk: 
  assumes "retire_schema k a now h = Inr h'" "foreign_keys_ok h" shows "foreign_keys_ok h'"
proof -
  let ?f = "\<lambda>r. r\<lparr>es_retired_by := Some a, es_retired_at := Some now\<rparr>"
  from assms(1) have h': "h' = h\<lparr>schemas := update_where (live_schema k) ?f (schemas h)\<rparr>"
    and a: "\<forall>r \<in> set (schemas h). live_schema k r \<longrightarrow> actor_exists h a"
    by (auto simp: retire_schema_def)
  have m: "schema_key ` set (schemas h') = schema_key ` set (schemas h)"
    by (simp add: h' key_image_update schema_key_def)
  have y: "(\<forall>m \<in> set (schemas h'). Q m) \<longleftrightarrow> (\<forall>r \<in> set (schemas h). Q (if live_schema k r then ?f r else r))" for Q
    by (simp add: ball_update h')
  have "fk_events h'"
    using assms(2) a unfolding fk_events_def y m by (auto simp: foreign_keys_ok_def fk_events_def exists_defs opt_all_iff h')
  with assms(2) show ?thesis
    by (simp add: foreign_keys_ok_def fk_topics_def fk_scopes_def fk_messages_def fk_subscriptions_def exists_defs opt_all_iff h')
qed

lemma insert_pruned_idem_fk: "insert_pruned_idem r h = Inr h' \<Longrightarrow> foreign_keys_ok h \<Longrightarrow> foreign_keys_ok h'"
  by (auto simp: insert_pruned_idem_def fk_defs exists_defs opt_all_iff)

lemma delete_idem_fk: "delete_idem s t a k h = Inr h' \<Longrightarrow> foreign_keys_ok h \<Longrightarrow> foreign_keys_ok h'"
  by (auto simp: delete_idem_def delete_guard_Inr Let_def fk_defs exists_defs opt_all_iff in_delete_where)

lemma delete_votes_fk: "foreign_keys_ok h \<Longrightarrow> foreign_keys_ok (delete_votes_of e h)"
  by (auto simp: delete_votes_of_def fk_defs exists_defs opt_all_iff in_delete_where)

lemma delete_pins_fk: "delete_pins_of e h = Inr h' \<Longrightarrow> foreign_keys_ok h \<Longrightarrow> foreign_keys_ok h'"
  by (auto simp: delete_pins_of_def delete_guard_Inr Let_def fk_defs exists_defs opt_all_iff in_delete_where)

lemma delete_event_fk: "delete_event e h = Inr h' \<Longrightarrow> foreign_keys_ok h \<Longrightarrow> foreign_keys_ok h'"
  by (force simp: delete_event_def delete_guard_Inr Let_def fk_defs exists_defs opt_all_iff in_delete_where split: if_splits)

lemma raise_low_water_fk: "foreign_keys_ok h \<Longrightarrow> foreign_keys_ok (raise_low_water s h)"
  by (auto simp: raise_low_water_def Let_def fk_defs exists_defs opt_all_iff key_image_update split: option.splits)

lemma mergePrunedRange_fk: "mergePrunedRange s a b p h = Inr h' \<Longrightarrow> foreign_keys_ok h \<Longrightarrow> foreign_keys_ok h'"
  by (auto simp: mergePrunedRange_def Let_def fk_defs exists_defs opt_all_iff in_delete_where split: prod.splits)

lemma insert_prune_audit_fk: "insert_prune_audit r h = Inr h' \<Longrightarrow> foreign_keys_ok h \<Longrightarrow> foreign_keys_ok h'"
  by (auto simp: insert_prune_audit_def fk_defs exists_defs opt_all_iff)

lemma fk_messages_parts: "fk_messages h \<longleftrightarrow>
     (\<forall>p \<in> set (publications h). actor_exists h (pb_actor p) \<and> topic_in_scope h (pb_scope p) (pb_topic p))
   \<and> (\<forall>m \<in> set (heads h). actor_exists h (hd_author m) \<and> (\<exists>p \<in> set (publications h). pb_entry p = hd_entry m)
        \<and> topic_in_scope h (hd_scope m) (hd_topic m))
   \<and> (\<forall>r \<in> set (revisions h).
        (\<exists>m \<in> set (heads h). hd_message m = rv_message r \<and> hd_scope m = rv_scope r \<and> hd_topic m = rv_topic r)
      \<and> (\<exists>p \<in> set (publications h). pb_entry p = rv_entry r \<and> pb_scope p = rv_scope r \<and> pb_topic p = rv_topic r
            \<and> (rv_expires_at r \<noteq> None \<longrightarrow> pb_expires_at p = rv_expires_at r)))
   \<and> (\<forall>p \<in> set (pins h). (\<exists>m \<in> set (heads h). hd_message m = pn_message p) \<and> actor_exists h (pn_actor p)
        \<and> (\<exists>r \<in> set (revisions h). rv_message r = pn_message p \<and> rv_revision r = pn_revision p))
   \<and> (\<forall>v \<in> set (votes h). actor_exists h (vt_actor v) \<and> (\<exists>r \<in> set (revisions h). rv_message r = vt_message v \<and> rv_revision r = vt_revision v))
   \<and> (\<forall>i \<in> set (idems h). (\<exists>p \<in> set (publications h). pb_entry p = ik_entry i) \<and> topic_in_scope h (ik_scope i) (ik_topic i))"
proof -
  have a: "entry_exists h e \<longleftrightarrow> (\<exists>p \<in> set (publications h). pb_entry p = e)" for e by (auto simp: entry_exists_def)
  have b: "revision_exists h m n \<longleftrightarrow> (\<exists>r \<in> set (revisions h). rv_message r = m \<and> rv_revision r = n)" for m n
    by (auto simp: revision_exists_def)
  have c: "m \<in> hd_message ` set (heads h) \<longleftrightarrow> (\<exists>r \<in> set (heads h). hd_message r = m)" for m by auto
  show ?thesis unfolding fk_messages_def a b c ..
qed

lemma delete_head_fk: 
  assumes d: "delete_head mid h = Inr h'" and fk: "foreign_keys_ok h" shows "foreign_keys_ok h'"
proof -
  from d have h': "h' = h\<lparr>heads := delete_where (\<lambda>m. hd_message m = mid) (heads h)\<rparr>"
    and r: "\<forall>r \<in> set (revisions h). rv_message r \<noteq> mid" and p: "\<forall>p \<in> set (pins h). pn_message p \<noteq> mid"
    by (auto simp: delete_head_def split: if_splits)
  have keep: "(\<exists>m \<in> set (heads h). hd_message m \<noteq> mid \<and> hd_message m = a \<and> hd_scope m = b \<and> hd_topic m = c)"
    if "\<exists>m \<in> set (heads h). hd_message m = a \<and> hd_scope m = b \<and> hd_topic m = c" "a \<noteq> mid" for a b c
    using that by auto
  have keep': "(\<exists>m \<in> set (heads h). hd_message m \<noteq> mid \<and> hd_message m = a)"
    if "\<exists>m \<in> set (heads h). hd_message m = a" "a \<noteq> mid" for a
    using that by auto
  from fk have "fk_messages h" by (simp add: foreign_keys_ok_def)
  then have "fk_messages h'"
    unfolding h' fk_messages_parts using r p keep keep' by (simp add: ball_delete bex_delete exists_defs)
  with fk show ?thesis
    by (simp add: h' foreign_keys_ok_def fk_topics_def fk_scopes_def fk_events_def fk_subscriptions_def exists_defs opt_all_iff)
qed

lemma delete_revision_fk:
  assumes d: "delete_revision e h = Inr h'" and fk: "foreign_keys_ok h" shows "foreign_keys_ok h'"
proof -
  let ?P = "\<lambda>v. revision_of_entry h e (vt_message v) (vt_revision v)"
  from d have h': "h' = h\<lparr>revisions := delete_where (\<lambda>r. rv_entry r = e) (revisions h), votes := delete_where ?P (votes h)\<rparr>"
    and p: "\<forall>p \<in> set (pins h). \<not> revision_of_entry h e (pn_message p) (pn_revision p)"
    by (auto simp: delete_revision_def delete_guard_Inr)
  have keep: "(\<exists>r \<in> set (revisions h). rv_entry r \<noteq> e \<and> rv_message r = m \<and> rv_revision r = n)"
    if "\<exists>r \<in> set (revisions h). rv_message r = m \<and> rv_revision r = n" "\<not> revision_of_entry h e m n" for m n
    using that by (auto simp: revision_of_entry_def)
  from fk have "fk_messages h" by (simp add: foreign_keys_ok_def)
  then have "fk_messages h'"
    unfolding h' fk_messages_parts using p keep by (simp add: ball_delete bex_delete exists_defs)
  with fk show ?thesis
    by (simp add: h' foreign_keys_ok_def fk_topics_def fk_scopes_def fk_events_def fk_subscriptions_def exists_defs opt_all_iff)
qed

lemma delete_publication_fk:
  assumes d: "delete_publication e h = Inr h'" and fk: "foreign_keys_ok h" shows "foreign_keys_ok h'"
proof -
  from d have h': "h' = h\<lparr>publications := delete_where (\<lambda>p. pb_entry p = e) (publications h)\<rparr>"
    and r: "\<forall>m \<in> set (heads h). hd_entry m \<noteq> e" "\<forall>r \<in> set (revisions h). rv_entry r \<noteq> e"
      "\<forall>i \<in> set (idems h). ik_entry i \<noteq> e" "\<forall>v \<in> set (events h). ev_entry v \<noteq> e"
    by (auto simp: delete_publication_def delete_guard_Inr entry_referenced_def split: if_splits)
  have keep: "(\<exists>p \<in> set (publications h). pb_entry p \<noteq> e \<and> pb_entry p = a)"
    if "\<exists>p \<in> set (publications h). pb_entry p = a" "a \<noteq> e" for a
    using that by auto
  have keep': "(\<exists>p \<in> set (publications h). pb_entry p \<noteq> e \<and> pb_entry p = a \<and> pb_scope p = b \<and> pb_topic p = c
      \<and> (x \<noteq> None \<longrightarrow> pb_expires_at p = x))"
    if "\<exists>p \<in> set (publications h). pb_entry p = a \<and> pb_scope p = b \<and> pb_topic p = c
      \<and> (x \<noteq> None \<longrightarrow> pb_expires_at p = x)" "a \<noteq> e" for a b c x
    using that by auto
  from fk have "fk_messages h" by (simp add: foreign_keys_ok_def)
  then have m: "fk_messages h'"
    unfolding h' fk_messages_parts using r(1-3) keep keep' by (simp add: ball_delete bex_delete exists_defs)
  have "a \<in> pb_entry ` set (publications h')" if "a \<in> pb_entry ` set (publications h)" "a \<noteq> e" for a
    using that by (auto simp: h' in_delete_where)
  then have "fk_events h'"
    using fk r(4) unfolding foreign_keys_ok_def fk_events_def by (simp add: h' exists_defs opt_all_iff)
  with m fk show ?thesis
    by (simp add: h' foreign_keys_ok_def fk_topics_def fk_scopes_def fk_subscriptions_def exists_defs opt_all_iff)
qed

lemma backups_fk: "foreign_keys_ok (h\<lparr>prune_audits := as\<rparr>) \<longleftrightarrow> foreign_keys_ok h"
  unfolding foreign_keys_ok_def fk_topics_def fk_scopes_def fk_messages_def fk_events_def fk_subscriptions_def
    actor_exists_def topic_exists_def topic_in_scope_def scope_exists_def entry_exists_def consumer_exists_def revision_exists_def
  by simp

lemma stmt_fk:
  assumes "stmt h h'" and "foreign_keys_ok h"
  shows "foreign_keys_ok h'"
  using assms
proof (cases rule: stmt.cases)
  case (publish p h1)
  then show ?thesis using assms(2) by (blast intro: nextSequence_fk insert_publication_fk)
next
  case (pin pn mid v)
  then show ?thesis using assms(2) by (blast intro: update_head_pinned_fk insert_pin_fk)
next
  case (record_backup a)
  then show ?thesis using assms(2) by (blast intro: insert_prune_audit_fk)
next
  case (drop_backup P)
  then show ?thesis using assms(2) by (simp only: backups_fk)
qed (blast intro: insert_scope_fk insert_binding_fk insert_topic_fk insert_audit_fk insert_head_fk insert_revision_fk
      insert_idem_fk insert_schema_fk insert_event_fk insert_subscription_fk insert_subtopic_fk
      insert_lease_fk insert_actor_ignore_fk insert_consumer_ignore_fk update_topic_fk change_role_fk cast_vote_fk
      move_cursor_fk end_subscription_fk update_lease_fk update_head_revision_fk retire_schema_fk)+

lemma prune_stmt_fk:
  assumes "prune_stmt h h'" and "foreign_keys_ok h"
  shows "foreign_keys_ok h'"
  using assms
proof (cases rule: prune_stmt.cases)
  case (permission b)
  then show ?thesis using assms(2) by (auto simp: fk_defs exists_defs opt_all_iff)
next
  case epoch
  then show ?thesis using assms(2) by (auto simp: fk_defs exists_defs opt_all_iff)
qed (blast intro: insert_pruned_idem_fk delete_idem_fk delete_votes_fk delete_pins_fk delete_event_fk raise_low_water_fk
      mergePrunedRange_fk insert_prune_audit_fk delete_head_fk delete_revision_fk delete_publication_fk)+

section \<open>Unique keys\<close>

lemma insert_scope_keys: "insert_scope s h = Inr h' \<Longrightarrow> unique_keys h \<Longrightarrow> unique_keys h'"
  by (auto simp: insert_scope_def key_defs exists_defs)

lemma insert_binding_keys: "insert_binding b h = Inr h' \<Longrightarrow> unique_keys h \<Longrightarrow> unique_keys h'"
  by (auto simp: insert_binding_def key_defs exists_defs)

lemma insert_topic_keys: "insert_topic t h = Inr h' \<Longrightarrow> unique_keys h \<Longrightarrow> unique_keys h'"
  by (auto simp: insert_topic_def key_defs exists_defs)

lemma insert_audit_keys: "insert_audit au h = Inr h' \<Longrightarrow> unique_keys h \<Longrightarrow> unique_keys h'"
  by (auto simp: insert_audit_def key_defs exists_defs)

lemma insert_publication_keys: "insert_publication p h = Inr h' \<Longrightarrow> unique_keys h \<Longrightarrow> unique_keys h'"
  by (auto simp: insert_publication_def key_defs exists_defs)

lemma insert_head_keys: "insert_head m h = Inr h' \<Longrightarrow> unique_keys h \<Longrightarrow> unique_keys h'"
  by (auto simp: insert_head_def key_defs exists_defs)

lemma insert_revision_keys: "insert_revision rv h = Inr h' \<Longrightarrow> unique_keys h \<Longrightarrow> unique_keys h'"
  by (auto simp: insert_revision_def key_defs exists_defs)

lemma insert_idem_keys: "insert_idem i h = Inr h' \<Longrightarrow> unique_keys h \<Longrightarrow> unique_keys h'"
  by (auto simp: insert_idem_def key_defs exists_defs)

lemma insert_pin_keys: "insert_pin pn h = Inr h' \<Longrightarrow> unique_keys h \<Longrightarrow> unique_keys h'"
  by (auto simp: insert_pin_def key_defs exists_defs)

lemma insert_schema_keys: "insert_schema es h = Inr h' \<Longrightarrow> unique_keys h \<Longrightarrow> unique_keys h'"
  by (auto simp: insert_schema_def key_defs exists_defs)

lemma insert_event_keys: "insert_event ev h = Inr h' \<Longrightarrow> unique_keys h \<Longrightarrow> unique_keys h'"
  by (auto simp: insert_event_def key_defs exists_defs)

lemma insert_subscription_keys: "insert_subscription sb h = Inr h' \<Longrightarrow> unique_keys h \<Longrightarrow> unique_keys h'"
  by (auto simp: insert_subscription_def key_defs exists_defs)

lemma insert_subtopic_keys: "insert_subtopic st h = Inr h' \<Longrightarrow> unique_keys h \<Longrightarrow> unique_keys h'"
  by (auto simp: insert_subtopic_def key_defs exists_defs)

lemma insert_lease_keys: "insert_lease l h = Inr h' \<Longrightarrow> unique_keys h \<Longrightarrow> unique_keys h'"
  by (auto simp: insert_lease_def key_defs exists_defs)

lemma insert_pruned_idem_keys: "insert_pruned_idem r h = Inr h' \<Longrightarrow> unique_keys h \<Longrightarrow> unique_keys h'"
  by (auto simp: insert_pruned_idem_def key_defs exists_defs)

lemma insert_prune_audit_keys: "insert_prune_audit r h = Inr h' \<Longrightarrow> unique_keys h \<Longrightarrow> unique_keys h'"
  by (auto simp: insert_prune_audit_def key_defs exists_defs)

lemma backups_keys: "unique_keys h \<Longrightarrow> unique_keys (h\<lparr>prune_audits := update_where P (\<lambda>a. a\<lparr>pa_available := False\<rparr>) (prune_audits h)\<rparr>)"
  by (simp add: key_defs map_update_where)

lemma delete_idem_keys: "delete_idem s t a k h = Inr h' \<Longrightarrow> unique_keys h \<Longrightarrow> unique_keys h'"
  by (auto simp: delete_idem_def delete_guard_Inr Let_def key_defs distinct_delete_where split: if_splits)

lemma delete_pins_of_keys: "delete_pins_of e h = Inr h' \<Longrightarrow> unique_keys h \<Longrightarrow> unique_keys h'"
  by (auto simp: delete_pins_of_def delete_guard_Inr Let_def key_defs distinct_delete_where split: if_splits)

lemma delete_head_keys: "delete_head m h = Inr h' \<Longrightarrow> unique_keys h \<Longrightarrow> unique_keys h'"
  by (auto simp: delete_head_def delete_guard_Inr Let_def key_defs distinct_delete_where split: if_splits)

lemma delete_event_keys: "delete_event e h = Inr h' \<Longrightarrow> unique_keys h \<Longrightarrow> unique_keys h'"
  by (auto simp: delete_event_def delete_guard_Inr Let_def key_defs distinct_delete_where split: if_splits)

lemma delete_revision_keys: "delete_revision e h = Inr h' \<Longrightarrow> unique_keys h \<Longrightarrow> unique_keys h'"
  by (auto simp: delete_revision_def delete_guard_Inr Let_def key_defs distinct_delete_where split: if_splits)

lemma delete_publication_keys: "delete_publication e h = Inr h' \<Longrightarrow> unique_keys h \<Longrightarrow> unique_keys h'"
  by (auto simp: delete_publication_def delete_guard_Inr Let_def key_defs distinct_delete_where split: if_splits)

lemma delete_votes_keys: "unique_keys h \<Longrightarrow> unique_keys (delete_votes_of e h)"
  by (auto simp: delete_votes_of_def key_defs distinct_delete_where)

lemma mergePrunedRange_keys: "mergePrunedRange s a b p h = Inr h' \<Longrightarrow> unique_keys h \<Longrightarrow> unique_keys h'"
  by (auto simp: mergePrunedRange_def Let_def key_defs split: prod.splits)

lemma raise_low_water_keys: "unique_keys h \<Longrightarrow> unique_keys (raise_low_water s h)"
  by (auto simp: raise_low_water_def Let_def key_defs map_update_where filter_update split: option.splits)

lemma insert_actor_ignore_keys: "unique_keys h \<Longrightarrow> unique_keys (insert_actor_ignore r h)"
  by (auto simp: insert_actor_ignore_def key_defs exists_defs)

lemma insert_consumer_ignore_keys: "unique_keys h \<Longrightarrow> unique_keys (insert_consumer_ignore r h)"
  by (auto simp: insert_consumer_ignore_def key_defs exists_defs)

lemma update_topic_keys:
  assumes "update_topic tid f h = Inr h'" "\<And>r. same_topic r (f r)" "unique_keys h"
  shows "unique_keys h'"
proof -
  have k: "tp_id (f r) = tp_id r" "tp_scope (f r) = tp_scope r" "tp_key (f r) = tp_key r" for r
    using assms(2)[of r] by (simp_all add: same_topic_def)
  show ?thesis using assms(1,3)
    by (auto simp: update_topic_def Let_def key_defs map_update_where k)
qed

lemma change_role_keys: "change_role tid a grant h = Inr h' \<Longrightarrow> unique_keys h \<Longrightarrow> unique_keys h'"
  by (auto simp: change_role_def Let_def insert_role_def key_defs delete_where_def split: if_splits)

lemma nextSequence_keys: "nextSequence s h = Inr (n, h') \<Longrightarrow> unique_keys h \<Longrightarrow> unique_keys h'"
  by (auto simp: nextSequence_def insert_counter_ignore_def update_counter_def key_defs map_update_where split: if_splits)

lemma update_head_revision_keys: "update_head_revision mid n e h = Inr h' \<Longrightarrow> unique_keys h \<Longrightarrow> unique_keys h'"
  by (auto simp: update_head_revision_def Let_def key_defs map_update_where)

lemma update_head_pinned_keys: "unique_keys h \<Longrightarrow> unique_keys (update_head_pinned mid v h)"
  by (auto simp: update_head_pinned_def Let_def key_defs map_update_where)

lemma cast_vote_keys: "cast_vote mid n a v h = Inr h' \<Longrightarrow> unique_keys h \<Longrightarrow> unique_keys h'"
  by (auto simp: cast_vote_def upsert_vote_def vote_at_def Let_def key_defs map_update_where distinct_delete_where split: if_splits)

lemma retire_schema_keys: "retire_schema k a now h = Inr h' \<Longrightarrow> unique_keys h \<Longrightarrow> unique_keys h'"
  by (auto simp: retire_schema_def Let_def key_defs map_update_where schema_key_def)

lemma cursor_keys: "unique_keys h \<Longrightarrow> (\<And>r. sb_id (f r) = sb_id r) \<Longrightarrow> unique_keys (h\<lparr>subscriptions := update_where P f (subscriptions h)\<rparr>)"
  by (auto simp: key_defs map_update_where)

lemma update_lease_keys:
  assumes "update_lease P f h = Inr h'" "\<And>r. same_lease r (f r)" "unique_keys h"
  shows "unique_keys h'"
proof -
  have k: "ls_topic (f r) = ls_topic r" for r using assms(2)[of r] by (simp add: same_lease_def)
  show ?thesis using assms(1,3) by (auto simp: update_lease_def Let_def key_defs map_update_where k)
qed

lemma stmt_keys:
  assumes "stmt h h'" and "unique_keys h"
  shows "unique_keys h'"
  using assms
proof (cases rule: stmt.cases)
  case (publish p h1)
  then show ?thesis using assms(2) by (blast intro: nextSequence_keys insert_publication_keys)
next
  case (pin pn mid v)
  then show ?thesis using assms(2) by (blast intro: update_head_pinned_keys insert_pin_keys)
next
  case (move_cursor prior n sid)
  then show ?thesis using assms(2) by (simp add: cursor_keys)
next
  case (end_subscription sid now)
  then show ?thesis using assms(2) by (simp add: cursor_keys)
next
  case (record_backup a)
  then show ?thesis using assms(2) by (blast intro: insert_prune_audit_keys)
next
  case (drop_backup P)
  then show ?thesis using assms(2) by (simp add: backups_keys)
qed (blast intro: insert_scope_keys insert_binding_keys insert_topic_keys insert_audit_keys insert_head_keys
      insert_revision_keys insert_idem_keys insert_schema_keys insert_event_keys insert_subscription_keys
      insert_subtopic_keys insert_lease_keys insert_actor_ignore_keys insert_consumer_ignore_keys update_topic_keys
      change_role_keys cast_vote_keys update_lease_keys update_head_revision_keys retire_schema_keys)+

lemma prune_stmt_keys:
  assumes "prune_stmt h h'" and "unique_keys h"
  shows "unique_keys h'"
  using assms
proof (cases rule: prune_stmt.cases)
  case (permission b)
  then show ?thesis using assms(2) by (auto simp: key_defs)
next
  case epoch
  then show ?thesis using assms(2) by (auto simp: key_defs)
qed (blast intro: insert_pruned_idem_keys delete_idem_keys delete_votes_keys delete_pins_of_keys delete_event_keys
      raise_low_water_keys mergePrunedRange_keys insert_prune_audit_keys delete_head_keys delete_revision_keys
      delete_publication_keys)+

section \<open>Correction chains\<close>

text \<open>An event corrects an event inserted before it, so that the chains are finite.\<close>

fun chained :: "string set \<Rightarrow> event_row list \<Rightarrow> bool" where
  "chained seen [] = True"
| "chained seen (r # rs) \<longleftrightarrow> opt_all (\<lambda>c. c \<in> seen) (ev_corrects r) \<and> chained (insert (ev_entry r) seen) rs"

definition corrections_ok :: "hub \<Rightarrow> bool" where
  "corrections_ok h \<longleftrightarrow> chained {} (events h) \<and> distinct (map ev_entry (events h))"

lemma chained_append:
  "chained seen (rs @ [r]) \<longleftrightarrow> chained seen rs \<and> opt_all (\<lambda>c. c \<in> seen \<union> ev_entry ` set rs) (ev_corrects r)"
  by (induction rs arbitrary: seen) auto

lemma chained_delete:
  assumes "chained seen rs" and "\<forall>r \<in> set rs. ev_corrects r = Some e \<longrightarrow> ev_entry r = e" and "seen - {e} \<subseteq> seen'"
  shows "chained seen' (delete_where (\<lambda>r. ev_entry r = e) rs)"
  using assms
proof (induction rs arbitrary: seen seen')
  case (Cons r rs)
  show ?case
  proof (cases "ev_entry r = e")
    case True
    then have "chained seen' (delete_where (\<lambda>r. ev_entry r = e) rs)"
      using Cons.prems by (intro Cons.IH[of "insert e seen"]) auto
    then show ?thesis using True by (simp add: delete_where_def)
  next
    case False
    then have "chained (insert (ev_entry r) seen') (delete_where (\<lambda>r. ev_entry r = e) rs)"
      using Cons.prems by (intro Cons.IH[of "insert (ev_entry r) seen"]) auto
    moreover have "opt_all (\<lambda>c. c \<in> seen') (ev_corrects r)"
      using Cons.prems False by (auto simp: opt_all_iff)
    ultimately show ?thesis using False by (simp add: delete_where_def)
  qed
qed (simp add: delete_where_def)

lemma stmt_events:
  assumes "stmt h h'"
  shows "events h' = events h \<or> (\<exists>ev. insert_event ev h = Inr h' \<and> opt_all (\<lambda>c. c \<in> ev_entry ` set (events h)) (ev_corrects ev))"
  using assms
proof (cases rule: stmt.cases)
  case (publish p h1)
  then show ?thesis using nextSequence_frame by (fastforce simp: insert_publication_def)
qed (auto simp: statement_defs change_role_def cast_vote_def retire_schema_def Let_def split: if_splits)

lemma stmt_corrections: "stmt h h' \<Longrightarrow> corrections_ok h \<Longrightarrow> corrections_ok h'"
  using stmt_events[of h h'] by (auto simp: corrections_ok_def insert_event_def chained_append)

lemma prune_events:
  assumes "prune_stmt h h'"
  shows "events h' = events h \<or> (\<exists>e. delete_event e h = Inr h')"
  using assms
  by (cases rule: prune_stmt.cases)
    (auto simp: insert_pruned_idem_def delete_idem_def delete_votes_of_def delete_pins_of_def delete_revision_def
      delete_head_def delete_publication_def mergePrunedRange_def raise_low_water_def insert_prune_audit_def
      delete_guard_Inr Let_def split: if_splits option.splits prod.splits)

lemma prune_corrections: "prune_stmt h h' \<Longrightarrow> corrections_ok h \<Longrightarrow> corrections_ok h'"
  using prune_events[of h h']
  by (auto simp: corrections_ok_def delete_event_def delete_guard_Inr distinct_delete_where intro!: chained_delete)

text \<open>The fuel of \<open>event_root\<close> suffices: every event has a root and a depth.\<close>

lemma event_root_mono: "event_root h n e = Some x \<Longrightarrow> n \<le> m \<Longrightarrow> event_root h m e = Some x"
proof (induction n arbitrary: m e x)
  case (Suc n)
  then obtain k where m: "m = Suc k" "n \<le> k" by (cases m) auto
  show ?case
  proof (cases "find_event h e")
    case (Some r)
    show ?thesis
    proof (cases "ev_corrects r")
      case (Some c)
      with \<open>find_event h e = Some r\<close> Suc.prems obtain y where "event_root h n c = Some y" "x = (fst y, snd y + 1)" by auto
      with Some \<open>find_event h e = Some r\<close> Suc.IH[of c y k] m show ?thesis by (cases y) auto
    qed (use Some Suc.prems m in auto)
  qed (use Suc.prems m in auto)
qed simp

lemma chained_nth:
  "chained seen rs \<Longrightarrow> i < length rs \<Longrightarrow> ev_corrects (rs ! i) = Some c \<Longrightarrow> c \<in> seen \<or> (\<exists>j < i. ev_entry (rs ! j) = c)"
proof (induction rs arbitrary: seen i)
  case (Cons r rs)
  show ?case
  proof (cases i)
    case (Suc k)
    with Cons.prems Cons.IH[of "insert (ev_entry r) seen" k]
    consider "c = ev_entry r" | "c \<in> seen" | j where "j < k" "ev_entry (rs ! j) = c" by auto
    then show ?thesis
    proof cases
      case 1
      then show ?thesis using Suc by (auto intro!: exI[of _ 0])
    next
      case 3
      then show ?thesis using Suc by (auto intro!: exI[of _ "Suc j"])
    qed simp
  qed (use Cons.prems in auto)
qed simp

lemma event_root_index:
  assumes "corrections_ok h" and "i < length (events h)"
  shows "\<exists>x. event_root h (Suc i) (ev_entry (events h ! i)) = Some x"
  using assms(2)
proof (induction i rule: less_induct)
  case (less i)
  let ?r = "events h ! i"
  have f: "find_event h (ev_entry ?r) = Some ?r"
    unfolding find_event_def using assms(1) less.prems by (intro find_map_keys) (auto simp: corrections_ok_def)
  show ?case
  proof (cases "ev_corrects ?r")
    case (Some c)
    with assms(1) less.prems obtain j where j: "j < i" "ev_entry (events h ! j) = c"
      using chained_nth[of "{}" "events h" i c] by (auto simp: corrections_ok_def)
    with less obtain x where "event_root h (Suc j) c = Some x" by fastforce
    then have "event_root h i c = Some x" by (rule event_root_mono) (use j in simp)
    then show ?thesis using f Some by (cases x) auto
  qed (use f in simp)
qed

lemma event_root_enough:
  assumes "corrections_ok h" and "r \<in> set (events h)"
  shows "\<exists>root n. root_of h (ev_entry r) = Some (root, n)"
proof -
  from assms(2) obtain i where i: "i < length (events h)" "events h ! i = r" by (auto simp: in_set_conv_nth)
  with event_root_index[OF assms(1) i(1)] obtain x where "event_root h (Suc i) (ev_entry r) = Some x" by auto
  from event_root_mono[OF this, of "length (events h)"] i(1) show ?thesis by (cases x) (auto simp: root_of_def)
qed

section \<open>The structural invariant\<close>

definition structure_ok :: "hub \<Rightarrow> bool" where
  "structure_ok h \<longleftrightarrow> foreign_keys_ok h \<and> unique_keys h \<and> corrections_ok h"

interpretation structure_stmt: step_invariant stmt structure_ok
  by unfold_locales (auto simp: structure_ok_def intro: stmt_fk stmt_keys stmt_corrections)

interpretation structure_prune: step_invariant prune_stmt structure_ok
  by unfold_locales (auto simp: structure_ok_def intro: prune_stmt_fk prune_stmt_keys prune_corrections)

end
