(* ===== verification/Accounting.thy ===== *)
theory Accounting
  imports Integrity
begin

text \<open>
  The accounting of sequence positions: in every scope each position below the counter is
  either a stored publication or inside a recorded pruned range, never both and never
  neither. This is what makes the gaps of a page trustworthy.
\<close>

section \<open>The invariant\<close>

definition positions :: "hub \<Rightarrow> string \<Rightarrow> int set" where
  "positions h s = pb_sequence ` {p \<in> set (publications h). pb_scope p = s}"

definition pruned_at :: "hub \<Rightarrow> string \<Rightarrow> int set" where
  "pruned_at h s = covered (scope_ranges h s)"

definition partitioned :: "hub \<Rightarrow> string \<Rightarrow> bool" where
  "partitioned h s \<longleftrightarrow> positions h s \<inter> pruned_at h s = {} \<and> positions h s \<union> pruned_at h s = {1..<next_of h s}"

text \<open>Every position up to a scope's low-water mark was pruned.\<close>

definition low_water_ok :: "hub \<Rightarrow> bool" where
  "low_water_ok h \<longleftrightarrow> (\<forall>r \<in> set (scopes h). {1..sc_low_water r} \<subseteq> pruned_at h (sc_id r))"

definition accounted :: "hub \<Rightarrow> bool" where
  "accounted h \<longleftrightarrow> separated h \<and> low_water_ok h \<and> (\<forall>s. 1 \<le> next_of h s \<and> partitioned h s)"

lemma accountedD:
  assumes "accounted h"
  shows "positions h s \<inter> pruned_at h s = {}" "positions h s \<union> pruned_at h s = {1..<next_of h s}" "1 \<le> next_of h s"
    "separated h" "low_water_ok h"
  using assms by (auto simp: accounted_def partitioned_def)

section \<open>Statements\<close>

text \<open>A statement that publishes nothing leaves publications, counters and ranges alone.\<close>

definition same_stream :: "hub \<Rightarrow> hub \<Rightarrow> bool" where
  "same_stream h h' \<longleftrightarrow> publications h' = publications h \<and> counters h' = counters h \<and> pruned_ranges h' = pruned_ranges h"

lemma same_stream_accounts:
  assumes "same_stream h h'"
  shows "positions h' s = positions h s" "pruned_at h' s = pruned_at h s" "next_of h' s = next_of h s"
    "separated h' = separated h" "partitioned h' s = partitioned h s"
  using assms by (simp_all add: same_stream_def positions_def pruned_at_def scope_ranges_def next_of_def find_counter_def
      separated_def partitioned_def)

lemma stmt_stream:
  assumes "stmt h h'"
  shows "same_stream h h' \<or> (\<exists>p h1. nextSequence (pb_scope p) h = Inr (pb_sequence p, h1) \<and> insert_publication p h1 = Inr h')"
  using assms
proof (cases rule: stmt.cases)
  case (publish p h1)
  then show ?thesis by blast
qed (auto simp: same_stream_def statement_defs change_role_def cast_vote_def retire_schema_def Let_def split: if_splits)

lemma stmt_scopes:
  assumes "stmt h h'"
  shows "scopes h' = scopes h \<or> (\<exists>r. insert_scope r h = Inr h' \<and> sc_low_water r = 0)"
  using assms
proof (cases rule: stmt.cases)
  case (publish p h1)
  then show ?thesis using nextSequence_frame by (fastforce simp: insert_publication_def)
next
  case (enrol_scope s)
  then show ?thesis by blast
qed (auto simp: statement_defs change_role_def cast_vote_def retire_schema_def Let_def split: if_splits)

lemma publish_accounted:
  assumes q: "nextSequence (pb_scope p) h = Inr (pb_sequence p, h1)" and i: "insert_publication p h1 = Inr h'"
    and a: "accounted h"
  shows "accounted h'"
proof -
  from q obtain cs where n: "pb_sequence p = next_of h (pb_scope p)" and h1: "h1 = h\<lparr>counters := cs\<rparr>"
    and up: "next_of h1 (pb_scope p) = pb_sequence p + 1" "\<And>s. s \<noteq> pb_scope p \<Longrightarrow> next_of h1 s = next_of h s"
    by (rule nextSequence_Inr) blast
  have h': "h' = h\<lparr>counters := cs, publications := publications h @ [p]\<rparr>"
    using i by (simp add: insert_publication_def h1)
  have nx: "next_of h' s = (if s = pb_scope p then pb_sequence p + 1 else next_of h s)" for s
    using up by (simp add: h' h1 next_of_def find_counter_def)
  have pr: "pruned_at h' s = pruned_at h s" for s by (simp add: h' pruned_at_def scope_ranges_def)
  have po: "positions h' s = (if s = pb_scope p then insert (pb_sequence p) (positions h s) else positions h s)" for s
    by (auto simp: h' positions_def)
  have "partitioned h' s" for s
  proof (cases "s = pb_scope p")
    case True
    have "pruned_at h s \<subseteq> {1..<next_of h s}" using accountedD(2)[OF a, of s] by blast
    then have "pb_sequence p \<notin> pruned_at h s" using n True by auto
    moreover have "insert (pb_sequence p) {1..<next_of h s} = {1..<pb_sequence p + 1}"
      using accountedD(3)[OF a, of s] n True by auto
    ultimately show ?thesis using accountedD(1,2)[OF a, of s] True
      by (auto simp: partitioned_def po pr nx)
  qed (use accountedD(1,2)[OF a, of s] in \<open>simp add: partitioned_def po pr nx\<close>)
  moreover have "1 \<le> next_of h' s" for s using accountedD(3)[OF a, of s] n by (auto simp: nx)
  moreover have "separated h'" using accountedD(4)[OF a] by (simp add: h' separated_def)
  moreover have "low_water_ok h'" using accountedD(5)[OF a] by (simp add: low_water_ok_def pr) (simp add: h')
  ultimately show ?thesis by (simp add: accounted_def)
qed

lemma stmt_accounted:
  assumes st: "stmt h h'" and a: "accounted h"
  shows "accounted h'"
  using stmt_stream[OF st]
proof
  assume same: "same_stream h h'"
  note eq = same_stream_accounts[OF same]
  have "low_water_ok h'"
    using stmt_scopes[OF st]
  proof
    assume "scopes h' = scopes h"
    then show ?thesis using accountedD(5)[OF a] by (simp add: low_water_ok_def eq)
  next
    assume "\<exists>r. insert_scope r h = Inr h' \<and> sc_low_water r = 0"
    then obtain r where "scopes h' = scopes h @ [r]" "sc_low_water r = 0" by (auto simp: insert_scope_def)
    then show ?thesis using accountedD(5)[OF a] by (simp add: low_water_ok_def eq)
  qed
  then show ?thesis using a by (simp add: accounted_def eq)
qed (use publish_accounted a in blast)

interpretation accounts_stmt: step_invariant stmt accounted
  by unfold_locales (rule stmt_accounted)

section \<open>Pruning\<close>

lemma entry_publication:
  assumes c: "pruneCandidates refs_bytes h cutoff = Inr (entries, hasMore)" and keys: "unique_keys h"
    and e: "e \<in> set entries"
  shows "\<exists>p \<in> set (publications h). pb_entry p = pe_id e \<and> pb_scope p = pe_scope e \<and> pb_sequence p = pe_sequence e
    \<and> (\<forall>q \<in> set (publications h). pb_entry q = pe_id e \<or> pb_scope q = pe_scope e \<and> pb_sequence q = pe_sequence e \<longrightarrow> q = p)"
proof -
  from pruneCandidates_Inr[OF c e] obtain p where p: "p \<in> set (publications h)" "pb_entry p = pe_id e"
    "pe_scope e = pb_scope p" "pe_sequence e = pb_sequence p" by metis
  have inj: "inj_on pb_entry (set (publications h))" "inj_on (\<lambda>p. (pb_scope p, pb_sequence p)) (set (publications h))"
    using keys by (simp_all add: unique_keys_def keys_messages_def distinct_map)
  have "q = p" if "q \<in> set (publications h)" "pb_entry q = pe_id e \<or> pb_scope q = pe_scope e \<and> pb_sequence q = pe_sequence e" for q
    using that inj_onD[OF inj(1), of q p] inj_onD[OF inj(2), of q p] p by auto
  then show ?thesis using p by (intro bexI[of _ p]) auto
qed

lemma prune_positions:
  assumes c: "pruneCandidates refs_bytes h cutoff = Inr (entries, hasMore)" and keys: "unique_keys h"
    and st: "pruned_state entries h h'"
  shows "positions h' s = positions h s - entry_positions entries s" "entry_positions entries s \<subseteq> positions h s"
proof -
  have pubs: "publications h' = filter (\<lambda>p. pb_entry p \<notin> pe_id ` set entries) (publications h)"
    using st by (auto simp: pruned_state_def)
  have iff: "pb_entry p \<in> pe_id ` set entries \<longleftrightarrow> pb_sequence p \<in> entry_positions entries (pb_scope p)"
    if p: "p \<in> set (publications h)" for p
  proof
    assume "pb_entry p \<in> pe_id ` set entries"
    then obtain e where e: "e \<in> set entries" "pb_entry p = pe_id e" by blast
    from entry_publication[OF c keys e(1)] p e(2) have "pb_scope p = pe_scope e" "pb_sequence p = pe_sequence e" by blast+
    with e(1) show "pb_sequence p \<in> entry_positions entries (pb_scope p)" by (simp add: entry_positions_def)
  next
    assume "pb_sequence p \<in> entry_positions entries (pb_scope p)"
    then obtain e where e: "e \<in> set entries" "pb_scope p = pe_scope e" "pb_sequence p = pe_sequence e"
      by (auto simp: entry_positions_def)
    from entry_publication[OF c keys e(1)] p e(2,3) have "pb_entry p = pe_id e" by blast
    with e(1) show "pb_entry p \<in> pe_id ` set entries" by simp
  qed
  show "positions h' s = positions h s - entry_positions entries s"
  proof (rule set_eqI)
    fix x
    have "x \<in> positions h' s \<longleftrightarrow> (\<exists>p \<in> set (publications h). pb_scope p = s \<and> pb_sequence p = x \<and> pb_entry p \<notin> pe_id ` set entries)"
      unfolding positions_def pubs by auto
    also have "\<dots> \<longleftrightarrow> (\<exists>p \<in> set (publications h). pb_scope p = s \<and> pb_sequence p = x \<and> x \<notin> entry_positions entries s)"
      using iff by (intro bex_cong) auto
    also have "\<dots> \<longleftrightarrow> x \<in> positions h s - entry_positions entries s" unfolding positions_def by auto
    finally show "x \<in> positions h' s \<longleftrightarrow> x \<in> positions h s - entry_positions entries s" .
  qed
  show "entry_positions entries s \<subseteq> positions h s"
  proof
    fix x assume "x \<in> entry_positions entries s"
    then obtain e where "e \<in> set entries" "pe_scope e = s" "pe_sequence e = x" by (auto simp: entry_positions_def)
    with entry_publication[OF c keys] obtain p where "p \<in> set (publications h)" "pb_scope p = s" "pb_sequence p = x" by blast
    then show "x \<in> positions h s" by (auto simp: positions_def)
  qed
qed

text \<open>Raising the low-water mark never passes a position that is still stored.\<close>

lemma low_water_target_covered:
  assumes n: "low_water_target h s = Some n" and part: "{1..<next_of h s} \<subseteq> positions h s \<union> X"
    and below: "positions h s \<subseteq> {..<next_of h s}"
  shows "{1..n} \<subseteq> X"
proof -
  have pos: "set (map pb_sequence (filter (\<lambda>p. pb_scope p = s) (publications h))) = positions h s"
    by (auto simp: positions_def)
  show ?thesis
  proof (cases "positions h s = {}")
    case True
    then have "filter (\<lambda>p. pb_scope p = s) (publications h) = []" by (auto simp: positions_def filter_empty_conv)
    with n have "n = next_of h s - 1"
      by (auto simp: low_water_target_def Let_def next_of_def find_counter_def)
    then show ?thesis using part True by auto
  next
    case False
    then have "filter (\<lambda>p. pb_scope p = s) (publications h) \<noteq> []" by (auto simp: positions_def filter_empty_conv)
    with n pos have m: "n = Min (positions h s) - 1" by (auto simp: low_water_target_def Let_def)
    have fin: "finite (positions h s)" by (simp add: positions_def)
    then have "Min (positions h s) < next_of h s" using Min_in[OF fin False] below by blast
    moreover have "x \<notin> positions h s" if "x \<le> n" for x using Min_le[OF fin, of x] that m by auto
    ultimately show ?thesis using part m by fastforce
  qed
qed

lemma fold_low_water:
  assumes "\<And>s. {1..<next_of h s} \<subseteq> positions h s \<union> X s" and "\<And>s. positions h s \<subseteq> {..<next_of h s}"
    and "\<forall>r \<in> set (scopes h). {1..sc_low_water r} \<subseteq> X (sc_id r)"
  shows "\<forall>r \<in> set (scopes (fold raise_low_water cs h)). {1..sc_low_water r} \<subseteq> X (sc_id r)"
  using assms
proof (induction cs arbitrary: h)
  case (Cons c cs)
  obtain ss where s: "raise_low_water c h = h\<lparr>scopes := ss\<rparr>" using raise_low_water_frame by blast
  have same: "next_of (raise_low_water c h) t = next_of h t" "positions (raise_low_water c h) t = positions h t" for t
    by (simp_all add: s next_of_def find_counter_def positions_def)
  have "\<forall>r \<in> set (scopes (raise_low_water c h)). {1..sc_low_water r} \<subseteq> X (sc_id r)"
  proof (cases "low_water_target h (ps_ScopeID c)")
    case None
    then show ?thesis using Cons.prems(3) by (simp add: raise_low_water_def)
  next
    case (Some n)
    have "{1..n} \<subseteq> X (ps_ScopeID c)"
      by (rule low_water_target_covered[OF Some Cons.prems(1,2)])
    then show ?thesis using Cons.prems(3) Some by (simp add: raise_low_water_def ball_update)
  qed
  with Cons.IH[of "raise_low_water c h"] Cons.prems(1,2) show ?case by (simp add: same)
qed simp

lemma pruneHub_accounted:
  assumes run: "pruneHub_body refs_bytes digest cutoff plan backup rid h now = Inr (out, h')"
    and keys: "unique_keys h" and a: "accounted h"
  shows "accounted h'"
  using run accountedD(4)[OF a]
proof (rule pruneHub_Inr)
  fix entries hasMore
  assume c: "pruneCandidates refs_bytes h (unixMilli cutoff) = Inr (entries, hasMore)" and st: "pruned_state entries h h'"
    and sep: "separated h'" and cov: "\<And>s. covered (scope_ranges h' s) = covered (scope_ranges h s) \<union> entry_positions entries s"
    and low: "\<exists>h2 scs. publications h2 = publications h' \<and> counters h2 = counters h' \<and> scopes h2 = scopes h
       \<and> scopes h' = scopes (fold raise_low_water scs h2)"
  note pos = prune_positions[OF c keys st]
  have nx: "next_of h' s = next_of h s" for s using st by (auto simp: pruned_state_def next_of_def find_counter_def)
  have pr: "pruned_at h' s = pruned_at h s \<union> entry_positions entries s" for s by (simp add: pruned_at_def cov)
  have part: "partitioned h' s" for s
    using accountedD(1,2)[OF a, of s] pos[of s] by (auto simp: partitioned_def pr nx)
  have "low_water_ok h'"
  proof -
    from low obtain h2 scs where h2: "publications h2 = publications h'" "counters h2 = counters h'" "scopes h2 = scopes h"
      and s': "scopes h' = scopes (fold raise_low_water scs h2)" by blast
    have eq: "next_of h2 s = next_of h' s" "positions h2 s = positions h' s" for s
      using h2 by (simp_all add: next_of_def find_counter_def positions_def)
    have p: "positions h' s \<union> pruned_at h' s = {1..<next_of h' s}" for s using part by (simp add: partitioned_def)
    have "{1..<next_of h2 s} \<subseteq> positions h2 s \<union> pruned_at h' s" for s using p[of s] by (simp add: eq)
    moreover have "positions h2 s \<subseteq> {..<next_of h2 s}" for s using p[of s] by (auto simp: eq)
    moreover have "\<forall>r \<in> set (scopes h2). {1..sc_low_water r} \<subseteq> pruned_at h' (sc_id r)"
      using accountedD(5)[OF a] by (auto simp: low_water_ok_def h2 pr)
    ultimately show ?thesis unfolding low_water_ok_def s' by (rule fold_low_water)
  qed
  with sep part accountedD(3)[OF a] show ?thesis by (simp add: accounted_def nx)
qed

section \<open>Pages of an accounted database\<close>

text \<open>Gaps that name no position unavailable and call only pruned positions pruned.\<close>

definition truthful :: "int set \<Rightarrow> gap list \<Rightarrow> bool" where
  "truthful P gs \<longleftrightarrow> (\<forall>g \<in> set gs. gp_Reason g \<noteq> ''unavailable''
     \<and> (gp_Reason g = ''pruned'' \<longrightarrow> {gp_From g..gp_To g} \<subseteq> P))"

lemma truthful_simps [simp]:
  "truthful P []"
  "truthful P (gs @ gs') \<longleftrightarrow> truthful P gs \<and> truthful P gs'"
  by (auto simp: truthful_def)

lemma addGap_truthful:
  assumes "truthful P gs" and "reason \<noteq> ''unavailable''" and "reason = ''pruned'' \<longrightarrow> {from..to} \<subseteq> P"
  shows "truthful P (addGap gs from to reason)"
proof (cases "gs \<noteq> [] \<and> gp_Reason (last gs) = reason \<and> gp_To (last gs) + 1 = from")
  case True
  then obtain hs g where gs: "gs = hs @ [g]" by (metis append_butlast_last_id)
  have split: "{gp_From g..to} \<subseteq> {gp_From g..gp_To g} \<union> {from..to}" using True by (auto simp: gs)
  have "truthful P hs" "gp_Reason g = ''pruned'' \<longrightarrow> {gp_From g..gp_To g} \<subseteq> P" "gp_Reason g = reason"
    using assms(1) True by (auto simp: gs truthful_def)
  then have "truthful P [g\<lparr>gp_To := to\<rparr>]" using split assms(2,3) by (auto simp: truthful_def)
  with \<open>truthful P hs\<close> show ?thesis using True assms(1) by (simp add: addGap_def gs)
qed (use assms in \<open>auto simp: addGap_def truthful_def\<close>)

lemma missing_loop_truthful:
  assumes "missing_loop rs gs from to = (gs', from')" and "truthful P gs" and "covered rs \<subseteq> P" and "{from..to} \<subseteq> covered rs"
    and "sorted_wrt (\<lambda>r s. pr_to r < pr_from s) rs"
    and "\<forall>r \<in> set rs. pr_from r \<le> pr_to r \<and> from \<le> pr_to r \<and> pr_from r \<le> to"
  shows "truthful P gs' \<and> to < from'"
  using assms
proof (induction rs gs "from" to rule: missing_loop.induct)
  case (1 g "from" to)
  have "to < from"
  proof (rule ccontr)
    assume "\<not> to < from"
    then have "from \<in> {from..to}" by simp
    with "1.prems"(4) show False by simp
  qed
  with "1.prems" show ?case by simp
next
  case (2 r rs gs "from" to)
  define fin where "fin = (if pr_to r > to then to else pr_to r)"
  have start: "pr_from r \<le> from"
  proof (rule ccontr)
    assume later: "\<not> pr_from r \<le> from"
    then have "from \<le> to" using "2.prems"(6) by auto
    then have "from \<in> covered (r # rs)" using "2.prems"(4) by auto
    then obtain s where "s \<in> set (r # rs)" "pr_from s \<le> from" by (auto simp: in_covered)
    then show False using later "2.prems"(5,6) by fastforce
  qed
  have run: "missing_loop rs (addGap gs from fin ''pruned'') (fin + 1) to = (gs', from')"
    using "2.prems"(1) start by (simp add: fin_def Let_def split: if_splits)
  have "{from..fin} \<subseteq> P" using "2.prems"(3) start by (auto simp: fin_def split: if_splits)
  then have g: "truthful P (addGap gs from fin ''pruned'')"
    using "2.prems"(2) by (intro addGap_truthful) auto
  have rest: "{fin + 1..to} \<subseteq> covered rs"
  proof
    fix x assume x: "x \<in> {fin + 1..to}"
    then have "fin = pr_to r" by (auto simp: fin_def split: if_splits)
    moreover have "from \<le> fin + 1" using "2.prems"(6) \<open>fin = pr_to r\<close> by auto
    ultimately have "x \<in> {from..to}" using x by auto
    then have "x \<in> covered (r # rs)" using "2.prems"(4) by blast
    then show "x \<in> covered rs" using x by (auto simp: fin_def split: if_splits)
  qed
  have "\<forall>s \<in> set rs. pr_from s \<le> pr_to s \<and> fin + 1 \<le> pr_to s \<and> pr_from s \<le> to"
    using "2.prems"(5,6) by (fastforce simp: fin_def)
  then show ?case
    using "2.IH"[of gs "from" fin] run g "2.prems"(3,5) rest start by (simp add: fin_def)
qed

lemma addMissingGaps_truthful:
  assumes "truthful (pruned_at h scope) gs" and "separated h" and "{from..to} \<subseteq> pruned_at h scope"
  shows "truthful (pruned_at h scope) (addMissingGaps h scope gs from to)"
proof (cases "from > to")
  case True
  then show ?thesis using assms(1) by (simp add: addMissingGaps_def)
next
  case False
  obtain gs' from' where run: "missing_loop (ranges_between h scope from to) gs from to = (gs', from')" by fastforce
  note sorted = ranges_between_sorted[OF separated_ranges_ok[OF assms(2)], of scope "from" to]
  have "covered (ranges_between h scope from to) \<subseteq> pruned_at h scope"
    by (auto simp: pruned_at_def ranges_between_def scope_ranges_def in_covered)
  moreover have "{from..to} \<subseteq> covered (ranges_between h scope from to)"
  proof
    fix x assume x: "x \<in> {from..to}"
    then have "x \<in> pruned_at h scope" using assms(3) by blast
    then obtain r where "r \<in> set (pruned_ranges h)" "pr_scope r = scope" "pr_from r \<le> x" "x \<le> pr_to r"
      by (auto simp: pruned_at_def scope_ranges_def in_covered)
    with x show "x \<in> covered (ranges_between h scope from to)" by (auto simp: in_covered ranges_between_def)
  qed
  ultimately have "truthful (pruned_at h scope) gs' \<and> to < from'"
    using missing_loop_truthful[OF run assms(1) _ _ sorted] by blast
  then show ?thesis using False run by (simp add: addMissingGaps_def)
qed

text \<open>The reasons a scanned row can have.\<close>

lemma pull_reason_cases: "pull_reason s asOf p t e \<in> {'''', ''filtered'', ''archived'', ''expired''}"
  by (simp add: pull_reason_def)

lemma pull_rows_truthful:
  assumes "pull_rows h s scope asOf rows gaps position sel = Inr (gaps', position', sel')"
    and "truthful (pruned_at h scope) gaps" and "separated h"
    and "sorted_wrt (<) (position # map (pb_sequence \<circ> fst) rows)"
    and "\<forall>x. position < x \<and> x \<le> final \<longrightarrow> x \<in> pruned_at h scope \<or> x \<in> (pb_sequence \<circ> fst) ` set rows"
    and "\<forall>x \<in> set rows. pb_sequence (fst x) \<le> final"
  shows "truthful (pruned_at h scope) gaps' \<and> (\<forall>x. position' < x \<and> x \<le> final \<longrightarrow> x \<in> pruned_at h scope)"
  using assms
proof (induction h s scope asOf rows gaps position sel arbitrary: gaps' position' sel' rule: pull_rows.induct)
  case (2 h s scope asOf p t rows gaps position sel)
  let ?s = "pb_sequence p" and ?P = "pruned_at h scope"
  define gaps1 where "gaps1 = (if pb_sequence p > position + 1
                    then addMissingGaps h scope gaps (position + 1) (pb_sequence p - 1) else gaps)"
  define reason where "reason = pull_reason s asOf p t (find_event h (pb_entry p))"
  from 2(3) obtain u where u: "scanPublication p = Inr u" by auto
  have step: "(if reason \<noteq> ''''
      then pull_rows h s scope asOf rows (addGap gaps1 ?s ?s reason) ?s sel
      else pull_rows h s scope asOf rows gaps1 ?s (sel @ [p])) = Inr (gaps', position', sel')"
    using 2(3)[unfolded pull_rows.simps u bindE_simps Let_def] unfolding gaps1_def reason_def .
  have rows: "sorted_wrt (<) (?s # map (pb_sequence \<circ> fst) rows)" using 2(6) by (simp add: comp_def)
  have final: "?s \<le> final" "\<forall>x \<in> set rows. pb_sequence (fst x) \<le> final" using 2(8) by auto
  have tail: "\<forall>x \<in> set rows. ?s < pb_sequence (fst x)" using rows by auto
  have before: "x \<in> ?P" if "position < x" "x < ?s" for x
    using 2(7)[rule_format, of x] that final(1) tail by auto
  have "{position + 1..?s - 1} \<subseteq> ?P" using before by auto
  then have g1: "truthful ?P gaps1" using 2(4,5) by (simp add: gaps1_def addMissingGaps_truthful)
  have lt: "position < ?s" using 2(6) by simp
  have after: "\<forall>x. ?s < x \<and> x \<le> final \<longrightarrow> x \<in> ?P \<or> x \<in> (pb_sequence \<circ> fst) ` set rows"
  proof (intro allI impI)
    fix x assume x: "?s < x \<and> x \<le> final"
    with 2(7)[rule_format, of x] lt show "x \<in> ?P \<or> x \<in> (pb_sequence \<circ> fst) ` set rows" by auto
  qed
  have r: "reason \<in> {'''', ''filtered'', ''archived'', ''expired''}" unfolding reason_def by (rule pull_reason_cases)
  have g2: "truthful ?P (addGap gaps1 ?s ?s reason)"
    by (rule addGap_truthful[OF g1]) (use r in auto)
  show ?case
  proof (cases "reason = ''''")
    case True
    show ?thesis
      by (rule 2(2)[OF u gaps1_def reason_def]) (use True step g1 2(5) rows after final in \<open>simp_all add: comp_def\<close>)
  next
    case False
    show ?thesis
      by (rule 2(1)[OF u gaps1_def reason_def]) (use False step g2 2(5) rows after final in \<open>simp_all add: comp_def\<close>)
  qed
qed auto

text \<open>With the foreign keys in place, a scan misses no stored publication.\<close>

lemma publications_after_all:
  assumes "foreign_keys_ok h" and "x \<in> positions h scope" and "position < x"
  shows "x \<in> (pb_sequence \<circ> fst) ` set (publications_after h scope position)"
proof -
  from assms(2) obtain p where p: "p \<in> set (publications h)" "pb_scope p = scope" "pb_sequence p = x"
    by (auto simp: positions_def)
  then have "topic_in_scope h scope (pb_topic p)" using assms(1) by (auto simp: foreign_keys_ok_def fk_messages_def)
  then have "List.find (\<lambda>t. tp_id t = pb_topic p) (topics h) \<noteq> None"
    by (auto simp: topic_in_scope_def find_None_iff)
  then obtain t where "List.find (\<lambda>t. tp_id t = pb_topic p) (topics h) = Some t" by blast
  then have "(p, t) \<in> set (publications_after h scope position)"
    using p assms(3) by (auto simp: publications_after_def map_filter_set intro!: bexI[of _ p])
  then show ?thesis using p(3) by force
qed

lemma pull_positions_truthful:
  assumes run: "pull_positions h s scope asOf gaps start stop = Inr (gaps', sel)"
    and t: "truthful (pruned_at h scope) gaps" and a: "accounted h" and fk: "foreign_keys_ok h" and keys: "unique_keys h"
    and le: "start \<le> stop" and high: "start < stop \<longrightarrow> 0 \<le> start \<and> stop < next_of h scope"
  shows "truthful (pruned_at h scope) gaps'"
proof (cases "stop > start")
  case False
  with run t show ?thesis by (auto simp: pull_positions_def)
next
  case True
  let ?rows = "filter (\<lambda>(p, t). pb_sequence p \<le> stop) (publications_after h scope start)"
  from run True obtain g1 position where
    rows: "pull_rows h s scope asOf ?rows gaps start [] = Inr (g1, position, sel)"
    and g': "gaps' = (if position < stop then addMissingGaps h scope g1 (position + 1) stop else g1)"
    by (auto simp: pull_positions_def)
  have dist: "distinct (map (\<lambda>p. (pb_scope p, pb_sequence p)) (publications h))"
    using keys by (simp add: unique_keys_def keys_messages_def)
  note after = publications_after_sorted[OF dist, of scope start]
  have "sorted_wrt (<) (map (pb_sequence \<circ> fst) ?rows)"
    using after(1) by (simp add: sorted_wrt_map sorted_wrt_filter)
  moreover have "\<forall>x \<in> set ?rows. start < pb_sequence (fst x)" using after(2) by fastforce
  ultimately have sorted: "sorted_wrt (<) (start # map (pb_sequence \<circ> fst) ?rows)" by auto
  have cover: "\<forall>x. start < x \<and> x \<le> stop \<longrightarrow> x \<in> pruned_at h scope \<or> x \<in> (pb_sequence \<circ> fst) ` set ?rows"
  proof (intro allI impI)
    fix x assume x: "start < x \<and> x \<le> stop"
    then have "x \<in> {1..<next_of h scope}" using high True by auto
    then consider "x \<in> positions h scope" | "x \<in> pruned_at h scope" using accountedD(2)[OF a, of scope] by blast
    then show "x \<in> pruned_at h scope \<or> x \<in> (pb_sequence \<circ> fst) ` set ?rows"
      using publications_after_all[OF fk, of x scope start] x by cases (force, blast)
  qed
  have "\<forall>x \<in> set ?rows. pb_sequence (fst x) \<le> stop" by (auto split: prod.splits)
  from pull_rows_truthful[OF rows t accountedD(4)[OF a] sorted cover this]
  have "truthful (pruned_at h scope) g1" "{position + 1..stop} \<subseteq> pruned_at h scope" by auto
  then show ?thesis using accountedD(4)[OF a] by (simp add: g' addMissingGaps_truthful)
qed

lemma Pull_truthful:
  assumes run: "Pull cc d os path consumerID sid limit clk h = Inr page"
    and a: "accounted h" and fk: "foreign_keys_ok h" and keys: "unique_keys h" and ack: "0 \<le> pg_PriorAcknowledged page"
  shows "truthful (pruned_at h (pg_ScopeID page)) (pg_Gaps page)"
  using run
proof (rule Pull_Inr)
  fix sco secret s low gaps0 start sel
  assume lim: "1 \<le> limit" and sc: "pg_ScopeID page = scope_ID sco"
    and prior: "pg_PriorAcknowledged page = su_AcknowledgedSequence s"
    and hw: "pg_HighWater page = next_of h (scope_ID sco) - 1"
    and g: "pull_start_gaps (su_AcknowledgedSequence s) low = (gaps0, start)"
    and stop: "pg_NextScanPosition page = page_end start (pg_HighWater page) limit"
    and pos: "pull_positions h s (scope_ID sco) (unixMilli clk) gaps0 start (pg_NextScanPosition page) = Inr (pg_Gaps page, sel)"
    and low: "\<exists>r \<in> set (scopes h). sc_id r = scope_ID sco \<and> sc_low_water r = low"
  have "{1..low} \<subseteq> pruned_at h (scope_ID sco)" using low accountedD(5)[OF a] unfolding low_water_ok_def by metis
  then have t: "truthful (pruned_at h (scope_ID sco)) gaps0" and s0: "0 \<le> start"
    using g ack prior by (auto simp: pull_start_gaps_def subset_iff intro!: addGap_truthful split: if_splits)
  show ?thesis unfolding sc
    by (rule pull_positions_truthful[OF pos t a fk keys]) (use s0 lim in \<open>auto simp: stop hw page_end_def\<close>)
qed

end
