(* ===== verification/History.thy ===== *)
theory History
  imports Accounting "HOL-Library.Sublist"
begin

text \<open>
  What only ever grows: the audit log, the topics and their policy generations, the lease
  generations, the consumers' cursors, the low-water marks, the retention epoch and the
  sequence counters. Each is a preorder on database states that every statement goes up.
\<close>

section \<open>Lists that grow\<close>

text \<open>The old rows are still there, in order, each related to what it was; new rows follow.\<close>

definition grows :: "('r \<Rightarrow> 'r \<Rightarrow> bool) \<Rightarrow> 'r list \<Rightarrow> 'r list \<Rightarrow> bool" where
  "grows rel xs ys \<longleftrightarrow> length xs \<le> length ys \<and> list_all2 rel xs (take (length xs) ys)"

lemma grows_nth: "grows rel xs ys \<longleftrightarrow> length xs \<le> length ys \<and> (\<forall>i < length xs. rel (xs ! i) (ys ! i))"
  by (auto simp: grows_def list_all2_conv_all_nth)

lemma grows_refl: "(\<And>r. rel r r) \<Longrightarrow> grows rel xs xs"
  by (simp add: grows_nth)

lemma grows_append: "(\<And>r. rel r r) \<Longrightarrow> grows rel xs (xs @ ys)"
  by (simp add: grows_nth nth_append)

lemma grows_update: "(\<And>r. rel r r) \<Longrightarrow> (\<And>r. P r \<Longrightarrow> rel r (f r)) \<Longrightarrow> grows rel xs (update_where P f xs)"
  by (auto simp: grows_nth update_where_def)

lemma grows_trans:
  assumes "\<And>a b c. rel a b \<Longrightarrow> rel b c \<Longrightarrow> rel a c" and "grows rel xs ys" and "grows rel ys zs"
  shows "grows rel xs zs"
  using assms(2,3) unfolding grows_nth by (metis assms(1) order_less_le_trans order_trans)

lemma grows_member:
  assumes "grows rel xs ys" and "x \<in> set xs"
  shows "\<exists>y \<in> set ys. rel x y"
proof -
  from assms(2) obtain i where "i < length xs" "xs ! i = x" by (auto simp: in_set_conv_nth)
  with assms(1) have "rel x (ys ! i)" "i < length ys" by (auto simp: grows_nth)
  then show ?thesis by (auto intro: bexI[of _ "ys ! i"])
qed

section \<open>Relations on rows\<close>

definition same_cursor :: "subscription_row \<Rightarrow> subscription_row \<Rightarrow> bool" where
  "same_cursor r r' \<longleftrightarrow> sb_id r' = sb_id r \<and> sb_consumer r' = sb_consumer r \<and> sb_scope r' = sb_scope r
     \<and> sb_kinds r' = sb_kinds r \<and> sb_types r' = sb_types r \<and> sb_ack r \<le> sb_ack r'"

definition same_scope :: "scope_row \<Rightarrow> scope_row \<Rightarrow> bool" where
  "same_scope r r' \<longleftrightarrow> sc_id r' = sc_id r \<and> sc_kind r' = sc_kind r \<and> sc_enrolled_at r' = sc_enrolled_at r
     \<and> sc_low_water r \<le> sc_low_water r'"

lemmas same_defs = same_topic_def same_lease_def same_cursor_def same_scope_def

section \<open>The history order\<close>

definition history :: "hub \<Rightarrow> hub \<Rightarrow> bool" where
  "history h h' \<longleftrightarrow> prefix (actors h) (actors h') \<and> prefix (audits h) (audits h') \<and> grows same_topic (topics h) (topics h')
     \<and> grows same_lease (leases h) (leases h') \<and> grows same_cursor (subscriptions h) (subscriptions h')
     \<and> grows same_scope (scopes h) (scopes h') \<and> retention_epoch h \<le> retention_epoch h'"

lemma history_refl: "history h h"
  by (simp add: history_def grows_refl same_defs)

lemma history_trans: "history a b \<Longrightarrow> history b c \<Longrightarrow> history a c"
  unfolding history_def
  by (intro conjI; elim conjE; (erule prefix_order.trans grows_trans[rotated] order_trans)?)
    (auto simp: same_defs)

text \<open>What a statement does not write it leaves equal; the other columns of a row move one way.\<close>

lemma stmt_history:
  assumes "stmt h h'"
  shows "history h h'"
  using assms
proof (cases rule: stmt.cases)
  case (publish p h1)
  then obtain cs where "h1 = h\<lparr>counters := cs\<rparr>" using nextSequence_frame by blast
  with publish(2) have "actors h' = actors h" "audits h' = audits h" "topics h' = topics h" "leases h' = leases h"
    "subscriptions h' = subscriptions h" "scopes h' = scopes h" "retention_epoch h' = retention_epoch h"
    by (auto simp: insert_publication_def)
  then show ?thesis by (simp add: history_def grows_refl same_defs)
next
  case (change_topic tid f)
  then have "h' = h\<lparr>topics := update_where (\<lambda>r. tp_id r = tid) f (topics h)\<rparr>" by (simp add: update_topic_def Let_def)
  moreover have "grows same_topic (topics h) (update_where (\<lambda>r. tp_id r = tid) f (topics h))"
    by (rule grows_update) (use change_topic(2) in \<open>auto simp: same_topic_def\<close>)
  ultimately show ?thesis by (simp add: history_def grows_refl same_defs)
next
  case (change_lease P f)
  then have "h' = h\<lparr>leases := update_where P f (leases h)\<rparr>" by (simp add: update_lease_def)
  moreover have "grows same_lease (leases h) (update_where P f (leases h))"
    by (rule grows_update) (use change_lease(2) in \<open>auto simp: same_lease_def\<close>)
  ultimately show ?thesis by (simp add: history_def grows_refl same_defs)
next
  case (move_cursor prior n sid)
  have "grows same_cursor (subscriptions h) (update_where (at_cursor sid prior) (\<lambda>r. r\<lparr>sb_ack := n\<rparr>) (subscriptions h))"
    by (rule grows_update) (use move_cursor(2) in \<open>auto simp: same_cursor_def at_cursor_def\<close>)
  then show ?thesis by (simp add: move_cursor(1) history_def grows_refl same_defs)
next
  case (end_subscription sid now)
  have "grows same_cursor (subscriptions h)
      (update_where (\<lambda>s. sb_id s = sid) (\<lambda>s. s\<lparr>sb_removed_at := Some now\<rparr>) (subscriptions h))"
    by (rule grows_update) (auto simp: same_cursor_def)
  then show ?thesis by (simp add: end_subscription history_def grows_refl same_defs)
next
  case (pin pn mid v)
  then show ?thesis
    by (simp add: insert_pin_def update_head_pinned_def history_def grows_refl same_defs)
next
  case (change_maintainer tid a grant)
  then show ?thesis
    by (auto simp: change_role_def insert_role_def Let_def history_def grows_refl same_defs split: if_splits)
next
  case (vote mid n a v)
  then show ?thesis
    by (auto simp: cast_vote_def upsert_vote_def Let_def history_def grows_refl same_defs split: if_splits)
qed (auto simp: statement_defs retire_schema_def Let_def history_def grows_refl grows_append same_defs)

lemma prune_stmt_history:
  assumes "prune_stmt h h'"
  shows "history h h'"
  using assms
proof (cases rule: prune_stmt.cases)
  case (low_water s)
  have "grows same_scope (scopes h) (scopes h')"
    unfolding low_water raise_low_water_def
    by (cases "low_water_target h (ps_ScopeID s)")
      (auto simp: grows_refl same_scope_def intro!: grows_update)
  moreover obtain ss where "h' = h\<lparr>scopes := ss\<rparr>" using raise_low_water_frame low_water by blast
  ultimately show ?thesis by (simp add: history_def grows_refl same_defs)
next
  case (record_range s a b pid)
  then show ?thesis by (elim mergePrunedRange_Inr) (simp add: history_def grows_refl same_defs)
next
  case (drop_head m)
  then show ?thesis by (auto simp: delete_head_def history_def grows_refl same_defs split: if_splits)
next
  case (drop_publication e)
  then show ?thesis
    by (auto simp: delete_publication_def delete_guard_Inr history_def grows_refl same_defs split: if_splits)
qed (auto simp: insert_pruned_idem_def delete_idem_def delete_votes_of_def delete_pins_of_def delete_revision_def
      delete_event_def insert_prune_audit_def delete_guard_Inr Let_def history_def grows_refl same_defs)

interpretation history_stmt: step_order stmt history
  by unfold_locales (auto intro: history_refl history_trans stmt_history)

interpretation history_prune: step_order prune_stmt history
  by unfold_locales (auto intro: history_refl history_trans prune_stmt_history)

section \<open>Sequences\<close>

text \<open>Counters do not fall, and what is new carries a sequence the old counter had not given out.\<close>

definition fresh_sequences :: "hub \<Rightarrow> hub \<Rightarrow> bool" where
  "fresh_sequences h h' \<longleftrightarrow> (\<forall>s. next_of h s \<le> next_of h' s)
     \<and> (\<forall>p \<in> set (publications h') - set (publications h). next_of h (pb_scope p) \<le> pb_sequence p)"

lemma fresh_sequences_trans:
  assumes "fresh_sequences a b" and "fresh_sequences b c"
  shows "fresh_sequences a c"
proof -
  have "next_of a (pb_scope p) \<le> pb_sequence p" if p: "p \<in> set (publications c)" "p \<notin> set (publications a)" for p
  proof (cases "p \<in> set (publications b)")
    case True
    then show ?thesis using assms(1) p(2) by (simp add: fresh_sequences_def)
  next
    case False
    then have "next_of b (pb_scope p) \<le> pb_sequence p" using assms(2) p(1) by (simp add: fresh_sequences_def)
    moreover have "next_of a (pb_scope p) \<le> next_of b (pb_scope p)" using assms(1) by (simp add: fresh_sequences_def)
    ultimately show ?thesis by simp
  qed
  then show ?thesis using assms unfolding fresh_sequences_def by (meson Diff_iff order_trans)
qed

lemma stmt_fresh:
  assumes "stmt h h'"
  shows "fresh_sequences h h'"
  using stmt_stream[OF assms]
proof
  assume "same_stream h h'"
  then show ?thesis by (simp add: fresh_sequences_def same_stream_def next_of_def find_counter_def)
next
  assume "\<exists>p h1. nextSequence (pb_scope p) h = Inr (pb_sequence p, h1) \<and> insert_publication p h1 = Inr h'"
  then obtain p h1 where q: "nextSequence (pb_scope p) h = Inr (pb_sequence p, h1)" and i: "insert_publication p h1 = Inr h'"
    by blast
  from q obtain cs where n: "pb_sequence p = next_of h (pb_scope p)" and h1: "h1 = h\<lparr>counters := cs\<rparr>"
    and up: "next_of h1 (pb_scope p) = pb_sequence p + 1" "\<And>s. s \<noteq> pb_scope p \<Longrightarrow> next_of h1 s = next_of h s"
    by (rule nextSequence_Inr) blast
  have h': "h' = h\<lparr>counters := cs, publications := publications h @ [p]\<rparr>"
    using i by (simp add: insert_publication_def h1)
  have nx: "next_of h' s = (if s = pb_scope p then pb_sequence p + 1 else next_of h s)" for s
    using up by (simp add: h' h1 next_of_def find_counter_def)
  show ?thesis using n by (auto simp: fresh_sequences_def nx) (auto simp: h')
qed

lemma fresh_sequences_refl: "fresh_sequences h h"
  by (simp add: fresh_sequences_def)

interpretation fresh_stmt: step_order stmt fresh_sequences
  by unfold_locales (auto intro: fresh_sequences_refl fresh_sequences_trans stmt_fresh)

section \<open>What only a prune may take away\<close>

text \<open>Publications, revisions, events, schemas and keys are immutable and kept.\<close>

definition retained :: "hub \<Rightarrow> hub \<Rightarrow> bool" where
  "retained h h' \<longleftrightarrow> prefix (publications h) (publications h') \<and> prefix (revisions h) (revisions h')
     \<and> prefix (events h) (events h') \<and> prefix (idems h) (idems h') \<and> prefix (pins h) (pins h')
     \<and> prefix (map schema_key (schemas h)) (map schema_key (schemas h'))
     \<and> pruned_ranges h' = pruned_ranges h \<and> pruned_idems h' = pruned_idems h
     \<and> retention_enabled h' = retention_enabled h \<and> retention_epoch h' = retention_epoch h"

lemma retained_refl: "retained h h"
  by (simp add: retained_def)

lemma retained_trans: "retained a b \<Longrightarrow> retained b c \<Longrightarrow> retained a c"
  unfolding retained_def by (intro conjI; elim conjE; (erule (1) prefix_order.trans | simp))

lemma stmt_retained:
  assumes "stmt h h'"
  shows "retained h h'"
  using assms
proof (cases rule: stmt.cases)
  case (publish p h1)
  then obtain cs where "h1 = h\<lparr>counters := cs\<rparr>" using nextSequence_frame by blast
  with publish(2) have "h' = h\<lparr>counters := cs, publications := publications h @ [p]\<rparr>" by (simp add: insert_publication_def)
  then show ?thesis by (simp add: retained_def)
next
  case (pin pn mid v)
  then show ?thesis by (simp add: insert_pin_def update_head_pinned_def retained_def)
next
  case (change_maintainer tid a grant)
  then show ?thesis by (auto simp: change_role_def insert_role_def Let_def retained_def split: if_splits)
next
  case (vote mid n a v)
  then show ?thesis by (auto simp: cast_vote_def upsert_vote_def Let_def retained_def split: if_splits)
next
  case (old_schema k a now)
  then show ?thesis by (auto simp: retire_schema_def retained_def map_update_where schema_key_def)
qed (auto simp: statement_defs Let_def retained_def)

interpretation retained_stmt: step_order stmt retained
  by unfold_locales (auto intro: retained_refl retained_trans stmt_retained)

end
