(* ===== verification/Typing.thy ===== *)
theory Typing
  imports Integrity
begin

text \<open>
  The \<open>CHECK\<close> clauses of the schema as a typing of the rows, and that every statement keeps it.
\<close>

section \<open>Well-typed rows\<close>

definition checks_scopes :: "hub \<Rightarrow> bool" where
  "checks_scopes h \<longleftrightarrow>
     (\<forall>s \<in> set (scopes h). sc_kind s \<in> {''git'', ''global''} \<and> 0 \<le> sc_low_water s)
   \<and> (\<forall>c \<in> set (counters h). 0 < ct_next c)"

definition checks_topics :: "hub \<Rightarrow> bool" where
  "checks_topics h \<longleftrightarrow>
     (\<forall>t \<in> set (topics h). 0 < tp_generation t \<and> archive_columns_ok t)
   \<and> (\<forall>r \<in> set (roles h). rl_role r = ''maintainer'')
   \<and> (\<forall>l \<in> set (leases h). lease_columns_ok l)"

definition checks_messages :: "hub \<Rightarrow> bool" where
  "checks_messages h \<longleftrightarrow>
     (\<forall>p \<in> set (publications h). pb_kind p \<in> {''message'', ''event''} \<and> 0 < pb_sequence p)
   \<and> (\<forall>m \<in> set (heads h). 0 < hd_revision m) \<and> (\<forall>r \<in> set (revisions h). 0 < rv_revision r)
   \<and> (\<forall>v \<in> set (votes h). vt_value v \<in> {-1, 1})"

definition checks_events :: "hub \<Rightarrow> bool" where
  "checks_events h \<longleftrightarrow>
     (\<forall>r \<in> set (schemas h). 0 < es_version r \<and> (es_retired_by r = None \<longleftrightarrow> es_retired_at r = None))
   \<and> (\<forall>s \<in> set (subscriptions h). 0 \<le> sb_ack s \<and> opt_all (\<lambda>t. sb_created_at s \<le> t) (sb_removed_at s))"

definition checks_ok :: "hub \<Rightarrow> bool" where
  "checks_ok h \<longleftrightarrow> checks_scopes h \<and> checks_topics h \<and> checks_messages h \<and> checks_events h"

lemmas check_defs = checks_ok_def checks_scopes_def checks_topics_def checks_messages_def checks_events_def

section \<open>Statements keep the types\<close>

lemma nextSequence_checks:
  assumes "nextSequence s h = Inr (n, h1)" and "checks_ok h"
  shows "checks_ok h1"
proof -
  from assms(1) obtain h0 c where i: "insert_counter_ignore s h = Inr h0" and f: "find_counter h0 s = Some c"
    and u: "update_counter s (ct_next c + 1) h0 = Inr h1"
    by (auto simp: nextSequence_def bindE_Inr_iff)
  have h0: "checks_ok h0" using i assms(2) by (auto simp: insert_counter_ignore_def check_defs split: if_splits)
  have "c \<in> set (counters h0)" using f by (auto simp: find_counter_def dest: find_SomeD_conj)
  then have "0 < ct_next c" using h0 by (simp add: check_defs)
  then show ?thesis using u h0 by (auto simp: update_counter_def check_defs ball_update)
qed

lemma insert_publication_checks: "insert_publication p h = Inr h' \<Longrightarrow> checks_ok h \<Longrightarrow> checks_ok h'"
  by (auto simp: insert_publication_def check_defs)

lemma update_topic_checks: "update_topic tid f h = Inr h' \<Longrightarrow> checks_ok h \<Longrightarrow> checks_ok h'"
  by (auto simp: update_topic_def check_defs ball_update Let_def)

lemma update_lease_checks: "update_lease P f h = Inr h' \<Longrightarrow> checks_ok h \<Longrightarrow> checks_ok h'"
  by (auto simp: update_lease_def check_defs ball_update)

lemma change_role_checks: "change_role tid a grant h = Inr h' \<Longrightarrow> checks_ok h \<Longrightarrow> checks_ok h'"
  by (auto simp: change_role_def insert_role_def check_defs in_delete_where Let_def split: if_splits)

lemma cast_vote_checks: "cast_vote mid n a v h = Inr h' \<Longrightarrow> checks_ok h \<Longrightarrow> checks_ok h'"
  by (auto simp: cast_vote_def upsert_vote_def check_defs in_delete_where ball_update Let_def split: if_splits)

lemma update_head_revision_checks: "update_head_revision m n e h = Inr h' \<Longrightarrow> checks_ok h \<Longrightarrow> checks_ok h'"
  by (auto simp: update_head_revision_def check_defs ball_update Let_def)

lemma retire_schema_checks: "retire_schema k a now h = Inr h' \<Longrightarrow> checks_ok h \<Longrightarrow> checks_ok h'"
  by (auto simp: retire_schema_def check_defs ball_update)

lemma insert_checks:
  "insert_scope s h = Inr h' \<Longrightarrow> checks_ok h \<Longrightarrow> checks_ok h'"
  "insert_binding b h = Inr h' \<Longrightarrow> checks_ok h \<Longrightarrow> checks_ok h'"
  "insert_topic t h = Inr h' \<Longrightarrow> checks_ok h \<Longrightarrow> checks_ok h'"
  "insert_audit au h = Inr h' \<Longrightarrow> checks_ok h \<Longrightarrow> checks_ok h'"
  "insert_head m h = Inr h' \<Longrightarrow> checks_ok h \<Longrightarrow> checks_ok h'"
  "insert_revision rv h = Inr h' \<Longrightarrow> checks_ok h \<Longrightarrow> checks_ok h'"
  "insert_idem i h = Inr h' \<Longrightarrow> checks_ok h \<Longrightarrow> checks_ok h'"
  "insert_schema es h = Inr h' \<Longrightarrow> checks_ok h \<Longrightarrow> checks_ok h'"
  "insert_event ev h = Inr h' \<Longrightarrow> checks_ok h \<Longrightarrow> checks_ok h'"
  "insert_subscription sb h = Inr h' \<Longrightarrow> checks_ok h \<Longrightarrow> checks_ok h'"
  "insert_subtopic st h = Inr h' \<Longrightarrow> checks_ok h \<Longrightarrow> checks_ok h'"
  "insert_lease l h = Inr h' \<Longrightarrow> checks_ok h \<Longrightarrow> checks_ok h'"
  by (auto simp: insert_scope_def insert_binding_def insert_topic_def insert_audit_def insert_head_def insert_revision_def
      insert_idem_def insert_schema_def insert_event_def insert_subscription_def insert_subtopic_def insert_lease_def check_defs)

lemma pin_checks: "insert_pin pn (update_head_pinned m v h) = Inr h' \<Longrightarrow> checks_ok h \<Longrightarrow> checks_ok h'"
  by (auto simp: insert_pin_def update_head_pinned_def check_defs ball_update)

lemma stmt_checks:
  assumes "stmt h h'" and ok: "checks_ok h"
  shows "checks_ok h'"
  using assms(1)
proof (cases rule: stmt.cases)
  case (move_cursor prior n sid)
  then show ?thesis using ok by (auto simp: check_defs ball_update at_cursor_def)
next
  case (end_subscription sid now)
  then show ?thesis using ok by (auto simp: check_defs ball_update)
next
  case enrol_actor
  then show ?thesis using ok by (simp add: insert_actor_ignore_def check_defs)
next
  case enrol_consumer
  then show ?thesis using ok by (simp add: insert_consumer_ignore_def check_defs)
next
  case (record_backup a)
  then show ?thesis using ok by (auto simp: insert_prune_audit_def check_defs)
next
  case (drop_backup P)
  then show ?thesis using ok by (simp add: check_defs)
qed (use ok in \<open>blast dest: nextSequence_checks insert_publication_checks update_topic_checks update_lease_checks
      change_role_checks cast_vote_checks update_head_revision_checks retire_schema_checks pin_checks insert_checks\<close>)+

lemma raise_low_water_checks: "checks_ok h \<Longrightarrow> checks_ok (raise_low_water s h)"
  by (cases "low_water_target h (ps_ScopeID s)") (auto simp: raise_low_water_def check_defs ball_update)

lemma prune_stmt_checks:
  assumes "prune_stmt h h'" and "checks_ok h"
  shows "checks_ok h'"
  using assms(1)
proof (cases rule: prune_stmt.cases)
  case (low_water s)
  then show ?thesis using assms(2) by (simp add: raise_low_water_checks)
qed (use assms(2) in \<open>auto simp: insert_pruned_idem_def delete_idem_def delete_votes_of_def delete_pins_of_def delete_revision_def
      delete_head_def delete_event_def delete_publication_def mergePrunedRange_def insert_prune_audit_def
      delete_guard_Inr check_defs in_delete_where Let_def split: if_splits option.splits prod.splits\<close>)

interpretation checks_stmt: step_invariant stmt checks_ok
  by unfold_locales (rule stmt_checks)

interpretation checks_prune: step_invariant prune_stmt checks_ok
  by unfold_locales (rule prune_stmt_checks)

section \<open>Rows as the validators leave them\<close>

text \<open>
  No clause of the schema says any of this: it holds because a method validates its input before it
  writes, and what a statement derives from a stored row keeps what the row had. A counter row is
  there only once its first position is taken.
\<close>

definition rows_valid :: "hub \<Rightarrow> bool" where
  "rows_valid h \<longleftrightarrow> (\<forall>a \<in> set (actors h). validActorID (ac_id a)) \<and> (\<forall>c \<in> set (consumers h). validConsumerID (cn_id c))
     \<and> (\<forall>t \<in> set (topics h). topic_valid t) \<and> (\<forall>p \<in> set (publications h). publication_valid p)
     \<and> (\<forall>r \<in> set (revisions h). revision_valid r) \<and> (\<forall>s \<in> set (schemas h). schema_valid s)
     \<and> (\<forall>v \<in> set (events h). validTypeKey (ev_type v)) \<and> (\<forall>s \<in> set (subscriptions h). subscription_valid s)
     \<and> (\<forall>c \<in> set (counters h). 2 \<le> ct_next c)"

lemma subscription_valid_moved [simp]:
  "subscription_valid (s\<lparr>sb_ack := n\<rparr>) = subscription_valid s" "subscription_valid (s\<lparr>sb_removed_at := t\<rparr>) = subscription_valid s"
  by (simp_all add: subscription_valid_def)

lemma nextSequence_taken:
  assumes "nextSequence s h = Inr (n, h1)" and two: "\<forall>c \<in> set (counters h). 2 \<le> ct_next c"
  shows "\<forall>c \<in> set (counters h1). 2 \<le> ct_next c"
proof -
  from assms(1) obtain h0 c where i: "insert_counter_ignore s h = Inr h0" and f: "find_counter h0 s = Some c"
    and u: "update_counter s (ct_next c + 1) h0 = Inr h1"
    by (auto simp: nextSequence_def bindE_Inr_iff)
  have old: "\<forall>c \<in> set (counters h0). 1 \<le> ct_next c \<and> (ct_scope c \<noteq> s \<longrightarrow> 2 \<le> ct_next c)"
    using i two by (fastforce simp: insert_counter_ignore_def split: if_splits)
  have "c \<in> set (counters h0)" using f by (auto simp: find_counter_def dest: find_SomeD_conj)
  then have "1 \<le> ct_next c" using old by blast
  then show ?thesis using u old by (auto simp: update_counter_def ball_update)
qed

lemma stmt_rows:
  assumes "stmt h h'" and ok: "rows_valid h"
  shows "rows_valid h'"
  using assms(1)
proof (cases rule: stmt.cases)
  case (publish p h1)
  then obtain cs where h1: "h1 = h\<lparr>counters := cs\<rparr>" using nextSequence_frame by blast
  have "\<forall>c \<in> set (counters h1). 2 \<le> ct_next c"
    by (rule nextSequence_taken[OF publish(1)]) (use ok in \<open>simp add: rows_valid_def\<close>)
  with h1 publish ok show ?thesis by (simp add: insert_publication_def rows_valid_def)
next
  case (change_topic tid f)
  then have "h' = h\<lparr>topics := update_where (\<lambda>r. tp_id r = tid) f (topics h)\<rparr>" by (simp add: update_topic_def Let_def)
  moreover have "\<forall>t \<in> set (topics h). topic_valid t" using ok by (simp add: rows_valid_def)
  ultimately show ?thesis using ok change_topic(3) by (simp add: rows_valid_def ball_update)
next
  case (change_maintainer tid a grant)
  then show ?thesis using ok by (auto simp: change_role_def insert_role_def Let_def rows_valid_def split: if_splits)
next
  case (pin pn mid v)
  then show ?thesis using ok by (simp add: insert_pin_def update_head_pinned_def rows_valid_def)
next
  case (vote mid n a v)
  then show ?thesis using ok by (auto simp: cast_vote_def upsert_vote_def Let_def rows_valid_def split: if_splits)
next
  case (old_schema k a now)
  then show ?thesis using ok by (auto simp: retire_schema_def rows_valid_def ball_update schema_valid_def)
next
  case (change_lease P f)
  then show ?thesis using ok by (simp add: update_lease_def rows_valid_def)
qed (use ok in \<open>auto simp: statement_defs rows_valid_def Let_def ball_update\<close>)

lemma prune_stmt_rows:
  assumes "prune_stmt h h'" and "rows_valid h"
  shows "rows_valid h'"
  using assms(1)
proof (cases rule: prune_stmt.cases)
  case (low_water s)
  then obtain ss where "h' = h\<lparr>scopes := ss\<rparr>" using raise_low_water_frame by blast
  then show ?thesis using assms(2) by (simp add: rows_valid_def)
next
  case (record_range s a b pid)
  then show ?thesis using assms(2) by (elim mergePrunedRange_Inr) (simp add: rows_valid_def)
qed (use assms(2) in \<open>auto simp: insert_pruned_idem_def delete_idem_def delete_votes_of_def delete_pins_of_def delete_revision_def
      delete_head_def delete_event_def delete_publication_def insert_prune_audit_def delete_guard_Inr rows_valid_def
      in_delete_where Let_def split: if_splits\<close>)

interpretation rows_stmt: step_invariant stmt rows_valid
  by unfold_locales (rule stmt_rows)

interpretation rows_prune: step_invariant prune_stmt rows_valid
  by unfold_locales (rule prune_stmt_rows)

end
