(* ===== verification/Disk.thy ===== *)
theory Disk
  imports Schema
begin

text \<open>
  The directory the hub lives in, as far as the maintenance of backups uses it: names for
  inodes, hard links, and the calls of package \<open>os\<close>. Any call may fail, and the process may be
  killed at any call: from then on nothing it does has an effect, deferred calls included. A
  triple \<open>ok P m Q R\<close> speaks of every such schedule, so what \<open>R\<close> says holds at every point at
  which the process can die.
\<close>

section \<open>File systems\<close>

text \<open>
  What a file holds: the bytes written to it, an unfinished database image, or a complete
  image of a hub.
\<close>

datatype content = Bytes string | Partial | Image hub

record inode =
  in_regular :: bool
  in_data :: content

record filesystem =
  fs_names :: "(string \<times> nat) list"
  fs_inode :: "nat \<Rightarrow> inode"
  fs_next :: nat

definition inode_of :: "filesystem \<Rightarrow> string \<Rightarrow> nat option" where
  "inode_of f p = map_of (fs_names f) p"

definition exists_file :: "filesystem \<Rightarrow> string \<Rightarrow> bool" where
  "exists_file f p \<longleftrightarrow> inode_of f p \<noteq> None"

definition create_file :: "string \<Rightarrow> filesystem \<Rightarrow> filesystem" where
  "create_file p f = f\<lparr>fs_names := (p, fs_next f) # fs_names f,
     fs_inode := (fs_inode f)(fs_next f := \<lparr>in_regular = True, in_data = Bytes ''''\<rparr>), fs_next := fs_next f + 1\<rparr>"

definition link_file :: "nat \<Rightarrow> string \<Rightarrow> filesystem \<Rightarrow> filesystem" where
  "link_file i p f = f\<lparr>fs_names := (p, i) # fs_names f\<rparr>"

definition unlink_file :: "string \<Rightarrow> filesystem \<Rightarrow> filesystem" where
  "unlink_file p f = f\<lparr>fs_names := filter (\<lambda>(q, _). q \<noteq> p) (fs_names f)\<rparr>"

definition put_data :: "nat \<Rightarrow> content \<Rightarrow> filesystem \<Rightarrow> filesystem" where
  "put_data i c f = f\<lparr>fs_inode := (fs_inode f)(i := (fs_inode f i)\<lparr>in_data := c\<rparr>)\<rparr>"

text \<open>Every name refers to an inode that was given out.\<close>

definition fs_ok :: "filesystem \<Rightarrow> bool" where
  "fs_ok f \<longleftrightarrow> (\<forall>p i. inode_of f p = Some i \<longrightarrow> i < fs_next f)"

named_theorems fs_simps \<open>names and inodes after an operation\<close>

lemma map_of_unlink: "map_of (filter (\<lambda>(q, _). q \<noteq> p) xs) q = (if q = p then None else map_of xs q)"
  by (induction xs) auto

lemma inode_of_ops [fs_simps]:
  "inode_of (create_file p f) q = (if q = p then Some (fs_next f) else inode_of f q)"
  "inode_of (link_file i p f) q = (if q = p then Some i else inode_of f q)"
  "inode_of (unlink_file p f) q = (if q = p then None else inode_of f q)"
  "inode_of (put_data i c f) q = inode_of f q"
  by (simp_all add: inode_of_def create_file_def link_file_def unlink_file_def put_data_def map_of_unlink)

lemma inode_ops [fs_simps]:
  "fs_inode (create_file p f) = (fs_inode f)(fs_next f := \<lparr>in_regular = True, in_data = Bytes ''''\<rparr>)"
  "fs_inode (link_file i p f) = fs_inode f"
  "fs_inode (unlink_file p f) = fs_inode f"
  "fs_inode (put_data i c f) = (fs_inode f)(i := (fs_inode f i)\<lparr>in_data := c\<rparr>)"
  by (simp_all add: create_file_def link_file_def unlink_file_def put_data_def)

lemma next_ops [fs_simps]:
  "fs_next (create_file p f) = fs_next f + 1"
  "fs_next (link_file i p f) = fs_next f"
  "fs_next (unlink_file p f) = fs_next f"
  "fs_next (put_data i c f) = fs_next f"
  by (simp_all add: create_file_def link_file_def unlink_file_def put_data_def)

lemma fs_ok_ops [fs_simps]:
  "fs_ok f \<Longrightarrow> fs_ok (create_file p f)"
  "fs_ok f \<Longrightarrow> i < fs_next f \<Longrightarrow> fs_ok (link_file i p f)"
  "fs_ok f \<Longrightarrow> fs_ok (unlink_file p f)"
  "fs_ok f \<Longrightarrow> fs_ok (put_data i c f)"
  by (auto simp: fs_ok_def inode_of_ops next_ops less_SucI)

section \<open>Calls that can fail, and a process that can die\<close>

text \<open>
  \<open>Fails n\<close> and \<open>Kills n\<close>: a write got \<open>n\<close> bytes through before the call failed or the process
  died; other calls have no effect then.
\<close>

datatype fault = Fine | Fails nat | Kills nat

record disk =
  files :: filesystem
  faults :: "fault list"
  killed :: bool

type_synonym 'a io = "disk \<Rightarrow> (err + 'a) \<times> disk"

definition retS :: "'a \<Rightarrow> 'a io" where "retS x k = (Inr x, k)"
definition failS :: "err \<Rightarrow> 'a io" where "failS e k = (Inl e, k)"

definition bindS :: "'a io \<Rightarrow> ('a \<Rightarrow> 'b io) \<Rightarrow> 'b io" where
  "bindS m f k = (case m k of (Inl e, k') \<Rightarrow> (Inl e, k') | (Inr x, k') \<Rightarrow> f x k')"

text \<open>\<open>x, err := m\<close> with the error looked at by what follows.\<close>

definition attempt :: "'a io \<Rightarrow> (err + 'a) io" where
  "attempt m k = (case m k of (r, k') \<Rightarrow> (Inr r, k'))"

text \<open>\<open>defer\<close>: the call runs however the body ends, and its error is dropped.\<close>

definition deferS :: "unit io \<Rightarrow> 'a io \<Rightarrow> 'a io" where
  "deferS c m k = (case m k of (r, k') \<Rightarrow> (r, snd (c k')))"

text \<open>A clean-up that runs only when the body fails; its error is dropped.\<close>

definition onErr :: "'a io \<Rightarrow> unit io \<Rightarrow> 'a io" where
  "onErr m c k = (case m k of (Inl e, k') \<Rightarrow> (Inl e, snd (c k')) | r \<Rightarrow> r)"

fun forS :: "('a \<Rightarrow> unit io) \<Rightarrow> 'a list \<Rightarrow> unit io" where
  "forS f [] = retS ()"
| "forS f (x # xs) = bindS (f x) (\<lambda>_. forS f xs)"

definition liftS :: "err + 'a \<Rightarrow> 'a io" where
  "liftS r k = (r, k)"

definition requireS :: "bool \<Rightarrow> err \<Rightarrow> unit io" where
  "requireS b e = (if b then retS () else failS e)"

text \<open>A call of the system: what it does when it goes through, and what is left of it when it does not.\<close>

definition call_os :: "(nat \<Rightarrow> filesystem \<Rightarrow> filesystem) \<Rightarrow> (filesystem \<Rightarrow> err + 'a \<times> filesystem) \<Rightarrow> 'a io" where
  "call_os part act k =
     (if killed k then (Inl ErrOS, k)
      else case faults k of
        Fails n # fs \<Rightarrow> (Inl ErrOS, k\<lparr>files := part n (files k), faults := fs\<rparr>)
      | Kills n # fs \<Rightarrow> (Inl ErrOS, k\<lparr>files := part n (files k), faults := fs, killed := True\<rparr>)
      | _ \<Rightarrow> (case act (files k) of
            Inl e \<Rightarrow> (Inl e, k\<lparr>faults := tl (faults k)\<rparr>)
          | Inr (x, f) \<Rightarrow> (Inr x, k\<lparr>files := f, faults := tl (faults k)\<rparr>)))"

definition nothing :: "nat \<Rightarrow> filesystem \<Rightarrow> filesystem" where "nothing n f = f"

text \<open>\<open>os.OpenFile\<close> with \<open>O_CREATE|O_EXCL\<close>; the handle is the inode.\<close>

definition os_create :: "string \<Rightarrow> nat io" where
  "os_create p = call_os nothing (\<lambda>f.
     if exists_file f p then Inl ErrExist else Inr (fs_next f, create_file p f))"

definition appended :: "nat \<Rightarrow> string \<Rightarrow> filesystem \<Rightarrow> filesystem" where
  "appended i s f = (case in_data (fs_inode f i) of Bytes b \<Rightarrow> put_data i (Bytes (b @ s)) f | _ \<Rightarrow> f)"

definition os_write :: "nat \<Rightarrow> string \<Rightarrow> unit io" where
  "os_write i s = call_os (\<lambda>n. appended i (take n s)) (\<lambda>f. Inr ((), appended i s f))"

text \<open>\<open>file.Sync\<close>, \<open>file.Close\<close>, \<open>file.Stat\<close> and other calls that leave names and data alone.\<close>

definition os_touch :: "unit io" where
  "os_touch = call_os nothing (\<lambda>f. Inr ((), f))"

definition os_open :: "string \<Rightarrow> nat io" where
  "os_open p = call_os nothing (\<lambda>f. case inode_of f p of None \<Rightarrow> Inl ErrNotExist | Some i \<Rightarrow> Inr (i, f))"

text \<open>\<open>os.Lstat\<close>: the inode, for \<open>os.SameFile\<close>, and what is known of it.\<close>

definition os_lstat :: "string \<Rightarrow> (nat \<times> inode) io" where
  "os_lstat p = call_os nothing (\<lambda>f. case inode_of f p of None \<Rightarrow> Inl ErrNotExist | Some i \<Rightarrow> Inr ((i, fs_inode f i), f))"

definition os_link :: "string \<Rightarrow> string \<Rightarrow> unit io" where
  "os_link p q = call_os nothing (\<lambda>f. case inode_of f p of None \<Rightarrow> Inl ErrNotExist
     | Some i \<Rightarrow> if exists_file f q then Inl ErrExist else Inr ((), link_file i q f))"

definition os_remove :: "string \<Rightarrow> unit io" where
  "os_remove p = call_os nothing (\<lambda>f. if exists_file f p then Inr ((), unlink_file p f) else Inl ErrNotExist)"

text \<open>\<open>os.ReadDir\<close>: the names under a directory, in order.\<close>

definition dir_entries :: "string \<Rightarrow> filesystem \<Rightarrow> string list" where
  "dir_entries dir f = sort (remdups (map (\<lambda>(p, _). drop (length dir + 1) p)
     (filter (\<lambda>(p, _). take (length dir + 1) p = dir @ ''/'' \<and> CHR ''/'' \<notin> set (drop (length dir + 1) p)
                     \<and> drop (length dir + 1) p \<noteq> []) (fs_names f))))"

definition os_read_dir :: "string \<Rightarrow> string list io" where
  "os_read_dir dir = call_os nothing (\<lambda>f. Inr (dir_entries dir f, f))"

definition os_read_file :: "string \<Rightarrow> content io" where
  "os_read_file p = call_os nothing (\<lambda>f. case inode_of f p of None \<Rightarrow> Inl ErrNotExist | Some i \<Rightarrow> Inr (in_data (fs_inode f i), f))"

section \<open>Triples\<close>

text \<open>
  From a file system with \<open>P\<close>: a call that returns \<open>x\<close> leaves one with \<open>Q x\<close>, and one that fails
  with \<open>e\<close>, or whose process died on the way, leaves one with \<open>R e\<close>.
\<close>

definition ok :: "(filesystem \<Rightarrow> bool) \<Rightarrow> 'a io \<Rightarrow> ('a \<Rightarrow> filesystem \<Rightarrow> bool) \<Rightarrow> (err \<Rightarrow> filesystem \<Rightarrow> bool) \<Rightarrow> bool" where
  "ok P m Q R \<longleftrightarrow> (\<forall>k. P (files k) \<longrightarrow>
     (case m k of (Inr x, k') \<Rightarrow> Q x (files k') | (Inl e, k') \<Rightarrow> R e (files k')))"

lemma okI:
  assumes "\<And>k x k'. P (files k) \<Longrightarrow> m k = (Inr x, k') \<Longrightarrow> Q x (files k')"
    and "\<And>k e k'. P (files k) \<Longrightarrow> m k = (Inl e, k') \<Longrightarrow> R e (files k')"
  shows "ok P m Q R"
  using assms by (auto simp: ok_def split: prod.splits sum.splits)

lemma okD: "ok P m Q R \<Longrightarrow> P (files k) \<Longrightarrow> m k = (Inr x, k') \<Longrightarrow> Q x (files k')"
  and okD_err: "ok P m Q R \<Longrightarrow> P (files k) \<Longrightarrow> m k = (Inl e, k') \<Longrightarrow> R e (files k')"
  by (auto simp: ok_def dest: spec[of _ k])

lemma ok_weaken:
  assumes "ok P m Q R" and "\<And>f. P' f \<Longrightarrow> P f" and "\<And>x f. Q x f \<Longrightarrow> Q' x f" and "\<And>e f. R e f \<Longrightarrow> R' e f"
  shows "ok P' m Q' R'"
  by (rule okI) (use assms okD[OF assms(1)] okD_err[OF assms(1)] in blast)+

lemma ok_ret: "(\<And>f. P f \<Longrightarrow> Q x f) \<Longrightarrow> ok P (retS x) Q R"
  by (auto intro!: okI simp: retS_def)

lemma ok_fail: "(\<And>f. P f \<Longrightarrow> R e f) \<Longrightarrow> ok P (failS e) Q R"
  by (auto intro!: okI simp: failS_def)

lemma ok_require: "(\<And>f. b \<Longrightarrow> P f \<Longrightarrow> Q () f) \<Longrightarrow> (\<And>f. \<not> b \<Longrightarrow> P f \<Longrightarrow> R e f) \<Longrightarrow> ok P (requireS b e) Q R"
  by (auto simp: requireS_def intro!: ok_ret ok_fail)

lemma ok_bind:
  assumes "ok P m M R" and "\<And>x. ok (M x) (g x) Q R"
  shows "ok P (bindS m g) Q R"
proof (rule okI)
  fix k x k' assume p: "P (files k)" and "bindS m g k = (Inr x, k')"
  then obtain y k1 where "m k = (Inr y, k1)" "g y k1 = (Inr x, k')" by (auto simp: bindS_def split: prod.splits sum.splits)
  with okD[OF assms(1) p] okD[OF assms(2)] show "Q x (files k')" by blast
next
  fix k e k' assume p: "P (files k)" and "bindS m g k = (Inl e, k')"
  then consider "m k = (Inl e, k')" | y k1 where "m k = (Inr y, k1)" "g y k1 = (Inl e, k')"
    by (auto simp: bindS_def split: prod.splits sum.splits)
  then show "R e (files k')"
    using okD[OF assms(1) p] okD_err[OF assms(1) p] okD_err[OF assms(2)] by cases blast+
qed

lemma ok_attempt:
  assumes "ok P m (\<lambda>x. Q (Inr x)) (\<lambda>e. Q (Inl e))"
  shows "ok P (attempt m) Q R"
proof (rule okI)
  fix k x k' assume p: "P (files k)" and "attempt m k = (Inr x, k')"
  then have r: "m k = (x, k')" by (auto simp: attempt_def split: prod.splits)
  show "Q x (files k')"
  proof (cases x)
    case (Inl e)
    with okD_err[OF assms p] r show ?thesis by simp
  next
    case (Inr y)
    with okD[OF assms p] r show ?thesis by simp
  qed
qed (auto simp: attempt_def split: prod.splits)

lemma ok_snd: "ok P m (\<lambda>_. Q) (\<lambda>_. Q) \<Longrightarrow> P (files k) \<Longrightarrow> Q (files (snd (m k)))"
  by (cases "m k"; cases "fst (m k)") (auto dest: okD okD_err)

lemma ok_defer:
  assumes "ok P m M N" and "\<And>x. ok (M x) c (\<lambda>_. Q x) (\<lambda>_. Q x)" and "\<And>e. ok (N e) c (\<lambda>_. R e) (\<lambda>_. R e)"
  shows "ok P (deferS c m) Q R"
proof (rule okI)
  fix k x k' assume p: "P (files k)" and "deferS c m k = (Inr x, k')"
  then obtain k1 where "m k = (Inr x, k1)" "k' = snd (c k1)" by (auto simp: deferS_def split: prod.splits)
  with okD[OF assms(1) p] show "Q x (files k')" using ok_snd[OF assms(2)] by blast
next
  fix k e k' assume p: "P (files k)" and "deferS c m k = (Inl e, k')"
  then obtain k1 where "m k = (Inl e, k1)" "k' = snd (c k1)" by (auto simp: deferS_def split: prod.splits)
  with okD_err[OF assms(1) p] show "R e (files k')" using ok_snd[OF assms(3)] by blast
qed

lemma ok_onErr:
  assumes "ok P m Q N" and "\<And>e. ok (N e) c (\<lambda>_. R e) (\<lambda>_. R e)"
  shows "ok P (onErr m c) Q R"
proof (rule okI)
  fix k x k' assume p: "P (files k)" and "onErr m c k = (Inr x, k')"
  then have "m k = (Inr x, k')" by (auto simp: onErr_def split: prod.splits sum.splits)
  then show "Q x (files k')" by (rule okD[OF assms(1) p])
next
  fix k e k' assume p: "P (files k)" and "onErr m c k = (Inl e, k')"
  then obtain k1 where "m k = (Inl e, k1)" "k' = snd (c k1)" by (auto simp: onErr_def split: prod.splits sum.splits)
  with okD_err[OF assms(1) p] show "R e (files k')" using ok_snd[OF assms(2)] by blast
qed

lemma ok_for:
  assumes "\<And>x. x \<in> set xs \<Longrightarrow> ok P (g x) (\<lambda>_. P) R"
  shows "ok P (forS g xs) (\<lambda>_. P) R"
  using assms by (induction xs) (auto intro!: ok_ret ok_bind[where M = "\<lambda>_. P"])

lemma call_os_cases:
  obtains "call_os part act k = (Inl ErrOS, k)" "killed k"
  | n fs b where "call_os part act k = (Inl ErrOS, k\<lparr>files := part n (files k), faults := fs, killed := b\<rparr>)" "\<not> killed k"
  | e fs where "act (files k) = Inl e" "call_os part act k = (Inl e, k\<lparr>faults := fs\<rparr>)" "\<not> killed k"
  | x f fs where "act (files k) = Inr (x, f)" "call_os part act k = (Inr x, k\<lparr>files := f, faults := fs\<rparr>)" "\<not> killed k"
proof (cases "killed k")
  case True
  then show thesis by (intro that(1)) (simp_all add: call_os_def)
next
  case False
  have same: "k = k\<lparr>killed := False\<rparr>" using False by simp
  have go: "case act (files k) of Inl e \<Rightarrow> call_os part act k = (Inl e, k\<lparr>faults := tl (faults k)\<rparr>)
      | Inr (x, f) \<Rightarrow> call_os part act k = (Inr x, k\<lparr>files := f, faults := tl (faults k)\<rparr>) \<Longrightarrow> thesis"
    using that(3,4) False by (auto split: sum.splits prod.splits)
  show thesis
  proof (cases "faults k")
    case Nil
    then show thesis using False by (intro go) (auto simp: call_os_def split: sum.splits prod.splits)
  next
    case (Cons a fs)
    show thesis
    proof (cases a)
      case Fine
      then show thesis using Cons False by (intro go) (auto simp: call_os_def split: sum.splits prod.splits)
    next
      case (Fails n)
      have "k\<lparr>files := part n (files k), faults := fs\<rparr> = k\<lparr>files := part n (files k), faults := fs, killed := False\<rparr>"
        using False by simp
      with that(2)[where n = n and fs = fs and b = False] show thesis using Cons Fails False by (simp add: call_os_def)
    next
      case (Kills n)
      then show thesis using Cons False that(2) by (simp add: call_os_def)
    qed
  qed
qed

lemma ok_call:
  assumes "\<And>f. P f \<Longrightarrow> R ErrOS f" and "\<And>f n. P f \<Longrightarrow> R ErrOS (part n f)"
    and "\<And>f e. P f \<Longrightarrow> act f = Inl e \<Longrightarrow> R e f"
    and "\<And>f x f'. P f \<Longrightarrow> act f = Inr (x, f') \<Longrightarrow> Q x f'"
  shows "ok P (call_os part act) Q R"
proof (rule okI)
  fix k x k' assume p: "P (files k)" and "call_os part act k = (Inr x, k')"
  then show "Q x (files k')" using assms(4)[OF p] by (rule_tac call_os_cases[of part act k]) auto
next
  fix k e k' assume p: "P (files k)" and "call_os part act k = (Inl e, k')"
  then show "R e (files k')" using assms(1-3)[OF p] by (rule_tac call_os_cases[of part act k]) auto
qed

text \<open>The rules of the calls.\<close>

lemma ok_create:
  assumes "\<And>f e. P f \<Longrightarrow> R e f" and "\<And>f. P f \<Longrightarrow> \<not> exists_file f p \<Longrightarrow> Q (fs_next f) (create_file p f)"
  shows "ok P (os_create p) Q R"
  unfolding os_create_def by (rule ok_call) (auto simp: nothing_def assms split: if_splits)

lemma ok_touch: "(\<And>f e. P f \<Longrightarrow> R e f) \<Longrightarrow> (\<And>f. P f \<Longrightarrow> Q () f) \<Longrightarrow> ok P os_touch Q R"
  unfolding os_touch_def by (rule ok_call) (auto simp: nothing_def)

lemma ok_write:
  assumes "\<And>f e. P f \<Longrightarrow> R e f" and "\<And>f n. P f \<Longrightarrow> R ErrOS (appended i (take n s) f)"
    and "\<And>f. P f \<Longrightarrow> Q () (appended i s f)"
  shows "ok P (os_write i s) Q R"
  unfolding os_write_def by (rule ok_call) (auto simp: assms)

lemma ok_open:
  assumes "\<And>f e. P f \<Longrightarrow> R e f" and "\<And>f i. P f \<Longrightarrow> inode_of f p = Some i \<Longrightarrow> Q i f"
  shows "ok P (os_open p) Q R"
  unfolding os_open_def by (rule ok_call) (auto simp: nothing_def assms split: option.splits)

lemma ok_lstat:
  assumes "\<And>f. P f \<Longrightarrow> R ErrOS f" and "\<And>f. P f \<Longrightarrow> inode_of f p = None \<Longrightarrow> R ErrNotExist f"
    and "\<And>f i. P f \<Longrightarrow> inode_of f p = Some i \<Longrightarrow> Q (i, fs_inode f i) f"
  shows "ok P (os_lstat p) Q R"
  unfolding os_lstat_def by (rule ok_call) (auto simp: nothing_def assms split: option.splits)

lemma ok_read_file:
  assumes "\<And>f e. P f \<Longrightarrow> R e f" and "\<And>f i. P f \<Longrightarrow> inode_of f p = Some i \<Longrightarrow> Q (in_data (fs_inode f i)) f"
  shows "ok P (os_read_file p) Q R"
  unfolding os_read_file_def by (rule ok_call) (auto simp: nothing_def assms split: option.splits)

lemma ok_link:
  assumes "\<And>f e. P f \<Longrightarrow> R e f"
    and "\<And>f i. P f \<Longrightarrow> inode_of f p = Some i \<Longrightarrow> \<not> exists_file f q \<Longrightarrow> Q () (link_file i q f)"
  shows "ok P (os_link p q) Q R"
  unfolding os_link_def by (rule ok_call) (auto simp: nothing_def assms split: option.splits if_splits)

lemma ok_remove:
  assumes "\<And>f. P f \<Longrightarrow> R ErrOS f" and "\<And>f. P f \<Longrightarrow> \<not> exists_file f p \<Longrightarrow> R ErrNotExist f"
    and "\<And>f. P f \<Longrightarrow> exists_file f p \<Longrightarrow> Q () (unlink_file p f)"
  shows "ok P (os_remove p) Q R"
  unfolding os_remove_def by (rule ok_call) (auto simp: nothing_def assms split: if_splits)

lemma ok_read_dir:
  "(\<And>f e. P f \<Longrightarrow> R e f) \<Longrightarrow> (\<And>f. P f \<Longrightarrow> Q (dir_entries dir f) f) \<Longrightarrow> ok P (os_read_dir dir) Q R"
  unfolding os_read_dir_def by (rule ok_call) (auto simp: nothing_def)

lemma ok_lift: "(\<And>f e. r = Inl e \<Longrightarrow> P f \<Longrightarrow> R e f) \<Longrightarrow> (\<And>f x. r = Inr x \<Longrightarrow> P f \<Longrightarrow> Q x f) \<Longrightarrow> ok P (liftS r) Q R"
  by (rule okI) (auto simp: liftS_def)

lemma ok_if: "(b \<Longrightarrow> ok P m Q R) \<Longrightarrow> (\<not> b \<Longrightarrow> ok P m' Q R) \<Longrightarrow> ok P (if b then m else m') Q R"
  by simp

lemma ok_pre: "ok P' m Q R \<Longrightarrow> (\<And>f. P f \<Longrightarrow> P' f) \<Longrightarrow> ok P m Q R"
  by (rule ok_weaken)

lemma ok_false: "(\<And>f. \<not> P f) \<Longrightarrow> ok P m Q R"
  by (rule okI) auto

text \<open>A run without faults: every call goes through.\<close>

definition clear :: "disk \<Rightarrow> bool" where
  "clear k \<longleftrightarrow> faults k = [] \<and> \<not> killed k"

lemma clear_call:
  "clear k \<Longrightarrow> call_os part act k = (case act (files k) of Inl e \<Rightarrow> (Inl e, k) | Inr (x, f) \<Rightarrow> (Inr x, k\<lparr>files := f\<rparr>))"
  by (auto simp: clear_def call_os_def split: sum.splits)

lemma clear_files [simp]: "clear (k\<lparr>files := f\<rparr>) \<longleftrightarrow> clear k"
  by (simp add: clear_def)

lemma clear_runs:
  assumes "clear k"
  shows "os_touch k = (Inr (), k)"
    and "os_lstat p k = ((case inode_of (files k) p of None \<Rightarrow> Inl ErrNotExist | Some i \<Rightarrow> Inr (i, fs_inode (files k) i)), k)"
    and "os_read_file p k = ((case inode_of (files k) p of None \<Rightarrow> Inl ErrNotExist | Some i \<Rightarrow> Inr (in_data (fs_inode (files k) i))), k)"
    and "exists_file (files k) p \<Longrightarrow> os_remove p k = (Inr (), k\<lparr>files := unlink_file p (files k)\<rparr>)"
    and "os_read_dir p k = (Inr (dir_entries p (files k)), k)"
  using assms
  by (auto simp: os_touch_def os_lstat_def os_read_file_def os_remove_def os_read_dir_def clear_call split: option.splits)

lemma dir_entries_complete:
  assumes "exists_file f (dir @ ''/'' @ name)" and "CHR ''/'' \<notin> set name" and "name \<noteq> []"
  shows "name \<in> set (dir_entries dir f)"
proof -
  from assms(1) obtain i where "(dir @ ''/'' @ name, i) \<in> set (fs_names f)"
    by (auto simp: exists_file_def inode_of_def dest: map_of_SomeD)
  then show ?thesis
    using assms(2,3) by (force simp: dir_entries_def image_iff)
qed
lemma dir_entries_sound:
  assumes "name \<in> set (dir_entries dir f)"
  shows "exists_file f (dir @ ''/'' @ name)"
proof -
  from assms obtain p i where p: "(p, i) \<in> set (fs_names f)" "take (length dir + 1) p = dir @ ''/''" "name = drop (length dir + 1) p"
    by (auto simp: dir_entries_def)
  have "p = take (length dir + 1) p @ drop (length dir + 1) p" by simp
  then have "p = dir @ ''/'' @ name" unfolding p(2) p(3)[symmetric] by simp
  then have "dir @ ''/'' @ name \<in> fst ` set (fs_names f)" using p(1) by force
  then show ?thesis unfolding exists_file_def inode_of_def map_of_eq_None_iff by blast
qed

end
