(* ===== verification/Backups.thy ===== *)
theory Backups
  imports Disk Retention
begin

text \<open>
  The backup files of \<open>internal/hubstore/retention.go\<close>: a snapshot of the database is taken before
  a prune or a vacuum, under a reservation that survives a killed process. A candidate file is
  claimed by a second link to it, and announced by a complete intent before anything is written
  to it; the next maintenance removes what such an intent proves to be its own, and nothing else.
  \<open>dir\<close> is the directory of the hub, an absolute cleaned path, and the recorded paths are cleaned.
\<close>

section \<open>Names\<close>

definition join :: "string \<Rightarrow> string \<Rightarrow> string" where
  "join dir name = dir @ ''/'' @ name"

text \<open>\<open>hex.DecodeString\<close> accepts both cases.\<close>

definition hex_decodes :: "string \<Rightarrow> bool" where
  "hex_decodes s \<longleftrightarrow> even (length s)
     \<and> list_all (\<lambda>c. c \<in> set ''0123456789abcdefABCDEF'') s"

definition valid_backup_id :: "string \<Rightarrow> bool" where
  "valid_backup_id i \<longleftrightarrow> length i = 32 \<and> hex_decodes i"

definition claim_of :: "string \<Rightarrow> string" where "claim_of p = p @ ''.claim''"
definition marker_of :: "string \<Rightarrow> string" where "marker_of p = p @ ''.pending''"

definition intent :: "string \<Rightarrow> string" where
  "intent authority = ''hub-prune-pending-v1'' @ [CHR 0x0A] @ authority @ [CHR 0x0A]"

section \<open>Reserving a backup\<close>

text \<open>
  \<open>writePruneIntent\<close>: the intent is written to a staging file and published by a link, which
  never replaces a file and is never seen half-written.
\<close>

definition writePruneIntent :: "string \<Rightarrow> string \<Rightarrow> unit io" where
  "writePruneIntent authority candidate =
     (let marker = marker_of candidate; staging = marker @ ''.tmp'' in
      bindS (os_create staging) (\<lambda>file.
      deferS (os_remove staging)
        (bindS (onErr (os_write file (intent authority)) os_touch) (\<lambda>_.
         bindS (onErr os_touch os_touch) (\<lambda>_.
         bindS os_touch (\<lambda>_.
           os_link staging marker))))))"

definition same_regular :: "err + nat \<times> inode \<Rightarrow> err + nat \<times> inode \<Rightarrow> bool" where
  "same_regular a b = (case (a, b) of
     (Inr (i, x), Inr (j, y)) \<Rightarrow> in_regular x \<and> in_regular y \<and> i = j | _ \<Rightarrow> False)"

definition removeClaimedPruneBackup :: "string \<Rightarrow> unit io" where
  "removeClaimedPruneBackup candidate =
     bindS (attempt (os_lstat candidate)) (\<lambda>backup.
     bindS (requireS (\<not> isl backup) ErrUnsupportedFormat) (\<lambda>_.
     bindS (attempt (os_lstat (claim_of candidate))) (\<lambda>claim.
     bindS (requireS (same_regular backup claim) ErrUnsupportedFormat) (\<lambda>_.
     bindS (os_remove candidate) (\<lambda>_.
       os_remove (claim_of candidate))))))"

definition reservePruneBackup :: "string \<Rightarrow> string \<Rightarrow> unit io" where
  "reservePruneBackup authority candidate =
     bindS (os_create candidate) (\<lambda>owned.
     bindS (attempt os_touch) (\<lambda>stat.
     bindS (attempt os_touch) (\<lambda>closed.
     bindS (requireS (\<not> isl stat \<and> \<not> isl closed) ErrOS) (\<lambda>_.
     bindS (os_link candidate (claim_of candidate)) (\<lambda>_.
     bindS (attempt (os_lstat (claim_of candidate))) (\<lambda>claim.
     bindS (requireS (case claim of Inr (i, _) \<Rightarrow> i = owned | _ \<Rightarrow> False) ErrUnsupportedFormat) (\<lambda>_.
       onErr (writePruneIntent authority candidate) (removeClaimedPruneBackup candidate))))))))"

section \<open>Taking the snapshot\<close>

text \<open>
  What the environment decides: the verdicts of \<open>PRAGMA integrity_check\<close> on the source and on the
  copy, the sizes and the free space reported by the system, the random identifier, and the
  outcomes of the checkpoints and of \<open>VACUUM\<close>.
\<close>

record maintenance =
  mt_source_ok :: bool
  mt_copy_ok :: bool
  mt_bytes :: "err + 64 word"
  mt_free :: "err + 64 word"
  mt_id :: rand

text \<open>
  \<open>VACUUM INTO\<close> a file that is absent or empty: all of the committed database \<open>h\<close>, through the
  name; an interrupted one leaves part of an image.
\<close>

definition vacuum_into :: "string \<Rightarrow> hub \<Rightarrow> unit io" where
  "vacuum_into p h = call_os (\<lambda>_ f. case inode_of f p of Some i \<Rightarrow> put_data i Partial f | None \<Rightarrow> f)
     (\<lambda>f. case inode_of f p of
        None \<Rightarrow> Inr ((), put_data (fs_next f) (Image h) (create_file p f))
      | Some i \<Rightarrow> if in_data (fs_inode f i) = Bytes '''' then Inr ((), put_data i (Image h) f) else Inl (Sqlite 1))"

text \<open>The checks of the finished copy against the source.\<close>

definition verify_copy :: "bool \<Rightarrow> hub \<Rightarrow> content \<Rightarrow> err + unit" where
  "verify_copy copy_ok h c = (case c of
     Image b \<Rightarrow> bindE (requireE copy_ok ErrUnsupportedFormat) (\<lambda>_.
                bindE (requireE (db_id h = db_id b) ErrUnsupportedFormat) (\<lambda>_.
                  requireE (foreign_keys_ok b) ErrUnsupportedFormat))
   | _ \<Rightarrow> Inl ErrUnsupportedFormat)"

definition backup_path :: "string \<Rightarrow> string \<Rightarrow> string" where
  "backup_path dir i = join dir (''hub-prune-'' @ i @ ''.sqlite'')"

definition backupForPrune :: "string \<Rightarrow> string \<Rightarrow> maintenance \<Rightarrow> hub \<Rightarrow> string io" where
  "backupForPrune dir authority mt h =
     bindS os_touch (\<lambda>_.
     bindS (requireS (mt_source_ok mt) ErrUnsupportedFormat) (\<lambda>_.
     bindS (requireS (foreign_keys_ok h) ErrUnsupportedFormat) (\<lambda>_.
     bindS (liftS (mt_bytes mt)) (\<lambda>bytes.
     bindS (liftS (mt_free mt)) (\<lambda>free.
     bindS (requireS (sufficientBackupHeadroom free bytes) ErrBusyRetryable) (\<lambda>_.
     bindS (liftS (randomID (mt_id mt))) (\<lambda>i.
     let candidate = backup_path dir i in
     bindS (reservePruneBackup authority candidate) (\<lambda>_.
     bindS (vacuum_into candidate h) (\<lambda>_.
     bindS (os_open candidate) (\<lambda>_.
     bindS (onErr os_touch os_touch) (\<lambda>_.
     bindS os_touch (\<lambda>_.
     bindS (os_read_file candidate) (\<lambda>copy.
     bindS (liftS (verify_copy (mt_copy_ok mt) h copy)) (\<lambda>_.
       retS candidate))))))))))))))"

section \<open>Recovering what a killed process left\<close>

text \<open>The identifier in a marker's name, if it is one.\<close>

definition is_marker :: "string \<Rightarrow> bool" where
  "is_marker name \<longleftrightarrow> HasPrefix name ''hub-prune-'' \<and> HasSuffix name ''.sqlite.pending''
     \<and> valid_backup_id (TrimSuffix (TrimPrefix name ''hub-prune-'') ''.sqlite.pending'')"

definition referenced :: "hub \<Rightarrow> string \<Rightarrow> bool" where
  "referenced h p \<longleftrightarrow> p \<in> pa_backup ` set (prune_audits h)"

definition regular_stat :: "err + nat \<times> inode \<Rightarrow> bool" where
  "regular_stat s = (case s of Inr (_, x) \<Rightarrow> in_regular x | _ \<Rightarrow> False)"

definition reconcile_marked :: "string \<Rightarrow> hub \<Rightarrow> string \<Rightarrow> unit io" where
  "reconcile_marked authority h candidate =
     (let marker = marker_of candidate in
      bindS (attempt (os_lstat marker)) (\<lambda>info.
      bindS (requireS (regular_stat info) ErrUnsupportedFormat) (\<lambda>_.
      bindS (attempt (os_read_file marker)) (\<lambda>contents.
      bindS (requireS (contents = Inr (Bytes (intent authority))) ErrUnsupportedFormat) (\<lambda>_.
      bindS os_touch (\<lambda>_.
      if referenced h candidate then os_remove marker
      else
        bindS (attempt (os_lstat candidate)) (\<lambda>backup.
        bindS (attempt (os_lstat (claim_of candidate))) (\<lambda>claim.
        if backup = Inl ErrNotExist \<and> claim = Inl ErrNotExist then os_remove marker
        else if (backup = Inl ErrNotExist \<and> regular_stat claim) \<or> (claim = Inl ErrNotExist \<and> regular_stat backup) then
          bindS (os_remove marker) (\<lambda>_. failS ErrUnsupportedFormat)
        else
          bindS (requireS (same_regular backup claim) ErrUnsupportedFormat) (\<lambda>_.
          bindS (os_remove marker) (\<lambda>_.
            removeClaimedPruneBackup candidate))))))))))"

definition reconcile_one :: "string \<Rightarrow> string \<Rightarrow> hub \<Rightarrow> string \<Rightarrow> unit io" where
  "reconcile_one dir authority h name =
     (if \<not> is_marker name then retS ()
      else reconcile_marked authority h (TrimSuffix (join dir name) ''.pending''))"

text \<open>
  A write transaction whose body also works on files: a rollback restores the database, not
  the files, and a process that dies before the commit leaves the old database.
\<close>

definition disk_write :: "db \<Rightarrow> env \<Rightarrow> (hub \<Rightarrow> int \<Rightarrow> ('a \<times> hub) io) \<Rightarrow> hub \<Rightarrow> disk \<Rightarrow> ((err + 'a) \<times> hub) \<times> disk" where
  "disk_write d env fn h k =
     (if readOnly d then ((Inl ErrUnauthorized, h), k)
      else case admit d env h of
        Inl e \<Rightarrow> ((Inl (classifySQLite e), h), k)
      | Inr _ \<Rightarrow> (case bindS (fn h (env_now env)) (\<lambda>r. bindS os_touch (\<lambda>_. retS r)) k of
          (Inl e, k1) \<Rightarrow> ((Inl (classifySQLite e), h), k1)
        | (Inr (x, h'), k1) \<Rightarrow> (case commit_fault env of
            Some e \<Rightarrow> ((Inl (classifySQLite e), h), k1)
          | None \<Rightarrow> ((Inr x, h'), k1))))"

definition reconcile_loop :: "string \<Rightarrow> string \<Rightarrow> hub \<Rightarrow> unit io" where
  "reconcile_loop dir authority h = bindS (os_read_dir dir) (forS (reconcile_one dir authority h))"

definition reconcilePendingPruneBackups ::
  "string \<Rightarrow> db \<Rightarrow> env \<Rightarrow> hub \<Rightarrow> disk \<Rightarrow> ((err + unit) \<times> hub) \<times> disk" where
  "reconcilePendingPruneBackups dir d env =
     disk_write d env (\<lambda>h _. bindS (reconcile_loop dir (authorityID d) h) (\<lambda>_. retS ((), h)))"

section \<open>Dropping old backups\<close>

definition owned_backup :: "string \<Rightarrow> string \<Rightarrow> bool" where
  "owned_backup dir p \<longleftrightarrow>
     (let base = path_base p; i = TrimSuffix (TrimPrefix base ''hub-prune-'') ''.sqlite'' in
      path_dir p = dir \<and> HasPrefix base ''hub-prune-'' \<and> HasSuffix base ''.sqlite'' \<and> valid_backup_id i)"

definition old_backups :: "string \<Rightarrow> int \<Rightarrow> hub \<Rightarrow> prune_audit_row list" where
  "old_backups keep epoch h = filter (\<lambda>a. pa_available a \<and> pa_epoch a \<le> epoch \<and> pa_backup a \<noteq> keep) (prune_audits h)"

definition remove_backup :: "string \<Rightarrow> unit io" where
  "remove_backup p = bindS (attempt (os_lstat (claim_of p))) (\<lambda>claim.
     case claim of Inr _ \<Rightarrow> removeClaimedPruneBackup p
     | Inl e \<Rightarrow> if e = ErrNotExist then os_remove p else failS e)"

definition mark_unavailable :: "prune_audit_row \<Rightarrow> hub \<Rightarrow> hub" where
  "mark_unavailable a h = h\<lparr>prune_audits :=
     update_where (\<lambda>r. pa_id r = pa_id a \<and> pa_backup r = pa_backup a) (\<lambda>r. r\<lparr>pa_available := False\<rparr>) (prune_audits h)\<rparr>"

fun drop_backups :: "string \<Rightarrow> prune_audit_row list \<Rightarrow> hub \<Rightarrow> disk \<Rightarrow> hub \<times> disk" where
  "drop_backups dir [] h k = (h, k)"
| "drop_backups dir (a # as) h k =
     (if \<not> owned_backup dir (pa_backup a) then drop_backups dir as h k
      else case remove_backup (pa_backup a) k of (r, k1) \<Rightarrow>
        if (case r of Inl e \<Rightarrow> e \<noteq> ErrNotExist | Inr _ \<Rightarrow> False) then drop_backups dir as h k1
        else case os_touch k1 of
            (Inl _, k2) \<Rightarrow> drop_backups dir as h k2
          | (Inr _, k2) \<Rightarrow> drop_backups dir as (mark_unavailable a h) k2)"

definition cleanupPruneBackups :: "string \<Rightarrow> string \<Rightarrow> int \<Rightarrow> hub \<Rightarrow> disk \<Rightarrow> hub \<times> disk" where
  "cleanupPruneBackups dir keep epoch h k = (case os_touch k of
     (Inl _, k1) \<Rightarrow> (h, k1)
   | (Inr _, k1) \<Rightarrow> drop_backups dir (old_backups keep epoch h) h k1)"

section \<open>Prune and vacuum with their files\<close>

text \<open>The transaction of a prune: the snapshot first, then the deletions.\<close>

definition prune_transaction ::
  "(publication_row \<Rightarrow> int) \<Rightarrow> (pruneEntry list \<Rightarrow> string) \<Rightarrow> string \<Rightarrow> db \<Rightarrow> env \<Rightarrow> gotime \<Rightarrow> pruneReport
     \<Rightarrow> maintenance \<Rightarrow> rand \<Rightarrow> hub \<Rightarrow> disk \<Rightarrow> ((err + pruneReport) \<times> hub) \<times> disk" where
  "prune_transaction refs_bytes digest dir d env cutoff plan mt rid =
     disk_write d env (\<lambda>h now.
       bindS (requireS (\<not> unixMilli cutoff \<ge> now) ErrInvalidInput) (\<lambda>_.
       bindS (backupForPrune dir (authorityID d) mt h) (\<lambda>backup.
         liftS (pruneHub_body refs_bytes digest cutoff plan (Inr backup) rid h now))))"

text \<open>
  \<open>PruneHub\<close> with the work on files around its transaction: \<open>h0\<close> is the database that is
  reconciled and planned on, \<open>h\<close> the one admitted for writing.
\<close>

definition prune_with_backup ::
  "(int \<Rightarrow> string) \<Rightarrow> (publication_row \<Rightarrow> int) \<Rightarrow> (pruneEntry list \<Rightarrow> string) \<Rightarrow> string \<Rightarrow> db \<Rightarrow> env \<Rightarrow> env
     \<Rightarrow> gotime \<Rightarrow> gotime \<Rightarrow> maintenance \<Rightarrow> rand \<Rightarrow> hub \<Rightarrow> hub \<Rightarrow> disk \<Rightarrow> ((err + pruneReport) \<times> hub) \<times> disk" where
  "prune_with_backup dg refs_bytes digest dir d env0 env cutoff clk0 mt rid h0 h k =
     (case bindE (requireE (\<not> readOnly d) ErrUnauthorized) (\<lambda>_.
           bindE (validPruneCutoff cutoff) (\<lambda>_.
             requireE (time_Before cutoff clk0) ErrInvalidInput)) of
        Inl e \<Rightarrow> ((Inl e, h), k)
      | Inr _ \<Rightarrow> (case reconcilePendingPruneBackups dir d env0 h0 k of
          ((Inl e, _), k1) \<Rightarrow> ((Inl e, h), k1)
        | ((Inr _, _), k1) \<Rightarrow> (case PlanHubPrune dg refs_bytes digest cutoff h0 of
            Inl e \<Rightarrow> ((Inl e, h), k1)
          | Inr plan \<Rightarrow>
              if rp_Entries plan = 0 then ((Inr (plan\<lparr>rp_DryRun := False\<rparr>), h), k1)
              else (case prune_transaction refs_bytes digest dir d env cutoff plan mt rid h k1 of
                  ((Inl e, h1), k2) \<Rightarrow> ((Inl e, h1), k2)
                | ((Inr report, h1), k2) \<Rightarrow>
                    (case cleanupPruneBackups dir (rp_BackupPath report) (rp_RetentionEpoch report) h1
                            (snd (os_remove (marker_of (rp_BackupPath report)) k2)) of
                      (h2, k3) \<Rightarrow> ((Inr report, h2), k3))))))"

record vacuumReport =
  vr_BytesBefore :: int
  vr_BytesAfter :: int
  vr_ReclaimedBytes :: int
  vr_BackupPath :: string

text \<open>
  The environment of a vacuum: the row that \<open>PRAGMA wal_checkpoint\<close> returns (whether it was
  busy) before and after, the file sizes, the free space, the outcome of \<open>VACUUM\<close>, and the verdict
  of \<open>PRAGMA integrity_check\<close>.
\<close>

record vacuuming =
  vc_checkpoint1 :: "err + bool"
  vc_checkpoint2 :: "err + bool"
  vc_size1 :: "err + 64 word"
  vc_size2 :: "err + 64 word"
  vc_free :: "err + 64 word"
  vc_vacuum :: "err + unit"
  vc_pages_ok :: bool

definition checkpointForVacuum :: "err + bool \<Rightarrow> err + unit" where
  "checkpointForVacuum r = (case r of
     Inl e \<Rightarrow> Inl (classifySQLite e)
   | Inr busy \<Rightarrow> requireE (\<not> busy) ErrBusyRetryable)"

definition recordBackup :: "string \<Rightarrow> rand \<Rightarrow> hub \<Rightarrow> int \<Rightarrow> err + ((string \<times> int) \<times> hub)" where
  "recordBackup backup rid h now =
     bindE (randomID rid) (\<lambda>i.
     bindE (insert_prune_audit \<lparr>pa_id = i, pa_cutoff = now, pa_at = now, pa_backup = backup, pa_available = True,
              pa_entries = 0, pa_bytes = 0, pa_epoch = retention_epoch h\<rparr> h) (\<lambda>h1.
       Inr ((backup, retention_epoch h), h1)))"

definition vacuum_transaction ::
  "string \<Rightarrow> db \<Rightarrow> env \<Rightarrow> maintenance \<Rightarrow> rand \<Rightarrow> hub \<Rightarrow> disk \<Rightarrow> ((err + string \<times> int) \<times> hub) \<times> disk" where
  "vacuum_transaction dir d env mt rid =
     disk_write d env (\<lambda>h now.
       bindS (backupForPrune dir (authorityID d) mt h) (\<lambda>backup.
         liftS (recordBackup backup rid h now)))"

text \<open>
  Compacting the database once its backup is recorded, and checking it as it is by that time
  (\<open>h1\<close>); the result is the size of the file afterwards.
\<close>

definition compactHub :: "(int \<Rightarrow> string) \<Rightarrow> vacuuming \<Rightarrow> hub \<Rightarrow> err + int" where
  "compactHub dg vc h1 =
     bindE (mapErr classifySQLite (vc_vacuum vc)) (\<lambda>_.
     bindE (checkpointForVacuum (vc_checkpoint2 vc)) (\<lambda>_.
     bindE (CheckIntegrity dg (vc_pages_ok vc) h1) (\<lambda>_.
     bindE (vc_size2 vc) (\<lambda>bytes. Inr (uint bytes)))))"

definition VacuumHub ::
  "(int \<Rightarrow> string) \<Rightarrow> string \<Rightarrow> db \<Rightarrow> env \<Rightarrow> env \<Rightarrow> maintenance \<Rightarrow> vacuuming \<Rightarrow> rand \<Rightarrow> hub \<Rightarrow> hub \<Rightarrow> disk
     \<Rightarrow> ((err + vacuumReport) \<times> hub) \<times> disk" where
  "VacuumHub dg dir d env0 env mt vc rid h0 h k =
     (case bindE (requireE (\<not> readOnly d) ErrUnauthorized) (\<lambda>_. probe dg h0) of
        Inl e \<Rightarrow> ((Inl e, h), k)
      | Inr _ \<Rightarrow> (case reconcilePendingPruneBackups dir d env0 h0 k of
          ((Inl e, _), k1) \<Rightarrow> ((Inl e, h), k1)
        | ((Inr _, _), k1) \<Rightarrow> (case bindE (checkpointForVacuum (vc_checkpoint1 vc)) (\<lambda>_.
                                 bindE (vc_size1 vc) (\<lambda>bytes.
                                 bindE (vc_free vc) (\<lambda>free.
                                 bindE (requireE (sufficientBackupHeadroom free bytes) ErrBusyRetryable) (\<lambda>_.
                                   Inr (uint bytes))))) of
            Inl e \<Rightarrow> ((Inl e, h), k1)
          | Inr before \<Rightarrow> (case vacuum_transaction dir d env mt rid h k1 of
              ((Inl e, h1), k2) \<Rightarrow> ((Inl e, h1), k2)
            | ((Inr (backup, epoch), h1), k2) \<Rightarrow>
                (case bindS os_touch (\<lambda>_. liftS (compactHub dg vc h1)) (snd (os_remove (marker_of backup) k2)) of
                  (Inl e, k3) \<Rightarrow> ((Inl e, h1), k3)
                | (Inr after, k3) \<Rightarrow>
                    (case cleanupPruneBackups dir backup epoch h1 k3 of (h2, k4) \<Rightarrow>
                      ((Inr \<lparr>vr_BytesBefore = before, vr_BytesAfter = after,
                             vr_ReclaimedBytes = (if before > after then before - after else 0),
                             vr_BackupPath = backup\<rparr>, h2), k4)))))))"

end
