(* ===== verification/Machine.thy ===== *)
theory Machine
  imports History Typing Backups
begin

text \<open>
  The hub as a state machine: a fresh database, then any sequence of the mutating methods,
  called by any handles with any arguments, clocks, file systems and faults. SQLite's immediate
  transactions make a method one step. What every reachable database satisfies follows from
  the invariants of the statements.
\<close>

section \<open>Calls\<close>

definition outcome :: "(err + 'a) \<times> hub \<Rightarrow> err option \<times> hub" where
  "outcome r = ((case fst r of Inl e \<Rightarrow> Some e | Inr _ \<Rightarrow> None), snd r)"

text \<open>\<open>method_call d e h h'\<close>: a method of the handle \<open>d\<close> that is one transaction takes \<open>h\<close> to \<open>h'\<close> and reports \<open>e\<close>.\<close>

inductive method_call :: "db \<Rightarrow> err option \<Rightarrow> hub \<Rightarrow> hub \<Rightarrow> bool" where
  EnrollRepo: "EnrollRepo d env os path r1 r2 h = (r, h', os') \<Longrightarrow> outcome (r, h') = (e, h') \<Longrightarrow> method_call d e h h'"
| EnrollActor: "outcome (EnrollActor d env a rid h) = (e, h') \<Longrightarrow> method_call d e h h'"
| CreateTopic: "outcome (CreateTopic d env os path a ti r1 r2 h) = (e, h') \<Longrightarrow> method_call d e h h'"
| EditTopic: "outcome (EditTopic d env os path tid a edit rid h) = (e, h') \<Longrightarrow> method_call d e h h'"
| ArchiveTopic: "outcome (ArchiveTopic d env os path tid a n reason rid h) = (e, h') \<Longrightarrow> method_call d e h h'"
| RestoreTopic: "outcome (RestoreTopic d env os path tid a n reason ch ex rid h) = (e, h') \<Longrightarrow> method_call d e h h'"
| SetMaintainer: "outcome (SetMaintainer d env os path tid ow a n grant rid h) = (e, h') \<Longrightarrow> method_call d e h h'"
| PostMessage: "outcome (PostMessage sha enc d env os path tid a mi r1 r2 h) = (e, h') \<Longrightarrow> method_call d e h h'"
| ReviseMessage: "outcome (ReviseMessage sha enc d env os path tid mid a mr rid h) = (e, h') \<Longrightarrow> method_call d e h h'"
| PinMessage: "outcome (PinMessage d env os path tid mid a auth g n v rid h) = (e, h') \<Longrightarrow> method_call d e h h'"
| VoteMessage: "outcome (VoteMessage d env os path tid mid a auth n v h) = (e, h') \<Longrightarrow> method_call d e h h'"
| RegisterEventSchema:
    "outcome (RegisterEventSchema lexer marshal sha eng w d env os path tid a g key v raw rid h) = (e, h') \<Longrightarrow> method_call d e h h'"
| RetireEventSchema: "outcome (RetireEventSchema sha d env os path tid a g key v rid h) = (e, h') \<Longrightarrow> method_call d e h h'"
| PublishEvent:
    "outcome (PublishEvent lexer marshal sha eenc eng w1 w2 d env os path tid a ei rid clk h0 h) = (e, h') \<Longrightarrow> method_call d e h h'"
| EnrollConsumer: "outcome (EnrollConsumer d env auth c rid h) = (e, h') \<Longrightarrow> method_call d e h h'"
| Subscribe: "outcome (Subscribe d env os path si rid h) = (e, h') \<Longrightarrow> method_call d e h h'"
| RemoveSubscription: "outcome (RemoveSubscription d env os path c sid auth h) = (e, h') \<Longrightarrow> method_call d e h h'"
| Ack: "outcome (Ack cc d env os path c sid auth n m token h) = (e, h') \<Longrightarrow> method_call d e h h'"
| AcquireLease: "outcome (AcquireLease sha d env os path tid a dur rid h) = (e, h') \<Longrightarrow> method_call d e h h'"
| RenewLease: "outcome (RenewLease sha d env os path tid a token dur h) = (e, h') \<Longrightarrow> method_call d e h h'"
| ReleaseLease: "outcome (ReleaseLease sha d env os path tid a token h) = (e, h') \<Longrightarrow> method_call d e h h'"
| PruneHub:
    "outcome (PruneHub dg refs_bytes digest d env cutoff clk reconcile backup rid h0 h) = (e, h') \<Longrightarrow> method_call d e h h'"

text \<open>
  The transactions of \<open>VacuumHub\<close> and of \<open>cleanupPruneBackups\<close> (an \<open>UPDATE\<close> of its own, after the
  transaction of the prune or vacuum it ends was admitted) are calls of their own: others may come
  between. \<open>VacuumHub\<close> records its backup in a transaction of its own, after checks and file work that
  report \<open>pre\<close> and \<open>backup\<close>; once it is committed, the vacuum reports what compacting the database and
  checking it (as it is by that time, \<open>h1\<close>) report.
\<close>

definition record_vacuum ::
  "db \<Rightarrow> env \<Rightarrow> err + unit \<Rightarrow> err + string \<Rightarrow> rand \<Rightarrow> hub \<Rightarrow> (err + string \<times> int) \<times> hub" where
  "record_vacuum d env pre backup rid =
     guarded_write d env (bindE pre (\<lambda>_. Inr (\<lambda>h now. bindE backup (\<lambda>p. recordBackup p rid h now))))"

inductive call :: "db \<Rightarrow> err option \<Rightarrow> hub \<Rightarrow> hub \<Rightarrow> bool" where
  method_call: "method_call d e h h' \<Longrightarrow> call d e h h'"
| VacuumHub_refused: "record_vacuum d env pre backup rid h = (Inl e, h') \<Longrightarrow> call d (Some e) h h'"
| VacuumHub:
    "record_vacuum d env pre backup rid h = (Inr x, h') \<Longrightarrow> outcome (compactHub dg vc h1, h1) = (e, h1) \<Longrightarrow> call d e h h'"
| cleanupPruneBackups:
    "\<not> readOnly d \<Longrightarrow> db_id h = authorityID d \<Longrightarrow> user_version h = schemaVersion \<Longrightarrow> call d None h (mark_unavailable b h)"

text \<open>What a prune that deletes something does to the database.\<close>

definition pruned :: "hub \<Rightarrow> hub \<Rightarrow> bool" where
  "pruned h h' \<longleftrightarrow> (\<exists>refs_bytes digest cutoff plan backup rid now out.
     pruneHub_body refs_bytes digest cutoff plan backup rid h now = Inr (out, h'))"

text \<open>The row that a vacuum adds before it compacts: an available backup for which nothing was pruned.\<close>

definition backup_recorded :: "hub \<Rightarrow> hub \<Rightarrow> bool" where
  "backup_recorded h h' \<longleftrightarrow> (\<exists>a. h' = h\<lparr>prune_audits := prune_audits h @ [a]\<rparr>
     \<and> pa_available a \<and> pa_entries a = 0 \<and> pa_bytes a = 0 \<and> pa_epoch a = retention_epoch h)"

text \<open>
  The effect of a method: nothing when it fails or is answered from a stored result; otherwise
  the handle may write, the database is the one it was opened on, and the body's statements run.
\<close>

definition effect :: "db \<Rightarrow> err option \<Rightarrow> hub \<Rightarrow> hub \<Rightarrow> bool" where
  "effect d e h h' \<longleftrightarrow> h' = h \<or> (e = None \<and> \<not> readOnly d \<and> db_id h = authorityID d
     \<and> user_version h = schemaVersion \<and> (stmts h h' \<or> pruned h h'))"

lemma effect_commit:
  assumes "hub_write d env fn h = (Inr x, h')" and "fn h (env_now env) = Inr (x, h') \<Longrightarrow> stmts h h'"
  shows "effect d None h h'"
  using assms by (auto simp: write_Inr_iff effect_def admit_def split: option.splits)

lemma write_effect:
  assumes "outcome (hub_write d env fn h) = (e, h')"
    and "\<And>x. fn h (env_now env) = Inr (x, h') \<Longrightarrow> stmts h h' \<or> pruned h h'"
  shows "effect d e h h'"
proof (cases "hub_write d env fn h")
  case (Pair r g)
  show ?thesis
  proof (cases r)
    case (Inl e)
    with Pair assms(1) show ?thesis by (auto simp: outcome_def effect_def dest: write_Inl)
  next
    case (Inr x)
    with Pair have w: "hub_write d env fn h = (Inr x, g)" by simp
    with assms(1) have g: "g = h'" "e = None" by (auto simp: outcome_def)
    from w have "fn h (env_now env) = Inr (x, g)" "\<not> readOnly d" "admit d env h = Inr ()" by (auto simp: write_Inr_iff)
    with assms(2) g show ?thesis by (auto simp: effect_def admit_def split: option.splits)
  qed
qed

lemma guarded_effect:
  assumes "outcome (guarded_write d env pre h) = (e, h')"
    and "\<And>fn x. pre = Inr fn \<Longrightarrow> fn h (env_now env) = Inr (x, h') \<Longrightarrow> stmts h h'"
  shows "effect d e h h'"
proof (cases pre)
  case (Inl a)
  with assms(1) show ?thesis by (auto simp: guarded_write_def outcome_def effect_def)
next
  case (Inr fn)
  with assms(1) have "outcome (hub_write d env fn h) = (e, h')" by (simp add: guarded_write_def)
  then show ?thesis by (rule write_effect) (use assms(2) Inr in blast)
qed

lemma outcome_same: "outcome (r, h) = (e, h') \<Longrightarrow> effect d e h h'"
  by (simp add: outcome_def effect_def)

lemmas write_defs = CreateTopic_def EditTopic_def ArchiveTopic_def RestoreTopic_def SetMaintainer_def PostMessage_def
  ReviseMessage_def PinMessage_def VoteMessage_def RegisterEventSchema_def RetireEventSchema_def EnrollConsumer_def
  Subscribe_def RemoveSubscription_def Ack_def AcquireLease_def RenewLease_def ReleaseLease_def

lemmas body_steps = createTopic_steps editTopic_steps archiveTopic_steps restoreTopic_steps setMaintainer_steps
  postMessage_steps reviseMessage_steps pinMessage_steps voteMessage_steps registerEventSchema_steps retireEventSchema_steps
  enrollConsumer_steps subscribe_steps removeSubscription_steps acquireLease_steps renewLease_steps releaseLease_steps

lemma EnrollRepo_effect:
  assumes "EnrollRepo d env os path r1 r2 h = (r, h', os')" and "outcome (r, h') = (e, h')"
  shows "effect d e h h'"
proof -
  have w: "hub_write d env fn h = (r, h') \<Longrightarrow> (\<And>x. fn h (env_now env) = Inr (x, h') \<Longrightarrow> stmts h h') \<Longrightarrow> effect d e h h'"
    for fn by (rule write_effect[of d env fn]) (use assms(2) in auto)
  have same: "effect d e g g" for g by (simp add: effect_def)
  show ?thesis
    using assms(1)
    by (auto simp: EnrollRepo_def split: if_splits prod.splits option.splits sum.splits
        intro: same w enrollGlobal_steps dest!: bindNewRepo_steps elim!: w)
qed

lemma EnrollActor_effect: "outcome (EnrollActor d env a rid h) = (e, h') \<Longrightarrow> effect d e h h'"
  unfolding EnrollActor_def
  by (auto simp: requireE_def split: sum.splits if_splits intro: outcome_same elim!: write_effect dest: enrollActor_steps)

lemma PublishEvent_effect:
  "outcome (PublishEvent lexer marshal sha eenc eng w1 w2 d env os path tid a ei rid clk h0 h) = (e, h') \<Longrightarrow> effect d e h h'"
  unfolding PublishEvent_def
  by (auto simp: bindE_Inr_iff Let_def split: sum.splits option.splits intro: outcome_same elim!: write_effect
      dest: publishEvent_steps)

lemma PruneHub_effect:
  "outcome (PruneHub dg refs_bytes digest d env cutoff clk reconcile backup rid h0 h) = (e, h') \<Longrightarrow> effect d e h h'"
  unfolding PruneHub_def
  by (auto simp: pruned_def split: sum.splits if_splits intro: outcome_same elim!: write_effect)

lemma Ack_effect: "outcome (Ack cc d env os path c sid auth n m token h) = (e, h') \<Longrightarrow> effect d e h h'"
  unfolding Ack_def by (erule guarded_effect) (auto simp: bindE_Inr_iff dest: ack_steps)

lemma recordBackup_steps: "recordBackup backup rid h now = Inr (x, h') \<Longrightarrow> stmts h h'"
  by (auto simp: recordBackup_def intro: stmts_one record_backup)

lemma recordBackup_recorded: "recordBackup backup rid h now = Inr (x, h') \<Longrightarrow> backup_recorded h h'"
  by (auto simp: recordBackup_def insert_prune_audit_def backup_recorded_def)

lemma record_vacuum_effect:
  assumes "record_vacuum d env pre backup rid h = (r, h')"
  shows "case r of Inl e \<Rightarrow> h' = h | Inr x \<Rightarrow> effect d None h h' \<and> backup_recorded h h'"
proof (cases r)
  case (Inl e)
  with assms show ?thesis by (auto simp: record_vacuum_def guarded_write_def split: sum.splits dest: write_Inl)
next
  case (Inr x)
  with assms obtain p where w: "hub_write d env (\<lambda>h now. bindE backup (\<lambda>p. recordBackup p rid h now)) h = (Inr x, h')"
    and b: "recordBackup p rid h (env_now env) = Inr (x, h')"
    by (auto simp: record_vacuum_def guarded_write_def bindE_Inr_iff write_Inr_iff split: sum.splits)
  from effect_commit[OF w] recordBackup_steps[OF b] recordBackup_recorded[OF b] Inr show ?thesis by simp
qed

lemma method_effect: "method_call d e h h' \<Longrightarrow> effect d e h h'"
proof (induction rule: method_call.induct)
  case EnrollRepo
  then show ?case by (rule EnrollRepo_effect)
next
  case EnrollActor
  then show ?case by (rule EnrollActor_effect)
next
  case PublishEvent
  then show ?case by (rule PublishEvent_effect)
next
  case PruneHub
  then show ?case by (rule PruneHub_effect)
next
  case Ack
  then show ?case by (rule Ack_effect)
qed (unfold write_defs, (erule guarded_effect, auto simp: bindE_Inr_iff Let_def dest: body_steps split: prod.splits)+)

lemma failed_method: "method_call d (Some e) h h' \<Longrightarrow> h' = h"
  by (drule method_effect) (simp add: effect_def)

text \<open>Only a vacuum can fail and have written: its transaction has recorded the backup by then.\<close>

lemma failed_call:
  assumes "call d (Some e) h h'"
  shows "h' = h \<or> backup_recorded h h'"
  using assms
proof (cases rule: call.cases)
  case method_call
  then show ?thesis by (simp add: failed_method)
next
  case VacuumHub_refused
  from record_vacuum_effect[OF this] show ?thesis by simp
next
  case VacuumHub
  from record_vacuum_effect[OF VacuumHub(1)] show ?thesis by simp
qed

lemma call_effect: "call d e h h' \<Longrightarrow> effect d None h h'"
proof (induction rule: call.induct)
  case (method_call d e h h')
  then show ?case by (auto simp: effect_def dest: method_effect)
next
  case VacuumHub_refused
  from record_vacuum_effect[OF this] show ?case by (simp add: effect_def)
next
  case VacuumHub
  from record_vacuum_effect[OF VacuumHub(1)] show ?case by simp
next
  case (cleanupPruneBackups d h b)
  then show ?case
    using stmts_one[OF drop_backup[of h "\<lambda>r. pa_id r = pa_id b \<and> pa_backup r = pa_backup b"]]
    by (simp add: effect_def mark_unavailable_def)
qed

section \<open>Reachable databases\<close>

definition fresh_hub :: "(int \<Rightarrow> string) \<Rightarrow> int \<Rightarrow> string \<Rightarrow> string \<Rightarrow> hub" where
  "fresh_hub dg now i s = empty_hub\<lparr>application_id := applicationID, user_version := 8, db_id := i, format_version := 8,
     pull_secret := Some s, migrations := map (\<lambda>k. \<lparr>mg_version = k, mg_digest = dg k, mg_applied_at = now\<rparr>) [1..8]\<rparr>"

lemma initialize_Inr:
  assumes "initialize dg now rid secret pages_ok empty_hub = Inr (i, h)"
  obtains s where "secret = Some s" "i \<noteq> ''''" "h = fresh_hub dg now i s"
proof -
  have up: "[2..7] = [2, 3, 4, 5, 6, 7::int]" "[1..8] = [1, 2, 3, 4, 5, 6, 7, 8::int]" by (simp_all add: upto.simps)
  have "\<exists>s. secret = Some s \<and> i \<noteq> '''' \<and> h = fresh_hub dg now i s"
    using assms
    by (auto simp: initialize_def migrate_def record_migration_def apply_migration_def migrate_step_def run_schema_def
        empty_hub_def fresh_hub_def schemaVersion_def up bindE_Inr_iff Let_def
        split: option.splits)
  then show thesis using that by blast
qed

text \<open>What no method writes: the format, the authority's name, the migrations and the secret.\<close>

definition same_header :: "hub \<Rightarrow> hub \<Rightarrow> bool" where
  "same_header h h' \<longleftrightarrow> application_id h' = application_id h \<and> user_version h' = user_version h \<and> db_id h' = db_id h
     \<and> format_version h' = format_version h \<and> migrations h' = migrations h \<and> pull_secret h' = pull_secret h"

lemma stmt_header:
  assumes "stmt h h'"
  shows "same_header h h'"
  using assms
proof (cases rule: stmt.cases)
  case (publish p h1)
  then obtain cs where "h1 = h\<lparr>counters := cs\<rparr>" using nextSequence_frame by blast
  with publish(2) show ?thesis by (simp add: insert_publication_def same_header_def)
qed (auto simp: same_header_def statement_defs change_role_def cast_vote_def retire_schema_def Let_def split: if_splits)

lemma prune_stmt_header:
  assumes "prune_stmt h h'"
  shows "same_header h h'"
  using assms
  by (cases rule: prune_stmt.cases)
    (auto simp: same_header_def insert_pruned_idem_def delete_idem_def delete_votes_of_def delete_pins_of_def
      delete_revision_def delete_head_def delete_event_def delete_publication_def mergePrunedRange_def raise_low_water_def
      insert_prune_audit_def delete_guard_Inr Let_def split: if_splits option.splits prod.splits)

interpretation header_stmt: step_order stmt same_header
  by unfold_locales (auto simp: same_header_def dest: stmt_header[unfolded same_header_def])

interpretation header_prune: step_order prune_stmt same_header
  by unfold_locales (auto simp: same_header_def dest: prune_stmt_header[unfolded same_header_def])

lemma pruned_parts:
  assumes "pruned h h'" and "separated h"
  shows "\<exists>es. pruned_state es h h'" and "prune_stmts h h'"
  using assms unfolding pruned_def by (blast elim: pruneHub_Inr, blast intro: pruneHub_steps)

section \<open>The invariant of a hub\<close>

definition sound :: "hub \<Rightarrow> bool" where
  "sound h \<longleftrightarrow> structure_ok h \<and> accounted h \<and> checks_ok h \<and> \<not> retention_enabled h"

lemma sound_stmts: "stmts h h' \<Longrightarrow> sound h \<Longrightarrow> sound h'"
  unfolding sound_def
  using structure_stmt.star accounts_stmt.star checks_stmt.star retained_stmt.star_up[of h h']
  by (auto simp: retained_def)

lemma sound_pruned:
  assumes "pruned h h'" and "sound h"
  shows "sound h'"
proof -
  have a: "accounted h" "structure_ok h" "unique_keys h" using assms(2) by (auto simp: sound_def structure_ok_def)
  note parts = pruned_parts[OF assms(1) accountedD(4)[OF a(1)]]
  have "accounted h'" using assms(1) a unfolding pruned_def by (blast intro: pruneHub_accounted)
  moreover have "structure_ok h'" by (rule structure_prune.star[OF parts(2) a(2)])
  moreover have "checks_ok h'" by (rule checks_prune.star[OF parts(2)]) (use assms(2) in \<open>simp add: sound_def\<close>)
  ultimately show ?thesis using parts(1) by (auto simp: sound_def pruned_state_def)
qed

lemma pruned_sound: "pruned h h' \<Longrightarrow> sound h \<Longrightarrow> \<exists>es. pruned_state es h h'"
  by (rule pruned_parts(1)) (auto simp: sound_def dest: accountedD(4))

lemma sound_call: "call d e h h' \<Longrightarrow> sound h \<Longrightarrow> sound h'"
  by (drule call_effect) (auto simp: effect_def intro: sound_stmts sound_pruned)

lemma rows_call: "call d e h h' \<Longrightarrow> sound h \<Longrightarrow> rows_valid h \<Longrightarrow> rows_valid h'"
  by (drule call_effect)
    (auto simp: effect_def sound_def dest: accountedD(4) intro: rows_stmt.star rows_prune.star pruned_parts)

lemma header_call: "call d e h h' \<Longrightarrow> sound h \<Longrightarrow> same_header h h'"
  by (drule call_effect)
    (auto simp: effect_def header_stmt.refl sound_def dest: accountedD(4) intro: header_stmt.star_up header_prune.star_up pruned_parts)

lemma history_call: "call d e h h' \<Longrightarrow> sound h \<Longrightarrow> history h h'"
  by (drule call_effect)
    (auto simp: effect_def history_refl sound_def dest: accountedD(4) intro: history_stmt.star_up history_prune.star_up pruned_parts)

text \<open>The states the hub can be in; the secret is what \<open>crypto/rand\<close> filled the 32 bytes with.\<close>

inductive reachable :: "(int \<Rightarrow> string) \<Rightarrow> hub \<Rightarrow> bool" for dg where
  created: "initialize dg now rid (Some secret) pages_ok empty_hub = Inr (i, h) \<Longrightarrow> length secret = 32 \<Longrightarrow> reachable dg h"
| called: "reachable dg h \<Longrightarrow> call d e h h' \<Longrightarrow> reachable dg h'"

lemma fresh_sound: "sound (fresh_hub dg now i s)"
proof -
  have "foreign_keys_ok (fresh_hub dg now i s)" by (simp add: fresh_hub_def empty_hub_def fk_defs)
  moreover have "unique_keys (fresh_hub dg now i s)" by (simp add: fresh_hub_def empty_hub_def key_defs)
  moreover have "corrections_ok (fresh_hub dg now i s)" by (simp add: fresh_hub_def empty_hub_def corrections_ok_def)
  moreover have "accounted (fresh_hub dg now i s)"
    by (simp add: fresh_hub_def empty_hub_def accounted_def separated_def low_water_ok_def next_of_def find_counter_def
        partitioned_def positions_def pruned_at_def covered_def scope_ranges_def)
  moreover have "checks_ok (fresh_hub dg now i s)" by (simp add: fresh_hub_def empty_hub_def check_defs)
  ultimately show ?thesis by (simp add: sound_def structure_ok_def) (simp add: fresh_hub_def empty_hub_def)
qed

lemma reachable_sound: "reachable dg h \<Longrightarrow> sound h"
  by (induction rule: reachable.induct) (auto elim: initialize_Inr intro: fresh_sound sound_call)

lemma reachable_rows: "reachable dg h \<Longrightarrow> rows_valid h"
proof (induction rule: reachable.induct)
  case (created now rid secret pages_ok i h)
  from created(1) obtain s where "h = fresh_hub dg now i s" by (rule initialize_Inr)
  then show ?case by (simp add: fresh_hub_def empty_hub_def rows_valid_def)
next
  case called
  then show ?case by (blast intro: rows_call reachable_sound)
qed

lemma reachable_header:
  "reachable dg h \<Longrightarrow> \<exists>now i s. i \<noteq> '''' \<and> length s = 32 \<and> same_header (fresh_hub dg now i s) h"
proof (induction rule: reachable.induct)
  case (created now rid secret pages_ok i h)
  then show ?case by (auto elim!: initialize_Inr intro!: exI header_stmt.refl)
next
  case (called h d e h')
  then have "same_header h h'" by (intro header_call reachable_sound)
  with called.IH show ?case using header_stmt.trans by blast
qed

lemma fresh_probe:
  assumes "i \<noteq> ''''" and "length s = 32" and "same_header (fresh_hub dg now i s) h"
  shows "probe dg h = Inr (db_id h)"
  using assms
  by (simp add: same_header_def probe_def probeVersion_def fresh_hub_def empty_hub_def applicationID_def schemaVersion_def
      migration_digest_def check_migration_def probe_step_def check_secret_def upto.simps Let_def)

end
