(* ===== verification/Lifetime.thy ===== *)
theory Lifetime
  imports Machine
begin

text \<open>
  A hub over its lifetime: a concrete run of it, and the properties of every reachable database.
\<close>

section \<open>A short life of a hub\<close>

text \<open>
  Created at the millisecond 1, enrolled, one topic with two posts, a subscription that reads
  from the beginning, and a prune of the first post.
\<close>

definition ident :: "string \<Rightarrow> string" where "ident b = concat (replicate 16 b)"

definition life_db :: db where "life_db = \<lparr>authorityID = ident ''07'', readOnly = False\<rparr>"

definition life_born :: hub where "life_born = fresh_hub (\<lambda>_. ''d'') 1 (ident ''07'') (replicate 32 CHR ''s'')"

definition life_enrolled :: hub where
  "life_enrolled = life_born\<lparr>scopes := [\<lparr>sc_id = ident ''03'', sc_kind = ''global'', sc_enrolled_at = 2, sc_low_water = 0\<rparr>],
     actors := [\<lparr>ac_id = ''alice'', ac_enrolled_at = 3\<rparr>], consumers := [\<lparr>cn_id = ''c'', cn_enrolled_at = 4\<rparr>]\<rparr>"

definition life_topic :: topic_row where
  "life_topic = \<lparr>tp_id = ident ''04'', tp_scope = ident ''03'', tp_key = ''news'', tp_name = ''News'',
     tp_description = ''All news'', tp_owner = ''alice'', tp_created_at = 5, tp_expires_at = None, tp_archived_at = None,
     tp_archive_actor = None, tp_archive_reason = None, tp_generation = 1\<rparr>"

definition life_created :: hub where
  "life_created = life_enrolled\<lparr>topics := [life_topic],
     audits := [\<lparr>au_id = ident ''05'', au_topic = ident ''04'', au_actor = ''alice'', au_action = ''create'', au_at = 5,
       au_old = AuNull, au_new = AuTopic (topic_of_row life_topic ''global'' 5)\<rparr>]\<rparr>"

definition life_message :: "string \<Rightarrow> int \<Rightarrow> int \<Rightarrow> publication_row" where
  "life_message e n at = \<lparr>pb_entry = ident e, pb_scope = ident ''03'', pb_topic = ident ''04'', pb_actor = ''alice'',
     pb_kind = ''message'', pb_sequence = n, pb_committed_at = at, pb_occurred_at = None, pb_expires_at = None,
     pb_source_refs = JText [], pb_correlation_refs = JText [], pb_key = None\<rparr>"

definition life_head :: "string \<Rightarrow> string \<Rightarrow> head_row" where
  "life_head m e = \<lparr>hd_message = ident m, hd_scope = ident ''03'', hd_topic = ident ''04'', hd_author = ''alice'',
     hd_revision = 1, hd_entry = ident e, hd_pinned = False\<rparr>"

definition life_revision :: "string \<Rightarrow> string \<Rightarrow> string \<Rightarrow> revision_row" where
  "life_revision m e txt = \<lparr>rv_message = ident m, rv_scope = ident ''03'', rv_topic = ident ''04'', rv_revision = 1,
     rv_entry = ident e, rv_text = txt, rv_expires_at = None\<rparr>"

definition life_first :: hub where
  "life_first = life_created\<lparr>counters := [\<lparr>ct_scope = ident ''03'', ct_next = 2\<rparr>], publications := [life_message ''07'' 1 6],
     heads := [life_head ''06'' ''07''], revisions := [life_revision ''06'' ''07'' ''first'']\<rparr>"

definition life_second :: hub where
  "life_second = life_first\<lparr>counters := [\<lparr>ct_scope = ident ''03'', ct_next = 3\<rparr>],
     publications := publications life_first @ [life_message ''09'' 2 7], heads := heads life_first @ [life_head ''08'' ''09''],
     revisions := revisions life_first @ [life_revision ''08'' ''09'' ''second'']\<rparr>"

definition life_read :: hub where
  "life_read = life_second\<lparr>
     subscriptions := [\<lparr>sb_id = ident ''0a'', sb_consumer = ''c'', sb_scope = ident ''03'', sb_kinds = JText [''message''],
       sb_types = JText [], sb_created_at = 8, sb_ack = 0, sb_removed_at = None\<rparr>],
     subtopics := [\<lparr>st_sub = ident ''0a'', st_scope = ident ''03'', st_topic = ident ''04''\<rparr>]\<rparr>"

definition life_pruned :: hub where
  "life_pruned = life_read\<lparr>scopes := [\<lparr>sc_id = ident ''03'', sc_kind = ''global'', sc_enrolled_at = 2, sc_low_water = 1\<rparr>],
     pruned_ranges := [\<lparr>pr_scope = ident ''03'', pr_from = 1, pr_to = 1, pr_prune = ident ''0b''\<rparr>],
     prune_audits := [\<lparr>pa_id = ident ''0b'', pa_cutoff = 7, pa_at = 20, pa_backup = ''backup'', pa_available = True,
       pa_entries = 1, pa_bytes = 5, pa_epoch = 1\<rparr>],
     publications := [life_message ''09'' 2 7], heads := [life_head ''08'' ''09''],
     revisions := [life_revision ''08'' ''09'' ''second''], retention_epoch := 1\<rparr>"

definition life_third :: hub where
  "life_third = life_pruned\<lparr>counters := [\<lparr>ct_scope = ident ''03'', ct_next = 4\<rparr>],
     publications := publications life_pruned @ [life_message ''0d'' 3 22], heads := heads life_pruned @ [life_head ''0c'' ''0d''],
     revisions := revisions life_pruned @ [life_revision ''0c'' ''0d'' ''third'']\<rparr>"

text \<open>The calls that lead from each state to the next.\<close>

definition life_post :: "int \<Rightarrow> string \<Rightarrow> 8 word \<Rightarrow> 8 word \<Rightarrow> hub \<Rightarrow> (err + message) \<times> hub" where
  "life_post at txt m e = PostMessage (\<lambda>s. s) demo_enc life_db (demo_env at) demo_os GlobalScopeSelector (ident ''04'') ''alice''
     ((demo_input '''' txt)\<lparr>mi_AuthorityID := ident ''07''\<rparr>) (demo_bytes m) (demo_bytes e)"

lemma life_calls:
  "initialize (\<lambda>_. ''d'') 1 (demo_bytes 7) (Some (replicate 32 CHR ''s'')) True empty_hub = Inr (ident ''07'', life_born)"
  "snd (EnrollConsumer life_db (demo_env 4) (ident ''07'') ''c'' None
     (snd (EnrollActor life_db (demo_env 3) ''alice'' None
       (fst (snd (EnrollRepo life_db (demo_env 2) demo_os GlobalScopeSelector (demo_bytes 3) None life_born)))))) = life_enrolled"
  "snd (CreateTopic life_db (demo_env 5) demo_os GlobalScopeSelector ''alice''
       \<lparr>ti_Key = ''news'', ti_Name = ''News'', ti_Description = ''All news'', ti_ExpiresAt = None\<rparr> (demo_bytes 4) (demo_bytes 5)
       life_enrolled) = life_created"
  "snd (life_post 6 ''first'' 6 7 life_created) = life_first"
  "snd (life_post 7 ''second'' 8 9 life_first) = life_second"
  "snd (Subscribe life_db (demo_env 8) demo_os GlobalScopeSelector
     \<lparr>si_AuthorityID = ident ''07'', si_ConsumerID = ''c'', si_TopicIDs = [ident ''04''], si_Kinds = [''message''],
      si_EventTypes = [], si_FromBeginning = True\<rparr> (demo_bytes 10) life_second) = life_read"
  "snd (PruneHub (\<lambda>_. ''d'') (\<lambda>_. 0) (\<lambda>es. concat (map pe_id es)) life_db (demo_env 20) (fromMillis 7)
     (fromMillis 20) (Inr ()) (Inr ''backup'') (demo_bytes 11) life_read life_read) = life_pruned"
  "snd (life_post 22 ''third'' 12 13 life_pruned) = life_third"
  by code_simp+

lemma reach_snd:
  assumes "\<And>e h'. outcome r = (e, h') \<Longrightarrow> method_call d e h h'" and "reachable dg h"
  shows "reachable dg (snd r)"
  by (rule called[OF assms(2) call.method_call[OF assms(1)[of "fst (outcome r)"]]]) (simp add: outcome_def)

lemma life_born_reach: "reachable (\<lambda>_. ''d'') life_born"
  by (rule created[OF life_calls(1)]) simp

lemma life_enrolled_reach: "reachable (\<lambda>_. ''d'') life_enrolled"
proof -
  obtain r h os' where e: "EnrollRepo life_db (demo_env 2) demo_os GlobalScopeSelector (demo_bytes 3) None life_born = (r, h, os')"
    by (metis surj_pair)
  then have "method_call life_db (fst (outcome (r, h))) life_born h" by (rule method_call.EnrollRepo) (simp add: outcome_def)
  then have "reachable (\<lambda>_. ''d'') h" by (rule called[OF life_born_reach call.method_call])
  then show ?thesis unfolding life_calls(2)[symmetric] e
    by (simp only: fst_conv snd_conv) (rule reach_snd, erule method_call.EnrollConsumer, rule reach_snd, erule method_call.EnrollActor)
qed

lemma life_post_call: "outcome (life_post at txt m e h) = (x, h') \<Longrightarrow> method_call life_db x h h'"
  unfolding life_post_def by (rule method_call.PostMessage)

lemma life_created_reach: "reachable (\<lambda>_. ''d'') life_created"
  unfolding life_calls(3)[symmetric] by (rule reach_snd, erule method_call.CreateTopic, rule life_enrolled_reach)

lemma life_second_reach: "reachable (\<lambda>_. ''d'') life_second"
  unfolding life_calls(5)[symmetric]
  by (rule reach_snd, erule life_post_call, unfold life_calls(4)[symmetric], rule reach_snd, erule life_post_call,
      rule life_created_reach)

lemma life_read_reach: "reachable (\<lambda>_. ''d'') life_read"
  unfolding life_calls(6)[symmetric] by (rule reach_snd, erule method_call.Subscribe, rule life_second_reach)

lemma snd_call:
  assumes "\<And>e h'. outcome r = (e, h') \<Longrightarrow> method_call d e h h'"
  shows "\<exists>e. call d e h (snd r)"
  by (rule exI[of _ "fst (outcome r)"], rule call.method_call, rule assms) (simp add: outcome_def)

lemma life_prune_call: "\<exists>e. call life_db e life_read life_pruned"
  unfolding life_calls(7)[symmetric] by (rule snd_call, erule method_call.PruneHub)

lemma life_third_call: "\<exists>e. call life_db e life_pruned life_third"
  unfolding life_calls(8)[symmetric] by (rule snd_call, erule life_post_call)

lemma life_pruned_reach: "reachable (\<lambda>_. ''d'') life_pruned"
  using life_prune_call called[OF life_read_reach] by blast

section \<open>Properties\<close>

text \<open>
  C1: Whatever is called on a hub, in any order and with any arguments, file systems, clocks and faults, the
  integrity check of the store keeps succeeding (format, migrations, secret, every foreign key), and every
  primary key and unique index of the schema stays satisfied.
\<close>

theorem integrity_always:
  assumes "reachable dg h"
  shows "CheckIntegrity dg True h = Inr () \<and> unique_keys h"
  using reachable_sound[OF assms] reachable_header[OF assms]
  by (auto simp: CheckIntegrity_def checkIntegrity_def sound_def structure_ok_def fresh_probe)

theorem integrity_always_witness: "CheckIntegrity (\<lambda>_. ''d'') True life_pruned = Inr () \<and> unique_keys life_pruned"
  using integrity_always[OF life_pruned_reach] by blast

text \<open>
  C23: What is stored has been validated, and no edit or prune undoes it. In a reachable hub every actor and consumer
  ID is well formed; a topic has a valid key, and a name and a description within their lengths that are UTF-8 text without
  control characters and not blank; an entry expires after it was committed and carries a valid idempotency key or none,
  and references that pass \<open>validateRefs\<close>; a revision holds a valid message text; schemas and events have valid type
  keys; and a subscription selects a kind, and at most 32 event types, sorted, without repetition, each valid,
  none unless it selects events. No clause of the SQL schema says any of this: it rests on the methods' own checks.
\<close>

theorem stored_rows_are_validated:
  assumes "reachable dg h"
  shows "(\<forall>a \<in> set (actors h). validActorID (ac_id a)) \<and> (\<forall>c \<in> set (consumers h). validConsumerID (cn_id c))
    \<and> (\<forall>t \<in> set (topics h). validKey (tp_key t) \<and> text_ok 120 (tp_name t) \<and> text_ok 1000 (tp_description t)
        \<and> opt_all (text_ok 1000) (tp_archive_reason t))
    \<and> (\<forall>p \<in> set (publications h). opt_all (\<lambda>t. pb_committed_at p < t) (pb_expires_at p)
        \<and> opt_all (\<lambda>k. k \<noteq> '''' \<and> valid_idempotency_key k) (pb_key p)
        \<and> (\<exists>ss cs. pb_source_refs p = JText ss \<and> pb_correlation_refs p = JText cs \<and> validateRefs ss cs = Inr ()))
    \<and> (\<forall>r \<in> set (revisions h). validMessageText (rv_text r))
    \<and> (\<forall>s \<in> set (schemas h). validTypeKey (es_type s)) \<and> (\<forall>v \<in> set (events h). validTypeKey (ev_type v))
    \<and> (\<forall>s \<in> set (subscriptions h). \<exists>ks ts. sb_kinds s = JText ks \<and> sb_types s = JText ts
        \<and> ks \<in> {[''event''], [''message''], [''event'', ''message'']} \<and> sorted ts \<and> distinct ts \<and> length ts \<le> 32
        \<and> list_all (\<lambda>f. validTypeKey (fst f) \<and> 1 \<le> snd f) ts \<and> (ts = [] \<or> ''event'' \<in> set ks))"
  using reachable_rows[OF assms]
  by (simp add: rows_valid_def topic_valid_def publication_valid_def revision_valid_def schema_valid_def subscription_valid_def)

theorem stored_rows_are_validated_witness:
  "text_ok 120 ''News'' \<and> validMessageText ''second'' \<and> validActorID ''alice'' \<and> validKey ''news''"
proof -
  have in_life: "life_topic \<in> set (topics life_pruned)" "life_revision ''08'' ''09'' ''second'' \<in> set (revisions life_pruned)"
    "\<lparr>ac_id = ''alice'', ac_enrolled_at = 3\<rparr> \<in> set (actors life_pruned)"
    by (simp_all add: life_pruned_def life_read_def life_second_def life_first_def life_created_def life_enrolled_def)
  note v = stored_rows_are_validated[OF life_pruned_reach]
  from v in_life have "text_ok 120 (tp_name life_topic)" "validMessageText (rv_text (life_revision ''08'' ''09'' ''second''))"
    "validActorID (ac_id \<lparr>ac_id = ''alice'', ac_enrolled_at = 3\<rparr>)" "validKey (tp_key life_topic)" by blast+
  then show ?thesis by (simp add: life_topic_def life_revision_def)
qed

text \<open>
  C3: In every scope of a reachable hub the sequence positions given out so far are exactly the stored
  publications and the recorded pruned ranges, and no position is both: nothing is ever lost silently.
\<close>

theorem stream_complete:
  assumes "reachable dg h"
  shows "pb_sequence ` {p \<in> set (publications h). pb_scope p = s} \<inter> covered (scope_ranges h s) = {}
    \<and> pb_sequence ` {p \<in> set (publications h). pb_scope p = s} \<union> covered (scope_ranges h s) = {1..<next_of h s}"
  using reachable_sound[OF assms] accountedD(1,2)[of h s] by (simp add: sound_def positions_def pruned_at_def)

theorem stream_complete_witness:
  "\<exists>s. pb_sequence ` {p \<in> set (publications life_pruned). pb_scope p = s} \<union> covered (scope_ranges life_pruned s)
     = {1..<next_of life_pruned s} \<and> next_of life_pruned s = 3"
proof -
  have "next_of life_pruned (ident ''03'') = 3" by code_simp
  with stream_complete[OF life_pruned_reach, of "ident ''03''"] show ?thesis by blast
qed

text \<open>
  C5: The gaps of a page pulled from a reachable hub are truthful: a consumer is never told that a position
  is unavailable, and what it is told was pruned is recorded as pruned.
\<close>

theorem pages_truthful:
  assumes "reachable dg h" and pull: "Pull cc d os path consumerID sid limit clk h = Inr page" and g: "g \<in> set (pg_Gaps page)"
  shows "gp_Reason g \<noteq> ''unavailable''
    \<and> (gp_Reason g = ''pruned'' \<longrightarrow> {gp_From g..gp_To g} \<subseteq> covered (scope_ranges h (pg_ScopeID page)))"
proof -
  have s: "sound h" by (rule reachable_sound) fact
  have "0 \<le> pg_PriorAcknowledged page" using pull
  proof (rule Pull_Inr)
    fix sco secret and sub :: subscription and low gaps0 start sel
    assume "readSubscription h (scope_ID sco) consumerID sid = Inr sub" and p: "pg_PriorAcknowledged page = su_AcknowledgedSequence sub"
    then obtain r where "r \<in> set (subscriptions h)" "su_AcknowledgedSequence sub = sb_ack r"
      by (auto simp: readSubscription_def find_subscription_def bindE_Inr_iff dest: find_SomeD)
    then show ?thesis using s p by (simp add: sound_def check_defs)
  qed
  with Pull_truthful[OF pull] s g show ?thesis
    by (auto simp: sound_def structure_ok_def truthful_def pruned_at_def)
qed

text \<open>
  C8: No sequence position is ever given out twice, not even after a prune: a publication that a later state
  of the hub has and an earlier one had not carries a position the earlier counter had not reached.
\<close>

theorem sequences_never_reused:
  assumes "reachable dg h" and "call d e h h'" and "p \<in> set (publications h')" and "p \<notin> set (publications h)"
  shows "next_of h (pb_scope p) \<le> pb_sequence p \<and> pb_sequence p < next_of h' (pb_scope p)"
proof -
  have s: "sound h" by (rule reachable_sound) fact
  have s': "sound h'" using assms(2) s by (rule sound_call)
  have "\<not> pruned h h'"
    using pruned_sound[of h h'] s assms(3,4) by (auto simp: pruned_state_def)
  with call_effect[OF assms(2)] assms(3,4) have "stmts h h'" by (auto simp: effect_def)
  then have "next_of h (pb_scope p) \<le> pb_sequence p"
    using fresh_stmt.star_up assms(3,4) by (auto simp: fresh_sequences_def)
  moreover have "pb_sequence p \<in> positions h' (pb_scope p)" using assms(3) by (auto simp: positions_def)
  then have "pb_sequence p < next_of h' (pb_scope p)" using accountedD(2)[of h' "pb_scope p"] s' by (auto simp: sound_def)
  ultimately show ?thesis ..
qed

text \<open>
  C10: Only a prune takes anything away, and it shows: while the retention epoch stays the same, a call
  only appends to the publications, the revisions, the events, the pin audit and the idempotency keys.
\<close>

theorem only_prune_deletes:
  assumes "reachable dg h" and "call d e h h'" and "retention_epoch h' = retention_epoch h"
  shows "prefix (publications h) (publications h') \<and> prefix (revisions h) (revisions h') \<and> prefix (events h) (events h')
    \<and> prefix (pins h) (pins h') \<and> prefix (idems h) (idems h') \<and> pruned_ranges h' = pruned_ranges h"
proof -
  have "\<not> pruned h h'"
    using pruned_sound[of h h'] reachable_sound[OF assms(1)] assms(3) by (auto simp: pruned_state_def)
  with call_effect[OF assms(2)] have "stmts h h'" by (auto simp: effect_def)
  then show ?thesis using retained_stmt.star_up by (auto simp: retained_def)
qed

text \<open>A consumer reads the pruned hub.\<close>

definition life_page :: "err + pullPage" where
  "life_page = Pull demo_codec life_db demo_os GlobalScopeSelector ''c'' (ident ''0a'') 10 (fromMillis 21) life_pruned"

lemma life_page_facts: "\<not> isl life_page \<and> pg_Gaps (projr life_page) = [\<lparr>gp_From = 1, gp_To = 1, gp_Reason = ''pruned''\<rparr>]"
  by code_simp

theorem pages_truthful_witness:
  "\<exists>page g. life_page = Inr page \<and> g \<in> set (pg_Gaps page) \<and> gp_Reason g = ''pruned''
     \<and> {gp_From g..gp_To g} \<subseteq> covered (scope_ranges life_pruned (pg_ScopeID page))"
proof -
  let ?page = "projr life_page" and ?g = "\<lparr>gp_From = 1, gp_To = 1, gp_Reason = ''pruned''\<rparr>"
  have p: "life_page = Inr ?page" using life_page_facts by (simp add: value_okD)
  have g: "?g \<in> set (pg_Gaps ?page)" using life_page_facts by simp
  have q: "Pull demo_codec life_db demo_os GlobalScopeSelector ''c'' (ident ''0a'') 10 (fromMillis 21) life_pruned = Inr ?page"
    by (fold life_page_def) (rule p)
  from pages_truthful[OF life_pruned_reach q g] p g show ?thesis
    by (intro exI[of _ ?page] exI[of _ ?g]) auto
qed

theorem sequences_never_reused_witness:
  "life_message ''0d'' 3 22 \<in> set (publications life_third) \<and> next_of life_pruned (ident ''03'') \<le> 3"
proof -
  obtain e where c: "call life_db e life_pruned life_third" using life_third_call by blast
  have new: "life_message ''0d'' 3 22 \<in> set (publications life_third)" "life_message ''0d'' 3 22 \<notin> set (publications life_pruned)"
    by (simp add: life_third_def) code_simp
  from sequences_never_reused[OF life_pruned_reach c new] new(1) show ?thesis by (simp add: life_message_def)
qed

theorem only_prune_deletes_witness: "prefix (publications life_pruned) (publications life_third)"
proof -
  obtain e where c: "call life_db e life_pruned life_third" using life_third_call by blast
  have "retention_epoch life_third = retention_epoch life_pruned" by (simp add: life_third_def)
  from only_prune_deletes[OF life_pruned_reach c this] show ?thesis by blast
qed

text \<open>
  C14: What a hub remembers only moves forward, prunes included: actors and the policy audit log are only
  appended to, a topic keeps its identity, key and owner and its policy generation never falls, a
  subscription keeps its filters and its cursor never falls, no low-water mark falls and neither does the retention epoch.
\<close>

theorem history_moves_forward:
  assumes "reachable dg h" and "call d e h h'"
  shows "prefix (actors h) (actors h') \<and> prefix (audits h) (audits h') \<and> retention_epoch h \<le> retention_epoch h'
    \<and> (\<forall>t \<in> set (topics h). \<exists>t' \<in> set (topics h'). tp_id t' = tp_id t \<and> tp_scope t' = tp_scope t \<and> tp_key t' = tp_key t
        \<and> tp_owner t' = tp_owner t \<and> tp_generation t \<le> tp_generation t')
    \<and> (\<forall>s \<in> set (subscriptions h). \<exists>s' \<in> set (subscriptions h'). sb_id s' = sb_id s \<and> sb_kinds s' = sb_kinds s
        \<and> sb_types s' = sb_types s \<and> sb_ack s \<le> sb_ack s')
    \<and> (\<forall>l \<in> set (leases h). \<exists>l' \<in> set (leases h'). ls_topic l' = ls_topic l \<and> ls_generation l \<le> ls_generation l')
    \<and> (\<forall>s \<in> set (scopes h). \<exists>s' \<in> set (scopes h'). sc_id s' = sc_id s \<and> sc_low_water s \<le> sc_low_water s')"
proof -
  have "history h h'" by (rule history_call[OF assms(2) reachable_sound[OF assms(1)]])
  then have "prefix (actors h) (actors h')" "prefix (audits h) (audits h')" "retention_epoch h \<le> retention_epoch h'"
    and g: "grows same_topic (topics h) (topics h')" "grows same_cursor (subscriptions h) (subscriptions h')"
      "grows same_lease (leases h) (leases h')" "grows same_scope (scopes h) (scopes h')"
    by (simp_all add: history_def)
  then show ?thesis
    using grows_member[OF g(1)] grows_member[OF g(2)] grows_member[OF g(3)] grows_member[OF g(4)]
    by (simp add: same_defs) (meson bexI)
qed

theorem history_moves_forward_witness: "prefix (audits life_read) (audits life_pruned) \<and> retention_epoch life_read \<le> retention_epoch life_pruned"
proof -
  obtain e where "call life_db e life_read life_pruned" using life_prune_call by blast
  from history_moves_forward[OF life_read_reach this] show ?thesis by blast
qed

text \<open>
  C12: What a call that reports an error leaves behind. A method that is one transaction has changed nothing,
  whatever step of it failed: validation, the file system, the random source, admission, a statement of the body,
  or the commit. The only other call that can fail is \<open>VacuumHub\<close>, and all that it can have written is
  one row that records its backup, available and with nothing pruned: compacting or checking the database
  failed after that row was committed.
\<close>

theorem failed_call_is_clean:
  assumes "call d (Some e) h h'"
  shows "h' = h \<or> (\<not> method_call d (Some e) h h' \<and> (\<exists>a. h' = h\<lparr>prune_audits := prune_audits h @ [a]\<rparr>
    \<and> pa_available a \<and> pa_entries a = 0 \<and> pa_bytes a = 0 \<and> pa_epoch a = retention_epoch h))"
  using failed_call[OF assms] failed_method[of d e h h'] by (auto simp: backup_recorded_def)

text \<open>An enrolment whose commit fails, and a vacuum whose \<open>VACUUM\<close> runs out of disk.\<close>

definition life_vacuum :: "(err + string \<times> int) \<times> hub" where
  "life_vacuum = record_vacuum life_db (demo_env 21) (Inr ()) (Inr ''second'') (demo_bytes 14) life_pruned"

definition full_disk :: vacuuming where
  "full_disk = \<lparr>vc_checkpoint1 = Inr False, vc_checkpoint2 = Inr False, vc_size1 = Inr 1, vc_size2 = Inr 1, vc_free = Inr 9,
     vc_vacuum = Inl (Sqlite 13), vc_pages_ok = True\<rparr>"

theorem failed_call_is_clean_witness:
  "snd (EnrollActor life_db ((demo_env 3)\<lparr>commit_fault := Some (Sqlite 5)\<rparr>) ''alice'' None life_born) = life_born
   \<and> isl (compactHub (\<lambda>_. ''d'') full_disk (snd life_vacuum)) \<and> snd life_vacuum \<noteq> life_pruned
   \<and> (\<exists>a. snd life_vacuum = life_pruned\<lparr>prune_audits := prune_audits life_pruned @ [a]\<rparr> \<and> pa_available a)"
proof -
  let ?r = "EnrollActor life_db ((demo_env 3)\<lparr>commit_fault := Some (Sqlite 5)\<rparr>) ''alice'' None life_born"
  have "fst (outcome ?r) = Some ErrBusyRetryable" by code_simp
  then have o: "outcome ?r = (Some ErrBusyRetryable, snd ?r)" by (simp add: outcome_def)
  have m: "method_call life_db (Some ErrBusyRetryable) life_born (snd ?r)" by (rule method_call.EnrollActor[OF o])
  have first: "snd ?r = life_born" using failed_call_is_clean[OF call.method_call[OF m]] m by blast
  let ?c = "compactHub (\<lambda>_. ''d'') full_disk (snd life_vacuum)"
  have c: "isl ?c" by (simp add: compactHub_def full_disk_def)
  have v: "\<not> isl (fst life_vacuum)" "length (prune_audits (snd life_vacuum)) = 2" "length (prune_audits life_pruned) = 1"
    by (code_simp, code_simp, simp add: life_pruned_def)
  from v(1) obtain x where x: "life_vacuum = (Inr x, snd life_vacuum)" by (metis prod.collapse value_okD)
  have "outcome (?c, snd life_vacuum) = (Some (projl ?c), snd life_vacuum)" using c by (cases ?c) (simp_all add: outcome_def)
  with x have k: "call life_db (Some (projl ?c)) life_pruned (snd life_vacuum)"
    unfolding life_vacuum_def by (rule call.VacuumHub)
  have n: "snd life_vacuum \<noteq> life_pruned" using v by auto
  from failed_call_is_clean[OF k] n first c show ?thesis by blast
qed

lemma scan_rows_header:
  "scan_rows h scope historical asOf rows page = Inr page' \<Longrightarrow> pp_ScopeID page' = pp_ScopeID page
     \<and> pp_HighWater page' = pp_HighWater page \<and> pp_LowWater page' = pp_LowWater page \<and> pp_RetentionEpoch page' = pp_RetentionEpoch page"
  by (induction h scope historical asOf rows page arbitrary: page' rule: scan_rows.induct)
    (fastforce simp: Let_def split: if_splits)+

lemma ScanPublications_header:
  assumes "ScanPublications os path after limit historical clk h = Inr page"
  obtains nxt low epoch where "page_header h (pp_ScopeID page) = Inr (nxt, low, epoch)"
    "pp_HighWater page = nxt - 1" "pp_LowWater page = low" "pp_RetentionEpoch page = epoch"
proof -
  from assms obtain scope :: scope and nxt low epoch where h: "page_header h (scope_ID scope) = Inr (nxt, low, epoch)"
    and run: "scan_rows h (scope_ID scope) historical (unixMilli clk)
        (take (nat limit) (publications_after h (scope_ID scope) (if after < low then low else after)))
        \<lparr>pp_ScopeID = scope_ID scope, pp_AsOf = clk, pp_HighWater = nxt - 1, pp_LowWater = low, pp_RetentionEpoch = epoch,
          pp_NextScanPosition = (if after < low then low else after), pp_Entries = [],
          pp_Gaps = (if after < low then [\<lparr>gp_From = after + 1, gp_To = low, gp_Reason = ''pruned''\<rparr>] else [])\<rparr> = Inr page"
    unfolding ScanPublications_def by (auto simp: Let_def)
  from scan_rows_header[OF run] h show thesis by (intro that) simp_all
qed

text \<open>
  C34: What a scan says of its scope. In a reachable hub the high-water mark of a scan's page is the last position the
  scope has given out, the low-water mark does not exceed it, and it is positive exactly when something was published
  in the scope, pruned since or not. The epoch on the page is the hub's retention epoch if so, but 0 if nothing
  was ever published in the scope, however often the hub was pruned: the query joins the epoch with the scope's counter row.
\<close>

theorem scan_header_exact:
  assumes "reachable dg h" and "ScanPublications os path after limit historical clk h = Inr page"
  shows "pp_HighWater page = next_of h (pp_ScopeID page) - 1 \<and> pp_LowWater page \<le> pp_HighWater page
    \<and> (0 < pp_HighWater page \<longleftrightarrow> (\<exists>p \<in> set (publications h). pb_scope p = pp_ScopeID page)
        \<or> (\<exists>n. n \<in> covered (scope_ranges h (pp_ScopeID page))))
    \<and> pp_RetentionEpoch page = (if 0 < pp_HighWater page then retention_epoch h else 0)"
proof -
  let ?s = "pp_ScopeID page"
  note acc = reachable_sound[OF assms(1), unfolded sound_def, THEN conjunct2, THEN conjunct1]
  have two: "\<forall>c \<in> set (counters h). 2 \<le> ct_next c" using reachable_rows[OF assms(1)] by (simp add: rows_valid_def)
  from assms(2) obtain nxt low epoch where hd: "page_header h ?s = Inr (nxt, low, epoch)"
    and pg: "pp_HighWater page = nxt - 1" "pp_LowWater page = low" "pp_RetentionEpoch page = epoch"
    by (rule ScanPublications_header)
  have n: "nxt = next_of h ?s" "epoch = (if find_counter h ?s = None then 0 else retention_epoch h)"
    using hd by (auto simp: page_header_def next_of_def split: option.splits)
  have c: "find_counter h ?s = None \<longleftrightarrow> next_of h ?s = 1"
    using two by (fastforce simp: next_of_def find_counter_def split: option.splits dest: find_SomeD_conj)
  have "{1..<next_of h ?s} = {} \<longleftrightarrow> \<not> (\<exists>p \<in> set (publications h). pb_scope p = ?s) \<and> covered (scope_ranges h ?s) = {}"
    using accountedD(2)[OF acc, of ?s] by (auto simp: positions_def pruned_at_def)
  then have "0 < next_of h ?s - 1 \<longleftrightarrow> (\<exists>p \<in> set (publications h). pb_scope p = ?s) \<or> (\<exists>n. n \<in> covered (scope_ranges h ?s))"
    by auto
  moreover obtain r where "r \<in> set (scopes h)" "sc_id r = ?s" "low = sc_low_water r"
    using hd by (auto simp: page_header_def bindE_Inr_iff split: option.splits dest: find_SomeD_conj)
  then have "{1..low} \<subseteq> pruned_at h ?s" using accountedD(5)[OF acc] by (metis low_water_ok_def)
  then have "{1..low} \<subseteq> {1..<next_of h ?s}" using accountedD(2)[OF acc, of ?s] by blast
  moreover have "1 \<le> next_of h ?s" by (rule accountedD(3)[OF acc])
  ultimately show ?thesis using pg n c by (cases "1 \<le> low") auto
qed

text \<open>A repository enrolled in the pruned hub: nothing was ever published in its scope.\<close>

definition life_os :: os where
  "life_os = demo_os\<lparr>os_git := (\<lambda>_. Some ''/w''), os_identity := (\<lambda>_. Some ''1:2''),
     os_markers := (\<lambda>_. FileData (replicate 32 CHR ''a''))\<rparr>"

definition life_enrolment :: "(err + scope) \<times> hub \<times> os" where
  "life_enrolment = EnrollRepo life_db (demo_env 30) life_os ''/w'' None (demo_bytes 0x30) life_pruned"

definition life_scan :: "string \<Rightarrow> err + publicationPage" where
  "life_scan path = ScanPublications life_os path 0 10 False (fromMillis 31) (fst (snd life_enrolment))"

lemma life_scans:
  "\<not> isl (life_scan ''/w'')" "\<not> isl (life_scan GlobalScopeSelector)"
  "pp_HighWater (projr (life_scan ''/w'')) = 0" "pp_HighWater (projr (life_scan GlobalScopeSelector)) = 2"
  "retention_epoch (fst (snd life_enrolment)) = 1"
  by code_simp+

lemma life_enrolment_reach: "reachable (\<lambda>_. ''d'') (fst (snd life_enrolment))"
proof -
  obtain r h os' where e: "life_enrolment = (r, h, os')" by (metis surj_pair)
  then have "method_call life_db (fst (outcome (r, h))) life_pruned h"
    unfolding life_enrolment_def by (rule method_call.EnrollRepo) (simp add: outcome_def)
  from called[OF life_pruned_reach call.method_call[OF this]] show ?thesis by (simp add: e)
qed

theorem scan_header_exact_witness:
  "\<exists>p q. life_scan ''/w'' = Inr p \<and> pp_RetentionEpoch p = 0 \<and> life_scan GlobalScopeSelector = Inr q \<and> pp_RetentionEpoch q = 1"
proof -
  note ok = life_scans(1,2)[THEN value_okD]
  note s = scan_header_exact[OF life_enrolment_reach ok(1)[unfolded life_scan_def], folded life_scan_def]
    scan_header_exact[OF life_enrolment_reach ok(2)[unfolded life_scan_def], folded life_scan_def]
  have "pp_RetentionEpoch (projr (life_scan ''/w'')) = 0" using s(1) life_scans(3) by simp
  moreover have "pp_RetentionEpoch (projr (life_scan GlobalScopeSelector)) = 1" using s(2) life_scans(4,5) by simp
  ultimately show ?thesis using ok by blast
qed

text \<open>
  A handle opened for reading, one opened on another authority, and one whose file has another format
  never change the database.
\<close>

theorem handle_is_fenced:
  assumes "call d e h h'" and "readOnly d \<or> db_id h \<noteq> authorityID d \<or> user_version h \<noteq> schemaVersion"
  shows "h' = h"
  using call_effect[OF assms(1)] assms(2) by (auto simp: effect_def)

text \<open>
  Between prunes the retention permission is off, so the schema's triggers abort every deletion of a
  publication, a revision, an event or a key: no other code path can delete them.
\<close>

theorem deletion_needs_permission:
  assumes "reachable dg h"
  shows "(p \<in> set (publications h) \<longrightarrow> delete_publication (pb_entry p) h = Inl sql_trigger)
    \<and> (r \<in> set (revisions h) \<longrightarrow> delete_revision (rv_entry r) h = Inl sql_trigger)
    \<and> (v \<in> set (events h) \<longrightarrow> delete_event (ev_entry v) h = Inl sql_trigger)
    \<and> (i \<in> set (idems h) \<longrightarrow> delete_idem (ik_scope i) (ik_topic i) (ik_actor i) (ik_key i) h = Inl sql_trigger)"
  using reachable_sound[OF assms]
  by (auto simp: sound_def delete_publication_def delete_revision_def delete_event_def delete_idem_def delete_guard_def
      entry_exists_def Let_def idem_key_def)

theorem deletion_needs_permission_witness: "delete_publication (ident ''09'') life_pruned = Inl sql_trigger"
proof -
  have "life_message ''09'' 2 7 \<in> set (publications life_pruned)" by (simp add: life_pruned_def)
  with deletion_needs_permission[OF life_pruned_reach, of "life_message ''09'' 2 7"] show ?thesis by (simp add: life_message_def)
qed

lemma event_root_end:
  "event_root h k e = Some (root, n) \<Longrightarrow>
     0 \<le> n \<and> n < int k \<and> (\<exists>r. find_event h root = Some r \<and> ev_corrects r = None)"
proof (induction k arbitrary: e n)
  case (Suc k)
  show ?case
  proof (cases "find_event h e")
    case (Some r)
    show ?thesis
    proof (cases "ev_corrects r")
      case (Some c)
      with \<open>find_event h e = Some r\<close> Suc.prems obtain m where "event_root h k c = Some (root, m)" "n = m + 1" by auto
      with Suc.IH[of c m] show ?thesis by auto
    qed (use Some Suc.prems in auto)
  qed (use Suc.prems in auto)
qed simp

text \<open>
  C32: Following the corrections of an event always ends: in a reachable hub the recursive query has an answer
  for every event, a root that corrects nothing, and the depth it counts is less than the number of events.
\<close>

theorem corrections_end:
  assumes "reachable dg h" and "e \<in> ev_entry ` set (events h)"
  shows "\<exists>root n. root_of h e = Some (root, n) \<and> 0 \<le> n \<and> n < int (length (events h))
    \<and> (\<exists>r. find_event h root = Some r \<and> ev_corrects r = None)"
proof -
  have "corrections_ok h" using reachable_sound[OF assms(1)] by (simp add: sound_def structure_ok_def)
  then obtain root n where r: "root_of h e = Some (root, n)" using assms(2) event_root_enough by blast
  with event_root_end[of h "length (events h)" e root n] show ?thesis by (simp add: root_of_def)
qed

text \<open>A schema that admits every document, an event, and an event that corrects it.\<close>

definition life_schema :: "hub \<Rightarrow> (err + eventSchema) \<times> hub" where
  "life_schema = RegisterEventSchema demo_lexer (\<lambda>_. ''{}'') (\<lambda>s. s) demo_engine WorkDone life_db (demo_env 10) demo_os
     GlobalScopeSelector (ident ''04'') ''alice'' 1 ''build'' 1 ''{}'' (demo_bytes 20)"

definition life_event :: "int \<Rightarrow> string \<Rightarrow> 8 word \<Rightarrow> hub \<Rightarrow> (err + event) \<times> hub" where
  "life_event at target e h = PublishEvent demo_lexer (\<lambda>_. ''{}'') (\<lambda>s. s) (\<lambda>_. ''intent'') demo_engine WorkDone WorkDone life_db
     (demo_env at) demo_os GlobalScopeSelector (ident ''04'') ''alice'' (demo_event (ident ''07'') target) (demo_bytes e)
     (fromMillis at) h h"

definition life_corrected :: hub where
  "life_corrected = snd (life_event 12 (ident ''21'') 0x22 (snd (life_event 11 '''' 0x21 (snd (life_schema life_created)))))"

lemma life_corrected_events:
  "map ev_entry (events life_corrected) = [ident ''21'', ident ''22''] \<and> map ev_corrects (events life_corrected) = [None, Some (ident ''21'')]"
  by code_simp

lemma life_corrected_reach: "reachable (\<lambda>_. ''d'') life_corrected"
  unfolding life_corrected_def life_event_def life_schema_def
  by (rule reach_snd, erule method_call.PublishEvent, rule reach_snd, erule method_call.PublishEvent, rule reach_snd,
      erule method_call.RegisterEventSchema, rule life_created_reach)

theorem corrections_end_witness: "\<exists>root n. root_of life_corrected (ident ''22'') = Some (root, n) \<and> n < 2"
proof -
  have "map ev_entry (events life_corrected) = [ident ''21'', ident ''22'']" using life_corrected_events by blast
  then have "ident ''22'' \<in> ev_entry ` set (events life_corrected)" "length (events life_corrected) = 2"
    by (metis list.set_intros(1) list.set_intros(2) list.set_map, metis length_map length_Cons list.size(3) One_nat_def Suc_1)
  with corrections_end[OF life_corrected_reach, of "ident ''22''"] show ?thesis by auto
qed


end
