(* ===== verification/Migration.thy ===== *)
theory Migration
  imports Store
begin

text \<open>
  Opening an older file: what \<open>migrate\<close> needs of the format it finds, and that it ends in the
  current format with the data kept.
\<close>

section \<open>A file of format \<open>k\<close>\<close>

definition of_format :: "(int \<Rightarrow> string) \<Rightarrow> int \<Rightarrow> hub \<Rightarrow> bool" where
  "of_format dg k h \<longleftrightarrow> application_id h = applicationID \<and> user_version h = k \<and> format_version h = k \<and> db_id h \<noteq> ''''
     \<and> int (length (migrations h)) = k \<and> (\<forall>j \<in> {1..k}. migration_digest h j = Inr (dg j))
     \<and> (4 \<le> k \<longrightarrow> check_secret h = Inr ())"

lemma probeVersion_Inr:
  "probeVersion dg v1 h = Inr i \<longleftrightarrow>
     (\<exists>k. of_format dg k h \<and> (k = schemaVersion \<or> (v1 \<and> 1 \<le> k \<and> k < schemaVersion)) \<and> i = db_id h)"
proof -
  have steps: "forE (probe_step dg h) [2..k] = Inr () \<longleftrightarrow>
      (\<forall>j \<in> {2..k}. migration_digest h j = Inr (dg j)) \<and> (4 \<le> k \<longrightarrow> check_secret h = Inr ())" for k
    by (auto simp: forE_Inr_iff probe_step_def check_migration_def bindE_Inr_iff split: if_splits)
  have one: "migration_digest h j = Inr (dg j)"
    if "migration_digest h 1 = Inr (dg 1)" "\<forall>j \<in> {2..k}. migration_digest h j = Inr (dg j)" "1 \<le> j" "j \<le> k" for j k
    using that by (cases "j = 1") auto
  show ?thesis
    by (auto simp: probeVersion_def of_format_def Let_def bindE_Inr_iff steps schemaVersion_def applicationID_def intro: one)
qed

text \<open>What the scripts may write is blanked; everything else is kept.\<close>

definition kept :: "hub \<Rightarrow> hub" where
  "kept h = h\<lparr>user_version := 0, format_version := 0, migrations := [], pull_secret := None, retention_enabled := False, counters := []\<rparr>"

definition migrated :: "hub \<Rightarrow> hub \<Rightarrow> bool" where
  "migrated h h' \<longleftrightarrow> kept h' = kept h \<and> user_version h \<le> user_version h' \<and> (2 \<le> user_version h \<longrightarrow> counters h' = counters h)
     \<and> (4 \<le> user_version h \<longrightarrow> pull_secret h' = pull_secret h)"

lemma migrated_refl: "migrated h h"
  by (simp add: migrated_def)

lemma migrated_trans: "migrated a b \<Longrightarrow> migrated b c \<Longrightarrow> migrated a c"
  by (auto simp: migrated_def)

lemma digest_appended:
  "migration_digest h' j = Inr d \<longleftrightarrow> migration_digest h j = Inr d
     \<or> (\<forall>m \<in> set (migrations h). mg_version m \<noteq> j) \<and> mg_version m = j \<and> mg_digest m = d"
  if "migrations h' = migrations h @ [m]"
proof (cases "List.find (\<lambda>m. mg_version m = j) (migrations h)")
  case None
  then have "\<forall>m \<in> set (migrations h). mg_version m \<noteq> j" by (simp add: find_None_iff)
  then show ?thesis using None by (simp add: migration_digest_def that find_append)
next
  case (Some m')
  then have "m' \<in> set (migrations h)" "mg_version m' = j" by (auto dest: find_SomeD_conj)
  then show ?thesis using Some by (auto simp: migration_digest_def that find_append)
qed

lemma run_schema_migrations [simp]: "migrations (run_schema k h) = migrations h"
  by (simp add: run_schema_def)

lemma apply_migration_Inr:
  assumes "apply_migration dg now secret k h = Inr h'"
  obtains "k \<noteq> 4" "h' = (run_schema k h)\<lparr>migrations := migrations h @ [\<lparr>mg_version = k, mg_digest = dg k, mg_applied_at = now\<rparr>],
      user_version := k\<rparr>" "k \<notin> mg_version ` set (migrations h)"
  | s where "k = 4" "secret = Some s" "h' = (run_schema k h)\<lparr>pull_secret := Some s,
      migrations := migrations h @ [\<lparr>mg_version = k, mg_digest = dg k, mg_applied_at = now\<rparr>], user_version := k\<rparr>"
      "k \<notin> mg_version ` set (migrations h)"
proof (cases "k = 4")
  case True
  with assms obtain s where "secret = Some s"
    and r: "record_migration dg now k ((run_schema k h)\<lparr>pull_secret := Some s\<rparr>) = Inr h'"
    by (cases secret) (auto simp: apply_migration_def Let_def)
  with True show thesis by (intro that(2)[of s]) (simp_all add: record_migration_def)
next
  case False
  with assms have "record_migration dg now k (run_schema k h) = Inr h'" by (simp add: apply_migration_def Let_def)
  with False show thesis by (intro that(1)) (simp_all add: record_migration_def)
qed

lemma apply_migration_format:
  assumes run: "apply_migration dg now secret k h = Inr h'" and f: "of_format dg (k - 1) h" and k: "2 \<le> k"
    and s: "\<And>s. secret = Some s \<Longrightarrow> length s = 32"
  shows "of_format dg k h' \<and> migrated h h'"
proof -
  let ?m = "\<lparr>mg_version = k, mg_digest = dg k, mg_applied_at = now\<rparr>"
  have m: "migrations h' = migrations h @ [?m]" and n: "k \<notin> mg_version ` set (migrations h)"
    using run by (auto elim!: apply_migration_Inr)
  have dig: "migration_digest h' j = Inr (dg j)" if "j \<in> {1..k}" for j
  proof (cases "j = k")
    case True
    then show ?thesis using n by (auto simp: digest_appended[OF m])
  next
    case False
    then have "migration_digest h j = Inr (dg j)" using that f by (simp add: of_format_def)
    then show ?thesis by (simp add: digest_appended[OF m])
  qed
  have "user_version h = k - 1" using f by (simp add: of_format_def)
  moreover have "4 < k \<Longrightarrow> check_secret h = Inr ()" using f by (simp add: of_format_def)
  ultimately show ?thesis using run
  proof (elim apply_migration_Inr)
    assume "k \<noteq> 4" "h' = (run_schema k h)\<lparr>migrations := migrations h @ [?m], user_version := k\<rparr>"
    then show ?thesis using f k dig \<open>4 < k \<Longrightarrow> check_secret h = Inr ()\<close> m
      by (simp add: of_format_def migrated_def kept_def run_schema_def check_secret_def)
  next
    fix s' assume "k = 4" "secret = Some s'" "h' = (run_schema k h)\<lparr>pull_secret := Some s', migrations := migrations h @ [?m],
      user_version := k\<rparr>"
    then show ?thesis using f dig s[of s'] m by (simp add: of_format_def migrated_def kept_def run_schema_def check_secret_def)
  qed
qed

lemma migrate_steps:
  assumes "foldE (migrate_step dg now secret version) [k..7] h = Inr h'" and "2 \<le> k" and "k \<le> 8" and "version \<le> 7"
    and "of_format dg (max version (k - 1)) h" and "\<And>s. secret = Some s \<Longrightarrow> length s = 32"
  shows "of_format dg 7 h' \<and> migrated h h'"
  using assms
proof (induction "nat (8 - k)" arbitrary: k h)
  case 0
  then show ?case by (simp add: migrated_refl)
next
  case (Suc n)
  then have up: "[k..7] = k # [k + 1..7]" by (simp add: upto_rec1)
  with Suc.prems(1) obtain h1 where step: "migrate_step dg now secret version k h = Inr h1"
    and rest: "foldE (migrate_step dg now secret version) [k + 1..7] h1 = Inr h'" by auto
  have "of_format dg (max version k) h1 \<and> migrated h h1"
  proof (cases "version < k")
    case True
    with step Suc.prems apply_migration_format[of dg now secret k h h1] show ?thesis by (simp add: migrate_step_def max_def)
  next
    case False
    with step Suc.prems show ?thesis by (auto simp: migrate_step_def bindE_Inr_iff migrated_refl max_def)
  qed
  moreover from this Suc.hyps(1)[of "k + 1" h1] Suc.hyps(2) Suc.prems rest have "of_format dg 7 h' \<and> migrated h1 h'" by simp
  ultimately show ?case using migrated_trans by blast
qed

text \<open>
  C28: Opening a file of any earlier format brings it to the current one: \<open>migrate\<close> yields a file the strict
  probe accepts under the same authority, with every table but the counters, the secret and the migration log
  as it was; counters and secret are kept when they exist. Running it again changes nothing.
\<close>

theorem migrate_upgrades:
  assumes "probeVersion dg True h = Inr i" and "migrate dg now (Some s) h = Inr h'" and "length s = 32"
  shows "probe dg h' = Inr i \<and> kept h' = kept h \<and> (2 \<le> user_version h \<longrightarrow> counters h' = counters h)
    \<and> (4 \<le> user_version h \<longrightarrow> pull_secret h' = pull_secret h) \<and> migrate dg now' secret h' = Inr h'"
proof -
  obtain k where k: "of_format dg k h" "k = 8 \<or> 1 \<le> k \<and> k < 8" and i: "i = db_id h"
    using assms(1) by (auto simp: probeVersion_Inr schemaVersion_def)
  have uv: "user_version h = k" using k(1) by (simp add: of_format_def)
  have "of_format dg 8 h' \<and> migrated h h'"
  proof (cases "k = 8")
    case True
    then show ?thesis using assms(2) k uv by (simp add: migrate_def schemaVersion_def migrated_refl)
  next
    case False
    with assms(2) uv obtain h1 where f: "foldE (migrate_step dg now (Some s) k) [2..7] h = Inr h1"
      and a: "apply_migration dg now (Some s) 8 h1 = Inr h'"
      by (auto simp: migrate_def schemaVersion_def Let_def bindE_Inr_iff)
    have "max k (2 - 1) = k" using k False by simp
    then have "of_format dg 7 h1 \<and> migrated h h1" using migrate_steps[OF f] k False assms(3) by simp
    with apply_migration_format[OF a] assms(3) show ?thesis by (auto intro: migrated_trans)
  qed
  then have "of_format dg 8 h'" "migrated h h'" by simp_all
  moreover from this have "db_id h' = db_id h" by (auto simp: migrated_def kept_def dest: arg_cong[of _ _ db_id])
  ultimately show ?thesis
    by (auto simp: probe_def probeVersion_Inr schemaVersion_def i migrated_def uv migrate_def of_format_def)
qed

text \<open>A file of format 1 with one enrolled scope.\<close>

definition old_hub :: hub where
  "old_hub = empty_hub\<lparr>application_id := applicationID, user_version := 1, db_id := ''hub'', format_version := 1,
     migrations := [\<lparr>mg_version = 1, mg_digest = ''d'', mg_applied_at = 0\<rparr>],
     scopes := [\<lparr>sc_id = ''g'', sc_kind = ''global'', sc_enrolled_at = 1, sc_low_water = 0\<rparr>]\<rparr>"

definition upgraded :: "err + hub" where
  "upgraded = migrate (\<lambda>_. ''d'') 5 (Some (replicate 32 CHR ''s'')) old_hub"

lemma upgraded_run: "\<not> isl upgraded \<and> probeVersion (\<lambda>_. ''d'') True old_hub = Inr ''hub''"
  by code_simp

theorem migrate_upgrades_witness: "probe (\<lambda>_. ''d'') (projr upgraded) = Inr ''hub'' \<and> scopes (projr upgraded) = scopes old_hub"
proof -
  have "migrate (\<lambda>_. ''d'') 5 (Some (replicate 32 CHR ''s'')) old_hub = Inr (projr upgraded)"
    using upgraded_run by (simp add: upgraded_def value_okD)
  with upgraded_run have m: "probe (\<lambda>_. ''d'') (projr upgraded) = Inr ''hub'' \<and> kept (projr upgraded) = kept old_hub"
    using migrate_upgrades[of "\<lambda>_. ''d''" old_hub "''hub''" 5 "replicate 32 CHR ''s''" "projr upgraded"] by simp
  have s: "scopes (kept g) = scopes g" for g by (simp add: kept_def)
  from m show ?thesis using s[of "projr upgraded"] s[of old_hub] by simp
qed

end
