(* ===== verification/Recovery.thy ===== *)
theory Recovery
  imports Backups
begin

text \<open>
  What the files of a hub satisfy whatever fails and whenever a process dies: a reservation that
  was stopped anywhere leaves either no intent or a complete one for a claimed pair
  (\<open>backup_since\<close>); the directory stays recoverable (\<open>recoverable\<close>), so that the next maintenance
  succeeds (\<open>reconcile_clear\<close>); and a reconciliation removes nothing else (\<open>reconcile_justified\<close>).
\<close>

section \<open>The names of a backup\<close>

definition staging_of :: "string \<Rightarrow> string" where "staging_of p = marker_of p @ ''.tmp''"

definition names_of :: "string \<Rightarrow> string set" where
  "names_of p = {p, claim_of p, marker_of p, staging_of p}"

lemmas name_defs = claim_of_def marker_of_def staging_of_def

lemma own_names [simp]:
  "claim_of p \<noteq> p" "p \<noteq> claim_of p" "marker_of p \<noteq> p" "p \<noteq> marker_of p" "staging_of p \<noteq> p" "p \<noteq> staging_of p"
  "claim_of p \<noteq> marker_of q" "marker_of q \<noteq> claim_of p" "claim_of p \<noteq> staging_of p" "staging_of p \<noteq> claim_of p"
  "marker_of p \<noteq> staging_of p" "staging_of p \<noteq> marker_of p"
  by (auto simp: name_defs append_eq_append_conv2)

lemma length_names: "length (claim_of p) = length p + 6" "length (marker_of p) = length p + 8" "length (staging_of p) = length p + 12"
  by (simp_all add: name_defs)

lemma length_backup_path: "length (backup_path dir i) = length dir + 18 + length i"
  by (simp add: backup_path_def join_def)

lemma names_inject [simp]:
  "backup_path dir i = backup_path dir j \<longleftrightarrow> i = j"
  "claim_of p = claim_of q \<longleftrightarrow> p = q" "marker_of p = marker_of q \<longleftrightarrow> p = q" "staging_of p = staging_of q \<longleftrightarrow> p = q"
  by (auto simp: backup_path_def join_def name_defs)

text \<open>The files of two backups of a hub are distinct.\<close>

lemma other_names:
  assumes "length j = 32" and "length i = 32 \<or> i = ''''" and "i \<noteq> j"
  shows "names_of (backup_path dir i) \<inter> names_of (backup_path dir j) = {}"
proof -
  have ne: "p \<noteq> q" if "length p \<noteq> length q" for p q :: string using that by auto
  show ?thesis
    using assms unfolding names_of_def
    by (auto simp: ne length_names length_backup_path)
qed

lemma hex_digit_decodes: "n < 16 \<Longrightarrow> hex_digit n \<in> set ''0123456789abcdefABCDEF''"
proof -
  have "list_all (\<lambda>n. hex_digit n \<in> set ''0123456789abcdefABCDEF'') [0..<16]" by code_simp
  then show "n < 16 \<Longrightarrow> ?thesis" unfolding list_all_iff by simp
qed

lemma hex_encode_decodes: "list_all (\<lambda>c. c \<in> set ''0123456789abcdefABCDEF'') (hex_encode bs)"
proof (induction bs)
  case (Cons b bs)
  have "unat b < 256" using unsigned_less[of b] by simp
  then have d: "unat b div 16 < 16" "unat b mod 16 < 16" by auto
  have "hex_encode (b # bs) = hex_digit (unat b div 16) # hex_digit (unat b mod 16) # hex_encode bs"
    by (simp add: hex_encode_def)
  then show ?case using Cons hex_digit_decodes[OF d(1)] hex_digit_decodes[OF d(2)]
    by (simp only: list.pred_inject simp_thms)
qed (simp add: hex_encode_def)

lemma valid_id_hex: "length bs = 16 \<Longrightarrow> valid_backup_id (hex_encode bs)"
  using hex_encode_decodes[of bs] by (simp only: valid_backup_id_def hex_decodes_def length_hex_encode) simp

lemma HasPrefix_iff: "HasPrefix s p \<longleftrightarrow> (\<exists>t. s = p @ t)"
  unfolding HasPrefix_def by (metis append_eq_conv_conj)

lemma HasSuffix_iff: "HasSuffix s p \<longleftrightarrow> (\<exists>t. s = t @ p)"
  unfolding HasSuffix_def by (metis append_take_drop_id diff_is_0_eq' length_append le_add2 append_eq_conv_conj
      add_diff_cancel_right')

lemma trims [simp]: "TrimPrefix (p @ t) p = t" "TrimSuffix (t @ p) p = t"
proof -
  have "HasPrefix (p @ t) p" "HasSuffix (t @ p) p" by (auto simp: HasPrefix_iff HasSuffix_iff)
  then show "TrimPrefix (p @ t) p = t" "TrimSuffix (t @ p) p = t" by (auto simp: TrimPrefix_def TrimSuffix_def)
qed

lemma tail_suffix: "p @ t = u @ s \<Longrightarrow> length s \<le> length t \<Longrightarrow> \<exists>r. t = r @ s"
  by (auto simp: append_eq_append_conv2)

lemma is_marker_iff: "is_marker name \<longleftrightarrow> (\<exists>i. valid_backup_id i \<and> name = ''hub-prune-'' @ i @ ''.sqlite.pending'')"
proof
  define pre suf :: string where "pre = ''hub-prune-''" and "suf = ''.sqlite.pending''"
  have suf: "length suf = 15" by (simp add: suf_def)
  assume "is_marker name"
  then have v: "valid_backup_id (TrimSuffix (TrimPrefix name pre) suf)" and "HasPrefix name pre" "HasSuffix name suf"
    by (simp_all add: is_marker_def pre_def suf_def)
  then obtain t u where t: "name = pre @ t" and u: "pre @ t = u @ suf" by (auto simp: HasPrefix_iff HasSuffix_iff)
  have v': "valid_backup_id (TrimSuffix t suf)" using v t by simp
  then have l: "32 \<le> length t" by (auto simp: valid_backup_id_def TrimSuffix_def split: if_splits)
  from u obtain r where "t = r @ suf"
    using tail_suffix[OF u] l suf by auto
  then show "\<exists>i. valid_backup_id i \<and> name = ''hub-prune-'' @ i @ ''.sqlite.pending''"
    using v' t unfolding pre_def suf_def by auto
next
  assume "\<exists>i. valid_backup_id i \<and> name = ''hub-prune-'' @ i @ ''.sqlite.pending''"
  then obtain i where i: "valid_backup_id i" "name = ''hub-prune-'' @ i @ ''.sqlite.pending''" by blast
  then have "HasPrefix name ''hub-prune-''" "HasSuffix name ''.sqlite.pending''"
    unfolding HasPrefix_iff HasSuffix_iff by (blast, metis append.assoc)
  with i show "is_marker name" unfolding is_marker_def by (simp only: trims simp_thms)
qed

lemma marker_path: "join dir (''hub-prune-'' @ i @ ''.sqlite.pending'') = marker_of (backup_path dir i)"
  by (simp add: join_def marker_of_def backup_path_def)

lemma marker_candidate: "TrimSuffix (marker_of p) ''.pending'' = p"
  unfolding marker_of_def by (rule trims)

section \<open>What the next maintenance can rely on\<close>

definition complete :: "string \<Rightarrow> filesystem \<Rightarrow> string \<Rightarrow> bool" where
  "complete authority f c \<longleftrightarrow> (\<exists>i. inode_of f (marker_of c) = Some i \<and> fs_inode f i = \<lparr>in_regular = True, in_data = Bytes (intent authority)\<rparr>)"

definition paired :: "filesystem \<Rightarrow> string \<Rightarrow> bool" where
  "paired f c \<longleftrightarrow> (\<exists>j. inode_of f c = Some j \<and> inode_of f (claim_of c) = Some j \<and> in_regular (fs_inode f j))"

definition gone :: "filesystem \<Rightarrow> string \<Rightarrow> bool" where
  "gone f c \<longleftrightarrow> inode_of f c = None \<and> inode_of f (claim_of c) = None"

text \<open>
  A hub's directory is recoverable: every intent in it is complete, and speaks of a recorded
  backup, of a claimed pair, or of nothing that is still there.
\<close>

definition recoverable :: "string \<Rightarrow> string \<Rightarrow> hub \<Rightarrow> filesystem \<Rightarrow> bool" where
  "recoverable dir authority h f \<longleftrightarrow> fs_ok f \<and> (\<forall>i. let c = backup_path dir i in
     valid_backup_id i \<longrightarrow> exists_file f (marker_of c) \<longrightarrow>
       complete authority f c \<and> (referenced h c \<or> paired f c \<or> gone f c))"

definition unmarked :: "string \<Rightarrow> filesystem \<Rightarrow> bool" where
  "unmarked dir f \<longleftrightarrow> (\<forall>i. valid_backup_id i \<longrightarrow> \<not> exists_file f (marker_of (backup_path dir i)))"

lemma recoverableI:
  assumes "fs_ok f" and "\<And>i. valid_backup_id i \<Longrightarrow> exists_file f (marker_of (backup_path dir i)) \<Longrightarrow>
    complete authority f (backup_path dir i) \<and> (referenced h (backup_path dir i) \<or> paired f (backup_path dir i) \<or> gone f (backup_path dir i))"
  shows "recoverable dir authority h f"
  using assms by (simp add: recoverable_def Let_def)

lemma recoverableD:
  assumes "recoverable dir authority h f"
  shows "fs_ok f" and "valid_backup_id i \<Longrightarrow> exists_file f (marker_of (backup_path dir i)) \<Longrightarrow> complete authority f (backup_path dir i)"
    and "valid_backup_id i \<Longrightarrow> exists_file f (marker_of (backup_path dir i)) \<Longrightarrow>
      referenced h (backup_path dir i) \<or> paired f (backup_path dir i) \<or> gone f (backup_path dir i)"
  using assms by (auto simp: recoverable_def Let_def)

lemma recoverable_mono:
  "recoverable dir authority h f \<Longrightarrow> (\<And>p. referenced h p \<Longrightarrow> referenced h' p) \<Longrightarrow> recoverable dir authority h' f"
  by (auto simp: recoverable_def Let_def)

text \<open>Removing a name of another backup changes nothing for this one.\<close>

lemma unlink_other:
  assumes "p \<notin> {c, claim_of c, marker_of c}"
  shows "complete a (unlink_file p f) c = complete a f c" "paired (unlink_file p f) c = paired f c"
    "gone (unlink_file p f) c = gone f c" "exists_file (unlink_file p f) (marker_of c) = exists_file f (marker_of c)"
  using assms by (auto simp: complete_def paired_def gone_def exists_file_def fs_simps)

section \<open>A reservation, stopped anywhere\<close>

text \<open>
  What holds from the start \<open>f0\<close> of a reservation of \<open>c\<close> on, wherever it is stopped: other names and
  the data behind them are untouched, and once the intent is there it is complete and the pair claimed.
\<close>

definition since :: "string \<Rightarrow> filesystem \<Rightarrow> string \<Rightarrow> filesystem \<Rightarrow> bool" where
  "since a f0 c f \<longleftrightarrow> fs_ok f \<and> fs_next f0 \<le> fs_next f
     \<and> (\<forall>p. p \<notin> names_of c \<longrightarrow> inode_of f p = inode_of f0 p)
     \<and> (\<forall>i < fs_next f0. fs_inode f i = fs_inode f0 i)
     \<and> (\<forall>p \<in> names_of c. \<forall>i. inode_of f p = Some i \<longrightarrow> fs_next f0 \<le> i)
     \<and> (exists_file f (marker_of c) \<longrightarrow> complete a f c \<and> paired f c)"

definition made :: "string \<Rightarrow> filesystem \<Rightarrow> string \<Rightarrow> nat \<Rightarrow> filesystem \<Rightarrow> bool" where
  "made a f0 c j f \<longleftrightarrow> since a f0 c f \<and> inode_of f c = Some j \<and> fs_inode f j = \<lparr>in_regular = True, in_data = Bytes ''''\<rparr>
     \<and> inode_of f (marker_of c) = None"

definition claimed :: "string \<Rightarrow> filesystem \<Rightarrow> string \<Rightarrow> nat \<Rightarrow> filesystem \<Rightarrow> bool" where
  "claimed a f0 c j f \<longleftrightarrow> made a f0 c j f \<and> inode_of f (claim_of c) = Some j"

definition staged :: "string \<Rightarrow> filesystem \<Rightarrow> string \<Rightarrow> nat \<Rightarrow> nat \<Rightarrow> string \<Rightarrow> filesystem \<Rightarrow> bool" where
  "staged a f0 c j i s f \<longleftrightarrow> claimed a f0 c j f \<and> inode_of f (staging_of c) = Some i \<and> i \<noteq> j \<and> fs_next f0 \<le> i
     \<and> fs_inode f i = \<lparr>in_regular = True, in_data = Bytes s\<rparr>"

definition announced :: "string \<Rightarrow> filesystem \<Rightarrow> string \<Rightarrow> nat \<Rightarrow> content \<Rightarrow> filesystem \<Rightarrow> bool" where
  "announced a f0 c j d f \<longleftrightarrow> since a f0 c f \<and> inode_of f c = Some j \<and> inode_of f (claim_of c) = Some j
     \<and> fs_inode f j = \<lparr>in_regular = True, in_data = d\<rparr> \<and> inode_of f (marker_of c) \<noteq> None \<and> inode_of f (marker_of c) \<noteq> Some j"

lemmas stage_defs = announced_def staged_def claimed_def made_def since_def

lemma fs_okD: "fs_ok f \<Longrightarrow> inode_of f p = Some i \<Longrightarrow> i < fs_next f"
  by (simp add: fs_ok_def)

lemma fs_ok_link: "fs_ok f \<Longrightarrow> inode_of f p = Some i \<Longrightarrow> fs_ok (link_file i q f)"
  by (rule fs_ok_ops(2)) (simp_all add: fs_okD)

lemma stage_since:
  "made a f0 c j f \<Longrightarrow> since a f0 c f" "claimed a f0 c j f \<Longrightarrow> since a f0 c f" "staged a f0 c j i s f \<Longrightarrow> since a f0 c f"
  "announced a f0 c j d f \<Longrightarrow> since a f0 c f" "staged a f0 c j i s f \<Longrightarrow> claimed a f0 c j f" "claimed a f0 c j f \<Longrightarrow> made a f0 c j f"
  by (simp_all add: announced_def staged_def claimed_def made_def)

lemma since_refl:
  assumes "fs_ok f0" and "\<And>p. p \<in> names_of c \<Longrightarrow> inode_of f0 p = None"
  shows "since a f0 c f0"
  using assms by (auto simp: since_def names_of_def exists_file_def)

lemma create_made:
  assumes "fs_ok f0" and "\<And>p. p \<in> names_of c \<Longrightarrow> inode_of f0 p = None"
  shows "made a f0 c (fs_next f0) (create_file c f0)"
  using assms by (auto simp: made_def since_def names_of_def exists_file_def fs_simps)

lemma link_claimed:
  assumes "made a f0 c j f"
  shows "claimed a f0 c j (link_file j (claim_of c) f)"
  using assms
  by (auto simp: claimed_def made_def since_def names_of_def exists_file_def fs_simps intro: fs_ok_link)

lemma create_staged:
  assumes "claimed a f0 c j f"
  shows "staged a f0 c j (fs_next f) '''' (create_file (staging_of c) f)"
  using assms
  by (auto simp: staged_def claimed_def made_def since_def names_of_def exists_file_def fs_simps dest: fs_okD)

lemma write_staged:
  assumes "staged a f0 c j i s f"
  shows "staged a f0 c j i (s @ t) (appended i t f)"
  using assms
  by (auto simp: staged_def claimed_def made_def since_def names_of_def exists_file_def appended_def fs_simps)

lemma link_announced:
  assumes "staged a f0 c j i (intent a) f"
  shows "announced a f0 c j (Bytes '''') (link_file i (marker_of c) f)"
  using assms
  by (auto simp: announced_def staged_def claimed_def made_def since_def names_of_def exists_file_def complete_def
      paired_def fs_simps intro: fs_ok_link)

lemma unlink_staging:
  "announced a f0 c j d f \<Longrightarrow> announced a f0 c j d (unlink_file (staging_of c) f)"
  "made a f0 c j f \<Longrightarrow> made a f0 c j (unlink_file (staging_of c) f)"
  by (auto simp: announced_def made_def since_def names_of_def exists_file_def complete_def paired_def fs_simps)

lemma put_announced:
  "announced a f0 c j d f \<Longrightarrow> announced a f0 c j d' (put_data j d' f)"
  by (auto simp: announced_def since_def names_of_def exists_file_def complete_def paired_def fs_simps)

lemma unlink_pair:
  "since a f0 c f \<Longrightarrow> inode_of f (marker_of c) = None \<Longrightarrow> p \<in> {c, claim_of c} \<Longrightarrow>
     since a f0 c (unlink_file p f) \<and> inode_of (unlink_file p f) (marker_of c) = None"
  by (auto simp: since_def names_of_def exists_file_def fs_simps)
text \<open>The triples of the reservation.\<close>

lemma ok_bind_keep:
  "ok P m (\<lambda>_. M) R \<Longrightarrow> (\<And>x. ok M (g x) Q R) \<Longrightarrow> ok P (bindS m g) Q R"
  by (rule ok_bind)

lemma removeClaimed_keep:
  assumes "\<And>f p. I f \<Longrightarrow> p \<in> {c, claim_of c} \<Longrightarrow> I (unlink_file p f)"
  shows "ok I (removeClaimedPruneBackup c) (\<lambda>_. I) (\<lambda>_. I)"
  unfolding removeClaimedPruneBackup_def
  by (intro ok_bind_keep[where M = I] ok_attempt ok_lstat ok_require ok_remove) (auto intro: assms)

lemma removeClaimed_since:
  "ok (\<lambda>f. since a f0 c f \<and> inode_of f (marker_of c) = None) (removeClaimedPruneBackup c)
     (\<lambda>_ f. since a f0 c f \<and> inode_of f (marker_of c) = None) (\<lambda>_ f. since a f0 c f \<and> inode_of f (marker_of c) = None)"
  by (rule removeClaimed_keep) (elim conjE, rule unlink_pair)

lemma writePruneIntent_since:
  "ok (claimed a f0 c j) (writePruneIntent a c) (\<lambda>_. announced a f0 c j (Bytes '''')) (\<lambda>_. made a f0 c j)"
proof -
  have m: "staged a f0 c j i s f \<Longrightarrow> made a f0 c j f" for i s f by (simp add: stage_since)
  have w: "staged a f0 c j i '''' f \<Longrightarrow> staged a f0 c j i t (appended i t f)" for i t f
    using write_staged[of a f0 c j i "[]"] by simp
  note wm = w[THEN m]
  have l: "announced a f0 c j (Bytes '''') (link_file k (marker_of c) f)"
    if "staged a f0 c j i (intent a) f" "inode_of f (staging_of c) = Some k" for i k f
    using link_announced[OF that(1)] that by (simp add: staged_def)
  have body: "ok (staged a f0 c j i '''') (bindS (onErr (os_write i (intent a)) os_touch) (\<lambda>_.
      bindS (onErr os_touch os_touch) (\<lambda>_. bindS os_touch (\<lambda>_. os_link (staging_of c) (marker_of c)))))
      (\<lambda>_. announced a f0 c j (Bytes '''')) (\<lambda>_. made a f0 c j)" for i
  proof (rule ok_bind_keep)
    show "ok (staged a f0 c j i '''') (onErr (os_write i (intent a)) os_touch)
        (\<lambda>_. staged a f0 c j i (intent a)) (\<lambda>_. made a f0 c j)"
      by (intro ok_onErr[where N = "\<lambda>_. made a f0 c j"] ok_write ok_touch) (simp_all add: w m wm)
    show "ok (staged a f0 c j i (intent a)) (bindS (onErr os_touch os_touch) (\<lambda>_. bindS os_touch (\<lambda>_.
        os_link (staging_of c) (marker_of c)))) (\<lambda>_. announced a f0 c j (Bytes '''')) (\<lambda>_. made a f0 c j)"
      by (intro ok_bind_keep[where M = "staged a f0 c j i (intent a)"] ok_onErr[where N = "\<lambda>_. made a f0 c j"]
          ok_touch ok_link) (auto simp: m l)
  qed
  have r: "made a f0 c j f \<Longrightarrow> made a f0 c j f" "claimed a f0 c j f \<Longrightarrow> made a f0 c j f" for f by (simp_all add: stage_since)
  show ?thesis
    unfolding writePruneIntent_def Let_def staging_of_def[symmetric]
    by (intro ok_bind[where M = "\<lambda>i. staged a f0 c j i ''''"] ok_create ok_defer[OF body] ok_remove)
      (simp_all add: r create_staged unlink_staging)
qed

lemma reserve_since:
  assumes "fs_ok f0" and "\<And>p. p \<in> names_of c \<Longrightarrow> inode_of f0 p = None"
  shows "ok (\<lambda>f. f = f0) (reservePruneBackup a c) (\<lambda>_. announced a f0 c (fs_next f0) (Bytes '''')) (\<lambda>_. since a f0 c)"
proof -
  let ?j = "fs_next f0"
  have out: "ok (made a f0 c ?j) (removeClaimedPruneBackup c) (\<lambda>_. since a f0 c) (\<lambda>_. since a f0 c)"
    by (rule ok_weaken[OF removeClaimed_since]) (auto simp: made_def)
  have w: "ok (claimed a f0 c ?j) (onErr (writePruneIntent a c) (removeClaimedPruneBackup c))
      (\<lambda>_. announced a f0 c ?j (Bytes '''')) (\<lambda>_. since a f0 c)"
    by (rule ok_onErr[OF writePruneIntent_since out])
  have m: "made a f0 c ?j f \<Longrightarrow> inode_of f c = Some i \<Longrightarrow> i = ?j" for f i by (simp add: made_def)
  show ?thesis
    unfolding reservePruneBackup_def
  proof (rule ok_bind)
    show "ok (\<lambda>f. f = f0) (os_create c) (\<lambda>i f. i = ?j \<and> made a f0 c ?j f) (\<lambda>_. since a f0 c)"
      by (rule ok_create) (simp_all add: since_refl[OF assms] create_made[OF assms])
    fix i
    have link: "ok (made a f0 c ?j) (os_link c (claim_of c)) (\<lambda>_. claimed a f0 c ?j) (\<lambda>_. since a f0 c)"
      by (rule ok_link) (auto simp: stage_since dest: m intro: link_claimed)
    show "ok (\<lambda>f. i = ?j \<and> made a f0 c ?j f) (bindS (attempt os_touch) (\<lambda>stat. bindS (attempt os_touch) (\<lambda>closed.
        bindS (requireS (\<not> isl stat \<and> \<not> isl closed) ErrOS) (\<lambda>_. bindS (os_link c (claim_of c)) (\<lambda>_.
        bindS (attempt (os_lstat (claim_of c))) (\<lambda>claim.
        bindS (requireS (case claim of Inl x \<Rightarrow> False | Inr (k, x) \<Rightarrow> k = i) ErrUnsupportedFormat) (\<lambda>_.
          onErr (writePruneIntent a c) (removeClaimedPruneBackup c))))))))
        (\<lambda>_. announced a f0 c ?j (Bytes '''')) (\<lambda>_. since a f0 c)"
      by (rule ok_pre[where P' = "made a f0 c ?j"],
          intro ok_bind_keep[where M = "made a f0 c ?j"] ok_bind_keep[OF link] ok_bind_keep[where M = "claimed a f0 c ?j"]
            ok_attempt ok_touch ok_require ok_lstat w)
        (simp_all add: stage_since)
  qed
qed
section \<open>A backup, stopped anywhere\<close>

definition backup_name :: "string \<Rightarrow> maintenance \<Rightarrow> string" where
  "backup_name dir mt = backup_path dir (case mt_id mt of None \<Rightarrow> '''' | Some bs \<Rightarrow> hex_encode (take 16 bs))"

lemma vacuum_into_since:
  "ok (announced a f0 c j (Bytes '''')) (vacuum_into c h) (\<lambda>_. announced a f0 c j (Image h)) (\<lambda>_. since a f0 c)"
proof -
  have s: "announced a f0 c j (Bytes '''') f \<Longrightarrow> inode_of f c = Some j \<and> in_data (fs_inode f j) = Bytes ''''" for f
    by (simp add: announced_def)
  show ?thesis
    unfolding vacuum_into_def
    by (rule ok_call) (auto simp: s stage_since(4)[OF put_announced] intro: stage_since put_announced split: option.splits)
qed

lemma backup_since:
  assumes "fs_ok f0" and "\<And>p. p \<in> names_of (backup_name dir mt) \<Longrightarrow> inode_of f0 p = None"
  shows "ok (\<lambda>f. f = f0) (backupForPrune dir a mt h)
    (\<lambda>p f. p = backup_name dir mt \<and> announced a f0 (backup_name dir mt) (fs_next f0) (Image h) f)
    (\<lambda>_. since a f0 (backup_name dir mt))"
proof -
  let ?c = "backup_name dir mt" and ?j = "fs_next f0"
  have r: "since a f0 ?c f0" by (rule since_refl[OF assms])
  have c: "mt_id mt = Some bs \<Longrightarrow> backup_path dir (hex_encode (take 16 bs)) = ?c" for bs by (simp add: backup_name_def)
  let ?tail = "\<lambda>c. bindS (reservePruneBackup a c) (\<lambda>_. bindS (vacuum_into c h) (\<lambda>_. bindS (os_open c) (\<lambda>_.
      bindS (onErr os_touch os_touch) (\<lambda>_. bindS os_touch (\<lambda>_. bindS (os_read_file c) (\<lambda>copy.
      bindS (liftS (verify_copy (mt_copy_ok mt) h copy)) (\<lambda>_. retS c)))))))"
  have tail: "ok (\<lambda>f. f = f0) (?tail ?c) (\<lambda>p f. p = ?c \<and> announced a f0 ?c ?j (Image h) f) (\<lambda>_. since a f0 ?c)"
    by (intro ok_bind_keep[OF reserve_since[OF assms]] ok_bind_keep[OF vacuum_into_since]
        ok_bind_keep[where M = "announced a f0 ?c ?j (Image h)"] ok_open
        ok_onErr[where N = "\<lambda>_. since a f0 ?c"] ok_touch ok_read_file ok_lift ok_ret) (simp_all add: stage_since)
  have named: "ok (\<lambda>f. f = f0 \<and> backup_path dir i = ?c) (?tail (backup_path dir i))
      (\<lambda>p f. p = ?c \<and> announced a f0 ?c ?j (Image h) f) (\<lambda>_. since a f0 ?c)" for i
    by (cases "backup_path dir i = ?c") (simp_all add: tail ok_false)
  have lift: "ok (\<lambda>f. f = f0) (liftS (randomID (mt_id mt))) (\<lambda>i f. f = f0 \<and> backup_path dir i = ?c) (\<lambda>_. since a f0 ?c)"
    by (rule ok_lift) (auto simp: r randomID_def c split: option.splits)
  show ?thesis
    unfolding backupForPrune_def Let_def
    by (intro ok_bind[OF lift named] ok_bind_keep[where M = "\<lambda>f. f = f0"] ok_touch ok_require ok_lift)
      (simp_all add: r)
qed
section \<open>Recoverability is kept\<close>

lemma complete_eq:
  assumes "inode_of f (marker_of c) = inode_of f0 (marker_of c)"
    and "\<And>i. inode_of f0 (marker_of c) = Some i \<Longrightarrow> fs_inode f i = fs_inode f0 i"
  shows "complete a f c = complete a f0 c"
  using assms by (auto simp: complete_def)

lemma paired_eq:
  assumes "inode_of f c = inode_of f0 c" and "inode_of f (claim_of c) = inode_of f0 (claim_of c)"
    and "\<And>i. inode_of f0 c = Some i \<Longrightarrow> fs_inode f i = fs_inode f0 i"
  shows "paired f c = paired f0 c" and "gone f c = gone f0 c"
  using assms by (auto simp: paired_def gone_def)

lemma since_recoverable:
  assumes r: "recoverable dir a h f0" and s: "since a f0 (backup_path dir i) f" and i: "valid_backup_id i \<or> i = ''''"
  shows "recoverable dir a h f"
proof (rule recoverableI)
  show "fs_ok f" using s by (simp add: since_def)
  fix j
  assume j: "valid_backup_id j" and m: "exists_file f (marker_of (backup_path dir j))"
  let ?c = "backup_path dir j"
  show "complete a f ?c \<and> (referenced h ?c \<or> paired f ?c \<or> gone f ?c)"
  proof (cases "j = i")
    case True
    with s m show ?thesis by (simp add: since_def)
  next
    case False
    have "names_of (backup_path dir i) \<inter> names_of ?c = {}"
      using other_names[of j i] i j False by (auto simp: valid_backup_id_def)
    then have e: "inode_of f p = inode_of f0 p" if "p \<in> names_of ?c" for p using s that by (auto simp: since_def)
    then have e': "inode_of f ?c = inode_of f0 ?c" "inode_of f (claim_of ?c) = inode_of f0 (claim_of ?c)"
      "inode_of f (marker_of ?c) = inode_of f0 (marker_of ?c)" by (simp_all add: names_of_def)
    have d: "inode_of f0 p = Some k \<Longrightarrow> fs_inode f k = fs_inode f0 k" for p k
      using s recoverableD(1)[OF r] by (auto simp: since_def dest: fs_okD)
    have "exists_file f0 (marker_of ?c)" using m e'(3) by (simp add: exists_file_def)
    then show ?thesis
      using recoverableD(2,3)[OF r j] complete_eq[OF e'(3) d] paired_eq[OF e'(1,2) d] by simp
  qed
qed

lemma unlink_recoverable:
  assumes r: "recoverable dir a h f" and i: "valid_backup_id i" and p: "p \<in> {c, claim_of c, marker_of c}" and c: "c = backup_path dir i"
    and u: "p = marker_of c \<or> \<not> exists_file f (marker_of c) \<or> referenced h c"
  shows "recoverable dir a h (unlink_file p f)"
proof (rule recoverableI)
  show "fs_ok (unlink_file p f)" by (rule fs_ok_ops(3)[OF recoverableD(1)[OF r]])
  fix j
  assume j: "valid_backup_id j" and m: "exists_file (unlink_file p f) (marker_of (backup_path dir j))"
  let ?d = "backup_path dir j"
  from m have m': "exists_file f (marker_of ?d)" by (auto simp: exists_file_def fs_simps split: if_splits)
  note rd = recoverableD(2,3)[OF r j m']
  show "complete a (unlink_file p f) ?d \<and> (referenced h ?d \<or> paired (unlink_file p f) ?d \<or> gone (unlink_file p f) ?d)"
  proof (cases "j = i")
    case True
    then have d: "?d = c" using c by simp
    have "p \<noteq> marker_of c" using m unfolding d by (auto simp: exists_file_def fs_simps)
    with u m' have "referenced h c" unfolding d by blast
    moreover have "complete a (unlink_file p f) c = complete a f c"
      using \<open>p \<noteq> marker_of c\<close> by (auto simp: complete_def fs_simps)
    ultimately show ?thesis using rd unfolding d by simp
  next
    case False
    have "names_of c \<inter> names_of ?d = {}"
      unfolding c using other_names[of j i] i j False by (auto simp: valid_backup_id_def)
    then have "p \<notin> {?d, claim_of ?d, marker_of ?d}" using p by (auto simp: names_of_def)
    from unlink_other[OF this] rd show ?thesis by simp
  qed
qed

lemma removeClaimed_recoverable:
  assumes "valid_backup_id i"
  shows "ok (\<lambda>f. recoverable dir a h f \<and> (\<not> exists_file f (marker_of (backup_path dir i)) \<or> referenced h (backup_path dir i)))
    (removeClaimedPruneBackup (backup_path dir i)) (\<lambda>_. recoverable dir a h) (\<lambda>_. recoverable dir a h)"
proof -
  let ?c = "backup_path dir i"
  let ?J = "\<lambda>f. recoverable dir a h f \<and> (\<not> exists_file f (marker_of ?c) \<or> referenced h ?c)"
  have "?J (unlink_file p f)" if "?J f" "p \<in> {?c, claim_of ?c}" for f p
    using unlink_recoverable[of dir a h f i p ?c] that assms by (auto simp: exists_file_def fs_simps)
  then have "ok ?J (removeClaimedPruneBackup ?c) (\<lambda>_. ?J) (\<lambda>_. ?J)" by (rule removeClaimed_keep)
  then show ?thesis by (rule ok_weaken) simp_all
qed

lemma reconcile_one_recoverable:
  "ok (recoverable dir a h) (reconcile_one dir a h name) (\<lambda>_. recoverable dir a h) (\<lambda>_. recoverable dir a h)"
proof (cases "is_marker name")
  case False
  then show ?thesis by (simp add: reconcile_one_def ok_ret)
next
  case True
  then obtain i where i: "valid_backup_id i" and n: "join dir name = marker_of (backup_path dir i)"
    by (auto simp: is_marker_iff marker_path[unfolded join_def, simplified] join_def)
  let ?c = "backup_path dir i" and ?I = "recoverable dir a h"
  have u: "?I f \<Longrightarrow> ?I (unlink_file (marker_of ?c) f)" for f using unlink_recoverable[OF _ i] by blast
  have e: "\<not> exists_file (unlink_file p f) p" for p f by (simp add: exists_file_def fs_simps)
  have last: "ok ?I (bindS (os_remove (marker_of ?c)) (\<lambda>_. removeClaimedPruneBackup ?c)) (\<lambda>_. ?I) (\<lambda>_. ?I)"
    by (rule ok_bind_keep[OF _ removeClaimed_recoverable[OF i]], rule ok_remove) (simp_all add: u e)
  have one: "reconcile_one dir a h name = reconcile_marked a h ?c"
    using True by (simp add: reconcile_one_def n marker_candidate)
  show ?thesis
    unfolding one reconcile_marked_def Let_def
    by (intro last ok_if ok_bind_keep[where M = ?I] ok_attempt ok_lstat ok_require ok_read_file ok_touch ok_remove ok_fail)
      (simp_all add: u)
qed
lemma reconcile_recoverable:
  "ok (recoverable dir a h) (reconcile_loop dir a h) (\<lambda>_. recoverable dir a h) (\<lambda>_. recoverable dir a h)"
  unfolding reconcile_loop_def
  by (intro ok_bind_keep[where M = "recoverable dir a h"] ok_read_dir ok_for reconcile_one_recoverable) simp_all

lemma path_parts: "CHR ''/'' \<in> set p \<Longrightarrow> p = path_dir p @ ''/'' @ path_base p"
proof -
  assume s: "CHR ''/'' \<in> set p"
  let ?ne = "\<lambda>c. c \<noteq> CHR ''/''"
  from s have d: "dropWhile ?ne (rev p) \<noteq> []" by (auto simp: dropWhile_eq_Nil_conv)
  then have "dropWhile ?ne (rev p) = CHR ''/'' # drop 1 (dropWhile ?ne (rev p))"
    using hd_dropWhile[OF d] by (cases "dropWhile ?ne (rev p)") auto
  then have "rev p = takeWhile ?ne (rev p) @ CHR ''/'' # drop 1 (dropWhile ?ne (rev p))"
    by (metis takeWhile_dropWhile_id)
  then have "rev (rev p) = rev (takeWhile ?ne (rev p) @ CHR ''/'' # drop 1 (dropWhile ?ne (rev p)))" by simp
  then show ?thesis by (simp add: path_dir_def path_base_def)
qed

lemma owned_backup_path:
  assumes "owned_backup dir p" and "dir \<noteq> ''''"
  obtains i where "valid_backup_id i" "p = backup_path dir i"
proof -
  let ?b = "path_base p"
  from assms have d: "path_dir p = dir" and pre: "HasPrefix ?b ''hub-prune-''" and suf: "HasSuffix ?b ''.sqlite''"
    and v: "valid_backup_id (TrimSuffix (TrimPrefix ?b ''hub-prune-'') ''.sqlite'')"
    by (simp_all add: owned_backup_def Let_def)
  have "CHR ''/'' \<in> set p"
  proof (rule ccontr)
    assume "CHR ''/'' \<notin> set p"
    then have "dropWhile (\<lambda>c. c \<noteq> CHR ''/'') (rev p) = []" unfolding dropWhile_eq_Nil_conv by auto
    then have "path_dir p = ''''" by (simp only: path_dir_def drop_Nil rev.simps)
    with d assms(2) show False by simp
  qed
  from path_parts[OF this] d have p: "p = dir @ ''/'' @ ?b" by simp
  obtain t u where t: "?b = ''hub-prune-'' @ t" and u: "''hub-prune-'' @ t = u @ ''.sqlite''"
    using pre suf unfolding HasPrefix_iff HasSuffix_iff by metis
  have v': "valid_backup_id (TrimSuffix t ''.sqlite'')" using v unfolding t by (simp only: trims)
  then have "32 \<le> length t" by (auto simp: valid_backup_id_def TrimSuffix_def split: if_splits)
  then obtain r where "t = r @ ''.sqlite''" using tail_suffix[OF u] by auto
  with v' p t show thesis by (intro that[of r]) (simp_all only: trims backup_path_def join_def append.assoc)
qed

lemma remove_backup_recoverable:
  assumes "owned_backup dir p" and "dir \<noteq> ''''" and "referenced h p"
  shows "ok (recoverable dir a h) (remove_backup p) (\<lambda>_. recoverable dir a h) (\<lambda>_. recoverable dir a h)"
proof -
  obtain i where i: "valid_backup_id i" "p = backup_path dir i" using owned_backup_path[OF assms(1,2)] .
  let ?I = "recoverable dir a h"
  have c: "ok ?I (removeClaimedPruneBackup p) (\<lambda>_. ?I) (\<lambda>_. ?I)"
    unfolding i(2) by (rule ok_pre[OF removeClaimed_recoverable[OF i(1)]]) (use assms(3) i(2) in simp)
  have u: "?I f \<Longrightarrow> ?I (unlink_file p f)" for f using unlink_recoverable[OF _ i(1), of dir a h f p p] i(2) assms(3) by blast
  show ?thesis
    unfolding remove_backup_def
    by (intro ok_bind_keep[where M = ?I] ok_attempt ok_lstat; (split sum.split, intro conjI allI impI)?)
      (auto intro!: c ok_if ok_remove ok_fail simp: u)
qed

lemma referenced_mark: "referenced (mark_unavailable b h) p = referenced h p"
  unfolding referenced_def mark_unavailable_def by (simp add: key_image_update)

lemma drop_backups_recoverable:
  assumes "drop_backups dir as h k = (h', k')" and "dir \<noteq> ''''" and "\<And>b. b \<in> set as \<Longrightarrow> referenced h (pa_backup b)"
    and "recoverable dir a h (files k)"
  shows "recoverable dir a h' (files k') \<and> (\<forall>p. referenced h' p = referenced h p)"
  using assms
proof (induction as arbitrary: h k)
  case (Cons b as)
  show ?case
  proof (cases "owned_backup dir (pa_backup b)")
    case False
    with Cons show ?thesis by simp
  next
    case True
    obtain r k1 where r: "remove_backup (pa_backup b) k = (r, k1)" by fastforce
    obtain t k2 where t: "os_touch k1 = (t, k2)" by fastforce
    have one: "recoverable dir a h (files k1)"
      using ok_snd[OF remove_backup_recoverable[OF True Cons.prems(2)] Cons.prems(4)] Cons.prems(3) r by simp
    have "ok (recoverable dir a h) os_touch (\<lambda>_. recoverable dir a h) (\<lambda>_. recoverable dir a h)" by (rule ok_touch)
    from ok_snd[OF this one] t have two: "recoverable dir a h (files k2)" by simp
    then have three: "recoverable dir a (mark_unavailable b h) (files k2)" by (rule recoverable_mono) (simp add: referenced_mark)
    have IH: "drop_backups dir as g k = (h', k') \<Longrightarrow> recoverable dir a g (files k) \<Longrightarrow> (\<And>p. referenced g p = referenced h p) \<Longrightarrow>
        recoverable dir a h' (files k') \<and> (\<forall>p. referenced h' p = referenced h p)" for g k
      using Cons.IH[of g k] Cons.prems(2,3) by simp
    from Cons.prems(1) True r t
    consider "drop_backups dir as h k1 = (h', k')" | "drop_backups dir as h k2 = (h', k')"
      | "drop_backups dir as (mark_unavailable b h) k2 = (h', k')"
      by (auto split: if_splits sum.splits)
    then show ?thesis
      by cases (use IH one two three in \<open>simp_all add: referenced_mark\<close>)
  qed
qed simp

lemma cleanup_recoverable:
  assumes "cleanupPruneBackups dir keep epoch h k = (h', k')" and "dir \<noteq> ''''" and "recoverable dir a h (files k)"
  shows "recoverable dir a h' (files k') \<and> (\<forall>p. referenced h' p = referenced h p)"
proof -
  obtain t k1 where t: "os_touch k = (t, k1)" by fastforce
  have "ok (recoverable dir a h) os_touch (\<lambda>_. recoverable dir a h) (\<lambda>_. recoverable dir a h)" by (rule ok_touch)
  from ok_snd[OF this assms(3)] t have r: "recoverable dir a h (files k1)" by simp
  have old: "b \<in> set (old_backups keep epoch h) \<Longrightarrow> referenced h (pa_backup b)" for b
    by (auto simp: old_backups_def referenced_def)
  show ?thesis
  proof (cases t)
    case (Inl e)
    with assms(1) t r show ?thesis by (simp add: cleanupPruneBackups_def)
  next
    case (Inr u)
    with assms(1) t have "drop_backups dir (old_backups keep epoch h) h k1 = (h', k')" by (simp add: cleanupPruneBackups_def)
    then show ?thesis by (rule drop_backups_recoverable[OF _ assms(2) old r])
  qed
qed
section \<open>Recovery\<close>

text \<open>What a reconciliation may take away: intents, and claimed pairs that nothing refers to.\<close>

definition disposable :: "string \<Rightarrow> hub \<Rightarrow> string \<Rightarrow> bool" where
  "disposable dir h p \<longleftrightarrow> (\<exists>i. valid_backup_id i \<and>
     (p = marker_of (backup_path dir i) \<or>
      p \<in> {backup_path dir i, claim_of (backup_path dir i)} \<and> \<not> referenced h (backup_path dir i)))"

definition only_removed :: "(string \<Rightarrow> bool) \<Rightarrow> filesystem \<Rightarrow> filesystem \<Rightarrow> bool" where
  "only_removed S f f' \<longleftrightarrow> fs_inode f' = fs_inode f \<and> fs_next f' = fs_next f
     \<and> (\<forall>p. inode_of f' p = inode_of f p \<or> (S p \<and> inode_of f' p = None))"

lemma only_removed_refl: "only_removed S f f"
  by (simp add: only_removed_def)

lemma only_removed_trans: "only_removed S f g \<Longrightarrow> only_removed S g h \<Longrightarrow> only_removed S f h"
  unfolding only_removed_def by metis

lemma only_removed_unlink: "S p \<Longrightarrow> only_removed S f (unlink_file p f)"
  by (simp add: only_removed_def fs_simps)

lemma only_removed_keeps: "only_removed S f f' \<Longrightarrow> \<not> S p \<Longrightarrow> inode_of f' p = inode_of f p"
  by (auto simp: only_removed_def)

lemma only_removed_exists: "only_removed S f f' \<Longrightarrow> exists_file f' p \<Longrightarrow> exists_file f p"
  by (auto simp: only_removed_def exists_file_def) (metis option.distinct(1))

lemmas run_defs = bindS_def attempt_def requireS_def retS_def failS_def

lemma removeClaimed_clear:
  assumes "clear k" and "inode_of (files k) c = Some j" and "inode_of (files k) (claim_of c) = Some j" and "in_regular (fs_inode (files k) j)"
  shows "removeClaimedPruneBackup c k = (Inr (), k\<lparr>files := unlink_file (claim_of c) (unlink_file c (files k))\<rparr>)"
proof -
  have c1: "clear (k\<lparr>files := f\<rparr>)" for f using assms(1) by simp
  have e: "exists_file (files k) c" "exists_file (unlink_file c (files k)) (claim_of c)"
    using assms(2,3) by (simp_all add: exists_file_def fs_simps)
  show ?thesis
    using assms(2-4) e
    by (simp add: removeClaimedPruneBackup_def run_defs clear_runs[OF assms(1)] clear_runs[OF c1] same_regular_def)
qed

lemma reconcile_marked_clear:
  assumes k: "clear k" and r: "recoverable dir a h (files k)" and i: "valid_backup_id i" and c: "c = backup_path dir i"
    and m: "exists_file (files k) (marker_of c)"
  shows "\<exists>f. reconcile_marked a h c k = (Inr (), k\<lparr>files := f\<rparr>) \<and> only_removed (disposable dir h) (files k) f
    \<and> \<not> exists_file f (marker_of c) \<and> (\<forall>p. p \<notin> names_of c \<longrightarrow> inode_of f p = inode_of (files k) p)"
proof -
  let ?f = "files k" and ?m = "marker_of c"
  have c1: "clear (k\<lparr>files := f\<rparr>)" for f using k by simp
  from recoverableD(2)[OF r i] m c obtain n where n: "inode_of ?f ?m = Some n"
    "fs_inode ?f n = \<lparr>in_regular = True, in_data = Bytes (intent a)\<rparr>" by (auto simp: complete_def)
  note start = n m clear_runs[OF k]
  have dm: "disposable dir h ?m" using i c by (auto simp: disposable_def)
  have one: "only_removed (disposable dir h) ?f (unlink_file ?m ?f)" by (rule only_removed_unlink) (rule dm)
  have none: "\<not> exists_file (unlink_file ?m ?f) ?m" by (simp add: exists_file_def fs_simps)
  show ?thesis
  proof (cases "referenced h c")
    case True
    then have "reconcile_marked a h c k = (Inr (), k\<lparr>files := unlink_file ?m ?f\<rparr>)"
      by (simp add: reconcile_marked_def Let_def run_defs regular_stat_def start)
    then show ?thesis using one none by (auto simp: names_of_def fs_simps)
  next
    case False
    then consider "paired ?f c" | "gone ?f c" using recoverableD(3)[OF r i] m c by blast
    then show ?thesis
    proof cases
      case 1
      then obtain j where j: "inode_of ?f c = Some j" "inode_of ?f (claim_of c) = Some j" "in_regular (fs_inode ?f j)"
        by (auto simp: paired_def)
      let ?g = "unlink_file ?m ?f"
      have rc: "removeClaimedPruneBackup c (k\<lparr>files := ?g\<rparr>) = (Inr (), k\<lparr>files := unlink_file (claim_of c) (unlink_file c ?g)\<rparr>)"
        using removeClaimed_clear[OF c1[of ?g]] j by (simp add: fs_simps)
      have "reconcile_marked a h c k = (Inr (), k\<lparr>files := unlink_file (claim_of c) (unlink_file c ?g)\<rparr>)"
        using False j rc by (simp add: reconcile_marked_def Let_def run_defs regular_stat_def same_regular_def start)
      moreover have "disposable dir h c" "disposable dir h (claim_of c)" using i c False by (auto simp: disposable_def)
      then have "only_removed (disposable dir h) ?f (unlink_file (claim_of c) (unlink_file c ?g))"
        by - (rule only_removed_trans[OF one], rule only_removed_trans, (erule only_removed_unlink)+)
      ultimately show ?thesis by (auto simp: exists_file_def fs_simps names_of_def)
    next
      case 2
      then have "reconcile_marked a h c k = (Inr (), k\<lparr>files := unlink_file ?m ?f\<rparr>)"
        using False by (simp add: reconcile_marked_def Let_def run_defs regular_stat_def gone_def start)
      then show ?thesis using one none by (auto simp: names_of_def fs_simps)
    qed
  qed
qed

lemma reconcile_names_clear:
  assumes "clear k" and "recoverable dir a h (files k)" and "distinct names"
    and "\<And>n. n \<in> set names \<Longrightarrow> is_marker n \<Longrightarrow> exists_file (files k) (join dir n)"
  shows "\<exists>f. forS (reconcile_one dir a h) names k = (Inr (), k\<lparr>files := f\<rparr>) \<and> only_removed (disposable dir h) (files k) f
    \<and> (\<forall>n \<in> set names. is_marker n \<longrightarrow> \<not> exists_file f (join dir n))"
  using assms
proof (induction names arbitrary: k)
  case Nil
  then show ?case by (auto simp: retS_def only_removed_refl intro!: exI[of _ "files k"])
next
  case (Cons n ns)
  show ?case
  proof (cases "is_marker n")
    case False
    then have "forS (reconcile_one dir a h) (n # ns) k = forS (reconcile_one dir a h) ns k"
      by (simp add: reconcile_one_def bindS_def retS_def)
    with Cons.IH[OF Cons.prems(1,2)] Cons.prems(3,4) False show ?thesis by auto
  next
    case True
    then obtain i where i: "valid_backup_id i" and nm: "n = ''hub-prune-'' @ i @ ''.sqlite.pending''" by (auto simp: is_marker_iff)
    let ?c = "backup_path dir i"
    have jn: "join dir n = marker_of ?c" unfolding nm by (rule marker_path)
    obtain f where f: "reconcile_marked a h ?c k = (Inr (), k\<lparr>files := f\<rparr>)" "only_removed (disposable dir h) (files k) f"
      "\<not> exists_file f (marker_of ?c)" "\<And>p. p \<notin> names_of ?c \<Longrightarrow> inode_of f p = inode_of (files k) p"
      using reconcile_marked_clear[OF Cons.prems(1,2) i refl] Cons.prems(4)[of n] True jn by auto
    have one: "reconcile_one dir a h n k = (Inr (), k\<lparr>files := f\<rparr>)"
      using f(1) True by (simp add: reconcile_one_def jn marker_candidate)
    let ?k = "k\<lparr>files := f\<rparr>"
    have r: "recoverable dir a h (files ?k)"
      using okD[OF reconcile_one_recoverable Cons.prems(2) one] .
    have e: "exists_file (files ?k) (join dir m)" if m: "m \<in> set ns" "is_marker m" for m
    proof -
      from m(2) obtain i' where i': "valid_backup_id i'" and m': "m = ''hub-prune-'' @ i' @ ''.sqlite.pending''" by (auto simp: is_marker_iff)
      have jm: "join dir m = marker_of (backup_path dir i')" unfolding m' by (rule marker_path)
      have "i \<noteq> i'" using m(1) Cons.prems(3) nm m' by auto
      then have "marker_of (backup_path dir i') \<notin> names_of ?c"
        using other_names[of i' i dir] i i' by (auto simp: valid_backup_id_def names_of_def)
      then show ?thesis using f(4) Cons.prems(4)[of m] m jm by (simp add: exists_file_def)
    qed
    obtain f' where f': "forS (reconcile_one dir a h) ns ?k = (Inr (), ?k\<lparr>files := f'\<rparr>)" "only_removed (disposable dir h) f f'"
      "\<And>m. m \<in> set ns \<Longrightarrow> is_marker m \<Longrightarrow> \<not> exists_file f' (join dir m)"
      using Cons.IH[of ?k] Cons.prems(1,3) r e by auto
    have "forS (reconcile_one dir a h) (n # ns) k = (Inr (), k\<lparr>files := f'\<rparr>)" using one f'(1) by (simp add: bindS_def)
    moreover have "only_removed (disposable dir h) (files k) f'" using only_removed_trans[OF f(2) f'(2)] .
    moreover have "\<not> exists_file f' (join dir n)" using f(3) only_removed_exists[OF f'(2)] jn by auto
    ultimately show ?thesis using f'(3) by auto
  qed
qed

lemma marker_name_clean: "valid_backup_id i \<Longrightarrow> CHR ''/'' \<notin> set (''hub-prune-'' @ i @ ''.sqlite.pending'')"
  by (auto simp: valid_backup_id_def hex_decodes_def list_all_iff)

text \<open>A reconciliation without faults ends without an error, and leaves no intent behind.\<close>

lemma reconcile_clear:
  assumes "clear k" and "recoverable dir a h (files k)"
  shows "\<exists>f. reconcile_loop dir a h k = (Inr (), k\<lparr>files := f\<rparr>) \<and> unmarked dir f \<and> only_removed (disposable dir h) (files k) f"
proof -
  let ?ns = "dir_entries dir (files k)"
  have "exists_file (files k) (join dir n)" if "n \<in> set ?ns" for n
    unfolding join_def by (rule dir_entries_sound[OF that])
  moreover have "distinct ?ns" by (simp add: dir_entries_def)
  ultimately obtain f where f: "forS (reconcile_one dir a h) ?ns k = (Inr (), k\<lparr>files := f\<rparr>)"
    "only_removed (disposable dir h) (files k) f" "\<forall>n \<in> set ?ns. is_marker n \<longrightarrow> \<not> exists_file f (join dir n)"
    using reconcile_names_clear[OF assms] by blast
  have "unmarked dir f"
    unfolding unmarked_def
  proof (intro allI impI notI)
    fix i assume i: "valid_backup_id i" and e: "exists_file f (marker_of (backup_path dir i))"
    let ?n = "''hub-prune-'' @ i @ ''.sqlite.pending''"
    have p: "marker_of (backup_path dir i) = dir @ ''/'' @ ?n" using marker_path[of dir i] by (simp add: join_def)
    have "exists_file (files k) (dir @ ''/'' @ ?n)" using only_removed_exists[OF f(2) e] unfolding p .
    then have "?n \<in> set ?ns" using marker_name_clean[OF i] by (intro dir_entries_complete) simp_all
    moreover have "is_marker ?n" using i by (auto simp: is_marker_iff)
    ultimately have "\<not> exists_file f (join dir ?n)" using f(3) by blast
    then show False using e marker_path[of dir i] by simp
  qed
  then show ?thesis using f by (auto simp: reconcile_loop_def bindS_def clear_runs[OF assms(1)])
qed
section \<open>Nothing foreign is removed\<close>

text \<open>
  From any directory, with any faults: what a complete intent of this authority announced, and of
  the pair it announced only what both names still refer to and no recorded backup does.
\<close>

definition justified :: "string \<Rightarrow> string \<Rightarrow> hub \<Rightarrow> filesystem \<Rightarrow> string \<Rightarrow> bool" where
  "justified dir a h f p \<longleftrightarrow> (\<exists>i. valid_backup_id i \<and> complete a f (backup_path dir i) \<and>
     (p = marker_of (backup_path dir i) \<or>
      p \<in> {backup_path dir i, claim_of (backup_path dir i)} \<and> \<not> referenced h (backup_path dir i) \<and> paired f (backup_path dir i)))"

lemma only_removed_inode: "only_removed S f f' \<Longrightarrow> inode_of f' p = Some i \<Longrightarrow> inode_of f p = Some i"
  unfolding only_removed_def by (metis option.distinct(1))

lemma only_removed_back:
  assumes "only_removed S f f'"
  shows "complete a f' c \<Longrightarrow> complete a f c" and "paired f' c \<Longrightarrow> paired f c"
proof -
  have n: "fs_inode f' = fs_inode f" using assms by (simp add: only_removed_def)
  show "complete a f' c \<Longrightarrow> complete a f c" "paired f' c \<Longrightarrow> paired f c"
    using only_removed_inode[OF assms] n by (auto simp: complete_def paired_def)
qed

lemma only_removed_more: "only_removed S f f' \<Longrightarrow> S p \<Longrightarrow> only_removed S f (unlink_file p f')"
  by (rule only_removed_trans) (auto intro: only_removed_unlink)

lemma ok_weaken_post:
  "ok P m Q R \<Longrightarrow> (\<And>x f. Q x f \<Longrightarrow> Q' x f) \<Longrightarrow> (\<And>e f. R e f \<Longrightarrow> R' e f) \<Longrightarrow> ok P m Q' R'"
  by (rule ok_weaken)

lemma ok_stat:
  assumes "\<And>f. P f \<Longrightarrow> R ErrOS f"
  shows "ok P (attempt (os_lstat p)) (\<lambda>s f. P f \<and> (\<forall>i x. s = Inr (i, x) \<longrightarrow> inode_of f p = Some i \<and> x = fs_inode f i)) R"
  by (intro ok_attempt ok_lstat) auto

lemma reconcile_one_justified:
  "ok (only_removed (justified dir a h f0) f0) (reconcile_one dir a h name)
     (\<lambda>_. only_removed (justified dir a h f0) f0) (\<lambda>_. only_removed (justified dir a h f0) f0)"
proof (cases "is_marker name")
  case False
  then show ?thesis by (simp add: reconcile_one_def ok_ret)
next
  case True
  then obtain i where i: "valid_backup_id i" and n: "join dir name = marker_of (backup_path dir i)"
    by (auto simp: is_marker_iff marker_path[unfolded join_def, simplified] join_def)
  let ?c = "backup_path dir i" and ?S = "justified dir a h f0"
  let ?J = "only_removed ?S f0" and ?m = "marker_of ?c"
  let ?K1 = "\<lambda>f. ?J f \<and> (\<exists>k. inode_of f ?m = Some k \<and> in_regular (fs_inode f k))"
  let ?K2 = "\<lambda>f. ?J f \<and> complete a f ?c"
  let ?K3 = "\<lambda>f. ?J f \<and> complete a f0 ?c \<and> paired f0 ?c"
  have one: "reconcile_one dir a h name = reconcile_marked a h ?c"
    using True by (simp add: reconcile_one_def n marker_candidate)
  have um: "?J (unlink_file ?m f)" if "?K2 f" for f
    using that i only_removed_back(1)[of ?S f0 f a ?c] by (intro only_removed_more) (auto simp: justified_def)
  have uc: "?K3 (unlink_file p f)" if "?K3 f" "p \<in> {?c, claim_of ?c}" "\<not> referenced h ?c" for f p
    using that i by (auto simp: justified_def intro!: only_removed_more)
  have keep: "?K2 f \<Longrightarrow> complete a f0 ?c" "?K2 f \<Longrightarrow> paired f ?c \<Longrightarrow> paired f0 ?c" for f
    using only_removed_back[of ?S f0 f] by blast+
  have info: "ok ?J (bindS (attempt (os_lstat ?m)) (\<lambda>info. bindS (requireS (regular_stat info) ErrUnsupportedFormat) g)) (\<lambda>_. ?J) (\<lambda>_. ?J)"
    if "\<And>u. ok ?K1 (g u) (\<lambda>_. ?J) (\<lambda>_. ?J)" for g
    by (rule ok_bind[OF ok_stat], simp, rule ok_bind_keep[OF ok_require that])
      (auto simp: regular_stat_def split: sum.splits prod.splits)
  have data: "ok ?K1 (bindS (attempt (os_read_file ?m)) (\<lambda>contents. bindS (requireS (contents = Inr (Bytes (intent a))) ErrUnsupportedFormat) g))
      (\<lambda>_. ?J) (\<lambda>_. ?J)" if "\<And>u. ok ?K2 (g u) (\<lambda>_. ?J) (\<lambda>_. ?J)" for g
  proof (rule ok_bind)
    show "ok ?K1 (attempt (os_read_file ?m)) (\<lambda>s f. ?K1 f \<and> (\<forall>d. s = Inr d \<longrightarrow> (\<exists>k. inode_of f ?m = Some k \<and> in_data (fs_inode f k) = d))) (\<lambda>_. ?J)"
      by (intro ok_attempt ok_read_file) auto
    have e: "x = \<lparr>in_regular = True, in_data = d\<rparr>" if "in_regular x" "in_data x = d" for x :: inode and d
      using that by (cases x) auto
    show "ok (\<lambda>f. ?K1 f \<and> (\<forall>d. s = Inr d \<longrightarrow> (\<exists>k. inode_of f ?m = Some k \<and> in_data (fs_inode f k) = d)))
        (bindS (requireS (s = Inr (Bytes (intent a))) ErrUnsupportedFormat) g) (\<lambda>_. ?J) (\<lambda>_. ?J)" for s
      by (rule ok_bind_keep[OF ok_require that]) (auto simp: complete_def intro: e)
  qed
  have pair: "ok ?K2 (bindS (attempt (os_lstat ?c)) (\<lambda>backup. bindS (attempt (os_lstat (claim_of ?c))) (g backup))) (\<lambda>_. ?J) (\<lambda>_. ?J)"
    if "\<And>backup claim. ok (\<lambda>f. ?K2 f \<and> (same_regular backup claim \<longrightarrow> paired f ?c)) (g backup claim) (\<lambda>_. ?J) (\<lambda>_. ?J)" for g
    by (rule ok_bind[OF ok_stat], simp, rule ok_bind[OF ok_stat], simp, rule ok_pre[OF that])
      (auto simp: same_regular_def paired_def split: sum.splits prod.splits)
  have um1: "ok ?K2 (os_remove ?m) (\<lambda>_. ?J) (\<lambda>_. ?J)" by (rule ok_remove) (simp_all add: um)
  have um2: "ok (\<lambda>f. ?K2 f \<and> (same_regular b c \<longrightarrow> paired f ?c)) (os_remove ?m) (\<lambda>_. ?J) (\<lambda>_. ?J)" for b c
    by (rule ok_pre[OF um1]) simp
  have claimed: "ok ?K3 (removeClaimedPruneBackup ?c) (\<lambda>_. ?J) (\<lambda>_. ?J)" if "\<not> referenced h ?c"
    by (rule ok_weaken_post[OF removeClaimed_keep]) (use uc that in auto)
  have last: "ok (\<lambda>f. ?K2 f \<and> (same_regular b c \<longrightarrow> paired f ?c)) (bindS (requireS (same_regular b c) ErrUnsupportedFormat) (\<lambda>_.
      bindS (os_remove ?m) (\<lambda>_. removeClaimedPruneBackup ?c))) (\<lambda>_. ?J) (\<lambda>_. ?J)" if "\<not> referenced h ?c" for b c
    by (rule ok_bind_keep[where M = "\<lambda>f. ?K2 f \<and> paired f ?c"], rule ok_require, simp, simp,
        rule ok_bind_keep[OF ok_remove claimed[OF that]]) (use um keep in auto)
  show ?thesis
    unfolding one reconcile_marked_def Let_def
    by (intro info data ok_bind_keep[where M = ?K2] ok_touch ok_if pair last um1
        ok_bind_keep[OF um2] um2 ok_fail) simp_all
qed

lemma reconcile_justified:
  "ok (\<lambda>f. f = f0) (reconcile_loop dir a h) (\<lambda>_. only_removed (justified dir a h f0) f0) (\<lambda>_. only_removed (justified dir a h f0) f0)"
proof (rule ok_pre)
  show "ok (only_removed (justified dir a h f0) f0) (reconcile_loop dir a h) (\<lambda>_. only_removed (justified dir a h f0) f0) (\<lambda>_. only_removed (justified dir a h f0) f0)"
    unfolding reconcile_loop_def
    by (intro ok_bind_keep[where M = "only_removed (justified dir a h f0) f0"] ok_read_dir ok_for reconcile_one_justified) simp_all
qed (simp add: only_removed_refl)

end
