(* ===== verification/Upkeep.thy ===== *)
theory Upkeep
  imports Machine Recovery
begin

text \<open>
  The database and its backup files together: any calls, prunes, vacuums and clean-ups of any
  processes, each failing or dying anywhere. The directory stays recoverable, and the database is
  never reduced without a backup of what it was.
\<close>

section \<open>Recorded backups are never forgotten\<close>

definition remembers :: "hub \<Rightarrow> hub \<Rightarrow> bool" where
  "remembers h h' \<longleftrightarrow> (\<forall>p. referenced h p \<longrightarrow> referenced h' p)"

lemma stmt_remembers:
  assumes "stmt h h'"
  shows "remembers h h'"
  using assms
proof (cases rule: stmt.cases)
  case (publish p h1)
  then obtain cs where "h1 = h\<lparr>counters := cs\<rparr>" using nextSequence_frame by blast
  with publish(2) show ?thesis by (simp add: insert_publication_def remembers_def referenced_def)
next
  case (drop_backup P)
  then show ?thesis by (simp add: remembers_def referenced_def key_image_update)
qed (auto simp: remembers_def referenced_def statement_defs change_role_def cast_vote_def retire_schema_def Let_def split: if_splits)

lemma prune_stmt_remembers:
  assumes "prune_stmt h h'"
  shows "remembers h h'"
  using assms
  by (cases rule: prune_stmt.cases)
    (auto simp: remembers_def referenced_def insert_pruned_idem_def delete_idem_def delete_votes_of_def delete_pins_of_def
      delete_revision_def delete_head_def delete_event_def delete_publication_def mergePrunedRange_def raise_low_water_def
      insert_prune_audit_def delete_guard_Inr Let_def split: if_splits option.splits prod.splits)

interpretation remembers_stmt: step_order stmt remembers
  by unfold_locales (auto simp: remembers_def dest: stmt_remembers[unfolded remembers_def])

interpretation remembers_prune: step_order prune_stmt remembers
  by unfold_locales (auto simp: remembers_def dest: prune_stmt_remembers[unfolded remembers_def])

lemma pruneHub_remembers: "pruneHub_body refs_bytes digest cutoff plan backup rid h now = Inr (out, h') \<Longrightarrow> remembers h h'"
  by (rule remembers_prune.star_up[OF pruneHub_steps])

lemma call_remembers: "call d e h h' \<Longrightarrow> remembers h h'"
  by (drule call_effect) (auto simp: effect_def pruned_def remembers_stmt.refl intro: remembers_stmt.star_up pruneHub_remembers)

section \<open>Transactions with files\<close>

lemma disk_write_cases:
  assumes "disk_write d env fn h k = ((r, h'), k')"
  obtains "h' = h" "k' = k" "isl r"
  | x g where "\<not> readOnly d" "admit d env h = Inr ()"
      "bindS (fn h (env_now env)) (\<lambda>r. bindS os_touch (\<lambda>_. retS r)) k = (x, k')"
      "(\<exists>e. r = Inl e \<and> h' = h) \<or> (\<exists>y. x = Inr (y, h') \<and> r = Inr y \<and> commit_fault env = None)"
  using assms by (auto simp: disk_write_def split: if_splits sum.splits prod.splits option.splits)

text \<open>A reconciliation leaves the database alone.\<close>

lemma reconcile_cases:
  assumes "reconcilePendingPruneBackups dir d env h k = ((r, h'), k')"
  shows "h' = h \<and> (k' = k \<or> (\<exists>x k1. reconcile_loop dir (authorityID d) h k = (x, k1) \<and> files k' = files k1))"
proof -
  have touch: "os_touch k1 = (x, k2) \<Longrightarrow> files k2 = files k1" for k1 k2 x
    by (rule call_os_cases[of nothing "\<lambda>f. Inr ((), f)" k1]) (auto simp: os_touch_def nothing_def)
  from assms show ?thesis
    unfolding reconcilePendingPruneBackups_def
    by (rule disk_write_cases) (auto simp: bindS_def retS_def split: prod.splits sum.splits dest: touch)
qed
lemma touch_files: "os_touch k = (x, k') \<Longrightarrow> files k' = files k"
  by (rule call_os_cases[of nothing "\<lambda>f. Inr ((), f)" k]) (auto simp: os_touch_def nothing_def)

text \<open>A transaction that starts with a backup of the database it is admitted on.\<close>

lemma backup_transaction:
  assumes "disk_write d env (\<lambda>h now. bindS (requireS (P now) e) (\<lambda>_.
      bindS (backupForPrune dir a mt h) (\<lambda>p. liftS (F p h now)))) h k = ((r, h'), k')"
  shows "h' = h \<and> k' = k \<and> isl r
    \<or> h' = h \<and> files k' = files k \<and> isl r
    \<or> (\<exists>x k1. backupForPrune dir a mt h k = (x, k1) \<and> files k' = files k1
        \<and> (h' = h \<and> isl r \<or> (\<exists>p y. x = Inr p \<and> F p h (env_now env) = Inr (y, h') \<and> r = Inr y
             \<and> \<not> readOnly d \<and> admit d env h = Inr () \<and> commit_fault env = None)))"
  using assms
proof (rule disk_write_cases)
  fix x g
  assume w: "\<not> readOnly d" "admit d env h = Inr ()"
    and run: "bindS (bindS (requireS (P (env_now env)) e) (\<lambda>_. bindS (backupForPrune dir a mt h) (\<lambda>p. liftS (F p h (env_now env)))))
      (\<lambda>r. bindS os_touch (\<lambda>_. retS r)) k = (x, k')"
    and out: "(\<exists>e. r = Inl e \<and> h' = h) \<or> (\<exists>y. x = Inr (y, h') \<and> r = Inr y \<and> commit_fault env = None)"
  obtain b k1 where b: "backupForPrune dir a mt h k = (b, k1)" by fastforce
  show ?thesis
  proof (cases "P (env_now env)")
    case False
    with run out show ?thesis by (auto simp: bindS_def requireS_def failS_def)
  next
    case True
    show ?thesis
    proof (cases b)
      case (Inl e')
      with True run out b show ?thesis by (auto simp: bindS_def requireS_def retS_def)
    next
      case (Inr p)
      obtain t k2 where t: "os_touch k1 = (t, k2)" by fastforce
      from True run Inr b t touch_files[OF t] out w show ?thesis
        by (cases "F p h (env_now env)"; cases t) (auto simp: bindS_def requireS_def retS_def liftS_def)
    qed
  qed
qed simp

lemma require_True: "bindS (requireS True e) g = g ()"
  by (rule ext) (simp add: bindS_def requireS_def retS_def)

section \<open>Upkeep\<close>

text \<open>
  The database and the directory of the hub \<open>a\<close> under the calls of any processes, each
  with its own schedule of faults; the pieces of a prune and of a vacuum outside their transaction
  are steps of their own, since other processes may come between. \<open>crypto/rand\<close> never repeats the
  name of a backup.
\<close>

definition fresh_name :: "string \<Rightarrow> maintenance \<Rightarrow> filesystem \<Rightarrow> bool" where
  "fresh_name dir mt f \<longleftrightarrow> (\<forall>bs. mt_id mt = Some bs \<longrightarrow> length bs = 16) \<and> (\<forall>p \<in> names_of (backup_name dir mt). inode_of f p = None)"

inductive upkept :: "string \<Rightarrow> string \<Rightarrow> hub \<Rightarrow> filesystem \<Rightarrow> bool" for dir a where
  found: "fs_ok f \<Longrightarrow> unmarked dir f \<Longrightarrow> upkept dir a h f"
| called: "upkept dir a h f \<Longrightarrow> call d e h h' \<Longrightarrow> upkept dir a h' f"
| reconciled: "upkept dir a h (files k) \<Longrightarrow> authorityID d = a \<Longrightarrow>
    reconcilePendingPruneBackups dir d env h k = ((r, h'), k') \<Longrightarrow> upkept dir a h' (files k')"
| pruned: "upkept dir a h (files k) \<Longrightarrow> authorityID d = a \<Longrightarrow> fresh_name dir mt (files k) \<Longrightarrow>
    prune_transaction refs_bytes digest dir d env cutoff plan mt rid h k = ((r, h'), k') \<Longrightarrow> upkept dir a h' (files k')"
| vacuumed: "upkept dir a h (files k) \<Longrightarrow> authorityID d = a \<Longrightarrow> fresh_name dir mt (files k) \<Longrightarrow>
    vacuum_transaction dir d env mt rid h k = ((r, h'), k') \<Longrightarrow> upkept dir a h' (files k')"
| settled: "upkept dir a h (files k) \<Longrightarrow> os_remove (marker_of p) k = (r, k') \<Longrightarrow> upkept dir a h (files k')"
| cleaned: "upkept dir a h (files k) \<Longrightarrow> cleanupPruneBackups dir keep epoch h k = (h', k') \<Longrightarrow> upkept dir a h' (files k')"

lemma backup_id: "fresh_name dir mt f \<Longrightarrow> \<exists>i. backup_name dir mt = backup_path dir i \<and> (valid_backup_id i \<or> i = '''')"
  by (cases "mt_id mt") (auto simp: fresh_name_def backup_name_def intro: valid_id_hex)

lemma backup_recoverable:
  assumes "recoverable dir a h (files k)" and "fresh_name dir mt (files k)" and "backupForPrune dir a mt h k = (x, k')"
  shows "recoverable dir a h (files k')"
proof -
  obtain i where i: "backup_name dir mt = backup_path dir i" "valid_backup_id i \<or> i = ''''" using backup_id[OF assms(2)] by blast
  have "ok (\<lambda>f. f = files k) (backupForPrune dir a mt h) (\<lambda>_. since a (files k) (backup_name dir mt)) (\<lambda>_. since a (files k) (backup_name dir mt))"
    by (rule ok_weaken_post[OF backup_since]) (use assms(2) recoverableD(1)[OF assms(1)] in \<open>auto simp: fresh_name_def stage_since\<close>)
  from ok_snd[OF this, of k] assms(3) have "since a (files k) (backup_path dir i) (files k')" by (simp add: i(1))
  then show ?thesis by (rule since_recoverable[OF assms(1) _ i(2)])
qed

lemma marker_names: "marker_of p \<in> {c, claim_of c, marker_of c} \<Longrightarrow> c = backup_path dir i \<Longrightarrow> p = c"
  by (auto simp: marker_of_def claim_of_def backup_path_def join_def append_eq_append_conv2)

lemma unlink_marker_recoverable:
  assumes r: "recoverable dir a h f"
  shows "recoverable dir a h (unlink_file (marker_of p) f)"
proof (cases "\<exists>i. valid_backup_id i \<and> p = backup_path dir i")
  case True
  then show ?thesis using unlink_recoverable[OF r] by blast
next
  case False
  show ?thesis
  proof (rule recoverableI)
    show "fs_ok (unlink_file (marker_of p) f)" by (rule fs_ok_ops(3)[OF recoverableD(1)[OF r]])
    fix i
    let ?c = "backup_path dir i"
    assume i: "valid_backup_id i" and m: "exists_file (unlink_file (marker_of p) f) (marker_of ?c)"
    have "marker_of p \<notin> {?c, claim_of ?c, marker_of ?c}" using marker_names[of p ?c dir i] False i by blast
    from unlink_other[OF this] recoverableD(2,3)[OF r i] m
    show "complete a (unlink_file (marker_of p) f) ?c \<and>
      (referenced h ?c \<or> paired (unlink_file (marker_of p) f) ?c \<or> gone (unlink_file (marker_of p) f) ?c)" by simp
  qed
qed

lemma remove_files: "os_remove p k = (r, k') \<Longrightarrow> files k' = files k \<or> files k' = unlink_file p (files k)"
  unfolding os_remove_def
  by (rule call_os_cases[of nothing "\<lambda>f. if exists_file f p then Inr ((), unlink_file p f) else Inl ErrNotExist" k])
    (auto simp: nothing_def split: if_splits)

lemma transaction_recoverable:
  assumes "recoverable dir a h (files k)" and "fresh_name dir mt (files k)"
    and "disk_write d env (\<lambda>h now. bindS (requireS (P now) e) (\<lambda>_. bindS (backupForPrune dir a mt h) (\<lambda>p. liftS (F p h now)))) h k = ((r, h'), k')"
    and "\<And>p y. F p h (env_now env) = Inr (y, h') \<Longrightarrow> remembers h h'"
  shows "recoverable dir a h' (files k')"
proof -
  have m: "recoverable dir a h f \<Longrightarrow> remembers h h' \<Longrightarrow> recoverable dir a h' f" for f
    by (erule recoverable_mono) (simp add: remembers_def)
  show ?thesis
    using backup_transaction[OF assms(3)] assms(1) backup_recoverable[OF assms(1,2)] m assms(4) by auto
qed

lemma upkept_recoverable:
  assumes "upkept dir a h f" and "dir \<noteq> ''''"
  shows "recoverable dir a h f"
  using assms
proof (induction rule: upkept.induct)
  case (found f h)
  then show ?case by (auto simp: recoverable_def unmarked_def Let_def)
next
  case (called h f d e h')
  then show ?case using call_remembers[OF called(2)] by (auto simp: remembers_def elim: recoverable_mono)
next
  case (reconciled h k d env r h' k')
  from reconcile_cases[OF reconciled(3)] show ?case
    using reconciled ok_snd[OF reconcile_recoverable, of dir a h k] by auto
next
  case (pruned h k d mt refs_bytes digest env cutoff plan rid r h' k')
  show ?case
    by (rule transaction_recoverable[OF pruned(5)[OF pruned(6)] pruned(3)])
      (use pruned(4)[unfolded prune_transaction_def pruned(2)] in \<open>auto dest: pruneHub_remembers\<close>)
next
  case (vacuumed h k d mt env rid r h' k')
  have "remembers h g" if "recordBackup p rid h now = Inr (y, g)" for p now y g
    by (rule remembers_stmt.star_up[OF recordBackup_steps[OF that]])
  moreover have "vacuum_transaction dir d env mt rid = disk_write d env (\<lambda>h now. bindS (requireS True ErrInvalidInput) (\<lambda>_.
      bindS (backupForPrune dir a mt h) (\<lambda>p. liftS (recordBackup p rid h now))))"
    unfolding vacuum_transaction_def vacuumed(2) by (simp add: require_True)
  ultimately show ?case
    using transaction_recoverable[OF vacuumed(5)[OF vacuumed(6)] vacuumed(3), of d env "\<lambda>_. True" ErrInvalidInput
        "\<lambda>p. recordBackup p rid" r h' k'] vacuumed(4) by simp
next
  case (settled h k p r k')
  then show ?case using remove_files[OF settled(2)] unlink_marker_recoverable by auto
next
  case (cleaned h k keep epoch h' k')
  then show ?case using cleanup_recoverable by blast
qed
section \<open>Properties: backups\<close>

lemma claim_not_backup: "claim_of p \<noteq> backup_path dir i" "backup_path dir i \<noteq> claim_of p"
  and marker_not_backup: "marker_of p \<noteq> backup_path dir i" "backup_path dir i \<noteq> marker_of p"
proof -
  have "last (claim_of p) \<noteq> last (backup_path dir i)" "last (marker_of p) \<noteq> last (backup_path dir i)"
    by (simp_all add: claim_of_def marker_of_def backup_path_def join_def)
  then show "claim_of p \<noteq> backup_path dir i" "backup_path dir i \<noteq> claim_of p"
    "marker_of p \<noteq> backup_path dir i" "backup_path dir i \<noteq> marker_of p" by metis+
qed

lemma recorded_not_disposable:
  "referenced h (backup_path dir i) \<Longrightarrow> p \<in> {backup_path dir i, claim_of (backup_path dir i)} \<Longrightarrow> \<not> disposable dir h p"
  by (auto simp: disposable_def claim_not_backup marker_not_backup)

text \<open>A hub in \<open>/h\<close> whose vacuum is killed while it copies the database.\<close>

definition demo_disk :: "fault list \<Rightarrow> disk" where
  "demo_disk fs = \<lparr>files = \<lparr>fs_names = [(''/h/hub.sqlite'', 0)], fs_inode = (\<lambda>_. \<lparr>in_regular = True, in_data = Partial\<rparr>), fs_next = 1\<rparr>,
     faults = fs, killed = False\<rparr>"

definition demo_maintenance :: maintenance where
  "demo_maintenance = \<lparr>mt_source_ok = True, mt_copy_ok = True, mt_bytes = Inr 1000, mt_free = Inr 1000000000,
     mt_id = Some (replicate 16 1)\<rparr>"

definition demo_vacuum :: "fault list \<Rightarrow> ((err + string \<times> int) \<times> hub) \<times> disk" where
  "demo_vacuum fs = vacuum_transaction ''/h'' demo_db (demo_env 2000) demo_maintenance (Some (replicate 16 2)) demo_hub (demo_disk fs)"

definition demo_killed :: disk where
  "demo_killed = \<lparr>files = files (snd (demo_vacuum (replicate 12 Fine @ [Kills 0]))), faults = [], killed = False\<rparr>"

lemma demo_fresh: "fresh_name ''/h'' demo_maintenance (files (demo_disk fs))"
  by (simp add: fresh_name_def demo_maintenance_def demo_disk_def backup_name_def inode_of_def names_of_def backup_path_def join_def
      name_defs)

lemma demo_disk_ok: "fs_ok (files (demo_disk fs))"
  by (auto simp: demo_disk_def fs_ok_def inode_of_def)

lemma demo_disk_upkept: "upkept ''/h'' (authorityID demo_db) demo_hub (files (demo_disk fs))"
  by (rule found) (auto simp: demo_disk_def fs_ok_def unmarked_def inode_of_def exists_file_def marker_path[symmetric] join_def)

lemma demo_killed_upkept: "upkept ''/h'' (authorityID demo_db) (snd (fst (demo_vacuum (replicate 12 Fine @ [Kills 0])))) (files demo_killed)"
proof -
  let ?t = "demo_vacuum (replicate 12 Fine @ [Kills 0])"
  have "?t = ((fst (fst ?t), snd (fst ?t)), snd ?t)" by simp
  from vacuumed[OF demo_disk_upkept refl demo_fresh this[unfolded demo_vacuum_def]]
  show ?thesis by (simp add: demo_killed_def demo_vacuum_def)
qed

text \<open>
  C6: Maintenance always recovers. Whatever calls, prunes, vacuums and clean-ups ran before, in
  any interleaving, whatever failed in them and wherever their processes were killed: a
  reconciliation that runs without a fault succeeds, leaves no intent behind, keeps the two names
  of every recorded backup, and takes away nothing but intents and unrecorded backups.
\<close>

theorem maintenance_recovers:
  assumes "upkept dir (authorityID d) h (files k)" and "dir \<noteq> ''''"
    and "faults k = []" and "\<not> killed k"
    and "\<not> readOnly d" and "admit d env h = Inr ()" and "commit_fault env = None"
  shows "\<exists>f. reconcilePendingPruneBackups dir d env h k = ((Inr (), h), k\<lparr>files := f\<rparr>)
    \<and> unmarked dir f \<and> only_removed (disposable dir h) (files k) f
    \<and> (\<forall>i. referenced h (backup_path dir i) \<longrightarrow>
         inode_of f (backup_path dir i) = inode_of (files k) (backup_path dir i)
         \<and> inode_of f (claim_of (backup_path dir i)) = inode_of (files k) (claim_of (backup_path dir i)))"
proof -
  have c: "clear k" using assms(3,4) by (simp add: clear_def)
  from reconcile_clear[OF c upkept_recoverable[OF assms(1,2)]] obtain f where
    f: "reconcile_loop dir (authorityID d) h k = (Inr (), k\<lparr>files := f\<rparr>)" "unmarked dir f"
      "only_removed (disposable dir h) (files k) f" by blast
  have "os_touch (k\<lparr>files := f\<rparr>) = (Inr (), k\<lparr>files := f\<rparr>)" by (rule clear_runs(1)) (simp add: c)
  then have "reconcilePendingPruneBackups dir d env h k = ((Inr (), h), k\<lparr>files := f\<rparr>)"
    using f(1) assms(5-7) by (simp add: reconcilePendingPruneBackups_def disk_write_def bindS_def retS_def)
  then show ?thesis using f(2,3) only_removed_keeps[OF f(3)] recorded_not_disposable by blast
qed

theorem maintenance_recovers_witness:
  "\<exists>f. reconcilePendingPruneBackups ''/h'' demo_db (demo_env 3000) demo_hub demo_killed = ((Inr (), demo_hub), demo_killed\<lparr>files := f\<rparr>)
     \<and> unmarked ''/h'' f \<and> exists_file (files demo_killed) (marker_of (backup_name ''/h'' demo_maintenance))"
proof -
  have h: "snd (fst (demo_vacuum (replicate 12 Fine @ [Kills 0]))) = demo_hub" by code_simp
  have u: "upkept ''/h'' (authorityID demo_db) demo_hub (files demo_killed)" using demo_killed_upkept unfolding h .
  have "faults demo_killed = [] \<and> \<not> killed demo_killed \<and> \<not> readOnly demo_db" by (simp add: demo_killed_def demo_db_def)
  moreover have "admit demo_db (demo_env 3000) demo_hub = Inr ()" by code_simp
  moreover have "commit_fault (demo_env 3000) = None" by (simp add: demo_env_def)
  moreover have "exists_file (files demo_killed) (marker_of (backup_name ''/h'' demo_maintenance))" by code_simp
  ultimately show ?thesis using maintenance_recovers[OF u] by blast
qed
text \<open>What a run of the clean-up may take away: older backups of the hub, recorded as such.\<close>

definition older :: "string \<Rightarrow> string \<Rightarrow> hub \<Rightarrow> string \<Rightarrow> bool" where
  "older dir keep h q \<longleftrightarrow> (\<exists>b \<in> set (prune_audits h). pa_backup b \<noteq> keep \<and> owned_backup dir (pa_backup b)
     \<and> q \<in> {pa_backup b, claim_of (pa_backup b)})"

lemma remove_backup_removes:
  assumes "S p" and "S (claim_of p)"
  shows "ok (only_removed S f0) (remove_backup p) (\<lambda>_. only_removed S f0) (\<lambda>_. only_removed S f0)"
proof -
  have u: "only_removed S f0 f \<Longrightarrow> q \<in> {p, claim_of p} \<Longrightarrow> only_removed S f0 (unlink_file q f)" for f q
    using assms by (auto intro: only_removed_more)
  have c: "ok (only_removed S f0) (removeClaimedPruneBackup p) (\<lambda>_. only_removed S f0) (\<lambda>_. only_removed S f0)"
    by (rule removeClaimed_keep) (rule u)
  show ?thesis
    unfolding remove_backup_def
    by (intro ok_bind_keep[where M = "only_removed S f0"] ok_attempt ok_lstat; (split sum.split, intro conjI allI impI)?)
      (auto intro!: c ok_if ok_remove ok_fail simp: u)
qed

lemma same_audits: "\<exists>as. h = h\<lparr>prune_audits := as\<rparr>"
  by (rule exI[of _ "prune_audits h"]) simp

lemma drop_backups_keeps:
  assumes "drop_backups dir as h k = (h', k')" and "only_removed S f0 (files k)"
    and "\<And>b. b \<in> set as \<Longrightarrow> owned_backup dir (pa_backup b) \<Longrightarrow> S (pa_backup b) \<and> S (claim_of (pa_backup b))"
    and "\<And>b. b \<in> set as \<Longrightarrow> pa_backup b \<noteq> keep"
  shows "only_removed S f0 (files k') \<and> (\<exists>as'. h' = h\<lparr>prune_audits := as'\<rparr>)
    \<and> (\<forall>r \<in> set (prune_audits h). pa_backup r = keep \<longrightarrow> r \<in> set (prune_audits h'))"
  using assms
proof (induction as arbitrary: h k)
  case Nil
  then have e: "h' = h" "k' = k" by simp_all
  show ?case unfolding e using Nil.prems(2) by (intro conjI same_audits) simp_all
next
  case (Cons b as)
  show ?case
  proof (cases "owned_backup dir (pa_backup b)")
    case False
    with Cons show ?thesis by simp
  next
    case True
    obtain r k1 where r: "remove_backup (pa_backup b) k = (r, k1)" by fastforce
    obtain t k2 where t: "os_touch k1 = (t, k2)" by fastforce
    have S: "S (pa_backup b)" "S (claim_of (pa_backup b))" using Cons.prems(3)[of b] True by simp_all
    have one: "only_removed S f0 (files k1)" using ok_snd[OF remove_backup_removes[where S = S, OF S] Cons.prems(2)] r by simp
    then have two: "only_removed S f0 (files k2)" using touch_files[OF t] by simp
    have ne: "pa_backup b \<noteq> keep" using Cons.prems(4)[of b] by simp
    have kept: "\<forall>r \<in> set (prune_audits h). pa_backup r = keep \<longrightarrow> r \<in> set (prune_audits (mark_unavailable b h))"
      using ne by (auto simp: mark_unavailable_def set_update_where image_iff)
    have IH: "drop_backups dir as g k = (h', k') \<Longrightarrow> only_removed S f0 (files k) \<Longrightarrow> only_removed S f0 (files k') \<and> (\<exists>as'. h' = g\<lparr>prune_audits := as'\<rparr>)
      \<and> (\<forall>r \<in> set (prune_audits g). pa_backup r = keep \<longrightarrow> r \<in> set (prune_audits h'))" for g k
      using Cons.IH[of g k] Cons.prems(3,4) by simp
    from Cons.prems(1) True r t
    consider "drop_backups dir as h k1 = (h', k')" | "drop_backups dir as h k2 = (h', k')"
      | "drop_backups dir as (mark_unavailable b h) k2 = (h', k')"
      by (auto split: if_splits sum.splits)
    then show ?thesis
    proof cases
      case 1
      with IH[OF this one] show ?thesis by simp
    next
      case 2
      with IH[OF this two] show ?thesis by simp
    next
      case 3
      with IH[OF this two] kept show ?thesis by (auto simp: mark_unavailable_def)
    qed
  qed
qed

lemma cleanup_keeps:
  assumes "cleanupPruneBackups dir keep epoch h k = (h', k')"
  shows "only_removed (older dir keep h) (files k) (files k') \<and> (\<exists>as'. h' = h\<lparr>prune_audits := as'\<rparr>)
    \<and> (\<forall>r \<in> set (prune_audits h). pa_backup r = keep \<longrightarrow> r \<in> set (prune_audits h'))"
proof -
  obtain t k1 where t: "os_touch k = (t, k1)" by fastforce
  have f: "only_removed (older dir keep h) (files k) (files k1)" by (simp add: touch_files[OF t] only_removed_refl)
  show ?thesis
  proof (cases t)
    case (Inl e)
    with assms t have e: "h' = h" "k' = k1" by (simp_all add: cleanupPruneBackups_def)
    show ?thesis unfolding e using f by (intro conjI same_audits) simp_all
  next
    case (Inr u)
    with assms t have "drop_backups dir (old_backups keep epoch h) h k1 = (h', k')" by (simp add: cleanupPruneBackups_def)
    then show ?thesis by (rule drop_backups_keeps[OF _ f]) (auto simp: old_backups_def older_def)
  qed
qed

text \<open>The database was \<open>h\<close>, and a recorded, available backup holds it.\<close>

definition backed_up :: "hub \<Rightarrow> hub \<Rightarrow> filesystem \<Rightarrow> string \<Rightarrow> bool" where
  "backed_up h h' f p \<longleftrightarrow> (\<exists>b \<in> set (prune_audits h'). pa_backup b = p \<and> pa_available b)
     \<and> (\<exists>j. inode_of f p = Some j \<and> fs_inode f j = \<lparr>in_regular = True, in_data = Image h\<rparr>)"

lemma backup_taken:
  assumes "fs_ok (files k)" and "fresh_name dir mt (files k)" and "backupForPrune dir a mt h k = (Inr p, k')"
  shows "p = backup_name dir mt" and "announced a (files k) p (fs_next (files k)) (Image h) (files k')"
proof -
  have "ok (\<lambda>f. f = files k) (backupForPrune dir a mt h)
      (\<lambda>p f. p = backup_name dir mt \<and> announced a (files k) (backup_name dir mt) (fs_next (files k)) (Image h) f)
      (\<lambda>_. since a (files k) (backup_name dir mt))"
    by (rule backup_since) (use assms(1,2) in \<open>auto simp: fresh_name_def\<close>)
  from okD[OF this refl assms(3)] show "p = backup_name dir mt" "announced a (files k) p (fs_next (files k)) (Image h) (files k')" by simp_all
qed

lemma transaction_backed_up:
  assumes "disk_write d env (\<lambda>h now. bindS (requireS (P now) e) (\<lambda>_. bindS (backupForPrune dir a mt h) (\<lambda>p. liftS (F p h now)))) h k = ((r, h'), k')"
    and "fs_ok (files k)" and "fresh_name dir mt (files k)"
    and "\<And>p y. F p h (env_now env) = Inr (y, h') \<Longrightarrow> \<exists>b \<in> set (prune_audits h'). pa_backup b = p \<and> pa_available b"
  shows "h' = h \<and> isl r \<or> (\<exists>y. r = Inr y \<and> F (backup_name dir mt) h (env_now env) = Inr (y, h')
    \<and> backed_up h h' (files k') (backup_name dir mt))"
  using backup_transaction[OF assms(1)]
proof (elim disjE exE conjE)
  fix x k1 p y
  assume b: "backupForPrune dir a mt h k = (x, k1)" "x = Inr p" and k: "files k' = files k1"
    and F: "F p h (env_now env) = Inr (y, h')" and r: "r = Inr y"
  note t = backup_taken[OF assms(2,3) b(1)[unfolded b(2)]]
  show ?thesis using assms(4)[OF F] F t r k by (auto simp: backed_up_def announced_def)
qed simp_all

lemma backed_up_kept:
  assumes "backed_up h h1 f p" and "only_removed S f f'" and "\<not> S p"
    and "\<And>b. b \<in> set (prune_audits h1) \<Longrightarrow> pa_backup b = p \<Longrightarrow> b \<in> set (prune_audits h2)"
  shows "backed_up h h2 f' p"
  using assms only_removed_keeps[OF assms(2,3)] unfolding backed_up_def by (auto simp: only_removed_def)
lemma pruneHub_record:
  assumes "pruneHub_body refs_bytes digest cutoff plan (Inr p) rid h now = Inr (out, h')"
  shows "rp_BackupPath out = p \<and> (\<exists>b \<in> set (prune_audits h'). pa_backup b = p \<and> pa_available b)"
  using assms unfolding pruneHub_body_def bindE_Inr_iff Let_def
  by (elim exE conjE) (auto simp: insert_prune_audit_def)

lemma recordBackup_record:
  assumes "recordBackup p rid h now = Inr (y, h')"
  shows "fst y = p \<and> (\<exists>as. h' = h\<lparr>prune_audits := as\<rparr>) \<and> (\<exists>b \<in> set (prune_audits h'). pa_backup b = p \<and> pa_available b)"
  using assms by (auto simp: recordBackup_def insert_prune_audit_def)

lemma marker_older: "\<not> older dir (backup_name dir mt) h (backup_name dir mt)" if "dir \<noteq> ''''"
  using that by (auto simp: older_def backup_name_def claim_not_backup elim!: owned_backup_path)

lemma remove_marker_kept:
  assumes "backed_up h h1 f p" and "os_remove (marker_of p) k = (r, k')" and "files k = f"
  shows "backed_up h h1 (files k') p"
  using assms remove_files[OF assms(2)] by (auto simp: backed_up_def fs_simps)

lemma cleanup_backed_up:
  assumes "cleanupPruneBackups dir (backup_name dir mt) epoch h1 k = (h2, k')" and "dir \<noteq> ''''"
    and "backed_up h h1 (files k) (backup_name dir mt)"
  shows "backed_up h h2 (files k') (backup_name dir mt)"
proof (rule backed_up_kept)
  show "backed_up h h1 (files k) (backup_name dir mt)" by (rule assms(3))
  show "only_removed (older dir (backup_name dir mt) h1) (files k) (files k')" using cleanup_keeps[OF assms(1)] by blast
  show "\<not> older dir (backup_name dir mt) h1 (backup_name dir mt)" by (rule marker_older[OF assms(2)])
qed (use cleanup_keeps[OF assms(1)] in blast)

lemma reconcile_absent:
  assumes "reconcilePendingPruneBackups dir d env h k = ((r, h'), k')"
  shows "only_removed (justified dir (authorityID d) h (files k)) (files k) (files k')"
proof -
  have "ok (\<lambda>f. f = files k) (reconcile_loop dir (authorityID d) h) (\<lambda>_. only_removed (justified dir (authorityID d) h (files k)) (files k))
      (\<lambda>_. only_removed (justified dir (authorityID d) h (files k)) (files k))"
    by (rule reconcile_justified)
  from ok_snd[OF this refl] reconcile_cases[OF assms] show ?thesis by (auto simp: only_removed_refl)
qed

lemma only_removed_fresh:
  "only_removed S f f' \<Longrightarrow> fresh_name dir mt f \<Longrightarrow> fresh_name dir mt f'"
  by (auto simp: fresh_name_def only_removed_def) (metis option.distinct(1))

lemma only_removed_ok: "only_removed S f f' \<Longrightarrow> fs_ok f \<Longrightarrow> fs_ok f'"
  using only_removed_inode[of S f f'] by (auto simp: fs_ok_def) (auto simp: only_removed_def)

text \<open>
  A reconciliation removes nothing that is not its own. On any directory, with any faults and
  killed anywhere: the database stays, and every name that disappears is an intent that was
  complete for this authority, or one of the two names that such an intent announced, while both
  still were the same regular file and no recorded backup is called so.
\<close>

theorem reconcile_removes_its_own:
  assumes "reconcilePendingPruneBackups dir d env h k = ((r, h'), k')"
  shows "h' = h \<and> only_removed (justified dir (authorityID d) h (files k)) (files k) (files k')"
  using reconcile_cases[OF assms] reconcile_absent[OF assms] by simp

text \<open>
  A backup is a snapshot. When \<open>backupForPrune\<close> returns a path, the file there is regular and
  holds exactly the committed database, under two names and announced by a complete intent; every
  other name of the directory and all data that was there is untouched.
\<close>

theorem backup_is_snapshot:
  assumes "backupForPrune dir a mt h k = (Inr p, k')" and "fs_ok (files k)" and "fresh_name dir mt (files k)"
  shows "complete a (files k') p
    \<and> (\<exists>j. inode_of (files k') p = Some j \<and> inode_of (files k') (claim_of p) = Some j
          \<and> fs_inode (files k') j = \<lparr>in_regular = True, in_data = Image h\<rparr>)
    \<and> (\<forall>q. q \<notin> names_of p \<longrightarrow> inode_of (files k') q = inode_of (files k) q)
    \<and> (\<forall>i < fs_next (files k). fs_inode (files k') i = fs_inode (files k) i)"
  using backup_taken[OF assms(2,3,1)] by (auto simp: announced_def since_def exists_file_def)

theorem backup_is_snapshot_witness:
  "complete ''hub'' (files (snd (backupForPrune ''/h'' ''hub'' demo_maintenance demo_hub (demo_disk [])))) (backup_name ''/h'' demo_maintenance)
   \<and> (\<exists>j. inode_of (files (snd (backupForPrune ''/h'' ''hub'' demo_maintenance demo_hub (demo_disk [])))) (backup_name ''/h'' demo_maintenance) = Some j
       \<and> fs_inode (files (snd (backupForPrune ''/h'' ''hub'' demo_maintenance demo_hub (demo_disk [])))) j = \<lparr>in_regular = True, in_data = Image demo_hub\<rparr>)"
proof -
  let ?r = "backupForPrune ''/h'' ''hub'' demo_maintenance demo_hub (demo_disk [])"
  have "fst ?r = Inr (backup_name ''/h'' demo_maintenance)" by code_simp
  then have "?r = (Inr (backup_name ''/h'' demo_maintenance), snd ?r)" by (simp add: prod_eq_iff)
  from backup_is_snapshot[OF this demo_disk_ok demo_fresh] show ?thesis by blast
qed

text \<open>
  C11: No prune without its backup. Whatever \<open>PruneHub\<close> reports, whatever fails and wherever its
  process dies: if it changed the database, then a recorded, available backup holds the whole
  database from before, and the clean-up of older backups left it in place.
\<close>

theorem prune_leaves_backup:
  assumes "prune_with_backup dg refs_bytes digest dir d env0 env cutoff clk mt rid h0 h k = ((r, h'), k')"
    and "dir \<noteq> ''''" and "fs_ok (files k)" and "fresh_name dir mt (files k)"
  shows "h' = h \<or> backed_up h h' (files k') (backup_name dir mt)"
proof -
  obtain q0 k1 where rec: "reconcilePendingPruneBackups dir d env0 h0 k = (q0, k1)" by fastforce
  have k1: "fs_ok (files k1)" "fresh_name dir mt (files k1)"
    using rec assms(3,4) by (cases q0; auto dest!: reconcile_absent intro: only_removed_ok only_removed_fresh)+
  have tx: "h1 = h \<and> isl r1 \<or> (\<exists>y. r1 = Inr y \<and> rp_BackupPath y = backup_name dir mt \<and> backed_up h h1 (files k2) (backup_name dir mt))"
    if "prune_transaction refs_bytes digest dir d env cutoff plan mt rid h k1 = ((r1, h1), k2)" for plan r1 h1 k2
    using transaction_backed_up[OF that[unfolded prune_transaction_def] k1] pruneHub_record by blast
  have final: "h2 = h \<or> backed_up h h2 (files k4) (backup_name dir mt)"
    if t: "prune_transaction refs_bytes digest dir d env cutoff plan mt rid h k1 = ((Inr y, h1), k2)"
      and c: "cleanupPruneBackups dir (rp_BackupPath y) epoch h1 (snd (os_remove (marker_of (rp_BackupPath y)) k2)) = (h2, k4)"
    for plan y h1 k2 epoch h2 k4
  proof -
    from tx[OF t] have b: "rp_BackupPath y = backup_name dir mt" "backed_up h h1 (files k2) (backup_name dir mt)" by auto
    have "backed_up h h1 (files (snd (os_remove (marker_of (backup_name dir mt)) k2))) (backup_name dir mt)"
      by (rule remove_marker_kept[OF b(2) prod.collapse[symmetric] refl])
    from cleanup_backed_up[OF c[unfolded b(1)] assms(2) this] show ?thesis by simp
  qed
  show ?thesis
    using assms(1) unfolding prune_with_backup_def rec
    by (auto split: sum.splits prod.splits if_splits dest: tx final)
qed
definition demo_pruning :: "fault list \<Rightarrow> ((err + pruneReport) \<times> hub) \<times> disk" where
  "demo_pruning fs = prune_with_backup (\<lambda>_. '''') (\<lambda>_. 0) (\<lambda>es. concat (map pe_id es)) ''/h'' demo_db (demo_env 2000) (demo_env 2000)
     (fromMillis 1400) (fromMillis 2000) demo_maintenance (demo_bytes 9) demo_two demo_two (demo_disk fs)"

text \<open>The process dies right after the commit.\<close>

theorem prune_leaves_backup_witness:
  "length (publications (snd (fst (demo_pruning (replicate 20 Fine @ [Kills 0]))))) < length (publications demo_two)
   \<and> killed (snd (demo_pruning (replicate 20 Fine @ [Kills 0])))
   \<and> backed_up demo_two (snd (fst (demo_pruning (replicate 20 Fine @ [Kills 0])))) (files (snd (demo_pruning (replicate 20 Fine @ [Kills 0]))))
       (backup_name ''/h'' demo_maintenance)"
proof -
  let ?r = "demo_pruning (replicate 20 Fine @ [Kills 0])"
  have c: "length (publications (snd (fst ?r))) < length (publications demo_two) \<and> killed (snd ?r)" by code_simp
  have "?r = ((fst (fst ?r), snd (fst ?r)), snd ?r)" by simp
  from prune_leaves_backup[OF this[unfolded demo_pruning_def] _ demo_disk_ok demo_fresh] c
  show ?thesis by (auto simp: demo_pruning_def)
qed

text \<open>
  No vacuum without its backup. Whatever \<open>VacuumHub\<close> reports, whatever fails and wherever its
  process dies: it changes nothing in the database but the record of backups, and unless it
  fails before its transaction commits, a recorded, available backup holds the whole database.
\<close>

theorem vacuum_leaves_backup:
  assumes "VacuumHub dg dir d env0 env mt vc rid h0 h k = ((r, h'), k')"
    and "dir \<noteq> ''''" and "fs_ok (files k)" and "fresh_name dir mt (files k)"
  shows "(\<exists>as. h' = h\<lparr>prune_audits := as\<rparr>) \<and> (isl r \<and> h' = h \<or> backed_up h h' (files k') (backup_name dir mt))"
proof -
  obtain q0 k1 where rec: "reconcilePendingPruneBackups dir d env0 h0 k = (q0, k1)" by fastforce
  have k1: "fs_ok (files k1)" "fresh_name dir mt (files k1)"
    using rec assms(3,4) by (cases q0; auto dest!: reconcile_absent intro: only_removed_ok only_removed_fresh)+
  let ?ok = "\<lambda>g f. (\<exists>as. g = h\<lparr>prune_audits := as\<rparr>) \<and> backed_up h g f (backup_name dir mt)"
  have tx: "h1 = h \<and> isl r1 \<or> (\<exists>y. r1 = Inr y \<and> fst y = backup_name dir mt \<and> ?ok h1 (files k2))"
    if "vacuum_transaction dir d env mt rid h k1 = ((r1, h1), k2)" for r1 h1 k2
  proof -
    have "vacuum_transaction dir d env mt rid = disk_write d env (\<lambda>h now. bindS (requireS True ErrInvalidInput) (\<lambda>_.
        bindS (backupForPrune dir (authorityID d) mt h) (\<lambda>p. liftS (recordBackup p rid h now))))"
      unfolding vacuum_transaction_def by (simp add: require_True)
    from transaction_backed_up[OF that[unfolded this] k1] recordBackup_record show ?thesis by blast
  qed
  have settled: "?ok h1 (files k3)"
    if "vacuum_transaction dir d env mt rid h k1 = ((Inr (p, epoch), h1), k2)"
      "files k3 = files (snd (os_remove (marker_of p) k2))" for p epoch h1 k2 k3
    using tx[OF that(1)] remove_marker_kept[of h h1 "files k2" p k2, OF _ prod.collapse[symmetric] refl] that(2) by auto
  have lift: "bindS os_touch (\<lambda>_. liftS x) k = (y, k3) \<Longrightarrow> files k3 = files k" for x :: "err + int" and y k k3
    by (auto simp: bindS_def liftS_def split: prod.splits sum.splits dest: touch_files)
  have cleaned: "?ok h2 (files k4)"
    if "cleanupPruneBackups dir p epoch h1 k3 = (h2, k4)" "p = backup_name dir mt" "?ok h1 (files k3)" for p epoch h1 k3 h2 k4
    using cleanup_keeps[OF that(1)] cleanup_backed_up[OF that(1)[unfolded that(2)] assms(2)] that(3) by auto
  have same: "\<exists>as. h = h\<lparr>prune_audits := as\<rparr>" by (rule same_audits)
  obtain pre where pre: "bindE (requireE (\<not> readOnly d) ErrUnauthorized) (\<lambda>_. probe dg h0) = pre" by simp
  show ?thesis
  proof (cases "isl r \<and> h' = h")
    case True
    then show ?thesis using same by simp
  next
    case False
    obtain q1 k2 where tx1: "vacuum_transaction dir d env mt rid h k1 = (q1, k2)" by fastforce
    from assms(1) False tx1 obtain r0 g0 p epoch h1 where q0: "q0 = (Inr r0, g0)" and q1: "q1 = (Inr (p, epoch), h1)"
      using tx[of "fst q1" "snd q1" k2] unfolding VacuumHub_def rec
      by (cases q0; cases q1) (auto split: sum.splits prod.splits)
    note tr = tx1[unfolded q1]
    obtain y k3 where mid: "bindS os_touch (\<lambda>_. liftS (compactHub dg vc h1)) (snd (os_remove (marker_of p) k2)) = (y, k3)" by fastforce
    have out: "(h' = h1 \<and> k' = k3) \<or> cleanupPruneBackups dir p epoch h1 k3 = (h', k')"
      using assms(1) False unfolding VacuumHub_def rec q0
      by (auto simp: mid tr split: sum.splits prod.splits)
    have s: "?ok h1 (files k3)" by (rule settled[OF tr]) (rule lift[OF mid])
    show ?thesis using out s cleaned[of p epoch h1 k3 h' k'] tx[OF tr] by auto
  qed
qed
section \<open>Clean-ups without faults\<close>

text \<open>What a clean-up can remove: a backup that still is its claim, or whose claim is gone.\<close>

definition removable :: "filesystem \<Rightarrow> string \<Rightarrow> bool" where
  "removable f p \<longleftrightarrow> inode_of f (claim_of p) = None \<or> paired f p"

lemma remove_missing: "clear k \<Longrightarrow> \<not> exists_file (files k) p \<Longrightarrow> os_remove p k = (Inl ErrNotExist, k)"
  by (simp add: os_remove_def clear_call)

lemma remove_backup_clear:
  assumes "clear k"
  shows "\<exists>r f. remove_backup p k = (r, k\<lparr>files := f\<rparr>) \<and> only_removed (\<lambda>q. q \<in> {p, claim_of p}) (files k) f
    \<and> (removable (files k) p \<longrightarrow> (\<forall>e. r = Inl e \<longrightarrow> e = ErrNotExist) \<and> inode_of f p = None \<and> inode_of f (claim_of p) = None)"
proof -
  have same: "k = k\<lparr>files := files k\<rparr>" by simp
  show ?thesis
  proof (cases "inode_of (files k) (claim_of p)")
    case None
    then have "remove_backup p k = os_remove p k"
      by (simp add: remove_backup_def run_defs clear_runs[OF assms])
    moreover have "os_remove p k = (if exists_file (files k) p then (Inr (), k\<lparr>files := unlink_file p (files k)\<rparr>) else (Inl ErrNotExist, k))"
      by (simp add: clear_runs[OF assms] remove_missing[OF assms])
    ultimately have r: "remove_backup p k = (if exists_file (files k) p then (Inr (), k\<lparr>files := unlink_file p (files k)\<rparr>) else (Inl ErrNotExist, k))"
      by simp
    show ?thesis
    proof (cases "exists_file (files k) p")
      case True
      with r have "remove_backup p k = (Inr (), k\<lparr>files := unlink_file p (files k)\<rparr>)" by simp
      moreover have "only_removed (\<lambda>q. q \<in> {p, claim_of p}) (files k) (unlink_file p (files k))" by (rule only_removed_unlink) simp
      ultimately show ?thesis using None by (intro exI conjI) (auto simp: fs_simps)
    next
      case False
      with r same have "remove_backup p k = (Inl ErrNotExist, k\<lparr>files := files k\<rparr>)" by simp
      moreover have "inode_of (files k) p = None" using False by (simp add: exists_file_def)
      ultimately show ?thesis using None only_removed_refl by blast
    qed
  next
    case (Some i)
    then have r: "remove_backup p k = removeClaimedPruneBackup p k"
      by (simp add: remove_backup_def run_defs clear_runs[OF assms])
    show ?thesis
    proof (cases "paired (files k) p")
      case True
      then obtain j where "inode_of (files k) p = Some j" "inode_of (files k) (claim_of p) = Some j" "in_regular (fs_inode (files k) j)"
        by (auto simp: paired_def)
      from removeClaimed_clear[OF assms this] r
      have "remove_backup p k = (Inr (), k\<lparr>files := unlink_file (claim_of p) (unlink_file p (files k))\<rparr>)" by simp
      moreover have "only_removed (\<lambda>q. q \<in> {p, claim_of p}) (files k) (unlink_file (claim_of p) (unlink_file p (files k)))"
        by (rule only_removed_more[OF only_removed_unlink]) simp_all
      ultimately show ?thesis by (intro exI conjI) (auto simp: fs_simps)
    next
      case False
      with Some have "removeClaimedPruneBackup p k = (Inl ErrUnsupportedFormat, k)"
        by (auto simp: removeClaimedPruneBackup_def run_defs clear_runs[OF assms] same_regular_def paired_def split: option.splits)
      moreover have "\<not> removable (files k) p" using Some False by (simp add: removable_def)
      ultimately show ?thesis using r same only_removed_refl by metis
    qed
  qed
qed

lemma removable_after:
  assumes "only_removed (\<lambda>q. q \<in> {p, claim_of p}) f f'" and "removable f p \<Longrightarrow> inode_of f' (claim_of p) = None"
    and "owned_backup dir p" and "owned_backup dir c" and "dir \<noteq> ''''" and "removable f c"
  shows "removable f' c"
proof (cases "c = p")
  case False
  obtain i j where i: "valid_backup_id i" "p = backup_path dir i" "valid_backup_id j" "c = backup_path dir j"
    using owned_backup_path[OF assms(3,5)] owned_backup_path[OF assms(4,5)] by metis
  with False have "names_of p \<inter> names_of c = {}" using other_names[of j i dir] by (auto simp: valid_backup_id_def)
  then have "c \<notin> {p, claim_of p}" "claim_of c \<notin> {p, claim_of p}" by (auto simp: names_of_def)
  with only_removed_keeps[OF assms(1)] have "inode_of f' c = inode_of f c" "inode_of f' (claim_of c) = inode_of f (claim_of c)" by auto
  moreover have "fs_inode f' = fs_inode f" using assms(1) by (simp add: only_removed_def)
  ultimately show ?thesis using assms(6) by (simp add: removable_def paired_def)
qed (use assms(2,6) in \<open>simp add: removable_def\<close>)

lemma drop_backups_clear:
  assumes "drop_backups dir as h k = (h', k')" and "clear k" and "dir \<noteq> ''''"
  shows "clear k' \<and> (\<forall>q. inode_of (files k) q = None \<longrightarrow> inode_of (files k') q = None)
    \<and> (\<forall>r \<in> set (prune_audits h'). pa_available r \<longrightarrow> r \<in> set (prune_audits h))
    \<and> (\<forall>b \<in> set as. owned_backup dir (pa_backup b) \<longrightarrow> removable (files k) (pa_backup b) \<longrightarrow>
         inode_of (files k') (pa_backup b) = None
         \<and> (\<forall>r \<in> set (prune_audits h'). pa_available r \<longrightarrow> \<not> (pa_id r = pa_id b \<and> pa_backup r = pa_backup b)))"
  using assms
proof (induction as arbitrary: h k)
  case (Cons a as)
  show ?case
  proof (cases "owned_backup dir (pa_backup a)")
    case False
    with Cons.prems(1) have "drop_backups dir as h k = (h', k')" by simp
    from Cons.IH[OF this Cons.prems(2,3)] False show ?thesis by simp
  next
    case True
    obtain r f where f: "remove_backup (pa_backup a) k = (r, k\<lparr>files := f\<rparr>)" "only_removed (\<lambda>q. q \<in> {pa_backup a, claim_of (pa_backup a)}) (files k) f"
      "removable (files k) (pa_backup a) \<Longrightarrow> (\<forall>e. r = Inl e \<longrightarrow> e = ErrNotExist) \<and> inode_of f (pa_backup a) = None \<and> inode_of f (claim_of (pa_backup a)) = None"
      using remove_backup_clear[OF Cons.prems(2), of "pa_backup a"] by blast
    have c1: "clear (k\<lparr>files := f\<rparr>)" using Cons.prems(2) by simp
    have keep: "owned_backup dir c \<Longrightarrow> removable (files k) c \<Longrightarrow> removable f c" for c
      by (rule removable_after[OF f(2) _ True _ Cons.prems(3)]) (use f(3) in auto)
    have none: "inode_of (files k) q = None \<Longrightarrow> inode_of f q = None" for q using f(2) by (metis only_removed_def)
    let ?stop = "case r of Inl e \<Rightarrow> e \<noteq> ErrNotExist | Inr _ \<Rightarrow> False"
    have d: "drop_backups dir as (if ?stop then h else mark_unavailable a h) (k\<lparr>files := f\<rparr>) = (h', k')"
      using Cons.prems(1) True f(1) clear_runs(1)[OF c1] by (auto split: if_splits)
    have go: "\<not> ?stop" if "removable (files k) (pa_backup a)" using f(3)[OF that] by (auto split: sum.splits)
    have mark: "\<forall>r \<in> set (prune_audits (mark_unavailable a h)). pa_available r \<longrightarrow>
        r \<in> set (prune_audits h) \<and> \<not> (pa_id r = pa_id a \<and> pa_backup r = pa_backup a)"
      by (auto simp: mark_unavailable_def set_update_where)
    note IH = Cons.IH[OF d c1 Cons.prems(3)]
    from IH have "clear k'" "\<forall>q. inode_of (files k) q = None \<longrightarrow> inode_of (files k') q = None" using none by auto
    moreover have "\<forall>r \<in> set (prune_audits h'). pa_available r \<longrightarrow> r \<in> set (prune_audits h)"
      using IH mark by (auto split: if_splits)
    moreover have "inode_of (files k') (pa_backup a) = None
        \<and> (\<forall>r \<in> set (prune_audits h'). pa_available r \<longrightarrow> \<not> (pa_id r = pa_id a \<and> pa_backup r = pa_backup a))"
      if rm: "removable (files k) (pa_backup a)"
    proof
      show "inode_of (files k') (pa_backup a) = None" using IH f(3)[OF rm] by simp
      show "\<forall>r \<in> set (prune_audits h'). pa_available r \<longrightarrow> \<not> (pa_id r = pa_id a \<and> pa_backup r = pa_backup a)"
        using IH mark go[OF rm] by auto
    qed
    ultimately show ?thesis using IH keep by auto
  qed
qed simp

lemma cleanup_clear:
  assumes "cleanupPruneBackups dir keep epoch h k = (h', k')" and "clear k" and "dir \<noteq> ''''"
  shows "clear k'" and "inode_of (files k) q = None \<Longrightarrow> inode_of (files k') q = None"
    and "r \<in> set (prune_audits h') \<Longrightarrow> pa_available r \<Longrightarrow> r \<in> set (prune_audits h)"
    and "b \<in> set (prune_audits h) \<Longrightarrow> pa_available b \<Longrightarrow> pa_epoch b \<le> epoch \<Longrightarrow> pa_backup b \<noteq> keep \<Longrightarrow> owned_backup dir (pa_backup b)
      \<Longrightarrow> removable (files k) (pa_backup b) \<Longrightarrow> inode_of (files k') (pa_backup b) = None \<and> b \<notin> set (prune_audits h')"
proof -
  have "drop_backups dir (old_backups keep epoch h) h k = (h', k')"
    using assms(1) by (simp add: cleanupPruneBackups_def clear_runs[OF assms(2)])
  note d = drop_backups_clear[OF this assms(2,3)]
  show "clear k'" and "inode_of (files k) q = None \<Longrightarrow> inode_of (files k') q = None"
    and "r \<in> set (prune_audits h') \<Longrightarrow> pa_available r \<Longrightarrow> r \<in> set (prune_audits h)" using d by simp_all
  show "b \<in> set (prune_audits h) \<Longrightarrow> pa_available b \<Longrightarrow> pa_epoch b \<le> epoch \<Longrightarrow> pa_backup b \<noteq> keep \<Longrightarrow> owned_backup dir (pa_backup b)
      \<Longrightarrow> removable (files k) (pa_backup b) \<Longrightarrow> inode_of (files k') (pa_backup b) = None \<and> b \<notin> set (prune_audits h')"
    using d by (auto simp: old_backups_def)
qed

section \<open>Vacuums that overlap\<close>

lemma path_of_join: "CHR ''/'' \<notin> set name \<Longrightarrow> path_dir (join dir name) = dir \<and> path_base (join dir name) = name"
  by (simp add: join_def path_dir_def path_base_def takeWhile_append dropWhile_append)

lemma backup_path_owned:
  assumes "valid_backup_id i"
  shows "owned_backup dir (backup_path dir i)"
proof -
  let ?n = "''hub-prune-'' @ i @ ''.sqlite''"
  have "CHR ''/'' \<notin> set ?n" using assms by (auto simp: valid_backup_id_def hex_decodes_def list_all_iff)
  from path_of_join[OF this, of dir] have p: "path_dir (backup_path dir i) = dir" "path_base (backup_path dir i) = ?n"
    by (simp_all only: backup_path_def)
  have "HasPrefix ?n ''hub-prune-''" unfolding HasPrefix_iff by blast
  moreover have "HasSuffix ?n ''.sqlite''" unfolding HasSuffix_iff by (metis append.assoc)
  moreover have "TrimSuffix (TrimPrefix ?n ''hub-prune-'') ''.sqlite'' = i" by (simp only: trims)
  ultimately show ?thesis using assms unfolding owned_backup_def Let_def p by metis
qed

lemma backup_drew: "backupForPrune dir a mt h k = (Inr p, k') \<Longrightarrow> mt_id mt \<noteq> None"
  by (cases "mt_id mt") (auto simp: backupForPrune_def bindS_def liftS_def randomID_def split: prod.splits sum.splits)

lemma vacuum_taken:
  assumes "vacuum_transaction dir d env mt rid h k = ((Inr (p, epoch), h'), k')" and "fs_ok (files k)" and "fresh_name dir mt (files k)"
  obtains i b where "valid_backup_id i" "p = backup_path dir i" "p = backup_name dir mt"
    "announced (authorityID d) (files k) p (fs_next (files k)) (Image h) (files k')"
    "h' = h\<lparr>prune_audits := prune_audits h @ [b]\<rparr>" "pa_backup b = p" "pa_available b" "pa_epoch b = retention_epoch h" "epoch = retention_epoch h"
proof -
  have v: "vacuum_transaction dir d env mt rid = disk_write d env (\<lambda>h now. bindS (requireS True ErrInvalidInput) (\<lambda>_.
      bindS (backupForPrune dir (authorityID d) mt h) (\<lambda>p. liftS (recordBackup p rid h now))))"
    unfolding vacuum_transaction_def by (simp add: require_True)
  from backup_transaction[OF assms(1)[unfolded v]] obtain k1 q where b: "backupForPrune dir (authorityID d) mt h k = (Inr q, k1)"
    and k1: "files k' = files k1" and r: "recordBackup q rid h (env_now env) = Inr ((p, epoch), h')" by auto
  note t = backup_taken[OF assms(2,3) b]
  obtain bs where "mt_id mt = Some bs" "length bs = 16" using backup_drew[OF b] assms(3) by (auto simp: fresh_name_def)
  then have i: "valid_backup_id (hex_encode bs)" "backup_name dir mt = backup_path dir (hex_encode bs)"
    by (simp_all add: backup_name_def valid_id_hex)
  from r have "q = p" "epoch = retention_epoch h" and "\<exists>b. h' = h\<lparr>prune_audits := prune_audits h @ [b]\<rparr> \<and> pa_backup b = p
      \<and> pa_available b \<and> pa_epoch b = retention_epoch h"
    by (auto simp: recordBackup_def insert_prune_audit_def)
  with t i k1 show thesis using that by metis
qed

lemma announced_paired: "announced a f0 p j (Image h) f \<Longrightarrow> paired f p"
  by (auto simp: announced_def paired_def)

lemma since_paired:
  assumes "since a f0 c f" and "paired f0 p" and "fs_ok f0" and "names_of p \<inter> names_of c = {}"
  shows "paired f p"
proof -
  have "p \<notin> names_of c" "claim_of p \<notin> names_of c" using assms(4) by (auto simp: names_of_def)
  then have n: "inode_of f p = inode_of f0 p" "inode_of f (claim_of p) = inode_of f0 (claim_of p)" using assms(1) by (simp_all add: since_def)
  have "fs_inode f i = fs_inode f0 i" if "inode_of f0 p = Some i" for i
    using assms(1) fs_okD[OF assms(3) that] by (simp add: since_def)
  with paired_eq(1)[OF n] assms(2) show ?thesis by blast
qed

lemma marker_removed:
  assumes "os_remove (marker_of (backup_path dir j)) k = (r, k')" and "valid_backup_id i" and "valid_backup_id j"
  shows "paired (files k) (backup_path dir i) \<Longrightarrow> paired (files k') (backup_path dir i)"
proof -
  have "length (marker_of (backup_path dir j)) \<noteq> length (backup_path dir i)"
    using assms(2,3) by (simp add: length_names length_backup_path valid_backup_id_def)
  then have "backup_path dir i \<noteq> marker_of (backup_path dir j)" by metis
  then show "paired (files k) (backup_path dir i) \<Longrightarrow> paired (files k') (backup_path dir i)"
    using remove_files[OF assms(1)] by (auto simp: paired_def fs_simps)
qed

lemma claim_kept: "\<not> older dir (backup_name dir mt) h (claim_of (backup_name dir mt))" if "dir \<noteq> ''''"
  using that by (auto simp: older_def backup_name_def claim_not_backup elim!: owned_backup_path)

lemma drop_backups_referenced: "drop_backups dir as h k = (h', k') \<Longrightarrow> referenced h' p = referenced h p"
proof (induction as arbitrary: h k)
  case (Cons a as)
  obtain r k1 where r: "remove_backup (pa_backup a) k = (r, k1)" by fastforce
  obtain t k2 where t: "os_touch k1 = (t, k2)" by fastforce
  have "\<exists>g l. drop_backups dir as g l = (h', k') \<and> referenced g p = referenced h p"
    using Cons.prems unfolding drop_backups.simps r t prod.case
    by (cases t) (auto simp: referenced_mark split: if_splits)
  with Cons.IH show ?case by metis
qed simp

lemma cleanup_referenced: "cleanupPruneBackups dir keep epoch h k = (h', k') \<Longrightarrow> referenced h' p = referenced h p"
  by (auto simp: cleanupPruneBackups_def dest: drop_backups_referenced split: sum.splits prod.splits)

lemma overlapping_records:
  assumes "vacuum_transaction dir d1 env1 mt1 rid1 h k = ((Inr (p1, e1), h1), k1)" and "os_remove (marker_of p1) k1 = (r1, k2)"
    and "vacuum_transaction dir d2 env2 mt2 rid2 h1 k2 = ((Inr (p2, e2), h2), k3)" and "os_remove (marker_of p2) k3 = (r2, k4)"
    and "fs_ok (files k)" and "fresh_name dir mt1 (files k)" and "fresh_name dir mt2 (files k)"
    and "backup_name dir mt1 \<noteq> backup_name dir mt2"
  obtains b1 b2 where "p1 = backup_name dir mt1" "p1 \<noteq> p2" "pa_backup b1 = p1" "pa_available b1" "pa_backup b2 = p2" "pa_available b2"
    "prune_audits h2 = prune_audits h @ [b1, b2]" "e2 = e1" "pa_epoch b1 \<le> e1" "pa_epoch b2 \<le> e1"
    "paired (files k4) p1" "paired (files k4) p2" "owned_backup dir p2" "owned_backup dir p1"
proof -
  obtain i1 b1 where v1: "valid_backup_id i1" "p1 = backup_path dir i1" "p1 = backup_name dir mt1"
    "announced (authorityID d1) (files k) p1 (fs_next (files k)) (Image h) (files k1)"
    "h1 = h\<lparr>prune_audits := prune_audits h @ [b1]\<rparr>" "pa_backup b1 = p1" "pa_available b1" "pa_epoch b1 = retention_epoch h" "e1 = retention_epoch h"
    by (rule vacuum_taken[OF assms(1,5,6)])
  have s1: "since (authorityID d1) (files k) p1 (files k1)" using v1(4) by (simp add: announced_def)
  have ok2: "fs_ok (files k2)" using remove_files[OF assms(2)] s1 by (auto simp: since_def fs_simps)
  obtain j where j: "backup_name dir mt2 = backup_path dir j" "valid_backup_id j \<or> j = ''''" using backup_id[OF assms(7)] by blast
  have other: "names_of (backup_name dir mt2) \<inter> names_of p1 = {}"
    unfolding v1(2) j(1) by (rule other_names) (use v1 j assms(8) in \<open>auto simp: valid_backup_id_def\<close>)
  have "inode_of (files k2) q = inode_of (files k) q" if "q \<in> names_of (backup_name dir mt2)" for q
  proof -
    have "q \<notin> names_of p1" using that other by blast
    then have "inode_of (files k1) q = inode_of (files k) q" "q \<noteq> marker_of p1" using s1 by (auto simp: since_def names_of_def)
    then show ?thesis using remove_files[OF assms(2)] by (auto simp: fs_simps)
  qed
  then have "fresh_name dir mt2 (files k2)" using assms(7) by (simp add: fresh_name_def)
  from vacuum_taken[OF assms(3) ok2 this] obtain i2 b2 where v2: "valid_backup_id i2" "p2 = backup_path dir i2" "p2 = backup_name dir mt2"
    "announced (authorityID d2) (files k2) p2 (fs_next (files k2)) (Image h1) (files k3)"
    "h2 = h1\<lparr>prune_audits := prune_audits h1 @ [b2]\<rparr>" "pa_backup b2 = p2" "pa_available b2" "pa_epoch b2 = retention_epoch h1" "e2 = retention_epoch h1"
    by blast
  have ne: "p1 \<noteq> p2" using v1(3) v2(3) assms(8) by simp
  have "paired (files k2) p1"
    using marker_removed[OF assms(2)[unfolded v1(2)] v1(1,1)] announced_paired[OF v1(4)] v1(2) by simp
  moreover have "since (authorityID d2) (files k2) p2 (files k3)" using v2(4) by (simp add: announced_def)
  ultimately have "paired (files k3) p1" using since_paired[OF _ _ ok2] other v2(3) by (metis inf_commute)
  then have pair1: "paired (files k4) p1" using marker_removed[OF assms(4)[unfolded v2(2)] v1(1) v2(1)] v1(2) by simp
  have pair2: "paired (files k4) p2"
    using marker_removed[OF assms(4)[unfolded v2(2)] v2(1,1)] announced_paired[OF v2(4)] v2(2) by simp
  have rows: "prune_audits h2 = prune_audits h @ [b1, b2]" "e2 = e1" "pa_epoch b1 \<le> e1" "pa_epoch b2 \<le> e1"
    using v1(5,8,9) v2(5,8,9) by simp_all
  show thesis
    by (rule that[OF v1(3) ne v1(6,7) v2(6,7) rows pair1 pair2]) (simp_all only: v1(2) v2(2) backup_path_owned[OF v1(1)] backup_path_owned[OF v2(1)])
qed

text \<open>
  C35: Vacuums that overlap delete each other's backups. A vacuum does not raise the retention epoch, and the clean-up
  that ends it runs after its transaction, so each of two vacuums takes the backup of the other for an older one.
  Whenever two vacuums of a hub commit, each with a backup of its own, before either cleans up, and the clean-ups
  meet no fault, then both backups stay recorded, none of them is available, and neither file is left.
\<close>

theorem overlapping_vacuums_lose_backups:
  assumes "vacuum_transaction dir d1 env1 mt1 rid1 h k = ((Inr (p1, e1), h1), k1)" and "os_remove (marker_of p1) k1 = (r1, k2)"
    and "vacuum_transaction dir d2 env2 mt2 rid2 h1 k2 = ((Inr (p2, e2), h2), k3)" and "os_remove (marker_of p2) k3 = (r2, k4)"
    and "cleanupPruneBackups dir p1 e1 h2 k4 = (h3, k5)" and "cleanupPruneBackups dir p2 e2 h3 k5 = (h4, k6)"
    and "clear k4" and "dir \<noteq> ''''" and "fs_ok (files k)" and "fresh_name dir mt1 (files k)" and "fresh_name dir mt2 (files k)"
    and "backup_name dir mt1 \<noteq> backup_name dir mt2" and "\<not> referenced h p1" and "\<not> referenced h p2"
  shows "referenced h4 p1 \<and> referenced h4 p2
    \<and> (\<forall>b \<in> set (prune_audits h4). pa_backup b \<in> {p1, p2} \<longrightarrow> \<not> pa_available b)
    \<and> \<not> exists_file (files k6) p1 \<and> \<not> exists_file (files k6) p2"
proof -
  obtain b1 b2 where p1: "p1 = backup_name dir mt1" and ne: "p1 \<noteq> p2" and b: "pa_backup b1 = p1" "pa_available b1" "pa_backup b2 = p2" "pa_available b2"
    and rows: "prune_audits h2 = prune_audits h @ [b1, b2]" "e2 = e1" "pa_epoch b1 \<le> e1" "pa_epoch b2 \<le> e1"
    and pair: "paired (files k4) p1" "paired (files k4) p2" and own: "owned_backup dir p2" "owned_backup dir p1"
    by (rule overlapping_records[OF assms(1-4,9-12)])
  have one: "r = b1" if "r \<in> set (prune_audits h2)" "pa_backup r = p1" for r
    using that assms(13) ne b(3) by (auto simp: rows referenced_def)
  have two: "r = b2" if "r \<in> set (prune_audits h2)" "pa_backup r = p2" for r
    using that assms(14) ne b(1) by (auto simp: rows referenced_def)
  note c1 = cleanup_clear[OF assms(5,7,8)] and k1 = cleanup_keeps[OF assms(5)]
  note c2 = cleanup_clear[OF assms(6) c1(1) assms(8)]
  have gone2: "inode_of (files k5) p2 = None \<and> b2 \<notin> set (prune_audits h3)"
    using c1(4)[of b2] rows b(3,4) ne own(1) pair(2) by (simp add: removable_def)
  have "b1 \<in> set (prune_audits h3)" using k1 rows b(1) by simp
  moreover have "only_removed (older dir p1 h2) (files k4) (files k5)" using k1 by blast
  note keep = only_removed_keeps[OF this] and keep_inode = this[unfolded only_removed_def, THEN conjunct1]
  have "inode_of (files k5) p1 = inode_of (files k4) p1" "inode_of (files k5) (claim_of p1) = inode_of (files k4) (claim_of p1)"
    by (rule keep, use marker_older[OF assms(8)] claim_kept[OF assms(8)] p1 in metis)+
  then have "paired (files k5) p1" using pair(1) keep_inode by (simp add: paired_def)
  ultimately have gone1: "inode_of (files k6) p1 = None \<and> b1 \<notin> set (prune_audits h4)"
    using c2(4)[of b1] rows b(1,2) ne own(2) by (simp add: removable_def)
  have "\<not> pa_available r" if r: "r \<in> set (prune_audits h4)" "pa_backup r \<in> {p1, p2}" for r
  proof
    assume "pa_available r"
    then have "r \<in> set (prune_audits h3)" "r \<in> set (prune_audits h2)" using c2(3)[OF r(1)] c1(3) by blast+
    with one[of r] two[of r] r gone1 gone2 show False by auto
  qed
  moreover have "referenced h2 p1" "referenced h2 p2" using b(1,3) by (simp_all add: referenced_def rows)
  ultimately show ?thesis
    using gone1 gone2 c2(2)[of p2] cleanup_referenced[OF assms(5)] cleanup_referenced[OF assms(6)] by (simp add: exists_file_def)
qed

text \<open>Two vacuums of an example, on a directory that holds only the database.\<close>

definition demo_second :: maintenance where
  "demo_second = demo_maintenance\<lparr>mt_id := Some (replicate 16 3)\<rparr>"

definition demo_first_run :: "((err + string \<times> int) \<times> hub) \<times> disk" where
  "demo_first_run = vacuum_transaction ''/h'' demo_db (demo_env 2000) demo_maintenance (demo_bytes 8) demo_hub (demo_disk [])"

definition demo_second_run :: "((err + string \<times> int) \<times> hub) \<times> disk" where
  "demo_second_run = vacuum_transaction ''/h'' demo_db (demo_env 2001) demo_second (demo_bytes 9) (snd (fst demo_first_run))
     (snd (os_remove (marker_of (backup_name ''/h'' demo_maintenance)) (snd demo_first_run)))"

lemma demo_runs:
  "fst (fst demo_first_run) = Inr (backup_name ''/h'' demo_maintenance, 0)"
  "fst (fst demo_second_run) = Inr (backup_name ''/h'' demo_second, 0)"
  "clear (snd (os_remove (marker_of (backup_name ''/h'' demo_second)) (snd demo_second_run)))"
  by code_simp+

theorem overlapping_vacuums_lose_backups_witness:
  "\<exists>h3 k5 h4 k6. cleanupPruneBackups ''/h'' (backup_name ''/h'' demo_maintenance) 0 (snd (fst demo_second_run))
       (snd (os_remove (marker_of (backup_name ''/h'' demo_second)) (snd demo_second_run))) = (h3, k5)
    \<and> cleanupPruneBackups ''/h'' (backup_name ''/h'' demo_second) 0 h3 k5 = (h4, k6)
    \<and> referenced h4 (backup_name ''/h'' demo_maintenance) \<and> \<not> exists_file (files k6) (backup_name ''/h'' demo_maintenance)
    \<and> referenced h4 (backup_name ''/h'' demo_second) \<and> \<not> exists_file (files k6) (backup_name ''/h'' demo_second)"
proof -
  let ?p1 = "backup_name ''/h'' demo_maintenance" and ?p2 = "backup_name ''/h'' demo_second"
  let ?k2 = "os_remove (marker_of ?p1) (snd demo_first_run)" and ?k4 = "os_remove (marker_of ?p2) (snd demo_second_run)"
  obtain h3 k5 where c1: "cleanupPruneBackups ''/h'' ?p1 0 (snd (fst demo_second_run)) (snd ?k4) = (h3, k5)" by fastforce
  obtain h4 k6 where c2: "cleanupPruneBackups ''/h'' ?p2 0 h3 k5 = (h4, k6)" by fastforce
  have t1: "vacuum_transaction ''/h'' demo_db (demo_env 2000) demo_maintenance (demo_bytes 8) demo_hub (demo_disk [])
      = ((Inr (?p1, 0), snd (fst demo_first_run)), snd demo_first_run)"
    unfolding demo_first_run_def[symmetric] using demo_runs(1) by (metis prod.collapse)
  have t2: "vacuum_transaction ''/h'' demo_db (demo_env 2001) demo_second (demo_bytes 9) (snd (fst demo_first_run)) (snd ?k2)
      = ((Inr (?p2, 0), snd (fst demo_second_run)), snd demo_second_run)"
    unfolding demo_second_run_def[symmetric] using demo_runs(2) by (metis prod.collapse)
  have f2: "fresh_name ''/h'' demo_second (files (demo_disk []))"
    by (simp add: fresh_name_def demo_second_def demo_maintenance_def demo_disk_def backup_name_def inode_of_def names_of_def backup_path_def
        join_def name_defs)
  have ne: "?p1 \<noteq> ?p2" by code_simp
  have un: "\<not> referenced demo_hub ?p1" "\<not> referenced demo_hub ?p2" by (simp_all add: referenced_def demo_hub_def empty_hub_def)
  from overlapping_vacuums_lose_backups[OF t1 prod.collapse[symmetric] t2 prod.collapse[symmetric] c1 c2 demo_runs(3) _ demo_disk_ok demo_fresh f2 ne un]
    c1 c2 show ?thesis by blast
qed

end
