(* ===== verification/Cycles.thy ===== *)
theory Cycles
  imports Prelude
begin

text \<open>
  The depth-first search that \<open>validateTaskCheckpointEventCycles\<close> and \<open>validateThreadDefinitionCycles\<close>
  (\<open>src/internal/commands\<close>) share: a node is marked 1 (\<open>Open\<close>) while its successors are visited and
  2 (\<open>Done\<close>) after that; a node met while it is open closes a cycle. The recursion takes fuel, and
  \<open>enough\<close> shows that one more than the number of nodes is never used up.
\<close>

datatype mark = Unseen | Open | Done

type_synonym 'k marks = "'k \<Rightarrow> mark"

fun visit :: "('k \<Rightarrow> 'k list) \<Rightarrow> nat \<Rightarrow> 'k \<Rightarrow> 'k marks \<Rightarrow> ('k + 'k marks) option"
  and visit_all :: "('k \<Rightarrow> 'k list) \<Rightarrow> nat \<Rightarrow> 'k list \<Rightarrow> 'k marks \<Rightarrow> ('k + 'k marks) option" where
  "visit succ 0 k st = None"
| "visit succ (Suc n) k st = (case st k of
       Open \<Rightarrow> Some (Inl k)
     | Done \<Rightarrow> Some (Inr st)
     | Unseen \<Rightarrow> (case visit_all succ n (succ k) (st(k := Open)) of
          Some (Inr st') \<Rightarrow> Some (Inr (st'(k := Done)))
        | r \<Rightarrow> r))"
| "visit_all succ n [] st = Some (Inr st)"
| "visit_all succ n (k # ks) st = (case visit succ n k st of
       Some (Inr st') \<Rightarrow> visit_all succ n ks st'
     | r \<Rightarrow> r)"

definition edge_rel :: "('k \<Rightarrow> 'k list) \<Rightarrow> ('k \<times> 'k) set" where
  "edge_rel succ = {(a, b). b \<in> set (succ a)}"

text \<open>Whether a visit from the given nodes, in the given order, meets a cycle.\<close>

definition finds_cycle :: "('k \<Rightarrow> 'k list) \<Rightarrow> nat \<Rightarrow> 'k list \<Rightarrow> 'k option" where
  "finds_cycle succ n order = (case visit_all succ n order (\<lambda>_. Unseen) of
     Some (Inl k) \<Rightarrow> Some k | _ \<Rightarrow> None)"

section \<open>What a search does to the marks\<close>

text \<open>
  A finished search leaves the open marks as they were, marks its nodes done, and takes no mark
  back; a node marked done has only such nodes below it, so no infinite path starts there.
\<close>

abbreviation grounded :: "('k \<Rightarrow> 'k list) \<Rightarrow> 'k set" where
  "grounded succ \<equiv> Wellfounded.acc ((edge_rel succ)\<inverse>)"

definition keeps :: "'k marks \<Rightarrow> 'k marks \<Rightarrow> bool" where
  "keeps st st' \<longleftrightarrow> (\<forall>k. (st' k = Open \<longleftrightarrow> st k = Open) \<and> (st k = Done \<longrightarrow> st' k = Done))"

lemma keeps_refl [simp]: "keeps st st"
  by (simp add: keeps_def)

lemma keeps_trans: "keeps a b \<Longrightarrow> keeps b c \<Longrightarrow> keeps a c"
  by (simp add: keeps_def)

lemma keeps_enter: "st k = Unseen \<Longrightarrow> keeps (st(k := Open)) st' \<Longrightarrow> keeps st (st'(k := Done))"
  by (auto simp: keeps_def split: if_splits)

lemma visit_unseen:
  assumes "st k = Unseen" and "visit succ (Suc n) k st = Some (Inr st')"
  obtains st1 where "visit_all succ n (succ k) (st(k := Open)) = Some (Inr st1)" "st' = st1(k := Done)"
  using assms by (auto split: option.splits sum.splits)

lemma visit_all_cons:
  assumes "visit_all succ n (k # ks) st = Some (Inr st')"
  obtains st1 where "visit succ n k st = Some (Inr st1)" "visit_all succ n ks st1 = Some (Inr st')"
  using assms by (auto split: option.splits sum.splits)

lemma visit_keeps:
  "visit succ n k st = Some (Inr st') \<Longrightarrow> keeps st st' \<and> st' k = Done"
  "visit_all succ n ks st = Some (Inr st') \<Longrightarrow> keeps st st' \<and> (\<forall>k \<in> set ks. st' k = Done)"
proof (induction succ n k st and succ n ks st arbitrary: st' and st' rule: visit_visit_all.induct)
  case (2 succ n k st)
  show ?case
  proof (cases "st k")
    case Unseen
    then obtain st1 where st1: "visit_all succ n (succ k) (st(k := Open)) = Some (Inr st1)" "st' = st1(k := Done)"
      using 2(2) by (rule visit_unseen)
    from 2(1)[OF Unseen st1(1)] have "keeps (st(k := Open)) st1" by (rule conjunct1)
    then have "keeps st (st1(k := Done))" by (rule keeps_enter[where st = st and k = k, OF Unseen])
    moreover have "st' k = Done" unfolding st1(2) by simp
    ultimately show ?thesis unfolding st1(2) by blast
  qed (use 2(2) in auto)
next
  case (4 succ n k ks st)
  from 4(3) obtain st1 where st1: "visit succ n k st = Some (Inr st1)" "visit_all succ n ks st1 = Some (Inr st')"
    by (rule visit_all_cons)
  from 4(1)[OF st1(1)] 4(2)[OF st1(1) refl st1(2)] show ?case by (auto intro: keeps_trans simp: keeps_def)
qed auto

definition done_grounded :: "('k \<Rightarrow> 'k list) \<Rightarrow> 'k marks \<Rightarrow> bool" where
  "done_grounded succ st \<longleftrightarrow> (\<forall>k. st k = Done \<longrightarrow> k \<in> grounded succ)"

lemma groundedI: "(\<And>j. j \<in> set (succ k) \<Longrightarrow> j \<in> grounded succ) \<Longrightarrow> k \<in> grounded succ"
  by (rule accI) (auto simp: edge_rel_def)

lemma done_open: "done_grounded succ st \<Longrightarrow> done_grounded succ (st(k := Open))"
  by (simp add: done_grounded_def)

lemma done_close:
  assumes "done_grounded succ st" and "\<forall>j \<in> set (succ k). st j = Done"
  shows "done_grounded succ (st(k := Done))"
proof -
  have all: "\<forall>j. st j = Done \<longrightarrow> j \<in> grounded succ" using assms(1) unfolding done_grounded_def .
  have "k \<in> grounded succ" by (rule groundedI) (use all assms(2) in blast)
  with all show ?thesis unfolding done_grounded_def by (auto simp only: fun_upd_apply split: if_splits)
qed

lemma visit_grounded:
  "visit succ n k st = Some (Inr st') \<Longrightarrow> done_grounded succ st \<Longrightarrow> done_grounded succ st'"
  "visit_all succ n ks st = Some (Inr st') \<Longrightarrow> done_grounded succ st \<Longrightarrow> done_grounded succ st'"
proof (induction succ n k st and succ n ks st arbitrary: st' and st' rule: visit_visit_all.induct)
  case (2 succ n k st)
  show ?case
  proof (cases "st k")
    case Unseen
    then obtain st1 where st1: "visit_all succ n (succ k) (st(k := Open)) = Some (Inr st1)" "st' = st1(k := Done)"
      using 2(2) by (rule visit_unseen)
    from 2(1)[OF Unseen st1(1) done_open[OF 2(3)]] have "done_grounded succ st1" .
    with visit_keeps(2)[OF st1(1)] show ?thesis unfolding st1(2) by (intro done_close) simp_all
  qed (use 2(2,3) in auto)
next
  case (4 succ n k ks st)
  from 4(3) obtain st1 where st1: "visit succ n k st = Some (Inr st1)" "visit_all succ n ks st1 = Some (Inr st')"
    by (rule visit_all_cons)
  from 4(1)[OF st1(1) 4(4)] 4(2)[OF st1(1) refl st1(2)] show ?case by blast
qed auto

section \<open>A reported cycle is one\<close>

definition on_path :: "('k \<Rightarrow> 'k list) \<Rightarrow> 'k marks \<Rightarrow> 'k set \<Rightarrow> bool" where
  "on_path succ st ks \<longleftrightarrow> (\<forall>g. \<forall>k \<in> ks. st g = Open \<longrightarrow> (g, k) \<in> (edge_rel succ)\<^sup>+)"

lemma on_path_keeps: "on_path succ st ks \<Longrightarrow> keeps st st' \<Longrightarrow> js \<subseteq> ks \<Longrightarrow> on_path succ st' js"
  by (auto simp: on_path_def keeps_def)

lemma on_path_enter: "on_path succ st {k} \<Longrightarrow> on_path succ (st(k := Open)) (set (succ k))"
  by (auto simp: on_path_def edge_rel_def intro: trancl_into_trancl)

lemma visit_reports:
  "visit succ n k st = Some (Inl c) \<Longrightarrow> on_path succ st {k} \<Longrightarrow> (c, c) \<in> (edge_rel succ)\<^sup>+"
  "visit_all succ n ks st = Some (Inl c) \<Longrightarrow> on_path succ st (set ks) \<Longrightarrow> (c, c) \<in> (edge_rel succ)\<^sup>+"
proof (induction succ n k st and succ n ks st rule: visit_visit_all.induct)
  case (2 succ n k st)
  show ?case
  proof (cases "st k")
    case Unseen
    with 2(2) have "visit_all succ n (succ k) (st(k := Open)) = Some (Inl c)"
      by (auto split: option.splits sum.splits)
    with 2(1)[OF Unseen] on_path_enter[OF 2(3)] show ?thesis by blast
  qed (use 2(2,3) in \<open>auto simp: on_path_def\<close>)
next
  case (4 succ n k ks st)
  show ?case
  proof (cases "visit succ n k st = Some (Inl c)")
    case True
    with 4(1,4) show ?thesis by (auto simp: on_path_def)
  next
    case False
    then obtain st1 where st1: "visit succ n k st = Some (Inr st1)" "visit_all succ n ks st1 = Some (Inl c)"
      using 4(3) by (auto split: option.splits sum.splits)
    with visit_keeps(1)[OF st1(1)] 4(2)[OF st1(1) refl st1(2)] on_path_keeps[OF 4(4)] show ?thesis by auto
  qed
qed auto

section \<open>The fuel is enough\<close>

definition unseen :: "'k list \<Rightarrow> 'k marks \<Rightarrow> nat" where
  "unseen nodes st = card {k \<in> set nodes. st k = Unseen}"

lemma unseen_keeps: "keeps st st' \<Longrightarrow> unseen nodes st' \<le> unseen nodes st"
  unfolding unseen_def by (intro card_mono) (auto simp: keeps_def, metis mark.exhaust)

lemma unseen_enter: "k \<in> set nodes \<Longrightarrow> st k = Unseen \<Longrightarrow> unseen nodes (st(k := Open)) < unseen nodes st"
  unfolding unseen_def by (intro psubset_card_mono) auto

lemma unseen_le: "unseen nodes st \<le> length nodes"
proof -
  have "unseen nodes st \<le> card (set nodes)" unfolding unseen_def by (intro card_mono) auto
  then show ?thesis using card_length[of nodes] by simp
qed

lemma visit_enough:
  "(\<And>k. k \<in> set nodes \<Longrightarrow> set (succ k) \<subseteq> set nodes) \<Longrightarrow> k \<in> set nodes \<Longrightarrow> unseen nodes st < n
     \<Longrightarrow> visit succ n k st \<noteq> None"
  "(\<And>k. k \<in> set nodes \<Longrightarrow> set (succ k) \<subseteq> set nodes) \<Longrightarrow> set ks \<subseteq> set nodes \<Longrightarrow> unseen nodes st < n
     \<Longrightarrow> visit_all succ n ks st \<noteq> None"
proof (induction succ n k st and succ n ks st rule: visit_visit_all.induct)
  case (2 succ n k st)
  show ?case
  proof (cases "st k")
    case Unseen
    have "unseen nodes (st(k := Open)) < n" using unseen_enter[where st = st and k = k, OF 2(3) Unseen] 2(4) by linarith
    with 2(1)[OF Unseen 2(2) 2(2)[OF 2(3)]] have "visit_all succ n (succ k) (st(k := Open)) \<noteq> None" by blast
    with Unseen show ?thesis by (auto split: option.splits sum.splits)
  qed auto
next
  case (4 succ n k ks st)
  have a: "visit succ n k st \<noteq> None" by (rule 4(1)[OF 4(3)]) (use 4(4,5) in auto)
  show ?case
  proof (cases "visit succ n k st")
    case (Some r)
    show ?thesis
    proof (cases r)
      case (Inr st1)
      with Some have "keeps st st1" using visit_keeps(1)[of succ n k st st1] by simp
      then have "unseen nodes st1 < n" using unseen_keeps[of st st1 nodes] 4(5) by linarith
      with 4(2)[OF Some Inr 4(3)] 4(4) have "visit_all succ n ks st1 \<noteq> None" by simp
      with Some Inr show ?thesis by simp
    qed (use Some in simp)
  qed (use a in simp)
qed auto

text \<open>A graph whose nodes are listed: successors of a node are nodes.\<close>

locale listed_graph =
  fixes succ :: "'k \<Rightarrow> 'k list"
    and nodes :: "'k list"
  assumes closed: "k \<in> set nodes \<Longrightarrow> set (succ k) \<subseteq> set nodes"
begin

lemma enough: "set order \<subseteq> set nodes \<Longrightarrow> visit_all succ (Suc (length nodes)) order (\<lambda>_. Unseen) \<noteq> None"
  by (rule visit_enough(2)[OF closed]) (simp_all add: less_Suc_eq_le unseen_le)

text \<open>The search decides whether the graph has a cycle, in whatever order its roots are tried.\<close>

lemma finds_cycle_exact:
  assumes "set order \<subseteq> set nodes" and "\<And>k. succ k \<noteq> [] \<Longrightarrow> k \<in> set order"
  shows "finds_cycle succ (Suc (length nodes)) order = None \<longleftrightarrow> acyclic (edge_rel succ)"
proof -
  obtain r where r: "visit_all succ (Suc (length nodes)) order (\<lambda>_. Unseen) = Some r" using enough[OF assms(1)] by auto
  show ?thesis
  proof (cases r)
    case (Inl c)
    with visit_reports(2)[of succ _ order "\<lambda>_. Unseen" c] r have "(c, c) \<in> (edge_rel succ)\<^sup>+" by (auto simp: on_path_def)
    with r Inl show ?thesis by (auto simp: finds_cycle_def acyclic_def)
  next
    case (Inr st)
    with r have v: "visit_all succ (Suc (length nodes)) order (\<lambda>_. Unseen) = Some (Inr st)" by simp
    have g: "k \<in> grounded succ" if "k \<in> set order" for k
      using visit_keeps(2)[OF v] visit_grounded(2)[OF v] that by (auto simp: done_grounded_def)
    have "k \<in> grounded succ" for k
      by (cases "succ k = []") (auto intro: groundedI g assms(2))
    then have "wf ((edge_rel succ)\<inverse>)" by (intro acc_wfI) blast
    then have "acyclic (edge_rel succ)" using wf_acyclic acyclic_converse by blast
    with v show ?thesis by (simp add: finds_cycle_def)
  qed
qed

end

end
