(* ===== verification/Checkpoints.thy ===== *)
theory Checkpoints
  imports Texts Cycles
begin

text \<open>
  The event log of a task (\<open>internal/commands/task_checkpoint_state.go\<close>): a checkpoint is a file
  that is never changed once published, and says which earlier checkpoints of its target it
  supersedes. What holds for a target is what its heads say, the events that none supersedes.
  Logs of several clones are merged by merging directories, so a target may have several heads
  until a checkpoint supersedes them all.
\<close>

section \<open>The standard library\<close>

text \<open>
  Go's Unicode tables and its calendar: \<open>strings.ToLower\<close>, \<open>strings.ToUpper\<close>, \<open>strings.EqualFold\<close>,
  \<open>unicode.IsLetter\<close>, \<open>unicode.IsDigit\<close>, \<open>time.Parse(time.RFC3339, _)\<close>, and \<open>Format\<close> with that
  layout and with \<open>2006-01-02T15:04:05Z\<close>.
\<close>

record golib =
  ToLower :: "string \<Rightarrow> string"
  ToUpper :: "string \<Rightarrow> string"
  EqualFold :: "string \<Rightarrow> string \<Rightarrow> bool"
  IsLetter :: "int \<Rightarrow> bool"
  IsDigit :: "int \<Rightarrow> bool"
  ParseTime :: "string \<Rightarrow> gotime option"
  FormatTime :: "gotime \<Rightarrow> string"
  FormatZ :: "gotime \<Rightarrow> string"

text \<open>What of it the proofs use: only the empty string is lowered to the empty string.\<close>

definition lower_ok :: "golib \<Rightarrow> bool" where
  "lower_ok g \<longleftrightarrow> (\<forall>s. ToLower g s = '''' \<longleftrightarrow> s = '''')"

definition normalizeList :: "string list \<Rightarrow> string list" where
  "normalizeList vs = filter (\<lambda>v. v \<noteq> '''') (map TrimSpace vs)"

definition firstNonEmptyTaskString :: "string list \<Rightarrow> string" where
  "firstNonEmptyTaskString vs = (case normalizeList vs of [] \<Rightarrow> '''' | v # _ \<Rightarrow> v)"

text \<open>\<open>filepath.Ext\<close> of a name without separators.\<close>

definition path_ext :: "string \<Rightarrow> string" where
  "path_ext p = (if CHR ''.'' \<in> set p then CHR ''.'' # rev (takeWhile (\<lambda>c. c \<noteq> CHR ''.'') (rev p)) else '''')"

definition checkpointEntryStem :: "string \<Rightarrow> string" where
  "checkpointEntryStem name = TrimSuffix name (path_ext name)"

section \<open>Records\<close>

datatype task_error =
    ReadFailed | BadJson
  | UnsupportedVersion | InvalidEventKind | NoCheckpointId | NoTarget | InvalidStage
  | InvalidDecision | InvalidCreatedAt | OtherTask | DuplicateEvent
  | SelfSupersede | UnknownSuperseded | EventCycle string
  | ConflictingHeads "string list" | MustNameHeads "string list"
  | NoSlices | UnknownSlice | NotBaseSlice
  | GateUnresolved string | AllTerminal | DuplicateTask
  | ThreadError string

text \<open>\<open>taskCheckpointRecord\<close>, as far as the lifecycle reads it.\<close>

record checkpoint =
  ck_SchemaVersion :: int
  ck_EventKind :: string
  ck_CheckpointID :: string
  ck_Supersedes :: "string list"
  ck_TaskID :: string
  ck_Target :: string
  ck_Slice :: string
  ck_Stage :: string
  ck_Decision :: string
  ck_CreatedAt :: string
  ck_DurableRecord :: string
  ck_DurableArtifacts :: "string list"
  ck_NextTarget :: string

record task_event =
  ev_Record :: checkpoint
  ev_JSONPath :: string
  ev_MarkdownPath :: string

definition taskCheckpointSchemaVersion :: int where "taskCheckpointSchemaVersion = 3"

definition taskLifecycleStages :: "string list" where
  "taskLifecycleStages = [''packed'', ''planned'', ''started'', ''implemented'', ''validated'', ''done'', ''blocked'',
     ''completed'', ''split'', ''superseded'', ''cancelled'', ''rolled_back'']"

definition taskDecisions :: "string list" where
  "taskDecisions = [''promote'', ''improve'', ''rework'', ''rollback'', ''block'', ''blocked'', ''complete'', ''completed'',
     ''split'', ''supersede'', ''superseded'', ''cancel'', ''cancelled'', ''continue'']"

definition isAllowedValue :: "string \<Rightarrow> string list \<Rightarrow> bool" where
  "isAllowedValue v allowed \<longleftrightarrow> v \<in> set allowed"

definition normalizeTaskCheckpointRecord :: "golib \<Rightarrow> checkpoint \<Rightarrow> checkpoint" where
  "normalizeTaskCheckpointRecord g r =
     (let r1 = r\<lparr>ck_EventKind := ToLower g (TrimSpace (ck_EventKind r)), ck_Supersedes := normalizeList (ck_Supersedes r)\<rparr>;
          r2 = (if ck_Target r1 = '''' then r1\<lparr>ck_Target := ck_Slice r1\<rparr> else r1)
      in if ck_Slice r2 = '''' then r2\<lparr>ck_Slice := ck_Target r2\<rparr> else r2)"

text \<open>\<open>json\<close> is \<open>json.Unmarshal\<close> into the record.\<close>

definition decodeTaskCheckpointRecord :: "golib \<Rightarrow> (string \<Rightarrow> checkpoint option) \<Rightarrow> string \<Rightarrow> string \<Rightarrow> task_error + checkpoint" where
  "decodeTaskCheckpointRecord g json content name =
     bindE (optionE BadJson (json content)) (\<lambda>r0.
       let r = normalizeTaskCheckpointRecord g r0 in
       Inr (if ck_CheckpointID r = '''' \<and> ck_SchemaVersion r < taskCheckpointSchemaVersion
            then r\<lparr>ck_CheckpointID := checkpointEntryStem name\<rparr> else r))"

definition event_target :: "checkpoint \<Rightarrow> string" where
  "event_target r = firstNonEmptyTaskString [ck_Target r, ck_Slice r]"

definition validateTaskCheckpointEventRecord :: "golib \<Rightarrow> string \<Rightarrow> checkpoint \<Rightarrow> task_error + unit" where
  "validateTaskCheckpointEventRecord g task r =
     bindE (requireE (\<not> ck_SchemaVersion r > taskCheckpointSchemaVersion) UnsupportedVersion) (\<lambda>_.
     bindE (requireE (\<not> (ck_SchemaVersion r = taskCheckpointSchemaVersion \<and> ck_EventKind r \<noteq> ''task_checkpoint'')) InvalidEventKind) (\<lambda>_.
     bindE (if ck_SchemaVersion r = taskCheckpointSchemaVersion then
              bindE (requireE (TrimSpace (ck_CheckpointID r) \<noteq> '''') NoCheckpointId) (\<lambda>_.
              bindE (requireE (TrimSpace (event_target r) \<noteq> '''') NoTarget) (\<lambda>_.
              bindE (requireE (isAllowedValue (ck_Stage r) taskLifecycleStages) InvalidStage) (\<lambda>_.
              bindE (requireE (\<not> (ck_Decision r \<noteq> '''' \<and> \<not> isAllowedValue (ck_Decision r) taskDecisions)) InvalidDecision) (\<lambda>_.
                requireE (ParseTime g (ck_CreatedAt r) \<noteq> None) InvalidCreatedAt))))
            else Inr ()) (\<lambda>_.
       requireE (EqualFold g (TrimSpace (ck_TaskID r)) (TrimSpace task)) OtherTask)))"

section \<open>Reading the log\<close>

text \<open>An entry of the directory, with what \<open>os.ReadFile\<close> gives for it, and the directory itself.\<close>

record dir_entry =
  en_Name :: string
  en_IsDir :: bool
  en_Data :: "string option"

datatype listing = Absent | Unreadable | Entries "dir_entry list"

definition checkpoint_path :: "string \<Rightarrow> string \<Rightarrow> string" where
  "checkpoint_path workspace name = workspace @ ''/checkpoints/'' @ name"

fun read_entries :: "golib \<Rightarrow> (string \<Rightarrow> checkpoint option) \<Rightarrow> string \<Rightarrow> string \<Rightarrow> string list \<Rightarrow> dir_entry list \<Rightarrow> task_error + task_event list" where
  "read_entries g json workspace task seen [] = Inr []"
| "read_entries g json workspace task seen (x # xs) =
     (if en_IsDir x \<or> \<not> HasSuffix (ToLower g (en_Name x)) ''.json'' then read_entries g json workspace task seen xs
      else
        bindE (optionE ReadFailed (en_Data x)) (\<lambda>content.
        bindE (decodeTaskCheckpointRecord g json content (en_Name x)) (\<lambda>r.
        bindE (validateTaskCheckpointEventRecord g task r) (\<lambda>_.
        let key = ToLower g (TrimSpace (ck_CheckpointID r));
            p = checkpoint_path workspace (en_Name x) in
        bindE (requireE (key \<notin> set seen) DuplicateEvent) (\<lambda>_.
        bindE (read_entries g json workspace task (key # seen) xs) (\<lambda>es.
          Inr (\<lparr>ev_Record = r, ev_JSONPath = p, ev_MarkdownPath = TrimSuffix p (path_ext (en_Name x)) @ ''.md''\<rparr> # es)))))))"

definition readTaskCheckpointEvents ::
  "golib \<Rightarrow> (string \<Rightarrow> checkpoint option) \<Rightarrow> string \<Rightarrow> string \<Rightarrow> listing \<Rightarrow> task_error + task_event list" where
  "readTaskCheckpointEvents g json workspace task dir = (case dir of
     Absent \<Rightarrow> Inr []
   | Unreadable \<Rightarrow> Inl ReadFailed
   | Entries xs \<Rightarrow> read_entries g json workspace task [] (sort_key en_Name xs))"

section \<open>Heads\<close>

definition parseTaskCheckpointCreatedAt :: "golib \<Rightarrow> string \<Rightarrow> gotime" where
  "parseTaskCheckpointCreatedAt g s = (case ParseTime g (TrimSpace s) of
     Some t \<Rightarrow> t | None \<Rightarrow> \<lparr>unix_nanos = 0, zone_offset = 0\<rparr>)"

definition event_key :: "golib \<Rightarrow> task_event \<Rightarrow> string" where
  "event_key g e = ToLower g (ck_CheckpointID (ev_Record e))"

definition event_order :: "golib \<Rightarrow> task_event \<Rightarrow> int \<times> string \<times> string" where
  "event_order g e = (unix_nanos (parseTaskCheckpointCreatedAt g (ck_CreatedAt (ev_Record e))), event_key g e, ev_JSONPath e)"

definition legacy :: "task_event \<Rightarrow> bool" where
  "legacy e \<longleftrightarrow> ck_SchemaVersion (ev_Record e) < taskCheckpointSchemaVersion"

text \<open>The maps \<open>superseded\<close> and \<open>edges\<close>, and \<open>previousLegacyID\<close>.\<close>

record links =
  lk_superseded :: "string list"
  lk_edges :: "(string \<times> string) list"
  lk_previous :: string

definition supersede :: "string \<Rightarrow> string \<Rightarrow> links \<Rightarrow> links" where
  "supersede i p lk = lk\<lparr>lk_superseded := p # lk_superseded lk, lk_edges := lk_edges lk @ [(i, p)]\<rparr>"

fun link_predecessors :: "golib \<Rightarrow> string list \<Rightarrow> string \<Rightarrow> string list \<Rightarrow> string list \<Rightarrow> links \<Rightarrow> task_error + links" where
  "link_predecessors g keys i seen [] lk = Inr lk"
| "link_predecessors g keys i seen (p # ps) lk =
     (let k = ToLower g (TrimSpace p) in
      if k = '''' \<or> k \<in> set seen then link_predecessors g keys i seen ps lk
      else if k = i then Inl SelfSupersede
      else if k \<notin> set keys then Inl UnknownSuperseded
      else link_predecessors g keys i (k # seen) ps (supersede i k lk))"

definition link_event :: "golib \<Rightarrow> string list \<Rightarrow> task_event \<Rightarrow> links \<Rightarrow> task_error + links" where
  "link_event g keys e lk =
     (let i = event_key g e in
      if legacy e then
        Inr ((if lk_previous lk \<noteq> '''' then supersede i (lk_previous lk) lk else lk)\<lparr>lk_previous := i\<rparr>)
      else link_predecessors g keys i [] (ck_Supersedes (ev_Record e)) lk)"

definition edge_succ :: "(string \<times> string) list \<Rightarrow> string \<Rightarrow> string list" where
  "edge_succ es k = map snd (filter (\<lambda>(a, _). a = k) es)"

definition edge_nodes :: "(string \<times> string) list \<Rightarrow> string list" where
  "edge_nodes es = map fst es @ map snd es"

text \<open>\<open>order\<close> is the order in which Go ranges over the keys of \<open>edges\<close>.\<close>

definition validateTaskCheckpointEventCycles :: "(string \<times> string) list \<Rightarrow> string list \<Rightarrow> task_error + unit" where
  "validateTaskCheckpointEventCycles es order =
     (case finds_cycle (edge_succ es) (Suc (length (edge_nodes es))) order of
        Some k \<Rightarrow> Inl (EventCycle k) | None \<Rightarrow> Inr ())"

definition no_links :: links where
  "no_links = \<lparr>lk_superseded = [], lk_edges = [], lk_previous = ''''\<rparr>"

definition resolveTaskCheckpointTargetHeads :: "golib \<Rightarrow> task_event list \<Rightarrow> task_error + task_event list" where
  "resolveTaskCheckpointTargetHeads g es =
     (let sorted = sort_key (event_order g) es; keys = map (event_key g) sorted in
      bindE (foldE (link_event g keys) sorted no_links) (\<lambda>lk.
      bindE (validateTaskCheckpointEventCycles (lk_edges lk) (remdups (map fst (lk_edges lk)))) (\<lambda>_.
        Inr (sort_key (event_key g) (filter (\<lambda>e. event_key g e \<notin> set (lk_superseded lk)) sorted)))))"

definition target_key :: "golib \<Rightarrow> task_event \<Rightarrow> string" where
  "target_key g e = ToLower g (TrimSpace (event_target (ev_Record e)))"

definition event_targets :: "golib \<Rightarrow> task_event list \<Rightarrow> string list" where
  "event_targets g es = remdups (filter (\<lambda>t. t \<noteq> '''') (map (target_key g) es))"

definition resolveTaskCheckpointHeads :: "golib \<Rightarrow> task_event list \<Rightarrow> task_error + (string \<times> task_event list) list" where
  "resolveTaskCheckpointHeads g es =
     mapE (\<lambda>t. bindE (resolveTaskCheckpointTargetHeads g (filter (\<lambda>e. target_key g e = t) es)) (\<lambda>hs. Inr (t, hs)))
       (event_targets g es)"

section \<open>Writing the next event\<close>

definition equalFoldedStrings :: "golib \<Rightarrow> string list \<Rightarrow> string list \<Rightarrow> bool" where
  "equalFoldedStrings g = list_all2 (\<lambda>a b. EqualFold g (TrimSpace a) (TrimSpace b))"

definition heads_of :: "(string \<times> task_event list) list \<Rightarrow> string \<Rightarrow> task_event list" where
  "heads_of res t = (case map_of res t of Some hs \<Rightarrow> hs | None \<Rightarrow> [])"

definition checkpointSupersedesForWrite :: "golib \<Rightarrow> task_event list \<Rightarrow> string \<Rightarrow> string list \<Rightarrow> task_error + string list" where
  "checkpointSupersedesForWrite g es target explicit =
     bindE (resolveTaskCheckpointHeads g es) (\<lambda>res.
       let heads = heads_of res (ToLower g (TrimSpace target));
           expected = sort_key (ToLower g) (map (\<lambda>h. ck_CheckpointID (ev_Record h)) heads);
           named = sort_key (ToLower g) (normalizeList explicit)
       in if named = [] then
            bindE (requireE (\<not> length expected > 1) (ConflictingHeads expected)) (\<lambda>_. Inr expected)
          else bindE (requireE (equalFoldedStrings g named expected) (MustNameHeads expected)) (\<lambda>_. Inr expected))"
section \<open>What supersedes what\<close>

definition names :: "golib \<Rightarrow> string list \<Rightarrow> string set" where
  "names g ps = (\<lambda>p. ToLower g (TrimSpace p)) ` set ps - {''''}"

text \<open>
  The relation that the resolution computes, read off the events: an old event supersedes the
  one before it in time, a current one the events it names.
\<close>

definition named_by :: "golib \<Rightarrow> task_event \<Rightarrow> string set" where
  "named_by g e = (if legacy e then {} else names g (ck_Supersedes (ev_Record e)))"

definition chain_edges :: "string list \<Rightarrow> (string \<times> string) set" where
  "chain_edges ks = {(i, p). (i, p) \<in> set (zip (tl ks) ks) \<and> p \<noteq> ''''}"

definition legacy_keys :: "golib \<Rightarrow> task_event list \<Rightarrow> string list" where
  "legacy_keys g es = map (event_key g) (filter legacy es)"

definition supersession :: "golib \<Rightarrow> task_event list \<Rightarrow> (string \<times> string) set" where
  "supersession g es = chain_edges (legacy_keys g (sort_key (event_order g) es))
     \<union> {(event_key g e, k) |e k. e \<in> set es \<and> k \<in> named_by g e}"

lemma set_zip_tl_snoc: "set (zip (tl (ks @ [i])) (ks @ [i])) = set (zip (tl ks) ks) \<union> (if ks = [] then {} else {(i, last ks)})"
proof (induction ks)
  case (Cons a ks)
  then show ?case by (cases ks) auto
qed simp

lemma chain_edges_snoc:
  "chain_edges (ks @ [i]) = chain_edges ks \<union> (if ks = [] \<or> last ks = '''' then {} else {(i, last ks)})"
  unfolding chain_edges_def set_zip_tl_snoc by auto

lemma chain_edges_within: "chain_edges ks \<subseteq> set ks \<times> set ks"
proof -
  have "set (tl ks) \<subseteq> set ks" by (cases ks) auto
  then show ?thesis unfolding chain_edges_def by (blast dest: set_zip_leftD set_zip_rightD)
qed

lemma names_simps [simp]:
  "names g [] = {}"
  "names g (p # ps) = (if ToLower g (TrimSpace p) = '''' then names g ps else insert (ToLower g (TrimSpace p)) (names g ps))"
  by (auto simp: names_def)

lemma link_predecessors_ok:
  assumes "link_predecessors g keys i seen ps lk = Inr lk'"
  shows "set (lk_edges lk') = set (lk_edges lk) \<union> Pair i ` (names g ps - set seen)
     \<and> set (lk_superseded lk') = set (lk_superseded lk) \<union> (names g ps - set seen)
     \<and> lk_previous lk' = lk_previous lk"
  using assms
proof (induction ps arbitrary: seen lk)
  case (Cons p ps)
  let ?k = "ToLower g (TrimSpace p)"
  show ?case
  proof (cases "?k = '''' \<or> ?k \<in> set seen")
    case True
    with Cons.prems have "link_predecessors g keys i seen ps lk = Inr lk'" by (simp add: Let_def)
    from Cons.IH[OF this] True show ?thesis by auto
  next
    case False
    with Cons.prems have "link_predecessors g keys i (?k # seen) ps (supersede i ?k lk) = Inr lk'"
      by (simp add: Let_def split: if_splits)
    note IH = Cons.IH[OF this]
    have "names g (p # ps) - set seen = insert ?k (names g ps - set (?k # seen))" using False by auto
    with IH show ?thesis by (simp add: supersede_def)
  qed
qed simp

lemma link_predecessors_iff:
  "(\<exists>lk'. link_predecessors g keys i seen ps lk = Inr lk') \<longleftrightarrow> names g ps - set seen \<subseteq> set keys - {i}"
proof (induction ps arbitrary: seen lk)
  case (Cons p ps)
  let ?k = "ToLower g (TrimSpace p)"
  show ?case
  proof (cases "?k = '''' \<or> ?k \<in> set seen")
    case True
    then show ?thesis using Cons.IH[of seen lk] by (auto simp: Let_def)
  next
    case False
    have "names g (p # ps) - set seen = insert ?k (names g ps - set (?k # seen))" using False by auto
    with False show ?thesis using Cons.IH[of "?k # seen" "supersede i ?k lk"] by (simp add: Let_def)
  qed
qed simp

definition may_link :: "golib \<Rightarrow> string set \<Rightarrow> task_event \<Rightarrow> bool" where
  "may_link g keys e \<longleftrightarrow> named_by g e \<subseteq> keys - {event_key g e}"

lemma link_event_iff: "(\<exists>lk'. link_event g keys e lk = Inr lk') \<longleftrightarrow> may_link g (set keys) e"
  by (simp add: link_event_def may_link_def named_by_def Let_def link_predecessors_iff)

lemma fold_links:
  assumes "foldE (link_event g keys) es no_links = Inr lk"
  shows "set (lk_edges lk) = chain_edges (legacy_keys g es) \<union> {(event_key g e, k) |e k. e \<in> set es \<and> k \<in> named_by g e}
     \<and> set (lk_superseded lk) = snd ` set (lk_edges lk)
     \<and> lk_previous lk = (if legacy_keys g es = [] then '''' else last (legacy_keys g es))"
  using assms
proof (induction es arbitrary: lk rule: rev_induct)
  case Nil
  then show ?case by (auto simp: no_links_def chain_edges_def legacy_keys_def)
next
  case (snoc e es)
  then obtain lk1 where lk1: "foldE (link_event g keys) es no_links = Inr lk1" "link_event g keys e lk1 = Inr lk"
    by (auto simp: foldE_append)
  note IH = snoc.IH[OF lk1(1)]
  show ?case
  proof (cases "legacy e")
    case True
    with lk1(2) have lk: "lk = (if lk_previous lk1 \<noteq> '''' then supersede (event_key g e) (lk_previous lk1) lk1 else lk1)\<lparr>lk_previous := event_key g e\<rparr>"
      by (simp add: link_event_def Let_def)
    have ks: "legacy_keys g (es @ [e]) = legacy_keys g es @ [event_key g e]" using True by (simp add: legacy_keys_def)
    have n: "named_by g e = {}" using True by (simp add: named_by_def)
    have named: "{(event_key g a, k) |a k. a \<in> set (es @ [e]) \<and> k \<in> named_by g a} = {(event_key g a, k) |a k. a \<in> set es \<and> k \<in> named_by g a}"
      using n by auto
    show ?thesis
    proof (cases "lk_previous lk1 = ''''")
      case True
      then have "chain_edges (legacy_keys g es @ [event_key g e]) = chain_edges (legacy_keys g es)"
        using IH by (auto simp: chain_edges_snoc split: if_splits)
      with True show ?thesis unfolding ks named lk using IH by simp
    next
      case False
      then have "chain_edges (legacy_keys g es @ [event_key g e]) = insert (event_key g e, lk_previous lk1) (chain_edges (legacy_keys g es))"
        using IH by (auto simp: chain_edges_snoc split: if_splits)
      with False show ?thesis unfolding ks named lk using IH by (simp add: supersede_def)
    qed
  next
    case False
    with lk1(2) have "link_predecessors g keys (event_key g e) [] (ck_Supersedes (ev_Record e)) lk1 = Inr lk"
      by (simp add: link_event_def Let_def)
    note lk = link_predecessors_ok[OF this]
    have ks: "legacy_keys g (es @ [e]) = legacy_keys g es" using False by (simp add: legacy_keys_def)
    have n: "named_by g e = names g (ck_Supersedes (ev_Record e))"
      using False by (simp add: named_by_def)
    have named: "{(event_key g a, k) |a k. a \<in> set (es @ [e]) \<and> k \<in> named_by g a}
        = {(event_key g a, k) |a k. a \<in> set es \<and> k \<in> named_by g a} \<union> Pair (event_key g e) ` named_by g e"
      by auto
    have "snd ` Pair (event_key g e) ` named_by g e = named_by g e" by (simp add: image_image)
    then show ?thesis unfolding ks named using IH lk n by (simp add: image_Un Un_assoc)
  qed
qed

lemma fold_links_iff:
  "(\<exists>lk'. foldE (link_event g keys) es lk = Inr lk') \<longleftrightarrow> (\<forall>e \<in> set es. may_link g (set keys) e)"
proof (induction es arbitrary: lk)
  case (Cons e es)
  show ?case
  proof (cases "link_event g keys e lk")
    case (Inl x)
    then have "\<not> may_link g (set keys) e" using link_event_iff[of g keys e lk] by simp
    with Inl show ?thesis by simp
  next
    case (Inr lk1)
    then have "may_link g (set keys) e" using link_event_iff[of g keys e lk] by blast
    with Inr Cons.IH show ?thesis by simp
  qed
qed simp

section \<open>The search over the edges\<close>

lemma edge_rel_succ: "edge_rel (edge_succ es) = set es"
  by (force simp: edge_rel_def edge_succ_def)

interpretation event_graph: listed_graph "edge_succ es" "edge_nodes es" for es :: "(string \<times> string) list"
  by unfold_locales (auto simp: edge_succ_def edge_nodes_def)

lemma event_cycles_exact:
  assumes "set order = fst ` set es"
  shows "validateTaskCheckpointEventCycles es order = Inr () \<longleftrightarrow> acyclic (set es)"
proof -
  have "k \<in> set order" if "edge_succ es k \<noteq> []" for k
    using that unfolding assms edge_succ_def by (force simp: filter_empty_conv)
  with event_graph.finds_cycle_exact[of order es] assms
  have "finds_cycle (edge_succ es) (Suc (length (edge_nodes es))) order = None \<longleftrightarrow> acyclic (set es)"
    by (auto simp: edge_rel_succ edge_nodes_def)
  then show ?thesis by (auto simp: validateTaskCheckpointEventCycles_def split: option.splits)
qed

section \<open>Heads are the maximal events\<close>

lemma target_heads_iff:
  "(\<exists>hs. resolveTaskCheckpointTargetHeads g es = Inr hs) \<longleftrightarrow>
     (\<forall>e \<in> set es. may_link g (event_key g ` set es) e) \<and> acyclic (supersession g es)"
proof -
  let ?s = "sort_key (event_order g) es"
  have may: "(\<exists>lk. foldE (link_event g (map (event_key g) ?s)) ?s no_links = Inr lk)
      \<longleftrightarrow> (\<forall>e \<in> set es. may_link g (event_key g ` set es) e)" by (simp add: fold_links_iff)
  show ?thesis
  proof (cases "foldE (link_event g (map (event_key g) ?s)) ?s no_links")
    case (Inl x)
    with may show ?thesis by (simp add: resolveTaskCheckpointTargetHeads_def Let_def)
  next
    case (Inr lk)
    have e: "set (lk_edges lk) = supersession g es" using fold_links[OF Inr] by (simp add: supersession_def)
    have "validateTaskCheckpointEventCycles (lk_edges lk) (remdups (map fst (lk_edges lk))) = Inr () \<longleftrightarrow> acyclic (supersession g es)"
      unfolding e[symmetric] by (rule event_cycles_exact) simp
    with Inr may show ?thesis by (simp add: resolveTaskCheckpointTargetHeads_def Let_def)
  qed
qed

lemma target_heads_ok:
  assumes "resolveTaskCheckpointTargetHeads g es = Inr hs"
  shows "set hs = {e \<in> set es. event_key g e \<notin> snd ` supersession g es}" "sorted (map (event_key g) hs)"
    "\<And>P. (\<forall>e \<in> set es. P e) \<Longrightarrow> (\<forall>e \<in> set hs. P e)"
    "hs = sort_key (event_key g) (filter (\<lambda>e. event_key g e \<notin> snd ` supersession g es) (sort_key (event_order g) es))"
proof -
  let ?s = "sort_key (event_order g) es"
  from assms obtain lk where lk: "foldE (link_event g (map (event_key g) ?s)) ?s no_links = Inr lk"
    and hs: "hs = sort_key (event_key g) (filter (\<lambda>e. event_key g e \<notin> set (lk_superseded lk)) ?s)"
    unfolding resolveTaskCheckpointTargetHeads_def Let_def by (auto simp only: bindE_Inr_iff sum.inject)
  have e: "set (lk_superseded lk) = snd ` supersession g es" using fold_links[OF lk] by (simp add: supersession_def)
  show "set hs = {e \<in> set es. event_key g e \<notin> snd ` supersession g es}" "sorted (map (event_key g) hs)"
    "\<And>P. (\<forall>e \<in> set es. P e) \<Longrightarrow> (\<forall>e \<in> set hs. P e)"
    "hs = sort_key (event_key g) (filter (\<lambda>e. event_key g e \<notin> snd ` supersession g es) ?s)"
    unfolding hs e by auto
qed

lemma supersession_within:
  assumes "\<forall>e \<in> set es. may_link g (event_key g ` set es) e"
  shows "supersession g es \<subseteq> event_key g ` set es \<times> event_key g ` set es"
  using assms chain_edges_within[of "legacy_keys g (sort_key (event_order g) es)"]
  by (fastforce simp: supersession_def may_link_def legacy_keys_def)

lemma wf_supersession:
  assumes "\<forall>e \<in> set es. may_link g (event_key g ` set es) e" and "acyclic (supersession g es)"
  shows "wf (supersession g es)"
  by (rule finite_acyclic_wf) (use assms supersession_within[OF assms(1)] in \<open>auto intro: finite_subset\<close>)
lemma target_heads_cover:
  assumes "resolveTaskCheckpointTargetHeads g es = Inr hs"
  shows "acyclic (supersession g es)
    \<and> set hs = {e \<in> set es. event_key g e \<notin> snd ` supersession g es}
    \<and> (\<forall>e \<in> set es. \<exists>h \<in> set hs. (event_key g h, event_key g e) \<in> (supersession g es)\<^sup>*)
    \<and> (hs = [] \<longleftrightarrow> es = [])"
proof -
  from assms have may: "\<forall>e \<in> set es. may_link g (event_key g ` set es) e" and ac: "acyclic (supersession g es)"
    using target_heads_iff[of g es] by blast+
  note hs = target_heads_ok(1)[OF assms]
  have cover: "\<forall>e \<in> set es. event_key g e = k \<longrightarrow> (\<exists>h \<in> set hs. (event_key g h, k) \<in> (supersession g es)\<^sup>*)" for k
  proof (induction k rule: wf_induct_rule[OF wf_supersession[OF may ac]])
    case (1 k)
    show ?case
    proof (intro ballI impI)
      fix e assume e: "e \<in> set es" "event_key g e = k"
      show "\<exists>h \<in> set hs. (event_key g h, k) \<in> (supersession g es)\<^sup>*"
      proof (cases "k \<in> snd ` supersession g es")
        case True
        then obtain i where i: "(i, k) \<in> supersession g es" by auto
        then obtain e' where "e' \<in> set es" "event_key g e' = i" using supersession_within[OF may] by auto
        with 1[OF i] obtain h where "h \<in> set hs" "(event_key g h, i) \<in> (supersession g es)\<^sup>*" by blast
        with i show ?thesis by (blast intro: rtrancl_into_rtrancl)
      qed (use e hs in auto)
    qed
  qed
  then have all: "\<forall>e \<in> set es. \<exists>h \<in> set hs. (event_key g h, event_key g e) \<in> (supersession g es)\<^sup>*" by blast
  have "hs = [] \<longleftrightarrow> es = []"
  proof
    assume "hs = []"
    with all have "set es = {}" by fastforce
    then show "es = []" by simp
  next
    assume "es = []"
    with hs have "set hs = {}" by simp
    then show "hs = []" by simp
  qed
  with ac hs all show ?thesis by blast
qed

lemmas heads_nonempty = target_heads_cover[THEN conjunct2, THEN conjunct2, THEN conjunct2]

text \<open>
  C15: When the heads of a target resolve, the events have no circular supersession, the heads are
  exactly the events that nothing supersedes, and every event is superseded, at some remove, by a
  head; so a target with events has a head.
\<close>

theorem heads_cover:
  assumes "resolveTaskCheckpointTargetHeads g es = Inr hs"
  shows "acyclic (supersession g es)
    \<and> set hs = {e \<in> set es. event_key g e \<notin> snd ` supersession g es}
    \<and> (\<forall>e \<in> set es. \<exists>h \<in> set hs. (event_key g h, event_key g e) \<in> (supersession g es)\<^sup>*)
    \<and> (hs = [] \<longleftrightarrow> es = [])"
  by (rule target_heads_cover[OF assms])

section \<open>A written event becomes the head\<close>

lemma trancl_fresh_source:
  assumes "(a, b) \<in> (R \<union> {i} \<times> K)\<^sup>+" and "a \<noteq> i" and "i \<notin> snd ` R" and "i \<notin> K"
  shows "(a, b) \<in> R\<^sup>+ \<and> b \<noteq> i"
  using assms(1)
proof (induction rule: trancl_induct)
  case (base b)
  with assms(2-4) show ?case by force
next
  case (step b c)
  with assms(3,4) have "(b, c) \<in> R" "c \<noteq> i" by force+
  with step show ?case by (auto intro: trancl_into_trancl)
qed

lemma acyclic_fresh_source:
  assumes "acyclic R" and "i \<notin> snd ` R" and "i \<notin> K"
  shows "acyclic (R \<union> {i} \<times> K)"
  unfolding acyclic_def
proof (intro allI notI)
  fix x assume x: "(x, x) \<in> (R \<union> {i} \<times> K)\<^sup>+"
  have "x \<noteq> i"
  proof
    assume "x = i"
    from x obtain y where "(y, x) \<in> R \<union> {i} \<times> K" by (metis tranclD2)
    with \<open>x = i\<close> assms(2,3) show False by force
  qed
  with trancl_fresh_source[OF x] assms show False by (auto simp: acyclic_def)
qed

lemma supersession_insert:
  assumes "\<not> legacy n"
  shows "supersession g (es1 @ n # es2) = supersession g (es1 @ es2) \<union> {event_key g n} \<times> named_by g n"
proof -
  have "filter legacy (sort_key (event_order g) (es1 @ n # es2)) = filter legacy (sort_key (event_order g) (es1 @ es2))"
    using assms by (simp add: filter_sort)
  then show ?thesis by (auto simp: supersession_def legacy_keys_def)
qed

lemma target_heads_write:
  assumes "resolveTaskCheckpointTargetHeads g (es1 @ es2) = Inr hs" and "\<not> legacy n"
    and "event_key g n \<notin> event_key g ` set (es1 @ es2)" and "named_by g n = event_key g ` set hs"
  shows "resolveTaskCheckpointTargetHeads g (es1 @ n # es2) = Inr [n]"
proof -
  let ?es = "es1 @ es2" and ?es' = "es1 @ n # es2"
  from assms(1) have may: "\<forall>e \<in> set ?es. may_link g (event_key g ` set ?es) e" and ac: "acyclic (supersession g ?es)"
    using target_heads_iff[of g ?es] by blast+
  note hs = target_heads_ok(1)[OF assms(1)]
  have K: "named_by g n \<subseteq> event_key g ` set ?es" using assms(4) hs by auto
  have "may_link g (event_key g ` set ?es') e" if "e \<in> set ?es'" for e
  proof (cases "e = n")
    case True
    with K assms(3) show ?thesis by (auto simp: may_link_def)
  next
    case False
    with that may show ?thesis by (fastforce simp: may_link_def)
  qed
  moreover have "event_key g n \<notin> snd ` supersession g ?es" using supersession_within[OF may] assms(3) by fastforce
  moreover from this have "acyclic (supersession g ?es')"
    unfolding supersession_insert[OF assms(2)] using acyclic_fresh_source[OF ac] K assms(3) by blast
  ultimately obtain hs' where hs': "resolveTaskCheckpointTargetHeads g ?es' = Inr hs'" and n: "event_key g n \<notin> snd ` supersession g ?es"
    using target_heads_iff[of g ?es'] by blast
  have s: "snd ` supersession g ?es' = snd ` supersession g ?es \<union> event_key g ` set hs"
    unfolding supersession_insert[OF assms(2)] assms(4)[symmetric] by force
  have no: "event_key g e \<in> snd ` supersession g ?es'" if "e \<in> set ?es" for e
    using that hs unfolding s by (cases "event_key g e \<in> snd ` supersession g ?es") auto
  have yes: "event_key g n \<notin> snd ` supersession g ?es'" unfolding s using n assms(3) hs by auto
  have "filter (\<lambda>e. event_key g e \<notin> snd ` supersession g ?es') ?es' = [n]"
    using no yes by (auto simp: filter_empty_conv)
  with target_heads_ok(4)[OF hs'] hs' show ?thesis by (simp add: filter_sort)
qed

section \<open>All targets of a log\<close>

abbreviation events_for :: "golib \<Rightarrow> string \<Rightarrow> task_event list \<Rightarrow> task_event list" where
  "events_for g t es \<equiv> filter (\<lambda>e. target_key g e = t) es"

lemma mapE_pairs:
  assumes "mapE (\<lambda>t. bindE (f t) (\<lambda>hs. Inr (t, hs))) ts = Inr res"
  shows "map fst res = ts" and "\<And>t. map_of res t = (if t \<in> set ts then Some (projr (f t)) else None)"
    and "\<And>t. t \<in> set ts \<Longrightarrow> \<exists>hs. f t = Inr hs"
  using assms
proof (induction ts arbitrary: res)
  case (Cons u ts)
  { case 1 then show ?case using Cons by auto }
  { case 2 then show ?case using Cons by auto }
  { case 3 then show ?case using Cons by auto }
qed auto

lemma resolved:
  assumes "resolveTaskCheckpointHeads g es = Inr res"
  shows "map fst res = event_targets g es"
    and "t \<in> set (event_targets g es) \<Longrightarrow> resolveTaskCheckpointTargetHeads g (events_for g t es) = Inr (heads_of res t)"
    and "t \<notin> set (event_targets g es) \<Longrightarrow> heads_of res t = []"
proof -
  note r = mapE_pairs[OF assms[unfolded resolveTaskCheckpointHeads_def]]
  show "map fst res = event_targets g es" by (rule r(1))
  show "resolveTaskCheckpointTargetHeads g (events_for g t es) = Inr (heads_of res t)" if "t \<in> set (event_targets g es)"
    using r(2)[of t] r(3)[OF that] that by (auto simp: heads_of_def)
  show "heads_of res t = []" if "t \<notin> set (event_targets g es)"
    using r(2)[of t] that by (auto simp: heads_of_def)
qed

lemma resolves_iff:
  "(\<exists>res. resolveTaskCheckpointHeads g es = Inr res) \<longleftrightarrow>
     (\<forall>t \<in> set (event_targets g es). \<exists>hs. resolveTaskCheckpointTargetHeads g (events_for g t es) = Inr hs)"
proof -
  have "(\<exists>res. mapE (\<lambda>t. bindE (f t) (\<lambda>hs. Inr (t, hs))) ts = Inr res) \<longleftrightarrow> (\<forall>t \<in> set ts. \<exists>hs. f t = Inr hs)"
    for f :: "string \<Rightarrow> task_error + task_event list" and ts
    by (induction ts) auto
  then show ?thesis unfolding resolveTaskCheckpointHeads_def .
qed

lemma in_event_targets: "t \<in> set (event_targets g es) \<longleftrightarrow> t \<noteq> '''' \<and> (\<exists>e \<in> set es. target_key g e = t)"
  by (auto simp: event_targets_def)

lemma target_heads_nil: "resolveTaskCheckpointTargetHeads g [] = Inr []"
  by (simp add: resolveTaskCheckpointTargetHeads_def no_links_def validateTaskCheckpointEventCycles_def finds_cycle_def)

lemma resolved_any:
  assumes "resolveTaskCheckpointHeads g es = Inr res" and "t \<noteq> ''''"
  shows "resolveTaskCheckpointTargetHeads g (events_for g t es) = Inr (heads_of res t)"
proof (cases "t \<in> set (event_targets g es)")
  case False
  with assms(2) have "events_for g t es = []" by (auto simp: in_event_targets filter_empty_conv)
  with resolved(3)[OF assms(1) False] show ?thesis by (simp add: target_heads_nil)
qed (rule resolved(2)[OF assms(1)])

definition named_event :: "task_event \<Rightarrow> bool" where
  "named_event e \<longleftrightarrow> ck_CheckpointID (ev_Record e) \<noteq> '''' \<and> TrimSpace (ck_CheckpointID (ev_Record e)) = ck_CheckpointID (ev_Record e)"

lemma write_names_heads:
  assumes "checkpointSupersedesForWrite g es target explicit = Inr named"
  obtains res where "resolveTaskCheckpointHeads g es = Inr res"
    "set named = (\<lambda>h. ck_CheckpointID (ev_Record h)) ` set (heads_of res (ToLower g (TrimSpace target)))"
proof -
  let ?ids = "\<lambda>res. sort_key (ToLower g) (map (\<lambda>h. ck_CheckpointID (ev_Record h)) (heads_of res (ToLower g (TrimSpace target))))"
  from assms obtain res where res: "resolveTaskCheckpointHeads g es = Inr res" and n: "named = ?ids res"
    unfolding checkpointSupersedesForWrite_def Let_def bindE_Inr_iff by (auto split: if_splits)
  from n have "set named = (\<lambda>h. ck_CheckpointID (ev_Record h)) ` set (heads_of res (ToLower g (TrimSpace target)))" by simp
  with res show thesis by (rule that)
qed

lemma named_by_heads:
  assumes "lower_ok g" and "\<not> legacy n" and "\<forall>h \<in> set hs. named_event h"
    and "set (ck_Supersedes (ev_Record n)) = (\<lambda>h. ck_CheckpointID (ev_Record h)) ` set hs"
  shows "named_by g n = event_key g ` set hs"
proof -
  have "(\<lambda>p. ToLower g (TrimSpace p)) ` set (ck_Supersedes (ev_Record n)) = event_key g ` set hs"
    unfolding assms(4) image_image by (rule image_cong) (use assms(3) in \<open>simp_all add: event_key_def named_event_def\<close>)
  moreover have "'''' \<notin> event_key g ` set hs"
    using assms(1,3) by (auto simp: event_key_def lower_ok_def named_event_def)
  ultimately show ?thesis using assms(2) unfolding named_by_def names_def by simp
qed
text \<open>What \<open>buildTaskCheckpointRecord\<close> puts into a new event: the current schema, the heads, a fresh identifier.\<close>

definition writes :: "golib \<Rightarrow> task_event list \<Rightarrow> string \<Rightarrow> string list \<Rightarrow> task_event \<Rightarrow> bool" where
  "writes g es target explicit n \<longleftrightarrow>
     ck_SchemaVersion (ev_Record n) = taskCheckpointSchemaVersion
     \<and> checkpointSupersedesForWrite g es target explicit = Inr (ck_Supersedes (ev_Record n))
     \<and> target_key g n = ToLower g (TrimSpace target) \<and> TrimSpace target \<noteq> ''''
     \<and> event_key g n \<notin> event_key g ` set es \<and> named_event n"

lemma written_group:
  assumes "lower_ok g" and "writes g (es1 @ es2) target explicit n" and "\<forall>e \<in> set (es1 @ es2). named_event e"
  obtains res where "resolveTaskCheckpointHeads g (es1 @ es2) = Inr res"
    "target_key g n \<noteq> ''''"
    "resolveTaskCheckpointTargetHeads g (events_for g (target_key g n) (es1 @ n # es2)) = Inr [n]"
proof -
  let ?t = "target_key g n" and ?es = "es1 @ es2"
  from assms(2) obtain res where res: "resolveTaskCheckpointHeads g ?es = Inr res"
    and sup: "set (ck_Supersedes (ev_Record n)) = (\<lambda>h. ck_CheckpointID (ev_Record h)) ` set (heads_of res ?t)"
    unfolding writes_def by (metis write_names_heads)
  from assms(1,2) have t: "?t \<noteq> ''''" by (simp add: writes_def lower_ok_def)
  note group = resolved_any[OF res t]
  have n: "\<not> legacy n" using assms(2) by (simp add: writes_def legacy_def)
  have "\<forall>h \<in> set (heads_of res ?t). named_event h"
    by (rule target_heads_ok(3)[OF group]) (use assms(3) in auto)
  from named_by_heads[OF assms(1) n this sup] have "named_by g n = event_key g ` set (heads_of res ?t)" .
  with target_heads_write[OF _ n, of g "events_for g ?t es1" "events_for g ?t es2"] group assms(2)
  have "resolveTaskCheckpointTargetHeads g (events_for g ?t es1 @ n # events_for g ?t es2) = Inr [n]"
    by (auto simp: writes_def)
  with res t show thesis by (intro that) simp_all
qed

lemma event_targets_insert:
  "t \<in> set (event_targets g (es1 @ n # es2)) \<longleftrightarrow> t \<in> set (event_targets g (es1 @ es2)) \<or> (t \<noteq> '''' \<and> t = target_key g n)"
  by (auto simp: in_event_targets)

lemma checkpoint_heads:
  assumes "lower_ok g" and "writes g (es1 @ es2) target explicit n" and "\<forall>e \<in> set (es1 @ es2). named_event e"
    and "resolveTaskCheckpointHeads g (es1 @ es2) = Inr before"
  shows "\<exists>after. resolveTaskCheckpointHeads g (es1 @ n # es2) = Inr after
    \<and> heads_of after (ToLower g (TrimSpace target)) = [n]
    \<and> (\<forall>t. t \<noteq> ToLower g (TrimSpace target) \<longrightarrow> heads_of after t = heads_of before t)"
proof -
  let ?t = "target_key g n" and ?es = "es1 @ es2" and ?es' = "es1 @ n # es2"
  have tt: "?t = ToLower g (TrimSpace target)" using assms(2) by (simp add: writes_def)
  obtain t: "?t \<noteq> ''''" and n: "resolveTaskCheckpointTargetHeads g (events_for g ?t ?es') = Inr [n]"
    using written_group[OF assms(1-3)] by metis
  have other: "events_for g t ?es' = events_for g t ?es" if "t \<noteq> ?t" for t using that by auto
  have "\<exists>hs. resolveTaskCheckpointTargetHeads g (events_for g t ?es') = Inr hs" if "t \<in> set (event_targets g ?es')" for t
  proof (cases "t = ?t")
    case False
    from that have "t \<noteq> ''''" by (simp add: in_event_targets)
    from resolved_any[OF assms(4) this] show ?thesis unfolding other[OF False] by blast
  qed (use n in blast)
  then obtain after where after: "resolveTaskCheckpointHeads g ?es' = Inr after" using resolves_iff[of g ?es'] by blast
  have "heads_of after ?t = [n]" using resolved_any[OF after t] n by simp
  moreover have "heads_of after t = heads_of before t" if "t \<noteq> ?t" for t
  proof (cases "t = ''''")
    case True
    then have "t \<notin> set (event_targets g ?es)" "t \<notin> set (event_targets g ?es')" by (simp_all add: in_event_targets)
    with resolved(3)[OF assms(4)] resolved(3)[OF after] show ?thesis by simp
  next
    case False
    from resolved_any[OF after False] resolved_any[OF assms(4) False] show ?thesis unfolding other[OF that] by simp
  qed
  ultimately show ?thesis using after tt by auto
qed

text \<open>
  A checkpoint written under the lock settles its target: with the identifiers that
  \<open>checkpointSupersedesForWrite\<close> chose, wherever its file sorts in the log, the log still resolves,
  the new event is the only head of its target, and the heads of every other target are as before.
\<close>

theorem checkpoint_settles_target:
  assumes "lower_ok g" and "writes g (es1 @ es2) target explicit n" and "\<forall>e \<in> set (es1 @ es2). named_event e"
    and "resolveTaskCheckpointHeads g (es1 @ es2) = Inr before"
  shows "\<exists>after. resolveTaskCheckpointHeads g (es1 @ n # es2) = Inr after
    \<and> heads_of after (ToLower g (TrimSpace target)) = [n]
    \<and> (\<forall>t. t \<noteq> ToLower g (TrimSpace target) \<longrightarrow> heads_of after t = heads_of before t)"
  by (rule checkpoint_heads[OF assms])

text \<open>The logs that one workspace can hold: each event written under the lock, in any order of file names.\<close>

inductive logged :: "golib \<Rightarrow> task_event list \<Rightarrow> bool" for g where
  empty: "logged g []"
| written: "logged g (es1 @ es2) \<Longrightarrow> writes g (es1 @ es2) target explicit n \<Longrightarrow> logged g (es1 @ n # es2)"

inductive_cases loggedE: "logged g es"

lemma logged_named: "logged g es \<Longrightarrow> \<forall>e \<in> set es. named_event e"
  by (induction rule: logged.induct) (auto simp: writes_def)

text \<open>
  C2: A log whose events were all written under the lock never forks: it resolves, every target
  with an event has exactly one head, and the next checkpoint needs no \<open>--supersedes\<close>.
\<close>

theorem log_never_forks:
  assumes "lower_ok g" and "logged g es"
  shows "(\<exists>res. resolveTaskCheckpointHeads g es = Inr res \<and> (\<forall>(t, hs) \<in> set res. length hs = 1))
    \<and> (\<exists>named. checkpointSupersedesForWrite g es target [] = Inr named \<and> length named \<le> 1)"
proof -
  from assms(2) have "\<exists>res. resolveTaskCheckpointHeads g es = Inr res \<and> (\<forall>t. length (heads_of res t) \<le> 1)"
  proof (induction rule: logged.induct)
    case empty
    show ?case by (simp add: resolveTaskCheckpointHeads_def event_targets_def heads_of_def)
  next
    case (written es1 es2 target explicit n)
    then obtain before where b: "resolveTaskCheckpointHeads g (es1 @ es2) = Inr before"
      "\<forall>t. length (heads_of before t) \<le> 1" by blast
    from checkpoint_heads[OF assms(1) written.hyps(2) logged_named[OF written.hyps(1)] b(1)] b(2) show ?case
      by (metis length_Cons list.size(3) One_nat_def le_refl)
  qed
  then obtain res where res: "resolveTaskCheckpointHeads g es = Inr res" "\<forall>t. length (heads_of res t) \<le> 1" by blast
  have "length hs = 1" if "(t, hs) \<in> set res" for t hs
  proof -
    have "t \<in> set (event_targets g es)" using that unfolding resolved(1)[OF res(1), symmetric] by force
    then have ne: "events_for g t es \<noteq> []" and t: "t \<noteq> ''''" by (auto simp: in_event_targets filter_empty_conv)
    have "distinct (map fst res)" using resolved(1)[OF res(1)] by (simp add: event_targets_def)
    with that have hs: "heads_of res t = hs" by (simp add: heads_of_def)
    from heads_nonempty[OF resolved_any[OF res(1) t]] ne have "hs \<noteq> []" by (simp add: hs)
    moreover have "length hs \<le> 1" using res(2) hs by blast
    ultimately show ?thesis by (cases hs) auto
  qed
  moreover have "checkpointSupersedesForWrite g es target [] =
      Inr (sort_key (ToLower g) (map (\<lambda>h. ck_CheckpointID (ev_Record h)) (heads_of res (ToLower g (TrimSpace target)))))"
    using res by (simp add: checkpointSupersedesForWrite_def Let_def normalizeList_def not_less)
  ultimately show ?thesis using res by auto
qed

section \<open>An example\<close>

text \<open>The letters of ASCII, by the bits of their codes: 1 to 26 in the low five, and bit 5 for the case.\<close>

definition ascii_letter :: "bool \<Rightarrow> bool \<Rightarrow> bool \<Rightarrow> bool \<Rightarrow> bool \<Rightarrow> bool \<Rightarrow> bool \<Rightarrow> bool" where
  "ascii_letter b0 b1 b2 b3 b4 b6 b7 \<longleftrightarrow> b6 \<and> \<not> b7 \<and> (b0 \<or> b1 \<or> b2 \<or> b3 \<or> b4) \<and> \<not> (b4 \<and> b3 \<and> (b2 \<or> b1 \<and> b0))"

fun ascii_case :: "bool \<Rightarrow> char \<Rightarrow> char" where
  "ascii_case low (Char b0 b1 b2 b3 b4 b5 b6 b7) = Char b0 b1 b2 b3 b4 (if ascii_letter b0 b1 b2 b3 b4 b6 b7 then low else b5) b6 b7"

text \<open>A library for ASCII, with times written in unary.\<close>

definition demo_golib :: golib where
  "demo_golib = \<lparr>ToLower = map (ascii_case True), ToUpper = map (ascii_case False),
     EqualFold = (\<lambda>a b. map (ascii_case True) a = map (ascii_case True) b),
     IsLetter = (\<lambda>r. 97 \<le> r \<and> r \<le> 122 \<or> 65 \<le> r \<and> r \<le> 90), IsDigit = (\<lambda>r. 48 \<le> r \<and> r \<le> 57),
     ParseTime = (\<lambda>s. if s = '''' then None else Some \<lparr>unix_nanos = int (length s), zone_offset = 0\<rparr>),
     FormatTime = (\<lambda>t. replicate (nat (unix_nanos t)) CHR ''t''), FormatZ = (\<lambda>t. replicate (nat (unix_nanos t)) CHR ''t'')\<rparr>"

lemma demo_lower: "lower_ok demo_golib"
  by (simp add: lower_ok_def demo_golib_def)

definition demo_checkpoint :: "string \<Rightarrow> string list \<Rightarrow> string \<Rightarrow> string \<Rightarrow> string \<Rightarrow> string \<Rightarrow> task_event" where
  "demo_checkpoint i older target stage decision durable = \<lparr>ev_Record = \<lparr>ck_SchemaVersion = 3, ck_EventKind = ''task_checkpoint'',
     ck_CheckpointID = i, ck_Supersedes = older, ck_TaskID = ''T'', ck_Target = target, ck_Slice = target, ck_Stage = stage,
     ck_Decision = decision, ck_CreatedAt = ''tt'', ck_DurableRecord = durable, ck_DurableArtifacts = [], ck_NextTarget = ''''\<rparr>,
     ev_JSONPath = ''/w/'' @ i, ev_MarkdownPath = ''/w/'' @ i @ ''m''\<rparr>"

definition demo_first :: task_event where "demo_first = demo_checkpoint ''c1'' [] ''A01'' ''started'' '''' ''''"

definition demo_second :: task_event where "demo_second = demo_checkpoint ''c2'' [''c1''] ''a01'' ''done'' ''promote'' ''''"

definition demo_clone :: task_event where "demo_clone = demo_checkpoint ''c3'' [''C1''] ''a01'' ''blocked'' ''block'' ''''"

theorem heads_cover_witness:
  "acyclic (supersession demo_golib [demo_second, demo_first, demo_clone])
    \<and> {demo_second, demo_clone}
        = {e \<in> set [demo_second, demo_first, demo_clone]. event_key demo_golib e \<notin> snd ` supersession demo_golib [demo_second, demo_first, demo_clone]}"
proof -
  have "resolveTaskCheckpointTargetHeads demo_golib [demo_second, demo_first, demo_clone] = Inr [demo_second, demo_clone]" by code_simp
  from heads_cover[OF this] show ?thesis by simp
qed

lemma demo_writes: "writes demo_golib ([] @ []) ''A01'' [] demo_first"
  "writes demo_golib ([demo_first] @ []) ''a01'' [] demo_second"
  by code_simp+

theorem log_never_forks_witness:
  "\<exists>named. checkpointSupersedesForWrite demo_golib [demo_first] ''A01'' [] = Inr named \<and> length named \<le> 1"
proof -
  have "logged demo_golib ([] @ demo_first # [])"
    by (rule logged.written[OF _ demo_writes(1)]) (simp add: logged.empty)
  then have "logged demo_golib [demo_first]" by simp
  from log_never_forks[OF demo_lower this] show ?thesis by blast
qed

end
