(* ===== verification/Tasks.thy ===== *)
theory Tasks
  imports Checkpoints
begin

text \<open>
  A task and its targets (\<open>internal/commands/task.go\<close>, \<open>task_checkpoint_state.go\<close>,
  \<open>thread_status.go\<close>): \<open>task.json\<close> holds a projection of the event log onto the series and its
  slices; reading a task replays the log onto the projection; and the next target is chosen from
  the result.
\<close>

section \<open>The manifest\<close>

record slice =
  sl_ID :: string
  sl_Title :: string
  sl_Plan :: string
  sl_Result :: string
  sl_Kind :: string
  sl_ParentID :: string
  sl_Reason :: string
  sl_Stage :: string
  sl_Decision :: string
  sl_UpdatedAt :: string
  sl_LatestCheckpointID :: string
  sl_LatestCheckpoint :: string
  sl_LatestCheckpointJSON :: string

record durability =
  du_Required :: bool
  du_Disposition :: string
  du_Artifacts :: "string list"
  du_DeferredTarget :: string
  du_UpdatedAt :: string

datatype diagnostic = Conflicting string "string list" | Disagreed string string | NoMarkdown string

record manifest =
  tm_TaskID :: string
  tm_Series :: string
  tm_WorkspaceID :: string
  tm_ParentChange :: string
  tm_RepoAlias :: string
  tm_Status :: string
  tm_Decision :: string
  tm_UpdatedAt :: string
  tm_LatestCheckpointID :: string
  tm_LatestCheckpoint :: string
  tm_LatestCheckpointJSON :: string
  tm_ArtifactSeries :: string
  tm_Index :: string
  tm_FirstSlice :: string
  tm_Result :: string
  tm_Slices :: "slice list"
  tm_Durability :: durability
  tm_Diagnostics :: "diagnostic list"
  tm_Conflicts :: "(string \<times> string list) list"

definition defaultTaskSeries :: "golib \<Rightarrow> string \<Rightarrow> string" where
  "defaultTaskSeries g s = (let u = ToUpper g (TrimSpace s) in if u = '''' then ''A'' else u)"

definition isTaskSeriesTarget :: "golib \<Rightarrow> manifest \<Rightarrow> string \<Rightarrow> bool" where
  "isTaskSeriesTarget g m target =
     (let t = TrimSpace target; series = defaultTaskSeries g (tm_Series m) in
      t \<noteq> '''' \<and> (EqualFold g t series \<or> EqualFold g t (series @ ''00'') \<or> EqualFold g t (tm_Index m)))"

definition addresses_series :: "golib \<Rightarrow> manifest \<Rightarrow> string \<Rightarrow> bool" where
  "addresses_series g m target \<longleftrightarrow> target = '''' \<or> isTaskSeriesTarget g m target"

definition find_slice :: "golib \<Rightarrow> manifest \<Rightarrow> string \<Rightarrow> slice option" where
  "find_slice g m target = List.find (\<lambda>s. EqualFold g (sl_ID s) target) (tm_Slices m)"

fun update_first :: "('a \<Rightarrow> bool) \<Rightarrow> ('a \<Rightarrow> 'a) \<Rightarrow> 'a list \<Rightarrow> 'a list" where
  "update_first P f [] = []"
| "update_first P f (x # xs) = (if P x then f x # xs else x # update_first P f xs)"

definition applyTaskTargetState :: "golib \<Rightarrow> string \<Rightarrow> string \<Rightarrow> string \<Rightarrow> gotime \<Rightarrow> manifest \<Rightarrow> manifest" where
  "applyTaskTargetState g target stage decision now m =
     (let stage = TrimSpace stage; decision = TrimSpace decision; timestamp = FormatTime g now in
      if addresses_series g m target then
        m\<lparr>tm_Status := (if stage \<noteq> '''' then stage else tm_Status m), tm_Decision := decision, tm_UpdatedAt := timestamp\<rparr>
      else
        m\<lparr>tm_Slices := update_first (\<lambda>s. EqualFold g (sl_ID s) target)
             (\<lambda>s. s\<lparr>sl_Stage := (if stage \<noteq> '''' then stage else sl_Stage s), sl_Decision := decision, sl_UpdatedAt := timestamp\<rparr>)
             (tm_Slices m),
          tm_UpdatedAt := timestamp\<rparr>)"

definition applyTaskTargetCheckpointRefs :: "golib \<Rightarrow> string \<Rightarrow> string \<Rightarrow> string \<Rightarrow> string \<Rightarrow> manifest \<Rightarrow> manifest" where
  "applyTaskTargetCheckpointRefs g target checkpointID checkpoint checkpointJSON m =
     (let i = TrimSpace checkpointID; c = TrimSpace checkpoint; j = TrimSpace checkpointJSON in
      if i = '''' \<and> c = '''' \<and> j = '''' then m
      else if addresses_series g m target then
        m\<lparr>tm_LatestCheckpointID := i, tm_LatestCheckpoint := c, tm_LatestCheckpointJSON := j\<rparr>
      else
        m\<lparr>tm_Slices := update_first (\<lambda>s. EqualFold g (sl_ID s) target)
             (\<lambda>s. s\<lparr>sl_LatestCheckpointID := i, sl_LatestCheckpoint := c, sl_LatestCheckpointJSON := j\<rparr>) (tm_Slices m)\<rparr>)"

definition taskStateForTarget :: "golib \<Rightarrow> manifest \<Rightarrow> string \<Rightarrow> string \<times> string" where
  "taskStateForTarget g m target =
     (if addresses_series g m target then (tm_Status m, tm_Decision m)
      else case find_slice g m target of Some s \<Rightarrow> (sl_Stage s, sl_Decision s) | None \<Rightarrow> ('''', ''''))"

definition taskCheckpointIDForTarget :: "golib \<Rightarrow> manifest \<Rightarrow> string \<Rightarrow> string" where
  "taskCheckpointIDForTarget g m target =
     (if isTaskSeriesTarget g m target then tm_LatestCheckpointID m
      else case find_slice g m target of Some s \<Rightarrow> sl_LatestCheckpointID s | None \<Rightarrow> '''')"

text \<open>\<open>taskRelativePath\<close> of a path below the workspace.\<close>

definition taskRelativePath :: "string \<Rightarrow> string \<Rightarrow> string" where
  "taskRelativePath base p = TrimPrefix p (base @ ''/'')"

section \<open>Reconciling \<open>task.json\<close> with the log\<close>

text \<open>
  \<open>exists\<close> is \<open>os.Stat\<close> of a Markdown file: there, not there, or another error. The state of the
  loop is the manifest, and the latest time seen with its text.
\<close>

record reconciling =
  rc_manifest :: manifest
  rc_latest :: "gotime option"
  rc_text :: string

definition conflict_of :: "task_event list \<Rightarrow> string \<times> string list" where
  "conflict_of hs = (event_target (ev_Record (hd hs)), map (\<lambda>h. ck_CheckpointID (ev_Record h)) hs)"

definition reconcile_conflict :: "task_event list \<Rightarrow> manifest \<Rightarrow> manifest" where
  "reconcile_conflict hs m = m\<lparr>tm_Conflicts := tm_Conflicts m @ [conflict_of hs],
     tm_Diagnostics := tm_Diagnostics m @ [Conflicting (fst (conflict_of hs)) (snd (conflict_of hs))]\<rparr>"

definition diagnose_projection :: "golib \<Rightarrow> checkpoint \<Rightarrow> manifest \<Rightarrow> manifest" where
  "diagnose_projection g r m =
     (let target = event_target r in
      if taskStateForTarget g m target \<noteq> (ck_Stage r, ck_Decision r) \<or> taskCheckpointIDForTarget g m target \<noteq> ck_CheckpointID r
      then m\<lparr>tm_Diagnostics := tm_Diagnostics m @ [Disagreed (ck_CheckpointID r) target]\<rparr> else m)"

definition reconcile_head :: "golib \<Rightarrow> (string \<Rightarrow> bool option) \<Rightarrow> string \<Rightarrow> task_event \<Rightarrow> reconciling \<Rightarrow> task_error + reconciling" where
  "reconcile_head g exists workspace e rc =
     (let r = ev_Record e; target = event_target r;
          created = parseTaskCheckpointCreatedAt g (ck_CreatedAt r);
          newer = (case rc_latest rc of None \<Rightarrow> True | Some t \<Rightarrow> time_Before t created);
          m1 = applyTaskTargetState g target (ck_Stage r) (ck_Decision r) created (diagnose_projection g r (rc_manifest rc))
      in case exists (ev_MarkdownPath e) of
           None \<Rightarrow> Inl ReadFailed
         | Some there \<Rightarrow>
             (let md = (if there then taskRelativePath workspace (ev_MarkdownPath e) else '''');
                  m2 = (if there then m1 else m1\<lparr>tm_Diagnostics := tm_Diagnostics m1 @ [NoMarkdown (ck_CheckpointID r)]\<rparr>)
              in Inr \<lparr>rc_manifest = applyTaskTargetCheckpointRefs g target (ck_CheckpointID r) md (taskRelativePath workspace (ev_JSONPath e)) m2,
                      rc_latest = (if newer then Some created else rc_latest rc),
                      rc_text = (if newer then FormatTime g created else rc_text rc)\<rparr>))"

definition reconcile_target :: "golib \<Rightarrow> (string \<Rightarrow> bool option) \<Rightarrow> string \<Rightarrow> task_event list \<Rightarrow> reconciling \<Rightarrow> task_error + reconciling" where
  "reconcile_target g exists workspace hs rc =
     (if length hs \<noteq> 1 then Inr (rc\<lparr>rc_manifest := reconcile_conflict hs (rc_manifest rc)\<rparr>)
      else reconcile_head g exists workspace (hd hs) rc)"

definition target_heads_in_order :: "(string \<times> task_event list) list \<Rightarrow> task_event list list" where
  "target_heads_in_order res = map (heads_of res) (sort (map fst res))"

definition reconcileTaskManifestLifecycle ::
  "golib \<Rightarrow> (string \<Rightarrow> bool option) \<Rightarrow> string \<Rightarrow> task_event list \<Rightarrow> manifest \<Rightarrow> task_error + manifest" where
  "reconcileTaskManifestLifecycle g exists workspace es m =
     (if es = [] then Inr m
      else
        bindE (resolveTaskCheckpointHeads g es) (\<lambda>res.
        bindE (foldE (reconcile_target g exists workspace) (target_heads_in_order res)
                 \<lparr>rc_manifest = m, rc_latest = ParseTime g (TrimSpace (tm_UpdatedAt m)), rc_text = tm_UpdatedAt m\<rparr>) (\<lambda>rc.
          Inr (if rc_latest rc \<noteq> None then (rc_manifest rc)\<lparr>tm_UpdatedAt := rc_text rc\<rparr> else rc_manifest rc))))"

section \<open>The same for a thread\<close>

definition applyThreadDurabilityRecord :: "golib \<Rightarrow> checkpoint \<Rightarrow> string \<Rightarrow> manifest \<Rightarrow> manifest" where
  "applyThreadDurabilityRecord g r updatedAt m =
     (let disposition = ToLower g (TrimSpace (ck_DurableRecord r)) in
      if disposition = '''' then m
      else m\<lparr>tm_Durability := (tm_Durability m)\<lparr>du_Disposition := disposition, du_Artifacts := ck_DurableArtifacts r,
               du_DeferredTarget := (if disposition = ''deferred'' then ck_NextTarget r else ''''),
               du_UpdatedAt := updatedAt\<rparr>\<rparr>)"

record task_snapshot =
  ts_RepoAlias :: string
  ts_Workspace :: string
  ts_Manifest :: manifest
  ts_Events :: "task_event list"

definition reconcile_thread_target :: "golib \<Rightarrow> string \<Rightarrow> task_event list \<Rightarrow> manifest \<Rightarrow> manifest" where
  "reconcile_thread_target g workspace hs m = (case hs of
     [] \<Rightarrow> m
   | [e] \<Rightarrow>
      (let r = ev_Record e; target = event_target r; created = parseTaskCheckpointCreatedAt g (ck_CreatedAt r) in
       applyThreadDurabilityRecord g r (FormatZ g created)
         (applyTaskTargetCheckpointRefs g target (ck_CheckpointID r)
            (taskRelativePath workspace (ev_MarkdownPath e)) (taskRelativePath workspace (ev_JSONPath e))
            (applyTaskTargetState g target (ck_Stage r) (ck_Decision r) created m)))
   | _ \<Rightarrow> m\<lparr>tm_Conflicts := tm_Conflicts m @ [conflict_of hs]\<rparr>)"

definition reconcileThreadTaskLifecycle :: "golib \<Rightarrow> task_snapshot \<Rightarrow> task_error + manifest" where
  "reconcileThreadTaskLifecycle g t =
     bindE (resolveTaskCheckpointHeads g (ts_Events t)) (\<lambda>res.
       Inr (fold (reconcile_thread_target g (ts_Workspace t)) (target_heads_in_order res)
              ((ts_Manifest t)\<lparr>tm_Conflicts := [], tm_Diagnostics := []\<rparr>)))"
section \<open>Writing a checkpoint\<close>

record checkpoint_options =
  co_Stage :: string
  co_Decision :: string
  co_DurableRecord :: string
  co_DurableArtifacts :: "string list"
  co_NextTarget :: string

definition applyTaskDurabilityReview :: "golib \<Rightarrow> slice \<Rightarrow> checkpoint_options \<Rightarrow> gotime \<Rightarrow> manifest \<Rightarrow> manifest" where
  "applyTaskDurabilityReview g target opts now m =
     (if sl_Kind target \<noteq> ''closeout'' \<or> co_DurableRecord opts = '''' then m
      else m\<lparr>tm_Durability := (tm_Durability m)\<lparr>du_Disposition := co_DurableRecord opts, du_Artifacts := co_DurableArtifacts opts,
               du_DeferredTarget := (if co_DurableRecord opts = ''deferred'' then co_NextTarget opts else ''''),
               du_UpdatedAt := FormatTime g now\<rparr>\<rparr>)"

text \<open>What \<open>runTaskCheckpoint\<close> makes of \<open>task.json\<close> once the event is published.\<close>

definition project_checkpoint ::
  "golib \<Rightarrow> slice \<Rightarrow> checkpoint_options \<Rightarrow> gotime \<Rightarrow> string \<Rightarrow> string \<Rightarrow> string \<Rightarrow> manifest \<Rightarrow> manifest" where
  "project_checkpoint g target opts now checkpointID mdRel jsonRel m =
     applyTaskTargetCheckpointRefs g (sl_ID target) checkpointID mdRel jsonRel
       (applyTaskDurabilityReview g target opts now
         (applyTaskTargetState g (sl_ID target) (co_Stage opts) (co_Decision opts) now m))"

section \<open>What the projection keeps and what the log decides\<close>

text \<open>
  A place of a manifest that a target addresses, and what is projected there. Manifests of the
  same task agree in everything but projections and diagnostics.
\<close>

datatype place = Series | Slice nat

definition index_of :: "('a \<Rightarrow> bool) \<Rightarrow> 'a list \<Rightarrow> nat" where
  "index_of P xs = length (takeWhile (\<lambda>x. \<not> P x) xs)"

definition place_of :: "golib \<Rightarrow> manifest \<Rightarrow> string \<Rightarrow> place" where
  "place_of g m t = (if addresses_series g m t then Series else Slice (index_of (\<lambda>s. EqualFold g (sl_ID s) t) (tm_Slices m)))"

fun in_manifest :: "manifest \<Rightarrow> place \<Rightarrow> bool" where
  "in_manifest m Series = True"
| "in_manifest m (Slice n) = (n < length (tm_Slices m))"

fun projected :: "manifest \<Rightarrow> place \<Rightarrow> string \<times> string \<times> string \<times> string" where
  "projected m Series = (tm_Status m, tm_Decision m, tm_LatestCheckpointID m, tm_LatestCheckpointJSON m)"
| "projected m (Slice n) = (let s = tm_Slices m ! n in
     (sl_Stage s, sl_Decision s, sl_LatestCheckpointID s, sl_LatestCheckpointJSON s))"

definition bare_slice :: "slice \<Rightarrow> slice" where
  "bare_slice s = s\<lparr>sl_Stage := '''', sl_Decision := '''', sl_UpdatedAt := '''', sl_LatestCheckpointID := '''',
     sl_LatestCheckpoint := '''', sl_LatestCheckpointJSON := ''''\<rparr>"

definition bare :: "manifest \<Rightarrow> manifest" where
  "bare m = m\<lparr>tm_Status := '''', tm_Decision := '''', tm_UpdatedAt := '''', tm_LatestCheckpointID := '''', tm_LatestCheckpoint := '''',
     tm_LatestCheckpointJSON := '''', tm_Slices := map bare_slice (tm_Slices m),
     tm_Durability := \<lparr>du_Required = False, du_Disposition = '''', du_Artifacts = [], du_DeferredTarget = '''', du_UpdatedAt = ''''\<rparr>,
     tm_Diagnostics := [], tm_Conflicts := []\<rparr>"

definition same_task :: "manifest \<Rightarrow> manifest \<Rightarrow> bool" where
  "same_task m m' \<longleftrightarrow> bare m = bare m'"

lemma bare_fields:
  "tm_Series (bare m) = tm_Series m" "tm_Index (bare m) = tm_Index m" "tm_Slices (bare m) = map bare_slice (tm_Slices m)"
  by (simp_all add: bare_def)

lemma index_of_bare: "index_of (\<lambda>s. EqualFold g (sl_ID s) t) (map bare_slice xs) = index_of (\<lambda>s. EqualFold g (sl_ID s) t) xs"
  by (induction xs) (simp_all add: index_of_def bare_slice_def)

lemma addresses_bare: "addresses_series g (bare m) t = addresses_series g m t"
  by (simp add: addresses_series_def isTaskSeriesTarget_def bare_fields)

lemma place_of_bare: "place_of g (bare m) t = place_of g m t"
  by (simp add: place_of_def addresses_bare bare_fields index_of_bare)

lemma in_manifest_bare: "in_manifest (bare m) p = in_manifest m p"
  by (cases p) (simp_all add: bare_fields)

lemma same_task_place: "same_task m m' \<Longrightarrow> place_of g m t = place_of g m' t"
  unfolding same_task_def by (metis place_of_bare)

lemma same_task_in: "same_task m m' \<Longrightarrow> in_manifest m p = in_manifest m' p"
  unfolding same_task_def by (metis in_manifest_bare)

lemma length_update_first [simp]: "length (update_first P f xs) = length xs"
  by (induction xs) auto

lemma nth_update_first: "n < length xs \<Longrightarrow> update_first P f xs ! n = (if n = index_of P xs then f (xs ! n) else xs ! n)"
  by (induction xs arbitrary: n) (auto simp: index_of_def nth_Cons split: nat.splits)

lemma map_update_first: "(\<And>x. h (f x) = h x) \<Longrightarrow> map h (update_first P f xs) = map h xs"
  by (induction xs) auto

lemma bare_state [simp]: "bare (applyTaskTargetState g t st d now m) = bare m"
  by (simp add: applyTaskTargetState_def Let_def bare_def map_update_first bare_slice_def)

lemma bare_refs [simp]: "bare (applyTaskTargetCheckpointRefs g t i c j m) = bare m"
  by (simp add: applyTaskTargetCheckpointRefs_def Let_def bare_def map_update_first bare_slice_def)

lemma bare_rest [simp]:
  "bare (m\<lparr>tm_Diagnostics := ds\<rparr>) = bare m" "bare (m\<lparr>tm_Conflicts := cs\<rparr>) = bare m" "bare (m\<lparr>tm_UpdatedAt := u\<rparr>) = bare m"
  "bare (m\<lparr>tm_Durability := du\<rparr>) = bare m"
  by (simp_all add: bare_def)

lemma bare_durability [simp]: "bare (applyThreadDurabilityRecord g r u m) = bare m" "bare (applyTaskDurabilityReview g s co now m) = bare m"
  by (simp_all add: applyThreadDurabilityRecord_def applyTaskDurabilityReview_def Let_def)

lemma projected_rest [simp]:
  "projected (m\<lparr>tm_Diagnostics := ds\<rparr>) p = projected m p" "projected (m\<lparr>tm_Conflicts := cs\<rparr>) p = projected m p"
  "projected (m\<lparr>tm_UpdatedAt := u\<rparr>) p = projected m p" "projected (m\<lparr>tm_Durability := du\<rparr>) p = projected m p"
  by (cases p; simp)+

lemma projected_durability [simp]: "projected (applyThreadDurabilityRecord g r u m) p = projected m p"
  "projected (applyTaskDurabilityReview g s co now m) p = projected m p"
  by (simp_all add: applyThreadDurabilityRecord_def applyTaskDurabilityReview_def Let_def)

lemma addresses_rest [simp]:
  "addresses_series g (m\<lparr>tm_Slices := ss\<rparr>) t = addresses_series g m t"
  "addresses_series g (m\<lparr>tm_UpdatedAt := u\<rparr>) t = addresses_series g m t"
  "addresses_series g (m\<lparr>tm_Status := st\<rparr>) t = addresses_series g m t"
  "addresses_series g (m\<lparr>tm_Decision := d\<rparr>) t = addresses_series g m t"
  "addresses_series g (m\<lparr>tm_Diagnostics := ds\<rparr>) t = addresses_series g m t"
  by (simp_all add: addresses_series_def isTaskSeriesTarget_def)

lemma index_of_update_first: "(\<And>x. P (f x) = P x) \<Longrightarrow> index_of P (update_first P f xs) = index_of P xs"
  by (induction xs) (auto simp: index_of_def)

text \<open>An event with a stage and an identifier decides all that is projected at its place.\<close>

definition decides :: "task_event \<Rightarrow> string \<Rightarrow> string \<times> string \<times> string \<times> string" where
  "decides e jsonRel = (TrimSpace (ck_Stage (ev_Record e)), TrimSpace (ck_Decision (ev_Record e)),
     TrimSpace (ck_CheckpointID (ev_Record e)), TrimSpace jsonRel)"

definition staged_event :: "task_event \<Rightarrow> bool" where
  "staged_event e \<longleftrightarrow> TrimSpace (ck_Stage (ev_Record e)) \<noteq> '''' \<and> TrimSpace (ck_CheckpointID (ev_Record e)) \<noteq> ''''"

lemma projected_event:
  assumes "staged_event e" and "in_manifest m p"
  shows "projected (applyTaskTargetCheckpointRefs g t (ck_CheckpointID (ev_Record e)) md j
      (applyTaskTargetState g t (ck_Stage (ev_Record e)) (ck_Decision (ev_Record e)) now m)) p
    = (if p = place_of g m t then decides e j else projected m p)"
proof (cases "addresses_series g m t")
  case True
  then show ?thesis using assms(1)
    by (cases p) (simp_all add: applyTaskTargetCheckpointRefs_def Let_def applyTaskTargetState_def decides_def staged_event_def place_of_def)
next
  case False
  show ?thesis
  proof (cases p)
    case Series
    with False show ?thesis
      by (simp add: applyTaskTargetCheckpointRefs_def Let_def applyTaskTargetState_def place_of_def)
  next
    case (Slice n)
    with False assms show ?thesis
      by (simp add: applyTaskTargetCheckpointRefs_def Let_def applyTaskTargetState_def place_of_def nth_update_first
          staged_event_def decides_def index_of_update_first)
  qed
qed
text \<open>The specification: what stands at a place after the heads of all targets were applied in order.\<close>

fun settled :: "golib \<Rightarrow> string \<Rightarrow> manifest \<Rightarrow> task_event list list \<Rightarrow> place \<Rightarrow> string \<times> string \<times> string \<times> string
    \<Rightarrow> string \<times> string \<times> string \<times> string" where
  "settled g workspace m [] p v = v"
| "settled g workspace m (hs # hss) p v = settled g workspace m hss p (case hs of
       [e] \<Rightarrow> if p = place_of g m (event_target (ev_Record e)) then decides e (taskRelativePath workspace (ev_JSONPath e)) else v
     | _ \<Rightarrow> v)"

definition forks :: "task_event list list \<Rightarrow> (string \<times> string list) list" where
  "forks hss = map conflict_of (filter (\<lambda>hs. length hs \<noteq> 1) hss)"

definition records :: "golib \<Rightarrow> string \<Rightarrow> task_event list list \<Rightarrow> manifest \<Rightarrow> manifest \<Rightarrow> bool" where
  "records g workspace hss m m' \<longleftrightarrow> same_task m m'
     \<and> (\<forall>p. in_manifest m p \<longrightarrow> projected m' p = settled g workspace m hss p (projected m p))
     \<and> tm_Conflicts m' = tm_Conflicts m @ forks hss"

lemma settled_same: "same_task m m' \<Longrightarrow> settled g workspace m hss p v = settled g workspace m' hss p v"
  by (induction hss arbitrary: v) (auto simp: same_task_place[of m m'] split: list.splits)

lemma records_nil: "records g workspace [] m m"
  by (simp add: records_def forks_def same_task_def)

lemma records_cons:
  assumes "records g workspace [hs] m m1" and "records g workspace hss m1 m2"
  shows "records g workspace (hs # hss) m m2"
proof -
  have s: "same_task m m1" "same_task m1 m2" using assms by (simp_all add: records_def)
  have "projected m2 p = settled g workspace m (hs # hss) p (projected m p)" if "in_manifest m p" for p
  proof -
    have "in_manifest m1 p" using that same_task_in[OF s(1)] by blast
    with assms(2) have "projected m2 p = settled g workspace m1 hss p (projected m1 p)" by (simp add: records_def)
    moreover have "projected m1 p = settled g workspace m [hs] p (projected m p)" using assms(1) that by (simp add: records_def)
    ultimately show ?thesis using settled_same[OF s(1)] by simp
  qed
  with s assms show ?thesis by (auto simp: records_def same_task_def forks_def)
qed

lemma settled_decided:
  assumes "[e] \<in> set hss" and "p = place_of g m (event_target (ev_Record e))"
  shows "settled g workspace m hss p v = settled g workspace m hss p v'"
  using assms
proof (induction hss arbitrary: v v')
  case (Cons hs hss)
  then show ?case by (cases "hs = [e]") auto
qed simp

lemma apply_conflicts [simp]:
  "tm_Conflicts (applyTaskTargetState g t st d now m) = tm_Conflicts m"
  "tm_Conflicts (applyTaskTargetCheckpointRefs g t i c j m) = tm_Conflicts m"
  "tm_Conflicts (applyThreadDurabilityRecord g r u m) = tm_Conflicts m"
  "tm_Conflicts (diagnose_projection g r m) = tm_Conflicts m"
  by (simp_all add: applyTaskTargetState_def applyTaskTargetCheckpointRefs_def applyThreadDurabilityRecord_def
      diagnose_projection_def Let_def)

lemma bare_diagnose [simp]: "bare (diagnose_projection g r m) = bare m"
  by (simp add: diagnose_projection_def Let_def)

lemma projected_diagnose [simp]: "projected (diagnose_projection g r m) p = projected m p"
  by (simp add: diagnose_projection_def Let_def)

lemma place_diagnose [simp]: "place_of g (diagnose_projection g' r m) t = place_of g m t"
  by (metis bare_diagnose place_of_bare)

lemma in_manifest_diagnose [simp]: "in_manifest (diagnose_projection g r m) p = in_manifest m p"
  by (metis bare_diagnose in_manifest_bare)

lemma refs_diagnostics:
  "applyTaskTargetCheckpointRefs g t i c j (m\<lparr>tm_Diagnostics := ds\<rparr>) = (applyTaskTargetCheckpointRefs g t i c j m)\<lparr>tm_Diagnostics := ds\<rparr>"
  by (simp add: applyTaskTargetCheckpointRefs_def Let_def)

lemma reconcile_head_manifest:
  assumes "reconcile_head g exists workspace e rc = Inr rc'"
  obtains md ds where "rc_manifest rc' = (applyTaskTargetCheckpointRefs g (event_target (ev_Record e)) (ck_CheckpointID (ev_Record e)) md
      (taskRelativePath workspace (ev_JSONPath e))
      (applyTaskTargetState g (event_target (ev_Record e)) (ck_Stage (ev_Record e)) (ck_Decision (ev_Record e))
        (parseTaskCheckpointCreatedAt g (ck_CreatedAt (ev_Record e))) (diagnose_projection g (ev_Record e) (rc_manifest rc))))
      \<lparr>tm_Diagnostics := ds\<rparr>"
proof (cases "exists (ev_MarkdownPath e)")
  case None
  with assms show ?thesis by (simp add: reconcile_head_def Let_def)
next
  case (Some there)
  have same: "x = x\<lparr>tm_Diagnostics := tm_Diagnostics x\<rparr>" for x :: manifest by simp
  show ?thesis
  proof (cases there)
    case True
    with assms Some have "rc_manifest rc' = applyTaskTargetCheckpointRefs g (event_target (ev_Record e)) (ck_CheckpointID (ev_Record e))
      (taskRelativePath workspace (ev_MarkdownPath e)) (taskRelativePath workspace (ev_JSONPath e))
      (applyTaskTargetState g (event_target (ev_Record e)) (ck_Stage (ev_Record e)) (ck_Decision (ev_Record e))
        (parseTaskCheckpointCreatedAt g (ck_CreatedAt (ev_Record e))) (diagnose_projection g (ev_Record e) (rc_manifest rc)))"
      by (auto simp: reconcile_head_def Let_def)
    then show ?thesis by (rule that[OF trans[OF _ same]])
  next
    case False
    with assms Some show ?thesis by (intro that) (auto simp: reconcile_head_def Let_def refs_diagnostics)
  qed
qed

lemma reconcile_target_records:
  assumes "reconcile_target g exists workspace hs rc = Inr rc'" and "\<forall>e \<in> set hs. staged_event e"
  shows "records g workspace [hs] (rc_manifest rc) (rc_manifest rc')"
proof (cases "length hs = 1")
  case True
  then obtain e where hs: "hs = [e]" by (auto simp: length_Suc_conv)
  with assms(1) have "reconcile_head g exists workspace e rc = Inr rc'" by (simp add: reconcile_target_def)
  then obtain md ds where r: "rc_manifest rc' = (applyTaskTargetCheckpointRefs g (event_target (ev_Record e)) (ck_CheckpointID (ev_Record e)) md
      (taskRelativePath workspace (ev_JSONPath e))
      (applyTaskTargetState g (event_target (ev_Record e)) (ck_Stage (ev_Record e)) (ck_Decision (ev_Record e))
        (parseTaskCheckpointCreatedAt g (ck_CreatedAt (ev_Record e))) (diagnose_projection g (ev_Record e) (rc_manifest rc))))
      \<lparr>tm_Diagnostics := ds\<rparr>"
    by (rule reconcile_head_manifest)
  show ?thesis unfolding records_def r hs
    using assms(2) hs projected_event[of e "diagnose_projection g (ev_Record e) (rc_manifest rc)"]
    by (simp add: same_task_def forks_def)
next
  case False
  with assms(1) show ?thesis
    by (auto simp: reconcile_target_def reconcile_conflict_def records_def same_task_def forks_def split: list.splits)
qed

lemma reconcile_fold_records:
  assumes "foldE (reconcile_target g exists workspace) hss rc = Inr rc'" and "\<forall>hs \<in> set hss. \<forall>e \<in> set hs. staged_event e"
  shows "records g workspace hss (rc_manifest rc) (rc_manifest rc')"
  using assms
proof (induction hss arbitrary: rc)
  case (Cons hs hss)
  then obtain rc1 where "reconcile_target g exists workspace hs rc = Inr rc1" "foldE (reconcile_target g exists workspace) hss rc1 = Inr rc'"
    by auto
  with Cons show ?case by (metis list.set_intros records_cons reconcile_target_records)
qed (simp add: records_nil)

lemma reconcile_thread_records:
  assumes "\<forall>e \<in> set hs. staged_event e" and "hs \<noteq> []"
  shows "records g workspace [hs] m (reconcile_thread_target g workspace hs m)"
proof (cases "length hs = 1")
  case True
  then obtain e where hs: "hs = [e]" by (auto simp: length_Suc_conv)
  then show ?thesis using assms projected_event[of e m]
    by (auto simp: reconcile_thread_target_def Let_def records_def same_task_def forks_def)
next
  case False
  with assms(2) show ?thesis
    by (cases hs rule: remdups_adj.cases) (auto simp: reconcile_thread_target_def records_def same_task_def forks_def)
qed

lemma reconcile_thread_fold_records:
  assumes "\<forall>hs \<in> set hss. hs \<noteq> [] \<and> (\<forall>e \<in> set hs. staged_event e)"
  shows "records g workspace hss m (fold (reconcile_thread_target g workspace) hss m)"
  using assms
proof (induction hss arbitrary: m)
  case (Cons hs hss)
  then show ?case using records_cons[OF reconcile_thread_records] by simp
qed (simp add: records_nil)

lemma heads_in_order:
  assumes "resolveTaskCheckpointHeads g es = Inr res" and "hs \<in> set (target_heads_in_order res)"
  shows "hs \<noteq> []" "set hs \<subseteq> set es"
proof -
  from assms(2) obtain t where t: "t \<in> set (event_targets g es)" "hs = heads_of res t"
    using resolved(1)[OF assms(1)] by (auto simp: target_heads_in_order_def)
  then have ne: "events_for g t es \<noteq> []" "t \<noteq> ''''" by (auto simp: in_event_targets filter_empty_conv)
  note r = resolved_any[OF assms(1) ne(2)]
  show "hs \<noteq> []" using heads_nonempty[OF r] ne t by simp
  show "set hs \<subseteq> set es" using target_heads_ok(1)[OF r] t(2) by auto
qed

lemma task_reconciled:
  assumes "reconcileTaskManifestLifecycle g exists workspace es m = Inr r" and "es \<noteq> []" and "\<forall>e \<in> set es. staged_event e"
  obtains res where "resolveTaskCheckpointHeads g es = Inr res" "records g workspace (target_heads_in_order res) m r"
proof -
  from assms(1,2) obtain res rc where res: "resolveTaskCheckpointHeads g es = Inr res"
    and rc: "foldE (reconcile_target g exists workspace) (target_heads_in_order res)
       \<lparr>rc_manifest = m, rc_latest = ParseTime g (TrimSpace (tm_UpdatedAt m)), rc_text = tm_UpdatedAt m\<rparr> = Inr rc"
    and r: "r = (if rc_latest rc \<noteq> None then (rc_manifest rc)\<lparr>tm_UpdatedAt := rc_text rc\<rparr> else rc_manifest rc)"
    unfolding reconcileTaskManifestLifecycle_def by auto
  have "\<forall>hs \<in> set (target_heads_in_order res). \<forall>e \<in> set hs. staged_event e"
    using heads_in_order(2)[OF res] assms(3) by blast
  from reconcile_fold_records[OF rc this] have "records g workspace (target_heads_in_order res) m (rc_manifest rc)" by simp
  then have "records g workspace (target_heads_in_order res) m r" unfolding r by (auto simp: records_def same_task_def)
  with res show thesis by (rule that)
qed

lemma thread_reconciled:
  assumes "reconcileThreadTaskLifecycle g t = Inr r" and "\<forall>e \<in> set (ts_Events t). staged_event e"
  obtains res where "resolveTaskCheckpointHeads g (ts_Events t) = Inr res"
    "records g (ts_Workspace t) (target_heads_in_order res) ((ts_Manifest t)\<lparr>tm_Conflicts := [], tm_Diagnostics := []\<rparr>) r"
proof -
  from assms(1) obtain res where res: "resolveTaskCheckpointHeads g (ts_Events t) = Inr res"
    and r: "r = fold (reconcile_thread_target g (ts_Workspace t)) (target_heads_in_order res)
              ((ts_Manifest t)\<lparr>tm_Conflicts := [], tm_Diagnostics := []\<rparr>)"
    unfolding reconcileThreadTaskLifecycle_def by auto
  have "\<forall>hs \<in> set (target_heads_in_order res). hs \<noteq> [] \<and> (\<forall>e \<in> set hs. staged_event e)"
    using heads_in_order[OF res] assms(2) by blast
  from that[OF res] reconcile_thread_fold_records[OF this] show thesis unfolding r by blast
qed

lemma find_index_of: "List.find P xs = (if index_of P xs < length xs then Some (xs ! index_of P xs) else None)"
  by (induction xs) (auto simp: index_of_def)

lemma same_task_addresses: "same_task m m' \<Longrightarrow> addresses_series g m t = addresses_series g m' t"
  unfolding same_task_def by (metis addresses_bare)

lemma state_of_projected:
  assumes "same_task m r" and "same_task m r'"
    and "in_manifest m (place_of g m t) \<Longrightarrow> projected r (place_of g m t) = projected r' (place_of g m t)"
  shows "taskStateForTarget g r t = taskStateForTarget g r' t"
proof (cases "addresses_series g m t")
  case True
  with assms show ?thesis
    by (simp add: taskStateForTarget_def place_of_def same_task_addresses[OF assms(1), symmetric] same_task_addresses[OF assms(2), symmetric])
next
  case False
  let ?n = "index_of (\<lambda>s. EqualFold g (sl_ID s) t) (tm_Slices m)"
  have p: "place_of g m t = Slice ?n" using False by (simp add: place_of_def)
  have i: "index_of (\<lambda>s. EqualFold g (sl_ID s) t) (tm_Slices x) = ?n \<and> length (tm_Slices x) = length (tm_Slices m)"
    if "same_task m x" for x
  proof
    have b: "map bare_slice (tm_Slices x) = map bare_slice (tm_Slices m)" using that unfolding same_task_def by (metis bare_fields(3))
    then show "length (tm_Slices x) = length (tm_Slices m)" by (metis length_map)
    show "index_of (\<lambda>s. EqualFold g (sl_ID s) t) (tm_Slices x) = ?n" by (metis b index_of_bare)
  qed
  from assms(3) show ?thesis
    using False i[OF assms(1)] i[OF assms(2)] same_task_addresses[OF assms(1), of g t] same_task_addresses[OF assms(2), of g t]
    by (auto simp: taskStateForTarget_def find_slice_def find_index_of p Let_def)
qed

text \<open>
  C13: The two readers of a log agree: \<open>ds task\<close> and \<open>ds thread\<close> each replay the events with a loop of
  their own, and from one manifest and one log they get the same stage, decision and checkpoint
  for the series and for every slice, and the same conflicts.
\<close>

theorem reconcilers_agree:
  assumes "reconcileTaskManifestLifecycle g exists workspace es m = Inr r"
    and "reconcileThreadTaskLifecycle g \<lparr>ts_RepoAlias = a, ts_Workspace = workspace, ts_Manifest = m, ts_Events = es\<rparr> = Inr r'"
    and "es \<noteq> []" and "\<forall>e \<in> set es. staged_event e" and "tm_Conflicts m = []"
  shows "(\<forall>p. in_manifest m p \<longrightarrow> projected r p = projected r' p) \<and> tm_Conflicts r = tm_Conflicts r'"
proof -
  obtain res where a: "resolveTaskCheckpointHeads g es = Inr res" "records g workspace (target_heads_in_order res) m r"
    by (rule task_reconciled[OF assms(1,3,4)])
  obtain res' where b: "resolveTaskCheckpointHeads g es = Inr res'"
    "records g workspace (target_heads_in_order res') (m\<lparr>tm_Conflicts := [], tm_Diagnostics := []\<rparr>) r'"
    by (rule thread_reconciled[OF assms(2)]) (use assms(4) in auto)
  let ?m = "m\<lparr>tm_Conflicts := [], tm_Diagnostics := []\<rparr>"
  have s: "same_task m ?m" by (simp add: same_task_def)
  from a b have "res' = res" by simp
  with a(2) b(2) assms(5) same_task_in[OF s] settled_same[OF s] show ?thesis by (simp add: records_def)
qed

lemma durability_kept [simp]:
  "tm_Durability (applyTaskTargetState g t st d now m) = tm_Durability m"
  "tm_Durability (applyTaskTargetCheckpointRefs g t i c j m) = tm_Durability m"
  "tm_Durability (diagnose_projection g r m) = tm_Durability m"
  "tm_Durability (reconcile_conflict hs m) = tm_Durability m"
  by (simp_all add: applyTaskTargetState_def applyTaskTargetCheckpointRefs_def Let_def diagnose_projection_def reconcile_conflict_def)

lemma reconcile_keeps_durability:
  assumes "reconcileTaskManifestLifecycle g exists workspace es m = Inr r"
  shows "tm_Durability r = tm_Durability m"
proof (cases "es = []")
  case False
  with assms obtain res rc where f: "foldE (reconcile_target g exists workspace) (target_heads_in_order res)
      \<lparr>rc_manifest = m, rc_latest = ParseTime g (TrimSpace (tm_UpdatedAt m)), rc_text = tm_UpdatedAt m\<rparr> = Inr rc"
    and r: "r = (if rc_latest rc \<noteq> None then (rc_manifest rc)\<lparr>tm_UpdatedAt := rc_text rc\<rparr> else rc_manifest rc)"
    unfolding reconcileTaskManifestLifecycle_def bindE_Inr_iff by (auto simp: bindE_Inr_iff)
  from f have "tm_Durability (rc_manifest rc) = tm_Durability m"
    by (rule foldE_invariant[where I = "\<lambda>rc. tm_Durability (rc_manifest rc) = tm_Durability m"])
      (auto simp: reconcile_target_def reconcile_head_def Let_def split: if_splits option.splits)
  with r show ?thesis by simp
qed (use assms in \<open>simp add: reconcileTaskManifestLifecycle_def\<close>)

text \<open>A checkpoint changes the projection of its own target only.\<close>

lemma projected_elsewhere:
  assumes "p \<noteq> place_of g m t" and "in_manifest m p"
  shows "projected (applyTaskTargetState g t st d now m) p = projected m p"
    and "projected (applyTaskTargetCheckpointRefs g t i c j m) p = projected m p"
  using assms
  by (cases p; simp add: applyTaskTargetCheckpointRefs_def applyTaskTargetState_def Let_def place_of_def nth_update_first split: if_splits)+

lemma project_checkpoint_elsewhere:
  assumes "p \<noteq> place_of g m (sl_ID target)" and "in_manifest m p"
  shows "projected (project_checkpoint g target opts now i mdRel jsonRel m) p = projected m p"
proof -
  let ?s = "applyTaskTargetState g (sl_ID target) (co_Stage opts) (co_Decision opts) now m"
  let ?m = "applyTaskDurabilityReview g target opts now ?s"
  have "place_of g ?m (sl_ID target) = place_of g m (sl_ID target)" "in_manifest ?m p"
    using assms(2) by (metis bare_state bare_durability(2) place_of_bare, metis bare_state bare_durability(2) in_manifest_bare)
  then show ?thesis using assms by (simp add: project_checkpoint_def projected_elsewhere)
qed

lemma project_checkpoint_durability:
  "tm_Durability (project_checkpoint g target opts now i mdRel jsonRel m) = tm_Durability (applyTaskDurabilityReview g target opts now m)"
  by (simp add: project_checkpoint_def applyTaskDurabilityReview_def)

text \<open>
  C22: What a checkpoint leaves whose process died between publishing its event and writing \<open>task.json\<close>.
  Its event is the only head of its target. Read with the log, the old \<open>task.json\<close> and the one
  that was not written give the same stage, decision, checkpoint ID and record path for the series and for every
  slice, the same slices, and the same conflicts. The disposition of the durable records is the
  exception: it stays what it was in \<open>task.json\<close>, while the checkpoint would have set it.
\<close>

theorem interrupted_checkpoint_recovers:
  assumes "reconcileTaskManifestLifecycle g exists workspace es m = Inr r"
    and "reconcileTaskManifestLifecycle g exists workspace es (project_checkpoint g target opts now i mdRel jsonRel m) = Inr r'"
    and "resolveTaskCheckpointHeads g es = Inr res" and "(t, [e]) \<in> set res" and "event_target (ev_Record e) = sl_ID target"
    and "\<forall>e \<in> set es. staged_event e"
  shows "(\<forall>p. in_manifest m p \<longrightarrow> projected r p = projected r' p) \<and> same_task r r' \<and> tm_Conflicts r = tm_Conflicts r'
    \<and> tm_Durability r = tm_Durability m \<and> tm_Durability r' = tm_Durability (applyTaskDurabilityReview g target opts now m)"
proof -
  let ?m' = "project_checkpoint g target opts now i mdRel jsonRel m" and ?t = "sl_ID target"
  have ts: "t \<in> set (event_targets g es)" using assms(4) unfolding resolved(1)[OF assms(3), symmetric] by force
  then have es: "es \<noteq> []" by (auto simp: in_event_targets)
  have "distinct (map fst res)" using resolved(1)[OF assms(3)] by (simp add: event_targets_def)
  with assms(4) have "heads_of res t = [e]" by (simp add: heads_of_def)
  with ts have hss: "[e] \<in> set (target_heads_in_order res)" unfolding target_heads_in_order_def resolved(1)[OF assms(3)]
    by (force simp: image_iff)
  have s: "same_task m ?m'" by (simp add: same_task_def project_checkpoint_def)
  have c: "tm_Conflicts ?m' = tm_Conflicts m" by (simp add: project_checkpoint_def applyTaskDurabilityReview_def)
  have a: "records g workspace (target_heads_in_order res) m r"
    by (rule task_reconciled[OF assms(1) es assms(6)]) (use assms(3) in simp)
  have b: "records g workspace (target_heads_in_order res) ?m' r'"
    by (rule task_reconciled[OF assms(2) es assms(6)]) (use assms(3) in simp)
  have "projected r p = projected r' p" if p: "in_manifest m p" for p
  proof (cases "p = place_of g m ?t")
    case True
    show ?thesis
      using a b p same_task_in[OF s] settled_same[OF s] settled_decided[OF hss True[folded assms(5)]] by (auto simp: records_def)
  next
    case False
    from project_checkpoint_elsewhere[OF this p] show ?thesis
      using a b p same_task_in[OF s] settled_same[OF s] by (simp add: records_def)
  qed
  moreover from a b s have "same_task r r'" by (auto simp: records_def same_task_def)
  ultimately show ?thesis
    using a b c reconcile_keeps_durability[OF assms(1)] reconcile_keeps_durability[OF assms(2)]
    by (simp add: records_def project_checkpoint_durability)
qed

section \<open>An example\<close>

definition demo_slice :: "string \<Rightarrow> string \<Rightarrow> string \<Rightarrow> slice" where
  "demo_slice i stage decision = \<lparr>sl_ID = i, sl_Title = '''', sl_Plan = '''', sl_Result = '''', sl_Kind = '''',
     sl_ParentID = '''', sl_Reason = '''', sl_Stage = stage, sl_Decision = decision, sl_UpdatedAt = '''', sl_LatestCheckpointID = '''',
     sl_LatestCheckpoint = '''', sl_LatestCheckpointJSON = ''''\<rparr>"

definition demo_manifest :: "slice list \<Rightarrow> manifest" where
  "demo_manifest ss = \<lparr>tm_TaskID = ''T'', tm_Series = ''A'', tm_WorkspaceID = '''', tm_ParentChange = '''', tm_RepoAlias = '''',
     tm_Status = '''', tm_Decision = '''', tm_UpdatedAt = ''t'', tm_LatestCheckpointID = '''', tm_LatestCheckpoint = '''',
     tm_LatestCheckpointJSON = '''', tm_ArtifactSeries = ''A'', tm_Index = ''i'', tm_FirstSlice = '''', tm_Result = '''', tm_Slices = ss,
     tm_Durability = \<lparr>du_Required = True, du_Disposition = '''', du_Artifacts = [], du_DeferredTarget = '''', du_UpdatedAt = ''''\<rparr>,
     tm_Diagnostics = [], tm_Conflicts = []\<rparr>"

definition demo_task :: manifest where
  "demo_task = demo_manifest [demo_slice ''A01'' ''packed'' '''', demo_slice ''A02'' ''packed'' '''']"

definition demo_log :: "task_event list" where
  "demo_log = [demo_first, demo_second, demo_checkpoint ''c4'' [] ''A02'' ''started'' '''' '''']"

definition demo_reconciled :: "manifest \<Rightarrow> manifest" where
  "demo_reconciled m = (case reconcileTaskManifestLifecycle demo_golib (\<lambda>_. Some True) ''/w'' demo_log m of Inr r \<Rightarrow> r | Inl _ \<Rightarrow> m)"

lemma demo_reconciled_Inr:
  assumes "\<not> isl (reconcileTaskManifestLifecycle demo_golib (\<lambda>_. Some True) ''/w'' demo_log m)"
  shows "reconcileTaskManifestLifecycle demo_golib (\<lambda>_. Some True) ''/w'' demo_log m = Inr (demo_reconciled m)"
  using assms by (auto simp: demo_reconciled_def split: sum.splits)

definition demo_started :: manifest where
  "demo_started = project_checkpoint demo_golib (demo_slice ''A02'' ''packed'' '''') \<lparr>co_Stage = ''started'', co_Decision = '''',
     co_DurableRecord = '''', co_DurableArtifacts = [], co_NextTarget = ''''\<rparr> \<lparr>unix_nanos = 2, zone_offset = 0\<rparr> ''c4'' ''c4.md'' ''c4.json'' demo_task"

theorem reconcilers_agree_witness:
  "projected (demo_reconciled demo_task) (Slice 0) = (''done'', ''promote'', ''c2'', ''c2'')
    \<and> (\<exists>r'. reconcileThreadTaskLifecycle demo_golib \<lparr>ts_RepoAlias = '''', ts_Workspace = ''/w'', ts_Manifest = demo_task, ts_Events = demo_log\<rparr> = Inr r'
        \<and> projected (demo_reconciled demo_task) (Slice 0) = projected r' (Slice 0))"
proof -
  have v: "projected (demo_reconciled demo_task) (Slice 0) = (''done'', ''promote'', ''c2'', ''c2'')" by code_simp
  have r: "reconcileTaskManifestLifecycle demo_golib (\<lambda>_. Some True) ''/w'' demo_log demo_task = Inr (demo_reconciled demo_task)"
    by (rule demo_reconciled_Inr) code_simp
  have "\<not> isl (reconcileThreadTaskLifecycle demo_golib \<lparr>ts_RepoAlias = '''', ts_Workspace = ''/w'', ts_Manifest = demo_task, ts_Events = demo_log\<rparr>)"
    by code_simp
  then obtain r' where t: "reconcileThreadTaskLifecycle demo_golib \<lparr>ts_RepoAlias = '''', ts_Workspace = ''/w'', ts_Manifest = demo_task, ts_Events = demo_log\<rparr> = Inr r'"
    by (metis isl_def sum.exhaust_sel)
  have h: "demo_log \<noteq> []" "\<forall>e \<in> set demo_log. staged_event e" "tm_Conflicts demo_task = []" "in_manifest demo_task (Slice 0)" by code_simp+
  from reconcilers_agree[OF r t h(1,2,3)] h(4) t v show ?thesis by blast
qed

theorem interrupted_checkpoint_recovers_witness:
  "projected (demo_reconciled demo_task) (Slice 1) = (''started'', '''', ''c4'', ''c4'')
    \<and> projected (demo_reconciled demo_started) (Slice 1) = (''started'', '''', ''c4'', ''c4'')
    \<and> projected (demo_reconciled demo_task) (Slice 0) = projected (demo_reconciled demo_started) (Slice 0)
    \<and> same_task (demo_reconciled demo_task) (demo_reconciled demo_started)"
proof -
  let ?e = "demo_checkpoint ''c4'' [] ''A02'' ''started'' '''' ''''"
  have v: "projected (demo_reconciled demo_task) (Slice 1) = (''started'', '''', ''c4'', ''c4'')" by code_simp
  have a: "reconcileTaskManifestLifecycle demo_golib (\<lambda>_. Some True) ''/w'' demo_log demo_task = Inr (demo_reconciled demo_task)"
    by (rule demo_reconciled_Inr) code_simp
  have b: "reconcileTaskManifestLifecycle demo_golib (\<lambda>_. Some True) ''/w'' demo_log demo_started = Inr (demo_reconciled demo_started)"
    by (rule demo_reconciled_Inr) code_simp
  have c: "resolveTaskCheckpointHeads demo_golib demo_log = Inr [(''a01'', [demo_second]), (''a02'', [?e])]" by code_simp
  have d: "\<forall>e \<in> set demo_log. staged_event e" by code_simp
  have e: "event_target (ev_Record ?e) = sl_ID (demo_slice ''A02'' ''packed'' '''')" by code_simp
  have i: "(''a02'', [?e]) \<in> set [(''a01'', [demo_second]), (''a02'', [?e])]" by simp
  have p: "in_manifest demo_task (Slice 0)" "in_manifest demo_task (Slice 1)" by (simp_all add: demo_task_def demo_manifest_def)
  from interrupted_checkpoint_recovers[OF a b[unfolded demo_started_def] c i e d, folded demo_started_def]
  have q: "\<forall>p. in_manifest demo_task p \<longrightarrow> projected (demo_reconciled demo_task) p = projected (demo_reconciled demo_started) p"
    and t: "same_task (demo_reconciled demo_task) (demo_reconciled demo_started)" by blast+
  from q p have "projected (demo_reconciled demo_task) (Slice 0) = projected (demo_reconciled demo_started) (Slice 0)"
    "projected (demo_reconciled demo_task) (Slice 1) = projected (demo_reconciled demo_started) (Slice 1)" by blast+
  with v t show ?thesis by metis
qed

end
