(* ===== verification/Locks.thy ===== *)
theory Locks
  imports Checkpoints "HOL-Library.Multiset"
begin

text \<open>
  The mutation locks of task workspaces (\<open>internal/commands/task_checkpoint_state.go\<close>): a file lock
  per workspace identity, and the acquisition of several of them by commands that change a graph
  over several workspaces. Commands wait for each other; the locks are taken in the order of
  the identities, so they never wait in a circle.
\<close>

section \<open>Identities\<close>

text \<open>\<open>filepath.Abs\<close>, \<open>filepath.Clean\<close>, \<open>filepath.EvalSymlinks\<close>, and whether names ignore case.\<close>

record paths =
  AbsPath :: "string \<Rightarrow> string option"
  CleanPath :: "string \<Rightarrow> string"
  EvalSymlinks :: "string \<Rightarrow> string option"
  on_windows :: bool

definition taskMutationIdentity :: "golib \<Rightarrow> paths \<Rightarrow> string \<Rightarrow> string option" where
  "taskMutationIdentity g fs workspace = (case AbsPath fs workspace of
     None \<Rightarrow> None
   | Some absolute \<Rightarrow>
      (let identity = CleanPath fs absolute;
           identity = (case EvalSymlinks fs identity of Some r \<Rightarrow> CleanPath fs r | None \<Rightarrow> identity)
       in Some (if on_windows fs then ToLower g identity else identity)))"

text \<open>The identities of a call, each once and in order.\<close>

fun collect_identities :: "(string \<Rightarrow> string option) \<Rightarrow> string list \<Rightarrow> string list \<Rightarrow> string list option" where
  "collect_identities ident seen [] = Some (rev seen)"
| "collect_identities ident seen (w # ws) = (case ident w of
     None \<Rightarrow> None
   | Some i \<Rightarrow> collect_identities ident (if i \<in> set seen then seen else i # seen) ws)"

definition lock_order :: "golib \<Rightarrow> paths \<Rightarrow> string list \<Rightarrow> string list option" where
  "lock_order g fs workspaces = (case collect_identities (taskMutationIdentity g fs) [] workspaces of
     None \<Rightarrow> None | Some is \<Rightarrow> Some (sort is))"

lemma collect_distinct: "collect_identities ident seen ws = Some is \<Longrightarrow> distinct seen \<Longrightarrow> distinct is"
  by (induction ws arbitrary: seen) (auto split: option.splits if_splits)

lemma lock_order_sorted: "lock_order g fs ws = Some is \<Longrightarrow> sorted is \<and> distinct is"
  by (auto simp: lock_order_def dest!: collect_distinct split: option.splits)

lemma collect_covers:
  "collect_identities ident seen ws = Some is \<Longrightarrow> set is = set seen \<union> {i. \<exists>w \<in> set ws. ident w = Some i}"
  by (induction ws arbitrary: seen) (auto split: option.splits if_splits)

section \<open>Commands and their locks\<close>

text \<open>
  A command: the locks it still has to take, and the locks it holds, the last one first.
  \<open>acquire\<close> is one turn of the loop of \<open>acquireTaskMutations\<close>; \<open>release\<close> is one of
  \<open>taskMutationLeaseSet.Release\<close>, which goes backwards; \<open>give_up\<close> is a cancelled wait, after which
  only releases follow.
\<close>

record command =
  waits :: "string list"
  holds :: "string list"

definition start_command :: "string list \<Rightarrow> command" where
  "start_command is = \<lparr>waits = is, holds = []\<rparr>"

definition finished :: "command \<Rightarrow> bool" where
  "finished c \<longleftrightarrow> waits c = [] \<and> holds c = []"

definition held :: "command list \<Rightarrow> string \<Rightarrow> bool" where
  "held cs x \<longleftrightarrow> (\<exists>c \<in> set cs. x \<in> set (holds c))"

inductive lock_step :: "command list \<Rightarrow> command list \<Rightarrow> bool" where
  acquire: "n < length cs \<Longrightarrow> waits (cs ! n) = x # xs \<Longrightarrow> \<not> held cs x
    \<Longrightarrow> lock_step cs (cs[n := \<lparr>waits = xs, holds = x # holds (cs ! n)\<rparr>])"
| release: "n < length cs \<Longrightarrow> waits (cs ! n) = [] \<Longrightarrow> holds (cs ! n) = x # xs
    \<Longrightarrow> lock_step cs (cs[n := \<lparr>waits = [], holds = xs\<rparr>])"
| give_up: "n < length cs \<Longrightarrow> waits (cs ! n) \<noteq> []
    \<Longrightarrow> lock_step cs (cs[n := \<lparr>waits = [], holds = holds (cs ! n)\<rparr>])"

text \<open>A step in which nobody gives up.\<close>

definition goes_on :: "command list \<Rightarrow> bool" where
  "goes_on cs \<longleftrightarrow> (\<exists>n < length cs. (\<exists>x xs. waits (cs ! n) = x # xs \<and> \<not> held cs x)
     \<or> (waits (cs ! n) = [] \<and> holds (cs ! n) \<noteq> []))"

definition ordered :: "command \<Rightarrow> bool" where
  "ordered c \<longleftrightarrow> sorted (rev (holds c) @ waits c) \<and> distinct (rev (holds c) @ waits c)"

definition exclusive :: "command list \<Rightarrow> bool" where
  "exclusive cs \<longleftrightarrow> (\<forall>n < length cs. \<forall>m < length cs. n \<noteq> m \<longrightarrow> set (holds (cs ! n)) \<inter> set (holds (cs ! m)) = {})"

lemma ordered_tail: "ordered \<lparr>waits = [], holds = x # hs\<rparr> \<Longrightarrow> ordered \<lparr>waits = [], holds = hs\<rparr>"
  by (auto simp: ordered_def sorted_append)

lemma exclusive_update:
  assumes "exclusive cs" and "n < length cs"
    and "\<And>y m. y \<in> set (holds c) \<Longrightarrow> y \<notin> set (holds (cs ! n)) \<Longrightarrow> m < length cs \<Longrightarrow> m \<noteq> n \<Longrightarrow> y \<notin> set (holds (cs ! m))"
  shows "exclusive (cs[n := c])"
proof -
  have one: "set (holds c) \<inter> set (holds (cs ! m)) = {}" if "m < length cs" "m \<noteq> n" for m
  proof (rule ccontr)
    assume "set (holds c) \<inter> set (holds (cs ! m)) \<noteq> {}"
    then obtain y where y: "y \<in> set (holds c)" "y \<in> set (holds (cs ! m))" by blast
    show False
    proof (cases "y \<in> set (holds (cs ! n))")
      case True
      have "set (holds (cs ! n)) \<inter> set (holds (cs ! m)) = {}"
        using assms(1,2) that unfolding exclusive_def by metis
      with True y(2) show False by blast
    qed (use assms(3)[OF y(1) _ that] y(2) in blast)
  qed
  show ?thesis unfolding exclusive_def
  proof (intro allI impI)
    fix a b assume ab: "a < length (cs[n := c])" "b < length (cs[n := c])" "a \<noteq> b"
    consider "a = n" | "b = n" | "a \<noteq> n" "b \<noteq> n" by blast
    then show "set (holds (cs[n := c] ! a)) \<inter> set (holds (cs[n := c] ! b)) = {}"
    proof cases
      case 1
      then show ?thesis using ab one[of b] by simp
    next
      case 2
      then show ?thesis using ab one[of a] by (simp add: Int_commute)
    next
      case 3
      have "set (holds (cs ! a)) \<inter> set (holds (cs ! b)) = {}"
        using assms(1) ab unfolding exclusive_def by (metis length_list_update)
      with 3 show ?thesis by simp
    qed
  qed
qed

lemma ordered_update: "list_all ordered cs \<Longrightarrow> ordered c \<Longrightarrow> list_all ordered (cs[n := c])"
  by (auto simp: list_all_iff dest: set_update_subset_insert[THEN subsetD])

lemma lock_step_keeps:
  assumes "lock_step cs cs'" and "list_all ordered cs" and "exclusive cs"
  shows "list_all ordered cs' \<and> exclusive cs' \<and> length cs' = length cs"
  using assms(1)
proof cases
  case (acquire n x xs)
  have "ordered (cs ! n)" using assms(2) acquire(2) by (simp add: list_all_length)
  then have "ordered \<lparr>waits = xs, holds = x # holds (cs ! n)\<rparr>" using acquire(3) by (simp add: ordered_def)
  moreover have "exclusive cs'" unfolding acquire(1)
    by (rule exclusive_update[OF assms(3) acquire(2)]) (use acquire(4) in \<open>auto simp: held_def\<close>)
  ultimately show ?thesis using acquire(1) ordered_update[OF assms(2)] by simp
next
  case (release n x xs)
  have "ordered (cs ! n)" using assms(2) release(2) by (simp add: list_all_length)
  then have "ordered \<lparr>waits = [], holds = xs\<rparr>" using release(3,4) by (auto simp: ordered_def sorted_append)
  moreover have "exclusive cs'" unfolding release(1)
    by (rule exclusive_update[OF assms(3) release(2)]) (use release(4) in auto)
  ultimately show ?thesis using release(1) ordered_update[OF assms(2)] by simp
next
  case (give_up n)
  have "ordered (cs ! n)" using assms(2) give_up(2) by (simp add: list_all_length)
  then have "ordered \<lparr>waits = [], holds = holds (cs ! n)\<rparr>" by (auto simp: ordered_def sorted_append)
  moreover have "exclusive cs'" unfolding give_up(1)
    by (rule exclusive_update[OF assms(3) give_up(2)]) auto
  ultimately show ?thesis using give_up(1) ordered_update[OF assms(2)] by simp
qed

lemma nobody_stuck:
  assumes "list_all ordered cs" and "\<not> list_all finished cs"
  shows "goes_on cs"
proof (rule ccontr)
  assume no: "\<not> goes_on cs"
  let ?first = "\<lambda>c. hd (waits c)" and ?W = "{c \<in> set cs. waits c \<noteq> []}"
  from assms(2) obtain c where "c \<in> set cs" "\<not> finished c" by (auto simp: list_all_iff)
  with no have "?W \<noteq> {}" by (force simp: goes_on_def finished_def in_set_conv_nth)
  moreover have "finite ?W" by simp
  ultimately have "Max (?first ` ?W) \<in> ?first ` ?W" by (intro Max_in) auto
  then obtain c where c: "c \<in> ?W" and m: "?first c = Max (?first ` ?W)" by auto
  have top: "?first d \<le> ?first c" if "d \<in> ?W" for d unfolding m by (rule Max_ge) (use that in auto)
  obtain x xs where x: "waits c = x # xs" using c by (cases "waits c") auto
  with c no have "held cs x" by (auto simp: goes_on_def in_set_conv_nth)
  then obtain d where d: "d \<in> set cs" "x \<in> set (holds d)" by (auto simp: held_def)
  with no have "waits d \<noteq> []" by (force simp: goes_on_def in_set_conv_nth)
  then obtain y ys where y: "waits d = y # ys" by (cases "waits d") auto
  have "ordered d" using assms(1) d(1) by (simp add: list_all_iff)
  with d(2) y have "x < y" by (auto simp: ordered_def sorted_append order_less_le)
  moreover have "y \<le> x" using top[of d] d(1) x y by simp
  ultimately show False by simp
qed

lemma goes_on_step: "goes_on cs \<Longrightarrow> \<exists>cs'. lock_step cs cs'"
  by (auto simp: goes_on_def neq_Nil_conv intro: lock_step.intros)

text \<open>Every step brings the commands closer to their end.\<close>

definition to_do :: "command list \<Rightarrow> nat" where
  "to_do cs = (\<Sum>c \<leftarrow> cs. 2 * length (waits c) + length (holds c))"

lemma to_do_update:
  assumes "n < length cs"
  shows "to_do (cs[n := c]) + (2 * length (waits (cs ! n)) + length (holds (cs ! n)))
    = to_do cs + (2 * length (waits c) + length (holds c))"
  using assms
proof (induction cs arbitrary: n)
  case (Cons a cs)
  then show ?case by (cases n) (auto simp: to_do_def)
qed simp

lemma lock_step_decreases: "lock_step cs cs' \<Longrightarrow> to_do cs' < to_do cs"
proof (erule lock_step.cases)
  fix n ds x xs assume "cs = ds" "cs' = ds[n := \<lparr>waits = xs, holds = x # holds (ds ! n)\<rparr>]" "n < length ds" "waits (ds ! n) = x # xs"
  then show ?thesis using to_do_update[of n ds "\<lparr>waits = xs, holds = x # holds (ds ! n)\<rparr>"] by simp
next
  fix n ds x xs assume "cs = ds" "cs' = ds[n := \<lparr>waits = [], holds = xs\<rparr>]" "n < length ds" "waits (ds ! n) = []" "holds (ds ! n) = x # xs"
  then show ?thesis using to_do_update[of n ds "\<lparr>waits = [], holds = xs\<rparr>"] by simp
next
  fix n ds assume "cs = ds" "cs' = ds[n := \<lparr>waits = [], holds = holds (ds ! n)\<rparr>]" "n < length ds" "waits (ds ! n) \<noteq> []"
  then show ?thesis using to_do_update[of n ds "\<lparr>waits = [], holds = holds (ds ! n)\<rparr>"] by (cases "waits (ds ! n)") simp_all
qed

lemma lock_run_keeps:
  assumes "lock_step\<^sup>*\<^sup>* cs cs'" and "list_all ordered cs" and "exclusive cs"
  shows "list_all ordered cs' \<and> exclusive cs'"
  using assms by (induction rule: rtranclp_induct) (use lock_step_keeps in blast)+

lemma started:
  assumes "list_all2 (\<lambda>ws c. \<exists>is. lock_order g fs ws = Some is \<and> c = start_command is) wss cs"
  shows "list_all ordered cs" "exclusive cs"
proof -
  have "ordered c" if "c \<in> set cs" for c
    using assms that by (fastforce simp: list_all2_conv_all_nth in_set_conv_nth start_command_def ordered_def dest: lock_order_sorted)
  then show "list_all ordered cs" by (simp add: list_all_iff)
  have "holds c = []" if "c \<in> set cs" for c
    using assms that by (fastforce simp: list_all2_conv_all_nth in_set_conv_nth start_command_def)
  then show "exclusive cs" by (simp add: exclusive_def)
qed

text \<open>
  C7: Any commands that take the mutation locks of any workspaces, interleaved in any way: no two
  hold the lock of one workspace, as long as one of them is not finished some command can take
  or release a lock without anybody giving up, and every step uses up part of a bounded amount
  of work, so all commands finish.
\<close>

theorem mutation_locks_never_deadlock:
  assumes "list_all2 (\<lambda>ws c. \<exists>is. lock_order g fs ws = Some is \<and> c = start_command is) wss cs"
    and "lock_step\<^sup>*\<^sup>* cs cs'"
  shows "exclusive cs' \<and> (list_all finished cs' \<or> goes_on cs') \<and> (\<forall>cs''. lock_step cs' cs'' \<longrightarrow> to_do cs'' < to_do cs')"
  using lock_run_keeps[OF assms(2) started[OF assms(1)]] nobody_stuck lock_step_decreases by blast

definition demo_paths :: paths where
  "demo_paths = \<lparr>AbsPath = Some, CleanPath = (\<lambda>p. p), EvalSymlinks = Some, on_windows = False\<rparr>"

text \<open>Two commands that name the same two workspaces in opposite orders; the first takes one lock.\<close>

theorem mutation_locks_never_deadlock_witness:
  "exclusive [\<lparr>waits = [''/b''], holds = [''/a'']\<rparr>, start_command [''/a'', ''/b'']]
    \<and> goes_on [\<lparr>waits = [''/b''], holds = [''/a'']\<rparr>, start_command [''/a'', ''/b'']]"
proof -
  have a: "list_all2 (\<lambda>ws c. \<exists>is. lock_order demo_golib demo_paths ws = Some is \<and> c = start_command is)
      [[''/a'', ''/b''], [''/b'', ''/a'']] [start_command [''/a'', ''/b''], start_command [''/a'', ''/b'']]"
  proof -
    have "lock_order demo_golib demo_paths [''/a'', ''/b''] = Some [''/a'', ''/b'']"
      "lock_order demo_golib demo_paths [''/b'', ''/a''] = Some [''/a'', ''/b'']" by code_simp+
    then show ?thesis by simp
  qed
  have "lock_step [start_command [''/a'', ''/b''], start_command [''/a'', ''/b'']]
      ([start_command [''/a'', ''/b''], start_command [''/a'', ''/b'']]
        [0 := \<lparr>waits = [''/b''], holds = ''/a'' # holds ([start_command [''/a'', ''/b''], start_command [''/a'', ''/b'']] ! 0)\<rparr>])"
    by (rule lock_step.acquire) (simp_all add: start_command_def held_def)
  then have "lock_step\<^sup>*\<^sup>* [start_command [''/a'', ''/b''], start_command [''/a'', ''/b'']]
      [\<lparr>waits = [''/b''], holds = [''/a'']\<rparr>, start_command [''/a'', ''/b'']]"
    by (intro r_into_rtranclp) (simp add: start_command_def)
  from mutation_locks_never_deadlock[OF a this] show ?thesis
    by (simp add: finished_def)
qed

end
