(* ===== verification/Progress.thy ===== *)
theory Progress
  imports Tasks Locks "HOL-Library.Word"
begin

text \<open>
  Which target of a task comes next (\<open>internal/commands/task.go\<close>): base slices in the order of the
  manifest, each with its follow-ups in the order of their ordinals, behind gates that only a
  promoting decision opens; and the commands that change the list of slices.
\<close>

section \<open>Slices and their names\<close>

definition firstTaskSliceArtifact :: "golib \<Rightarrow> manifest \<Rightarrow> slice" where
  "firstTaskSliceArtifact g m = (case tm_Slices m of
     s # _ \<Rightarrow> s
   | [] \<Rightarrow> \<lparr>sl_ID = defaultTaskSeries g (tm_ArtifactSeries m) @ ''01'', sl_Title = ''First slice'', sl_Plan = tm_FirstSlice m,
            sl_Result = tm_Result m, sl_Kind = '''', sl_ParentID = '''', sl_Reason = '''', sl_Stage = '''', sl_Decision = '''',
            sl_UpdatedAt = '''', sl_LatestCheckpointID = '''', sl_LatestCheckpoint = '''', sl_LatestCheckpointJSON = ''''\<rparr>)"

definition taskSyncSlices :: "golib \<Rightarrow> manifest \<Rightarrow> slice list" where
  "taskSyncSlices g m =
     (if tm_Slices m \<noteq> [] then tm_Slices m
      else let first = firstTaskSliceArtifact g m in
        if sl_Plan first = '''' \<and> sl_Result first = '''' then [] else [first])"

definition taskSeriesCloseoutTarget :: "golib \<Rightarrow> manifest \<Rightarrow> slice" where
  "taskSeriesCloseoutTarget g m = \<lparr>sl_ID = defaultTaskSeries g (tm_Series m) @ ''00'',
     sl_Title = ''Review durable records and close the task track'', sl_Plan = tm_Index m, sl_Result = tm_Index m,
     sl_Kind = ''closeout'', sl_ParentID = '''', sl_Reason = '''', sl_Stage = tm_Status m, sl_Decision = tm_Decision m,
     sl_UpdatedAt = tm_UpdatedAt m, sl_LatestCheckpointID = tm_LatestCheckpointID m,
     sl_LatestCheckpoint = tm_LatestCheckpoint m, sl_LatestCheckpointJSON = tm_LatestCheckpointJSON m\<rparr>"

definition trim_dashes :: "string \<Rightarrow> string" where
  "trim_dashes = trim_by (\<lambda>c. c = CHR ''-'')"

fun filename_words :: "golib \<Rightarrow> bool \<Rightarrow> seg list \<Rightarrow> string" where
  "filename_words g dash [] = ''''"
| "filename_words g dash (sg # sgs) =
     (if IsLetter g (seg_rune sg) \<or> IsDigit g (seg_rune sg) then seg_bytes sg @ filename_words g False sgs
      else if dash then filename_words g True sgs
      else ''-'' @ filename_words g True sgs)"

definition taskFilenameWords :: "golib \<Rightarrow> string \<Rightarrow> string" where
  "taskFilenameWords g v =
     (let out = trim_dashes (filename_words g False (utf8_segs (ToLower g (TrimSpace v)))) in
      if out = '''' then ''task'' else out)"

definition sanitizeTaskFilename :: "golib \<Rightarrow> string \<Rightarrow> string" where
  "sanitizeTaskFilename g v = (let out = taskFilenameWords g v in
     if length out > 48 then trim_dashes (take 48 out) else out)"

definition recorded_slug :: "golib \<Rightarrow> string \<Rightarrow> string \<Rightarrow> string \<Rightarrow> string" where
  "recorded_slug g prefix path suffix =
     (let path = TrimSpace path; stem = path_base path; s = TrimSuffix stem suffix in
      if path = '''' \<or> \<not> HasSuffix stem suffix then ''''
      else if length s \<le> length prefix \<or> \<not> EqualFold g (take (length prefix) s) prefix then ''''
      else trim_dashes (drop (length prefix) s))"

definition taskSliceRecordedSlug :: "golib \<Rightarrow> slice \<Rightarrow> string" where
  "taskSliceRecordedSlug g s =
     (let i = TrimSpace (sl_ID s); prefix = i @ ''-''; plan = recorded_slug g prefix (sl_Plan s) ''-plan.md'' in
      if i = '''' then '''' else if plan \<noteq> '''' then plan else recorded_slug g prefix (sl_Result s) ''-result.md'')"

definition taskSliceMatchesSelector :: "golib \<Rightarrow> slice \<Rightarrow> string \<Rightarrow> bool" where
  "taskSliceMatchesSelector g s selector =
     (let sel = TrimSpace selector in
      sel \<noteq> '''' \<and> list_ex (\<lambda>c. EqualFold g (TrimSpace c) sel)
        [sl_ID s, sl_Title s, sl_Plan s, sl_Result s, sanitizeTaskFilename g (sl_Title s), taskSliceRecordedSlug g s])"

definition taskSliceForCheckpoint :: "golib \<Rightarrow> manifest \<Rightarrow> string \<Rightarrow> task_error + slice" where
  "taskSliceForCheckpoint g m selector =
     (let sel = TrimSpace selector; first = firstTaskSliceArtifact g m in
      if sel = '''' then Inr first
      else if isTaskSeriesTarget g m sel then Inr (taskSeriesCloseoutTarget g m)
      else case List.find (\<lambda>s. taskSliceMatchesSelector g s sel) (tm_Slices m) of
        Some s \<Rightarrow> Inr s
      | None \<Rightarrow> if taskSliceMatchesSelector g first sel then Inr first
               else if tm_Slices m = [] \<and> sl_ID first = '''' then Inl NoSlices else Inl UnknownSlice)"

definition taskCheckpointParentSlice :: "slice \<Rightarrow> string" where
  "taskCheckpointParentSlice s = (if TrimSpace (sl_ParentID s) \<noteq> '''' then sl_ParentID s else sl_ID s)"

section \<open>Follow-ups\<close>

definition taskSliceIsIteration :: "slice \<Rightarrow> bool" where
  "taskSliceIsIteration s \<longleftrightarrow> TrimSpace (sl_ParentID s) \<noteq> '''' \<or> CHR ''-'' \<in> set (TrimSpace (sl_ID s))"

definition cut_dash :: "string \<Rightarrow> string \<times> string" where
  "cut_dash s = (takeWhile (\<lambda>c. c \<noteq> CHR ''-'') s, drop 1 (dropWhile (\<lambda>c. c \<noteq> CHR ''-'') s))"

definition taskSliceParentIDFromIteration :: "string \<Rightarrow> string" where
  "taskSliceParentIDFromIteration i = (let t = TrimSpace i in if CHR ''-'' \<in> set t then fst (cut_dash t) else '''')"

text \<open>The ordinal is an \<open>int\<close> of 64 bits, which wraps.\<close>

fun ordinal_of :: "golib \<Rightarrow> 64 word \<Rightarrow> int list \<Rightarrow> 64 word option" where
  "ordinal_of g n [] = Some n"
| "ordinal_of g n (r # rs) = (if IsDigit g r then ordinal_of g (n * 10 + word_of_int (r - 48)) rs else None)"

definition parseTaskOrdinal :: "golib \<Rightarrow> string \<Rightarrow> 64 word option" where
  "parseTaskOrdinal g v = (let t = TrimSpace v in if t = '''' then None else ordinal_of g 0 (runes t))"

definition taskIterationOrdinal :: "golib \<Rightarrow> slice \<Rightarrow> int" where
  "taskIterationOrdinal g s = (let i = TrimSpace (sl_ID s) in
     if CHR ''-'' \<in> set i then (case parseTaskOrdinal g (snd (cut_dash i)) of Some n \<Rightarrow> sint n | None \<Rightarrow> 0) else 0)"

definition slice_key :: "golib \<Rightarrow> slice \<Rightarrow> string" where
  "slice_key g s = ToUpper g (TrimSpace (sl_ID s))"

definition slice_parent :: "golib \<Rightarrow> slice \<Rightarrow> string" where
  "slice_parent g s = ToUpper g (TrimSpace (firstNonEmptyTaskString [sl_ParentID s, taskSliceParentIDFromIteration (sl_ID s)]))"

definition children_of :: "golib \<Rightarrow> slice list \<Rightarrow> string \<Rightarrow> slice list" where
  "children_of g ss p = sort_key (taskIterationOrdinal g) (filter (\<lambda>s. taskSliceIsIteration s \<and> slice_parent g s = p) ss)"

text \<open>The follow-ups of a name go to the first base slice of that name: \<open>delete(childByParent, parentID)\<close>.\<close>

fun base_groups :: "golib \<Rightarrow> slice list \<Rightarrow> string list \<Rightarrow> slice list \<Rightarrow> slice list list" where
  "base_groups g ss taken [] = []"
| "base_groups g ss taken (b # bs) =
     (b # (if slice_key g b \<in> set taken then [] else children_of g ss (slice_key g b)))
       # base_groups g ss (slice_key g b # taken) bs"

definition orphan_parents :: "golib \<Rightarrow> slice list \<Rightarrow> string list" where
  "orphan_parents g ss = sort (remdups (filter (\<lambda>p. p \<notin> slice_key g ` set ss) (map (slice_parent g) (filter taskSliceIsIteration ss))))"

definition taskSliceProgressionGroups :: "golib \<Rightarrow> manifest \<Rightarrow> slice list list" where
  "taskSliceProgressionGroups g m =
     (let ss = taskSyncSlices g m in
      base_groups g ss [] (filter (\<lambda>s. \<not> taskSliceIsIteration s) ss) @ map (children_of g ss) (orphan_parents g ss))"

section \<open>The next target\<close>

definition taskTargetTerminal :: "golib \<Rightarrow> slice \<Rightarrow> bool" where
  "taskTargetTerminal g s =
     (let d = ToLower g (TrimSpace (sl_Decision s)) in
      (d \<noteq> '''' \<and> d \<noteq> ''continue'')
      \<or> ToLower g (TrimSpace (sl_Stage s)) \<in> set [''done'', ''completed'', ''blocked'', ''split'', ''superseded'', ''cancelled'', ''rolled_back''])"

definition taskDecisionAllowsSiblingAdvance :: "golib \<Rightarrow> slice \<Rightarrow> bool" where
  "taskDecisionAllowsSiblingAdvance g s =
     (let d = ToLower g (TrimSpace (sl_Decision s)) in
      d \<in> set [''promote'', ''complete'', ''completed'']
      \<or> (d = '''' \<and> ToLower g (TrimSpace (sl_Stage s)) \<in> set [''done'', ''completed'']))"

definition taskDurabilityReviewComplete :: "golib \<Rightarrow> manifest \<Rightarrow> bool" where
  "taskDurabilityReviewComplete g m =
     (ToLower g (TrimSpace (du_Disposition (tm_Durability m))) \<in> set [''none'', ''recorded'', ''deferred'']
      \<and> ToLower g (TrimSpace (tm_Decision m)) \<in> set [''complete'', ''completed''])"

text \<open>The first group that is not done: its first open target, or the gate that is closed.\<close>

fun next_in_groups :: "golib \<Rightarrow> slice list list \<Rightarrow> (task_error + slice) option" where
  "next_in_groups g [] = None"
| "next_in_groups g (grp # grps) =
     (if grp = [] then next_in_groups g grps
      else case List.find (\<lambda>s. \<not> taskTargetTerminal g s) grp of
        Some s \<Rightarrow> Some (Inr s)
      | None \<Rightarrow> if taskDecisionAllowsSiblingAdvance g (last grp) then next_in_groups g grps
               else Some (Inl (GateUnresolved (sl_ID (last grp)))))"

definition taskNextSlice :: "golib \<Rightarrow> manifest \<Rightarrow> task_error + slice" where
  "taskNextSlice g m = (case tm_Conflicts m of
     c # _ \<Rightarrow> Inl (ConflictingHeads (snd c))
   | [] \<Rightarrow>
      (case List.find (\<lambda>s. EqualFold g (TrimSpace (sl_Stage s)) ''started'' \<and> \<not> taskTargetTerminal g s) (taskSyncSlices g m) of
        Some s \<Rightarrow> Inr s
      | None \<Rightarrow>
         (case next_in_groups g (taskSliceProgressionGroups g m) of
            Some r \<Rightarrow> r
          | None \<Rightarrow>
              if taskSyncSlices g m = [] then Inl NoSlices
              else if du_Required (tm_Durability m) \<and> \<not> taskDurabilityReviewComplete g m then Inr (taskSeriesCloseoutTarget g m)
              else Inl AllTerminal)))"

section \<open>Groups partition the slices\<close>

lemma base_groups_mset:
  assumes "distinct (map (slice_key g) bs)" and "set taken \<inter> slice_key g ` set bs = {}"
  shows "mset (concat (base_groups g ss taken bs)) = mset bs + (\<Sum>b \<leftarrow> bs. mset (children_of g ss (slice_key g b)))"
  using assms
proof (induction bs arbitrary: taken)
  case (Cons b bs)
  have "set (slice_key g b # taken) \<inter> slice_key g ` set bs = {}" using Cons.prems by auto
  with Cons show ?case by auto
qed simp

lemma mset_children: "mset (children_of g ss p) = filter_mset (\<lambda>s. taskSliceIsIteration s \<and> slice_parent g s = p) (mset ss)"
  by (simp add: children_of_def)

lemma mset_partition_keys:
  assumes "distinct ps" and "\<forall>x \<in># M. P x \<longrightarrow> k x \<in> set ps"
  shows "(\<Sum>p \<leftarrow> ps. filter_mset (\<lambda>x. P x \<and> k x = p) M) = filter_mset P M"
  using assms
proof (induction ps arbitrary: P)
  case Nil
  then show ?case by (auto simp: filter_mset_eq_mempty_iff)
next
  case (Cons p ps)
  let ?Q = "\<lambda>x. P x \<and> k x \<noteq> p"
  have "(\<Sum>q \<leftarrow> ps. filter_mset (\<lambda>x. ?Q x \<and> k x = q) M) = filter_mset ?Q M"
    by (rule Cons.IH) (use Cons.prems in auto)
  moreover have "map (\<lambda>q. filter_mset (\<lambda>x. ?Q x \<and> k x = q) M) ps = map (\<lambda>q. filter_mset (\<lambda>x. P x \<and> k x = q) M) ps"
    by (rule map_cong[OF refl], rule filter_mset_cong) (use Cons.prems in auto)
  ultimately have "(\<Sum>q \<leftarrow> ps. filter_mset (\<lambda>x. P x \<and> k x = q) M) = filter_mset ?Q M" by (simp only:)
  moreover have "filter_mset P M = filter_mset (\<lambda>x. P x \<and> k x = p) M + filter_mset ?Q M"
    using multiset_partition[of "filter_mset P M" "\<lambda>x. k x = p"] by (simp add: filter_filter_mset conj_commute)
  ultimately show ?case by simp
qed

text \<open>
  C37: The progression groups hold every slice once: when base slices have different names and no
  follow-up names another follow-up as its parent, concatenating the groups gives a permutation of
  the slices, so a target is neither skipped nor offered twice.
\<close>

theorem groups_partition_slices:
  assumes "distinct (map (slice_key g) (filter (\<lambda>s. \<not> taskSliceIsIteration s) (taskSyncSlices g m)))"
    and "\<forall>s \<in> set (taskSyncSlices g m). \<forall>s' \<in> set (taskSyncSlices g m).
       taskSliceIsIteration s \<and> taskSliceIsIteration s' \<longrightarrow> slice_parent g s \<noteq> slice_key g s'"
  shows "mset (concat (taskSliceProgressionGroups g m)) = mset (taskSyncSlices g m)"
proof -
  let ?ss = "taskSyncSlices g m" and ?it = taskSliceIsIteration
  let ?bs = "filter (\<lambda>s. \<not> ?it s) ?ss" and ?op = "orphan_parents g (taskSyncSlices g m)"
  let ?ps = "map (slice_key g) ?bs @ ?op"
  have d: "distinct ?ps" using assms(1) by (auto simp: orphan_parents_def)
  have all: "\<forall>s \<in># mset ?ss. ?it s \<longrightarrow> slice_parent g s \<in> set ?ps"
    using assms(2) by (fastforce simp: orphan_parents_def)
  have "mset (concat (taskSliceProgressionGroups g m))
      = mset ?bs + (\<Sum>b \<leftarrow> ?bs. mset (children_of g ?ss (slice_key g b))) + (\<Sum>p \<leftarrow> ?op. mset (children_of g ?ss p))"
    using base_groups_mset[OF assms(1), of "[]" ?ss]
    by (simp add: taskSliceProgressionGroups_def Let_def mset_concat comp_def)
  also have "\<dots> = mset ?bs + (\<Sum>p \<leftarrow> ?ps. filter_mset (\<lambda>s. ?it s \<and> slice_parent g s = p) (mset ?ss))"
    by (simp add: mset_children comp_def add.assoc)
  also have "\<dots> = mset ?bs + filter_mset ?it (mset ?ss)" using mset_partition_keys[OF d all] by simp
  also have "\<dots> = mset ?ss" using multiset_partition[of "mset ?ss" ?it] by (simp add: add.commute)
  finally show ?thesis .
qed

section \<open>What the next target is\<close>

lemma next_in_groups_sound:
  assumes "next_in_groups g grps = Some (Inr s)"
  shows "s \<in> set (concat grps) \<and> \<not> taskTargetTerminal g s"
  using assms
proof (induction grps)
  case (Cons grp grps)
  then show ?case by (auto split: if_splits option.splits dest: find_SomeD_conj)
qed simp

lemma next_in_groups_done:
  assumes "next_in_groups g grps = None"
  shows "\<forall>grp \<in> set grps. grp \<noteq> [] \<longrightarrow> (\<forall>s \<in> set grp. taskTargetTerminal g s) \<and> taskDecisionAllowsSiblingAdvance g (last grp)"
  using assms
proof (induction grps)
  case (Cons grp grps)
  then show ?case by (auto split: if_splits option.splits simp: find_None_iff)
qed simp

lemma children_within: "x \<in> set (children_of g ss p) \<Longrightarrow> x \<in> set ss"
  by (simp add: children_of_def)

lemma base_groups_within: "grp \<in> set (base_groups g ss taken bs) \<Longrightarrow> x \<in> set grp \<Longrightarrow> x \<in> set bs \<or> x \<in> set ss"
  by (induction g ss taken bs rule: base_groups.induct) (auto split: if_splits dest: children_within)

lemma groups_within:
  assumes "grp \<in> set (taskSliceProgressionGroups g m)"
  shows "set grp \<subseteq> set (taskSyncSlices g m)"
proof
  fix x assume x: "x \<in> set grp"
  from assms consider "grp \<in> set (base_groups g (taskSyncSlices g m) [] (filter (\<lambda>s. \<not> taskSliceIsIteration s) (taskSyncSlices g m)))"
    | p where "grp = children_of g (taskSyncSlices g m) p"
    by (auto simp: taskSliceProgressionGroups_def Let_def)
  then show "x \<in> set (taskSyncSlices g m)"
    by cases (use x in \<open>auto dest: children_within base_groups_within\<close>)
qed

text \<open>
  C19: The next target is open: \<open>ds task next\<close> hands out nothing while a target has conflicting
  heads; what it hands out is either a slice of the task that is not terminal, or the closing of
  the series, and the latter only when every slice in the groups is terminal, every group ended
  with a decision that lets the next one begin, and the durable review is required and missing.
\<close>

theorem next_target_is_open:
  assumes "taskNextSlice g m = Inr s"
  shows "tm_Conflicts m = [] \<and>
    ((s \<in> set (taskSyncSlices g m) \<and> \<not> taskTargetTerminal g s)
     \<or> (s = taskSeriesCloseoutTarget g m \<and> du_Required (tm_Durability m) \<and> \<not> taskDurabilityReviewComplete g m
        \<and> (\<forall>grp \<in> set (taskSliceProgressionGroups g m). grp \<noteq> [] \<longrightarrow>
             (\<forall>x \<in> set grp. taskTargetTerminal g x) \<and> taskDecisionAllowsSiblingAdvance g (last grp))))"
proof -
  from assms have c: "tm_Conflicts m = []" by (auto simp: taskNextSlice_def split: list.splits)
  show ?thesis
  proof (cases "List.find (\<lambda>s. EqualFold g (TrimSpace (sl_Stage s)) ''started'' \<and> \<not> taskTargetTerminal g s) (taskSyncSlices g m)")
    case (Some x)
    with assms c show ?thesis by (auto simp: taskNextSlice_def dest: find_SomeD_conj)
  next
    case None
    show ?thesis
    proof (cases "next_in_groups g (taskSliceProgressionGroups g m)")
      case (Some r)
      with None assms c have "next_in_groups g (taskSliceProgressionGroups g m) = Some (Inr s)" by (simp add: taskNextSlice_def)
      from next_in_groups_sound[OF this] groups_within c show ?thesis by fastforce
    next
      case n: None
      with None assms c next_in_groups_done[OF n] show ?thesis by (auto simp: taskNextSlice_def split: if_splits)
    qed
  qed
qed
section \<open>Adding slices\<close>

fun itoa :: "nat \<Rightarrow> string" where
  "itoa n = (if n < 10 then [char_of (48 + n)] else itoa (n div 10) @ [char_of (48 + n mod 10)])"

declare itoa.simps [simp del]

definition two_digits :: "nat \<Rightarrow> string" where
  "two_digits n = (if n < 10 then ''0'' @ itoa n else itoa n)"

text \<open>\<open>taskSlugCutIndex\<close>: the bytes of the first \<open>budget\<close> runes.\<close>

definition cut_index :: "string \<Rightarrow> nat \<Rightarrow> nat" where
  "cut_index v budget = length (seg_string (take budget (utf8_segs v)))"

definition last_dash :: "string \<Rightarrow> nat" where
  "last_dash s = length s - 1 - length (takeWhile (\<lambda>c. c \<noteq> CHR ''-'') (rev s))"

definition wordSafeTaskSlug :: "golib \<Rightarrow> string \<Rightarrow> int \<Rightarrow> string" where
  "wordSafeTaskSlug g v budget =
     (let out = taskFilenameWords g v; cut = cut_index out (nat budget) in
      if budget \<le> 0 \<or> cut \<ge> length out then out
      else
        let cut_head = take cut out;
            head = (if out ! cut \<noteq> CHR ''-'' \<and> CHR ''-'' \<in> set cut_head \<and> last_dash cut_head > 0
                    then take (last_dash cut_head) cut_head else cut_head);
            head = trim_dashes head;
            head = (if head = '''' then trim_dashes cut_head else head)
        in if head = '''' then ''task'' else head)"

definition slug_budget :: int where "slug_budget = 64"

definition uniqueTaskSliceSlugWithBudget :: "golib \<Rightarrow> string \<Rightarrow> (string \<Rightarrow> nat) \<Rightarrow> int \<Rightarrow> string" where
  "uniqueTaskSliceSlugWithBudget g title used budget =
     (let slug = wordSafeTaskSlug g title budget; seen = used slug; suffix = ''-'' @ itoa (seen + 1);
          remaining = budget - int (length suffix);
          remaining = (if budget > 0 \<and> remaining < 1 then 1 else remaining)
      in if seen = 0 then slug else wordSafeTaskSlug g title remaining @ suffix)"

definition taskUsedSliceSlugs :: "manifest \<Rightarrow> string \<Rightarrow> nat" where
  "taskUsedSliceSlugs m slug = length (filter (\<lambda>s.
     let path = (if sl_Plan s = '''' then sl_Result s else sl_Plan s);
         base = TrimSuffix (TrimSuffix (path_base path) ''-plan.md'') ''-result.md''
     in CHR ''-'' \<in> set base \<and> snd (cut_dash base) \<noteq> '''' \<and> snd (cut_dash base) = slug) (tm_Slices m))"

definition max_ordinal :: "golib \<Rightarrow> string list \<Rightarrow> 64 word" where
  "max_ordinal g ts = fold (\<lambda>t n. case parseTaskOrdinal g t of Some k \<Rightarrow> if sint n < sint k then k else n | None \<Rightarrow> n) ts 0"

definition nextTaskSliceOrdinal :: "golib \<Rightarrow> manifest \<Rightarrow> 64 word" where
  "nextTaskSliceOrdinal g m =
     (let series = defaultTaskSeries g (tm_Series m);
          ids = map (slice_key g) (filter (\<lambda>s. \<not> (sl_ParentID s \<noteq> '''' \<or> CHR ''-'' \<in> set (sl_ID s))) (tm_Slices m))
      in max_ordinal g (map (drop (length series)) (filter (\<lambda>i. HasPrefix i series) ids)) + 1)"

definition nextTaskIterationOrdinal :: "golib \<Rightarrow> manifest \<Rightarrow> string \<Rightarrow> 64 word" where
  "nextTaskIterationOrdinal g m parent =
     (let prefix = ToUpper g (TrimSpace parent) @ ''-'' in
      max_ordinal g (map (\<lambda>i. TrimPrefix i prefix) (filter (\<lambda>i. HasPrefix i prefix) (map (slice_key g) (tm_Slices m)))) + 1)"

definition ordinal_nat :: "64 word \<Rightarrow> nat" where
  "ordinal_nat n = (if sint n \<le> 0 then 1 else nat (sint n))"

definition taskSliceArtifactWithSlug :: "string \<Rightarrow> string \<Rightarrow> string \<Rightarrow> string \<Rightarrow> string \<Rightarrow> string \<Rightarrow> slice" where
  "taskSliceArtifactWithSlug i title slug kind parent reason = \<lparr>sl_ID = i, sl_Title = title,
     sl_Plan = i @ ''-'' @ slug @ ''-plan.md'', sl_Result = i @ ''-'' @ slug @ ''-result.md'',
     sl_Kind = (if kind = '''' then ''slice'' else kind), sl_ParentID = parent, sl_Reason = reason, sl_Stage = '''', sl_Decision = '''',
     sl_UpdatedAt = '''', sl_LatestCheckpointID = '''', sl_LatestCheckpoint = '''', sl_LatestCheckpointJSON = ''''\<rparr>"

definition newTaskSliceArtifact :: "golib \<Rightarrow> string \<Rightarrow> 64 word \<Rightarrow> string \<Rightarrow> (string \<Rightarrow> nat) \<Rightarrow> slice" where
  "newTaskSliceArtifact g series ordinal title used =
     taskSliceArtifactWithSlug (defaultTaskSeries g series @ two_digits (ordinal_nat ordinal)) title
       (uniqueTaskSliceSlugWithBudget g title used slug_budget) ''slice'' '''' ''''"

definition newTaskIterationArtifact :: "golib \<Rightarrow> slice \<Rightarrow> 64 word \<Rightarrow> string \<Rightarrow> string \<Rightarrow> (string \<Rightarrow> nat) \<Rightarrow> slice" where
  "newTaskIterationArtifact g parent ordinal title reason used =
     (let i = sl_ID parent @ ''-'' @ itoa (ordinal_nat ordinal);
          budget = slug_budget - (int (length i) - int (length (sl_ID parent)))
      in taskSliceArtifactWithSlug i title (uniqueTaskSliceSlugWithBudget g title used budget) ''iteration'' (sl_ID parent) reason)"

text \<open>
  \<open>runTaskSliceAdd\<close> and \<open>runTaskIterationAdd\<close> from the manifest they loaded: the manifest they write
  and the slice they report.
\<close>

definition add_slice :: "golib \<Rightarrow> string \<Rightarrow> string \<Rightarrow> string \<Rightarrow> manifest \<Rightarrow> task_error + manifest \<times> slice" where
  "add_slice g after title reason m =
     (let title = TrimSpace title; after = TrimSpace after; reason = TrimSpace reason in
      bindE (requireE (title \<noteq> '''') (ThreadError ''slice title is empty'')) (\<lambda>_.
      if after \<noteq> '''' then
        bindE (taskSliceForCheckpoint g m after) (\<lambda>parent.
        bindE (requireE (CHR ''-'' \<notin> set (sl_ID parent)) NotBaseSlice) (\<lambda>_.
        let s = newTaskIterationArtifact g parent (nextTaskIterationOrdinal g m (sl_ID parent)) title
                  (if reason = '''' then ''improve'' else reason) (taskUsedSliceSlugs m)
        in Inr (m\<lparr>tm_Slices := tm_Slices m @ [s]\<rparr>, s)))
      else
        bindE (requireE (reason = '''') (ThreadError ''--reason requires --after'')) (\<lambda>_.
        let s = newTaskSliceArtifact g (defaultTaskSeries g (tm_Series m)) (nextTaskSliceOrdinal g m) title (taskUsedSliceSlugs m);
            m1 = m\<lparr>tm_Slices := tm_Slices m @ [s]\<rparr>;
            m2 = (if tm_FirstSlice m1 = '''' then m1\<lparr>tm_FirstSlice := sl_Plan s\<rparr> else m1)
        in Inr (if tm_Result m2 = '''' then m2\<lparr>tm_Result := sl_Result s\<rparr> else m2, s))))"

section \<open>Two commands on one workspace\<close>

text \<open>
  The files of a workspace and the commands that change them, as processes that run side by side.
  \<open>ds task checkpoint\<close> checks its arguments against \<open>task.json\<close> and the log, takes the mutation
  lock of the workspace, reads both again, writes, and releases the lock. \<open>ds task slice add\<close> reads
  and writes \<open>task.json\<close>, and takes no lock. \<open>task.json\<close> is always written as a whole.
\<close>

record task_files =
  tf_json :: manifest
  tf_log :: "task_event list"

definition load_task :: "golib \<Rightarrow> (string \<Rightarrow> bool option) \<Rightarrow> string \<Rightarrow> task_files \<Rightarrow> task_error + manifest" where
  "load_task g exists workspace fs = reconcileTaskManifestLifecycle g exists workspace (tf_log fs) (tf_json fs)"

text \<open>
  \<open>documents\<close> is \<open>validateDurableArtifacts\<close>, which reads Markdown files of the repository: the
  list it returns for the artifacts, or an error.
\<close>

definition validateTaskDurabilityCheckpoint ::
  "golib \<Rightarrow> (string list \<Rightarrow> task_error + string list) \<Rightarrow> manifest \<Rightarrow> slice \<Rightarrow> checkpoint_options \<Rightarrow> task_error + checkpoint_options" where
  "validateTaskDurabilityCheckpoint g documents m target opts =
     (let artifacts = co_DurableArtifacts opts; decision = ToLower g (TrimSpace (co_Decision opts)) in
      if \<not> (sl_Kind target = ''closeout'' \<and> isTaskSeriesTarget g m (sl_ID target)) then
        bindE (requireE (co_DurableRecord opts = '''' \<and> artifacts = []) (ThreadError ''--durable-record applies only to the closeout'')) (\<lambda>_. Inr opts)
      else
        bindE (requireE (list_all (taskTargetTerminal g) (taskSyncSlices g m)) (ThreadError ''a target is non-terminal'')) (\<lambda>_.
        bindE (requireE (decision = ''complete'' \<or> decision = ''completed'') (ThreadError ''closeout requires --decision complete'')) (\<lambda>_.
        bindE (requireE (EqualFold g (TrimSpace (co_Stage opts)) ''completed'') (ThreadError ''closeout requires --stage completed'')) (\<lambda>_.
        if co_DurableRecord opts = ''none'' then
          bindE (requireE (artifacts = [] \<and> co_NextTarget opts = '''') (ThreadError ''none accepts no artifact and no next target'')) (\<lambda>_. Inr opts)
        else if co_DurableRecord opts = ''recorded'' then
          bindE (requireE (artifacts \<noteq> [] \<and> co_NextTarget opts = '''') (ThreadError ''recorded requires an artifact'')) (\<lambda>_.
          bindE (documents artifacts) (\<lambda>validated. Inr (opts\<lparr>co_DurableArtifacts := validated\<rparr>)))
        else if co_DurableRecord opts = ''deferred'' then
          bindE (requireE (artifacts = [] \<and> co_NextTarget opts \<noteq> '''') (ThreadError ''deferred requires a next target'')) (\<lambda>_. Inr opts)
        else Inl (ThreadError ''closeout requires --durable-record'')))))"

definition buildTaskCheckpointRecord ::
  "golib \<Rightarrow> manifest \<Rightarrow> checkpoint_options \<Rightarrow> string list \<Rightarrow> slice \<Rightarrow> string \<Rightarrow> gotime \<Rightarrow> checkpoint" where
  "buildTaskCheckpointRecord g m opts supersedes target checkpointID now =
     \<lparr>ck_SchemaVersion = taskCheckpointSchemaVersion, ck_EventKind = ''task_checkpoint'', ck_CheckpointID = checkpointID,
      ck_Supersedes = supersedes, ck_TaskID = tm_TaskID m, ck_Target = sl_ID target, ck_Slice = sl_ID target,
      ck_Stage = co_Stage opts, ck_Decision = co_Decision opts, ck_CreatedAt = FormatTime g now,
      ck_DurableRecord = co_DurableRecord opts, ck_DurableArtifacts = co_DurableArtifacts opts, ck_NextTarget = co_NextTarget opts\<rparr>"

text \<open>
  A checkpoint command: its arguments, the clock, and the paths at which \<open>nextTaskCheckpointPaths\<close>
  finds room, with the checkpoint ID made of them.
\<close>

record checkpoint_command =
  cp_Slice :: string
  cp_Options :: checkpoint_options
  cp_Supersedes :: "string list"
  cp_Now :: gotime
  cp_ID :: string
  cp_Markdown :: string
  cp_JSON :: string

text \<open>What \<open>runTaskCheckpoint\<close> checks before it takes the lock.\<close>

definition check_checkpoint ::
  "golib \<Rightarrow> (string \<Rightarrow> bool option) \<Rightarrow> (string list \<Rightarrow> task_error + string list) \<Rightarrow> string \<Rightarrow> checkpoint_command \<Rightarrow> task_files
     \<Rightarrow> task_error + checkpoint_command" where
  "check_checkpoint g exists documents workspace c fs =
     bindE (requireE (isAllowedValue (co_Stage (cp_Options c)) taskLifecycleStages) InvalidStage) (\<lambda>_.
     bindE (requireE (\<not> (co_Decision (cp_Options c) \<noteq> '''' \<and> \<not> isAllowedValue (co_Decision (cp_Options c)) taskDecisions)) InvalidDecision) (\<lambda>_.
     bindE (load_task g exists workspace fs) (\<lambda>m.
     bindE (taskSliceForCheckpoint g m (cp_Slice c)) (\<lambda>target.
     bindE (validateTaskDurabilityCheckpoint g documents m target (cp_Options c)) (\<lambda>opts.
     bindE (requireE (TrimSpace (sl_Result target) \<noteq> '''') (ThreadError ''selected task slice has no result artifact'')) (\<lambda>_.
       Inr (c\<lparr>cp_Options := opts\<rparr>)))))))"

text \<open>
  What it does with the manifest it read under the lock: the event becomes a file of its own,
  which directory listings sort by name, and \<open>task.json\<close> the projection of that manifest.
\<close>

definition write_checkpoint ::
  "golib \<Rightarrow> (string list \<Rightarrow> task_error + string list) \<Rightarrow> string \<Rightarrow> checkpoint_command \<Rightarrow> manifest \<Rightarrow> task_files \<Rightarrow> task_error + task_files \<times> slice" where
  "write_checkpoint g documents workspace c m fs =
     bindE (taskSliceForCheckpoint g m (cp_Slice c)) (\<lambda>target.
     bindE (validateTaskDurabilityCheckpoint g documents m target (cp_Options c)) (\<lambda>opts.
     bindE (checkpointSupersedesForWrite g (tf_log fs) (sl_ID target) (cp_Supersedes c)) (\<lambda>supersedes.
     let n = \<lparr>ev_Record = buildTaskCheckpointRecord g m opts supersedes target (cp_ID c) (cp_Now c),
              ev_JSONPath = cp_JSON c, ev_MarkdownPath = cp_Markdown c\<rparr>
     in Inr (\<lparr>tf_json = project_checkpoint g target opts (cp_Now c) (cp_ID c) (taskRelativePath workspace (cp_Markdown c))
                (taskRelativePath workspace (cp_JSON c)) m, tf_log = insort_key ev_JSONPath n (tf_log fs)\<rparr>, target))))"

datatype task_action = CheckTask | AcquireLock | ReadTask | WriteTask | ReleaseLock

datatype task_command = AddSlice string string string | Checkpoint checkpoint_command

fun task_actions :: "task_command \<Rightarrow> task_action list" where
  "task_actions (AddSlice after title reason) = [ReadTask, WriteTask]"
| "task_actions (Checkpoint c) = [CheckTask, AcquireLock, ReadTask, WriteTask, ReleaseLock]"

text \<open>A process: what it still has to do, the manifest it read, and what it reports in the end.\<close>

record task_process =
  pc_Command :: task_command
  pc_Todo :: "task_action list"
  pc_Manifest :: "manifest option"
  pc_Outcome :: "(task_error + slice) option"

record task_world =
  tw_Files :: task_files
  tw_Holder :: "nat option"
  tw_Processes :: "task_process list"

definition start_world :: "task_files \<Rightarrow> task_command list \<Rightarrow> task_world" where
  "start_world fs cs = \<lparr>tw_Files = fs, tw_Holder = None,
     tw_Processes = map (\<lambda>c. \<lparr>pc_Command = c, pc_Todo = task_actions c, pc_Manifest = None, pc_Outcome = None\<rparr>) cs\<rparr>"

fun perform_action ::
  "golib \<Rightarrow> (string \<Rightarrow> bool option) \<Rightarrow> (string list \<Rightarrow> task_error + string list) \<Rightarrow> string \<Rightarrow> task_action \<Rightarrow> task_process \<Rightarrow> task_files
     \<Rightarrow> task_error + task_process \<times> task_files" where
  "perform_action g exists documents workspace CheckTask p fs = (case pc_Command p of
     AddSlice after title reason \<Rightarrow> Inr (p, fs)
   | Checkpoint c \<Rightarrow> bindE (check_checkpoint g exists documents workspace c fs) (\<lambda>c'. Inr (p\<lparr>pc_Command := Checkpoint c'\<rparr>, fs)))"
| "perform_action g exists documents workspace ReadTask p fs =
     bindE (load_task g exists workspace fs) (\<lambda>m. Inr (p\<lparr>pc_Manifest := Some m\<rparr>, fs))"
| "perform_action g exists documents workspace WriteTask p fs = (case pc_Manifest p of
     None \<Rightarrow> Inl ReadFailed
   | Some m \<Rightarrow> (case pc_Command p of
       AddSlice after title reason \<Rightarrow> bindE (add_slice g after title reason m) (\<lambda>(m', s).
         Inr (p\<lparr>pc_Outcome := Some (Inr s)\<rparr>, fs\<lparr>tf_json := m'\<rparr>))
     | Checkpoint c \<Rightarrow> bindE (write_checkpoint g documents workspace c m fs) (\<lambda>(fs', target).
         Inr (p\<lparr>pc_Outcome := Some (Inr target)\<rparr>, fs'))))"
| "perform_action g exists documents workspace AcquireLock p fs = Inr (p, fs)"
| "perform_action g exists documents workspace ReleaseLock p fs = Inr (p, fs)"

text \<open>One action of the process \<open>n\<close>; who wants the lock while it is held has to wait. An error ends a process.\<close>

definition world_step ::
  "golib \<Rightarrow> (string \<Rightarrow> bool option) \<Rightarrow> (string list \<Rightarrow> task_error + string list) \<Rightarrow> string \<Rightarrow> nat \<Rightarrow> task_world \<Rightarrow> task_world option" where
  "world_step g exists documents workspace n w =
     (if length (tw_Processes w) \<le> n then None
      else let p = tw_Processes w ! n in case pc_Todo p of
        [] \<Rightarrow> None
      | a # rest \<Rightarrow>
          if a = AcquireLock \<and> tw_Holder w \<noteq> None then None
          else (case perform_action g exists documents workspace a p (tw_Files w) of
            Inl e \<Rightarrow> Some (w\<lparr>tw_Holder := (if tw_Holder w = Some n then None else tw_Holder w),
              tw_Processes := (tw_Processes w)[n := p\<lparr>pc_Todo := [], pc_Outcome := Some (Inl e)\<rparr>]\<rparr>)
          | Inr (p', fs') \<Rightarrow> Some (w\<lparr>tw_Files := fs',
              tw_Holder := (if a = AcquireLock then Some n else if a = ReleaseLock then None else tw_Holder w),
              tw_Processes := (tw_Processes w)[n := p'\<lparr>pc_Todo := rest\<rparr>]\<rparr>)))"

fun run_schedule ::
  "golib \<Rightarrow> (string \<Rightarrow> bool option) \<Rightarrow> (string list \<Rightarrow> task_error + string list) \<Rightarrow> string \<Rightarrow> nat list \<Rightarrow> task_world \<Rightarrow> task_world option" where
  "run_schedule g exists documents workspace [] w = Some w"
| "run_schedule g exists documents workspace (n # ns) w = (case world_step g exists documents workspace n w of
     None \<Rightarrow> None | Some w' \<Rightarrow> run_schedule g exists documents workspace ns w')"

lemma project_slices: "map sl_ID (tm_Slices (project_checkpoint g target opts now i md j m)) = map sl_ID (tm_Slices m)"
proof -
  have "bare (project_checkpoint g target opts now i md j m) = bare m" by (simp add: project_checkpoint_def)
  then have "map sl_ID (map bare_slice (tm_Slices (project_checkpoint g target opts now i md j m))) = map sl_ID (map bare_slice (tm_Slices m))"
    by (metis bare_fields(3))
  then show ?thesis by (simp add: bare_slice_def comp_def)
qed

lemma write_checkpoint_slices:
  assumes "write_checkpoint g documents workspace c m fs = Inr (fs', target)"
  shows "sl_ID ` set (tm_Slices (tf_json fs')) = sl_ID ` set (tm_Slices m)"
proof -
  from assms obtain opts where "tf_json fs' = project_checkpoint g target opts (cp_Now c) (cp_ID c)
      (taskRelativePath workspace (cp_Markdown c)) (taskRelativePath workspace (cp_JSON c)) m"
    by (auto simp: write_checkpoint_def bindE_Inr_iff Let_def)
  then show ?thesis by (metis project_slices set_map)
qed

lemma write_checkpoint_log_only: "write_checkpoint g documents workspace c m (fs\<lparr>tf_json := m'\<rparr>) = write_checkpoint g documents workspace c m fs"
  by (simp add: write_checkpoint_def)

text \<open>
  C38: A slice can be lost although \<open>ds task checkpoint\<close> holds the mutation lock. Whenever both commands
  would succeed on the files, there is a schedule of the two, in which each does everything it has to and the
  lock is respected, after which both have reported success and the slice that was reported as added is in no list:
  the checkpoint writes back the manifest that it read before the slice was added.
\<close>

theorem unlocked_slice_add_is_lost:
  assumes "load_task g exists workspace fs = Inr m" and "add_slice g after title reason m = Inr (m', s)"
    and "sl_ID s \<notin> sl_ID ` set (tm_Slices m)"
    and "check_checkpoint g exists documents workspace c fs = Inr c'"
    and "write_checkpoint g documents workspace c' m fs = Inr (fs', target)"
  shows "\<exists>schedule w. run_schedule g exists documents workspace schedule (start_world fs [AddSlice after title reason, Checkpoint c]) = Some w
    \<and> map pc_Todo (tw_Processes w) = [[], []] \<and> tw_Holder w = None
    \<and> map pc_Outcome (tw_Processes w) = [Some (Inr s), Some (Inr target)]
    \<and> sl_ID s \<notin> sl_ID ` set (tm_Slices (tf_json (tw_Files w)))"
proof -
  obtain w where r: "run_schedule g exists documents workspace [0, 1, 1, 1, 0, 1, 1] (start_world fs [AddSlice after title reason, Checkpoint c]) = Some w"
    "map pc_Todo (tw_Processes w) = [[], []]" "tw_Holder w = None"
      "map pc_Outcome (tw_Processes w) = [Some (Inr s), Some (Inr target)]" and f: "tw_Files w = fs'"
    using assms(1,2,4,5) by (simp add: start_world_def world_step_def write_checkpoint_log_only)
  have "sl_ID s \<notin> sl_ID ` set (tm_Slices (tf_json (tw_Files w)))"
    unfolding f using write_checkpoint_slices[OF assms(5)] assms(3) by simp
  with r show ?thesis by (intro exI[of _ "[0, 1, 1, 1, 0, 1, 1]"] exI[of _ w] conjI)
qed

section \<open>An interrupted closing\<close>

text \<open>
  C39: A closed series is offered again: a \<open>task.json\<close> without a disposition, as a closing that was
  killed between its event and \<open>task.json\<close> leaves it, is never reported as done by \<open>ds task next\<close>,
  whatever durable record the checkpoints of the log hold: reconciling replays stages and
  decisions, but not the disposition, which the reader of threads does replay.
\<close>

theorem interrupted_closeout_is_reoffered:
  assumes "lower_ok g" and "reconcileTaskManifestLifecycle g exists workspace es m = Inr r"
    and "du_Required (tm_Durability m)" and "TrimSpace (du_Disposition (tm_Durability m)) = ''''"
  shows "taskNextSlice g r \<noteq> Inl AllTerminal"
proof -
  from reconcile_keeps_durability[OF assms(2)] assms have d: "du_Required (tm_Durability r)" "ToLower g (TrimSpace (du_Disposition (tm_Durability r))) = ''''"
    by (simp_all add: lower_ok_def)
  then have "\<not> taskDurabilityReviewComplete g r" by (simp add: taskDurabilityReviewComplete_def)
  moreover have "next_in_groups g grps = Some a \<Longrightarrow> a \<noteq> Inl AllTerminal" for grps a
    by (induction grps) (auto split: option.splits if_splits)
  ultimately show ?thesis using d(1)
    by (cases "tm_Conflicts r"; cases "next_in_groups g (taskSliceProgressionGroups g r)")
      (simp_all add: taskNextSlice_def split: option.splits)
qed

definition demo_open :: manifest where
  "demo_open = demo_manifest [demo_slice ''A01'' ''done'' ''promote'', demo_slice ''A02'' ''done'' ''promote'']"

definition demo_closing :: task_event where
  "demo_closing = demo_checkpoint ''c9'' [] ''A00'' ''completed'' ''complete'' ''none''"

definition closing_options :: checkpoint_options where
  "closing_options = \<lparr>co_Stage = ''completed'', co_Decision = ''complete'', co_DurableRecord = ''none'', co_DurableArtifacts = [], co_NextTarget = ''''\<rparr>"

text \<open>The closing that ran to its end, and the same event as the reader of threads sees it, are done.\<close>

lemma closed_is_done:
  "taskNextSlice demo_golib (project_checkpoint demo_golib (taskSeriesCloseoutTarget demo_golib demo_open) closing_options
      \<lparr>unix_nanos = 2, zone_offset = 0\<rparr> ''c9'' ''c9.md'' ''c9.json'' demo_open) = Inl AllTerminal"
  "(case reconcileThreadTaskLifecycle demo_golib \<lparr>ts_RepoAlias = '''', ts_Workspace = ''/w'', ts_Manifest = demo_open, ts_Events = [demo_closing]\<rparr> of
      Inr m \<Rightarrow> taskNextSlice demo_golib m = Inl AllTerminal | Inl _ \<Rightarrow> False)"
  by code_simp+

definition demo_interrupted :: manifest where
  "demo_interrupted = (case reconcileTaskManifestLifecycle demo_golib (\<lambda>_. Some True) ''/w'' [demo_closing] demo_open of Inr r \<Rightarrow> r | Inl _ \<Rightarrow> demo_open)"

theorem interrupted_closeout_is_reoffered_witness:
  "taskNextSlice demo_golib demo_interrupted \<noteq> Inl AllTerminal
    \<and> taskNextSlice demo_golib demo_interrupted = Inr (taskSeriesCloseoutTarget demo_golib demo_interrupted)
    \<and> tm_Status demo_interrupted = ''completed'' \<and> tm_Decision demo_interrupted = ''complete''"
proof -
  have r: "reconcileTaskManifestLifecycle demo_golib (\<lambda>_. Some True) ''/w'' [demo_closing] demo_open = Inr demo_interrupted" by code_simp
  have d: "du_Required (tm_Durability demo_open)" "TrimSpace (du_Disposition (tm_Durability demo_open)) = ''''" by code_simp+
  have "taskNextSlice demo_golib demo_interrupted = Inr (taskSeriesCloseoutTarget demo_golib demo_interrupted)"
    "tm_Status demo_interrupted = ''completed''" "tm_Decision demo_interrupted = ''complete''" by code_simp+
  with interrupted_closeout_is_reoffered[OF demo_lower r d] show ?thesis by blast
qed

section \<open>Examples\<close>

definition demo_groups :: manifest where
  "demo_groups = demo_manifest [demo_slice ''A01'' ''done'' ''improve'', demo_slice ''A02'' '''' '''', demo_slice ''A01-2'' '''' '''',
     demo_slice ''A01-1'' ''done'' ''promote'', demo_slice ''B07-1'' '''' '''']"

theorem groups_partition_slices_witness:
  "mset (concat (taskSliceProgressionGroups demo_golib demo_groups)) = mset (taskSyncSlices demo_golib demo_groups)
    \<and> map (map sl_ID) (taskSliceProgressionGroups demo_golib demo_groups) = [[''A01'', ''A01-1'', ''A01-2''], [''A02''], [''B07-1'']]"
proof -
  have d: "distinct (map (slice_key demo_golib) (filter (\<lambda>s. \<not> taskSliceIsIteration s) (taskSyncSlices demo_golib demo_groups)))" by code_simp
  have p: "\<forall>s \<in> set (taskSyncSlices demo_golib demo_groups). \<forall>s' \<in> set (taskSyncSlices demo_golib demo_groups).
       taskSliceIsIteration s \<and> taskSliceIsIteration s' \<longrightarrow> slice_parent demo_golib s \<noteq> slice_key demo_golib s'" by code_simp
  have v: "map (map sl_ID) (taskSliceProgressionGroups demo_golib demo_groups) = [[''A01'', ''A01-1'', ''A01-2''], [''A02''], [''B07-1'']]" by code_simp
  from groups_partition_slices[OF d p] v show ?thesis by blast
qed

theorem next_target_is_open_witness:
  "\<exists>s. taskNextSlice demo_golib demo_groups = Inr s \<and> sl_ID s = ''A01-2'' \<and> \<not> taskTargetTerminal demo_golib s"
proof -
  have n: "taskNextSlice demo_golib demo_groups = Inr (demo_slice ''A01-2'' '''' '''')" by code_simp
  have k: "demo_slice ''A01-2'' '''' '''' \<noteq> taskSeriesCloseoutTarget demo_golib demo_groups"
    by (simp add: demo_slice_def taskSeriesCloseoutTarget_def)
  from next_target_is_open[OF n] k n show ?thesis by (auto simp: demo_slice_def)
qed

definition demo_files :: task_files where
  "demo_files = \<lparr>tf_json = demo_manifest [(demo_slice ''A01'' ''packed'' '''')\<lparr>sl_Result := ''A01-result.md''\<rparr>], tf_log = []\<rparr>"

definition demo_command :: checkpoint_command where
  "demo_command = \<lparr>cp_Slice = ''A01'', cp_Options = \<lparr>co_Stage = ''done'', co_Decision = ''promote'', co_DurableRecord = '''',
     co_DurableArtifacts = [], co_NextTarget = ''''\<rparr>, cp_Supersedes = [], cp_Now = \<lparr>unix_nanos = 2, zone_offset = 0\<rparr>,
     cp_ID = ''c1'', cp_Markdown = ''/w/c1.md'', cp_JSON = ''/w/c1.json''\<rparr>"

definition demo_added :: "task_error + manifest \<times> slice" where
  "demo_added = add_slice demo_golib '''' ''More work'' '''' (tf_json demo_files)"

definition demo_written :: "task_error + task_files \<times> slice" where
  "demo_written = write_checkpoint demo_golib (\<lambda>_. Inr []) ''/w'' demo_command (tf_json demo_files) demo_files"

theorem unlocked_slice_add_is_lost_witness:
  "\<exists>schedule w s target. run_schedule demo_golib (\<lambda>_. Some True) (\<lambda>_. Inr []) ''/w'' schedule
       (start_world demo_files [AddSlice '''' ''More work'' '''', Checkpoint demo_command]) = Some w
    \<and> sl_ID s = ''A02'' \<and> map pc_Outcome (tw_Processes w) = [Some (Inr s), Some (Inr target)]
    \<and> sl_ID s \<notin> sl_ID ` set (tm_Slices (tf_json (tw_Files w)))"
proof -
  have l: "load_task demo_golib (\<lambda>_. Some True) ''/w'' demo_files = Inr (tf_json demo_files)" by code_simp
  have v: "\<not> isl demo_added" "\<not> isl demo_written" "sl_ID (snd (projr demo_added)) = ''A02''"
    "''A02'' \<notin> sl_ID ` set (tm_Slices (tf_json demo_files))" by code_simp+
  have a: "add_slice demo_golib '''' ''More work'' '''' (tf_json demo_files) = Inr (fst (projr demo_added), snd (projr demo_added))"
    using value_okD[OF v(1)] by (simp add: demo_added_def)
  have n: "sl_ID (snd (projr demo_added)) \<notin> sl_ID ` set (tm_Slices (tf_json demo_files))" using v(3,4) by simp
  have c: "check_checkpoint demo_golib (\<lambda>_. Some True) (\<lambda>_. Inr []) ''/w'' demo_command demo_files = Inr demo_command" by code_simp
  have w: "write_checkpoint demo_golib (\<lambda>_. Inr []) ''/w'' demo_command (tf_json demo_files) demo_files
      = Inr (fst (projr demo_written), snd (projr demo_written))"
    using value_okD[OF v(2)] by (simp add: demo_written_def)
  from unlocked_slice_add_is_lost[OF l a n c w] v(3) show ?thesis by metis
qed

end
