(* ===== verification/Threads.thy ===== *)
theory Threads
  imports Progress
begin

text \<open>
  Named threads of work (\<open>internal/commands/thread_definition.go\<close>, \<open>thread_mutation.go\<close>,
  \<open>thread_status.go\<close>): a definition assigns base targets to lanes that wait for other lanes; its
  revisions may not undo what checkpoints have pinned; and the state of every lane follows from
  the reconciled tasks.
\<close>

section \<open>Definitions\<close>

record thread_owner =
  to_Kind :: string
  to_TaskID :: string
  to_WorkspaceID :: string
  to_ChangeID :: string

record thread_ref =
  tr_Repo :: string
  tr_Task :: string
  tr_Target :: string

record lane =
  ln_Key :: string
  ln_Name :: string
  ln_Targets :: "thread_ref list"
  ln_After :: "string list"

record thread_definition =
  td_SchemaVersion :: int
  td_Revision :: int
  td_Owner :: thread_owner
  td_Threads :: "lane list"

definition normalize_lane :: "lane \<Rightarrow> lane" where
  "normalize_lane l = \<lparr>ln_Key = TrimSpace (ln_Key l), ln_Name = TrimSpace (ln_Name l),
     ln_Targets = map (\<lambda>r. \<lparr>tr_Repo = TrimSpace (tr_Repo r), tr_Task = TrimSpace (tr_Task r), tr_Target = TrimSpace (tr_Target r)\<rparr>) (ln_Targets l),
     ln_After = map TrimSpace (ln_After l)\<rparr>"

definition normalizeThreadDefinition :: "golib \<Rightarrow> thread_definition \<Rightarrow> thread_definition" where
  "normalizeThreadDefinition g d = d\<lparr>
     td_Owner := \<lparr>to_Kind = ToLower g (TrimSpace (to_Kind (td_Owner d))), to_TaskID = TrimSpace (to_TaskID (td_Owner d)),
       to_WorkspaceID = TrimSpace (to_WorkspaceID (td_Owner d)), to_ChangeID = TrimSpace (to_ChangeID (td_Owner d))\<rparr>,
     td_Threads := map normalize_lane (td_Threads d)\<rparr>"

definition thread_error :: "bool \<Rightarrow> string \<Rightarrow> task_error + unit" where
  "thread_error ok what = requireE ok (ThreadError what)"

definition threadTargetIdentity :: "golib \<Rightarrow> string \<Rightarrow> thread_ref \<Rightarrow> string" where
  "threadTargetIdentity g kind r = (if kind = ''task'' then ToLower g (tr_Target r)
     else ToLower g (tr_Repo r @ [CHR 0x00] @ tr_Task r @ [CHR 0x00] @ tr_Target r))"

definition validateThreadKey :: "golib \<Rightarrow> string \<Rightarrow> task_error + unit" where
  "validateThreadKey g key =
     bindE (thread_error (key \<noteq> '''') ''thread key is empty'') (\<lambda>_.
       thread_error (\<forall>r \<in> set (runes key). IsLetter g r \<or> IsDigit g r \<or> r \<in> {45, 95, 46}) ''unsupported character'')"

definition validateThreadName :: "string \<Rightarrow> task_error + unit" where
  "validateThreadName name = thread_error (\<forall>r \<in> set (runes name). \<not> is_control r) ''control character''"

definition lane_key :: "golib \<Rightarrow> lane \<Rightarrow> string" where "lane_key g l = ToLower g (ln_Key l)"

text \<open>The targets of a lane, none assigned before; \<open>check\<close> is \<open>validateTarget\<close>.\<close>

fun assign_targets :: "golib \<Rightarrow> string \<Rightarrow> (thread_ref \<Rightarrow> task_error + unit) \<Rightarrow> string list \<Rightarrow> thread_ref list \<Rightarrow> task_error + string list" where
  "assign_targets g kind check assigned [] = Inr assigned"
| "assign_targets g kind check assigned (r # rs) =
     bindE (thread_error (tr_Target r \<noteq> '''') ''empty target'') (\<lambda>_.
     bindE (thread_error (threadTargetIdentity g kind r \<notin> set assigned) ''assigned twice'') (\<lambda>_.
     bindE (check r) (\<lambda>_.
       assign_targets g kind check (threadTargetIdentity g kind r # assigned) rs)))"

fun register_lanes :: "golib \<Rightarrow> string \<Rightarrow> (thread_ref \<Rightarrow> task_error + unit) \<Rightarrow> string list \<Rightarrow> string list \<Rightarrow> lane list \<Rightarrow> task_error + unit" where
  "register_lanes g kind check keys assigned [] = Inr ()"
| "register_lanes g kind check keys assigned (l # ls) =
     bindE (validateThreadKey g (ln_Key l)) (\<lambda>_.
     bindE (thread_error (lane_key g l \<notin> set keys) ''duplicate thread key'') (\<lambda>_.
     bindE (validateThreadName (ln_Name l)) (\<lambda>_.
     bindE (thread_error (ln_Targets l \<noteq> []) ''no targets'') (\<lambda>_.
     bindE (assign_targets g kind check assigned (ln_Targets l)) (\<lambda>assigned'.
       register_lanes g kind check (lane_key g l # keys) assigned' ls)))))"

fun check_after :: "golib \<Rightarrow> string list \<Rightarrow> string \<Rightarrow> string list \<Rightarrow> string list \<Rightarrow> task_error + unit" where
  "check_after g keys key seen [] = Inr ()"
| "check_after g keys key seen (a # as) =
     (let k = ToLower g a in
      bindE (thread_error (k \<noteq> '''') ''empty dependency'') (\<lambda>_.
      bindE (thread_error (k \<noteq> key) ''depends on itself'') (\<lambda>_.
      bindE (thread_error (k \<in> set keys) ''unknown thread'') (\<lambda>_.
      bindE (thread_error (k \<notin> set seen) ''repeated dependency'') (\<lambda>_.
        check_after g keys key (k # seen) as)))))"

text \<open>\<open>definitions[key]\<close>: the last lane of that key, or a lane without dependencies.\<close>

definition lane_of :: "golib \<Rightarrow> lane list \<Rightarrow> string \<Rightarrow> lane option" where
  "lane_of g ls k = List.find (\<lambda>l. lane_key g l = k) (rev ls)"

definition lane_succ :: "golib \<Rightarrow> lane list \<Rightarrow> string \<Rightarrow> string list" where
  "lane_succ g ls k = (case lane_of g ls k of Some l \<Rightarrow> map (ToLower g) (ln_After l) | None \<Rightarrow> [])"

definition lane_nodes :: "golib \<Rightarrow> lane list \<Rightarrow> string list" where
  "lane_nodes g ls = map (lane_key g) ls @ concat (map (\<lambda>l. map (ToLower g) (ln_After l)) ls)"

definition validateThreadDefinitionCycles :: "golib \<Rightarrow> lane list \<Rightarrow> task_error + unit" where
  "validateThreadDefinitionCycles g ls =
     (case finds_cycle (lane_succ g ls) (Suc (length (lane_nodes g ls))) (map (lane_key g) ls) of
        Some k \<Rightarrow> Inl (ThreadError ''cycle'') | None \<Rightarrow> Inr ())"

definition validateThreadDefinitionGraph :: "golib \<Rightarrow> (thread_ref \<Rightarrow> task_error + unit) \<Rightarrow> thread_definition \<Rightarrow> task_error + unit" where
  "validateThreadDefinitionGraph g check d =
     (let ls = td_Threads d in
      bindE (register_lanes g (to_Kind (td_Owner d)) check [] [] ls) (\<lambda>_.
      bindE (forE (\<lambda>l. check_after g (map (lane_key g) ls) (lane_key g l) [] (ln_After l)) ls) (\<lambda>_.
        validateThreadDefinitionCycles g ls)))"

definition validateThreadDefinitionEnvelope :: "golib \<Rightarrow> thread_definition \<Rightarrow> task_error + unit" where
  "validateThreadDefinitionEnvelope g d =
     (let ow = td_Owner d in
      bindE (thread_error (td_SchemaVersion d = 1) ''unsupported schema_version'') (\<lambda>_.
      bindE (thread_error (\<not> td_Revision d < 1) ''revision must be at least 1'') (\<lambda>_.
      bindE (if to_Kind ow = ''task'' then
               bindE (thread_error (to_TaskID ow \<noteq> '''') ''requires task_id'') (\<lambda>_.
                 thread_error (\<not> (to_WorkspaceID ow \<noteq> '''' \<or> to_ChangeID ow \<noteq> '''')) ''cannot include workspace_id or change_id'')
             else if to_Kind ow = ''workspace_change'' then
               bindE (thread_error (\<not> (to_WorkspaceID ow = '''' \<or> to_ChangeID ow = '''')) ''requires workspace_id and change_id'') (\<lambda>_.
                 thread_error (to_TaskID ow = '''') ''cannot include task_id'')
             else Inl (ThreadError ''invalid thread owner kind'')) (\<lambda>_.
      bindE (thread_error (td_Threads d \<noteq> []) ''no threads'') (\<lambda>_.
        validateThreadDefinitionGraph g (\<lambda>_. Inr ()) d)))))"

definition validateThreadTargetInManifest :: "golib \<Rightarrow> manifest \<Rightarrow> string \<Rightarrow> task_error + unit" where
  "validateThreadTargetInManifest g m target =
     bindE (thread_error (\<not> isTaskSeriesTarget g m target) ''series closeout target'') (\<lambda>_.
     bindE (taskSliceForCheckpoint g m target) (\<lambda>s.
       thread_error (\<not> (TrimSpace (sl_ParentID s) \<noteq> '''' \<or> taskSliceIsIteration s)) ''follow-up target''))"

definition validateRepoThreadDefinition :: "golib \<Rightarrow> manifest \<Rightarrow> thread_definition \<Rightarrow> task_error + unit" where
  "validateRepoThreadDefinition g m d0 =
     (let d = normalizeThreadDefinition g d0 in
      bindE (validateThreadDefinitionEnvelope g d) (\<lambda>_.
      bindE (thread_error (to_Kind (td_Owner d) = ''task'') ''owner kind must be task'') (\<lambda>_.
      bindE (thread_error (EqualFold g (to_TaskID (td_Owner d)) (tm_TaskID m)) ''owner task_id does not match'') (\<lambda>_.
      bindE (thread_error (TrimSpace (tm_ParentChange m) = '''') ''linked to workspace change'') (\<lambda>_.
        validateThreadDefinitionGraph g (\<lambda>r.
          bindE (thread_error (\<not> (tr_Repo r \<noteq> '''' \<or> tr_Task r \<noteq> '''')) ''cannot include qualifiers'') (\<lambda>_.
            validateThreadTargetInManifest g m (tr_Target r))) d)))))"

text \<open>
  What a change of a workspace links: the aliases of its repositories, and for each linked task its
  manifest and whether its own repository defines threads, by \<open>workspaceThreadTaskKey\<close>.
\<close>

record workspace_context =
  wx_WorkspaceID :: string
  wx_Repos :: "string list"
  wx_ChangeID :: string
  wx_Links :: "(string \<times> string) list"
  wx_TaskManifests :: "string \<Rightarrow> manifest option"
  wx_RepoDefinitionExists :: "string \<Rightarrow> bool"

definition workspaceThreadTaskKey :: "golib \<Rightarrow> string \<Rightarrow> string \<Rightarrow> string" where
  "workspaceThreadTaskKey g alias task = ToLower g (TrimSpace alias @ [CHR 0x00] @ TrimSpace task)"

definition check_workspace_target :: "golib \<Rightarrow> workspace_context \<Rightarrow> thread_ref \<Rightarrow> task_error + unit" where
  "check_workspace_target g wx r =
     (let key = workspaceThreadTaskKey g (tr_Repo r) (tr_Task r) in
      bindE (thread_error (\<not> (tr_Repo r = '''' \<or> tr_Task r = '''')) ''requires repo and task'') (\<lambda>_.
      bindE (thread_error (tr_Repo r \<in> set (wx_Repos wx)) ''unknown repo alias'') (\<lambda>_.
      bindE (thread_error (key \<in> set (map (\<lambda>(a, t). workspaceThreadTaskKey g a t) (wx_Links wx))) ''not linked'') (\<lambda>_.
      bindE (optionE (ThreadError ''no readable manifest'') (wx_TaskManifests wx key)) (\<lambda>m.
      bindE (thread_error (EqualFold g (tm_WorkspaceID m) (wx_WorkspaceID wx) \<and> EqualFold g (tm_ParentChange m) (wx_ChangeID wx)
               \<and> EqualFold g (tm_RepoAlias m) (tr_Repo r)) ''does not point back'') (\<lambda>_.
        validateThreadTargetInManifest g m (tr_Target r)))))))"

definition validateWorkspaceThreadDefinition :: "golib \<Rightarrow> workspace_context \<Rightarrow> thread_definition \<Rightarrow> task_error + unit" where
  "validateWorkspaceThreadDefinition g wx d0 =
     (let d = normalizeThreadDefinition g d0; ow = td_Owner d in
      bindE (validateThreadDefinitionEnvelope g d) (\<lambda>_.
      bindE (thread_error (to_Kind ow = ''workspace_change'') ''owner kind must be workspace_change'') (\<lambda>_.
      bindE (thread_error (EqualFold g (to_WorkspaceID ow) (wx_WorkspaceID wx)) ''workspace_id does not match'') (\<lambda>_.
      bindE (thread_error (EqualFold g (to_ChangeID ow) (wx_ChangeID wx)) ''change_id does not match'') (\<lambda>_.
      bindE (forE (\<lambda>(a, t). thread_error (\<not> wx_RepoDefinitionExists wx (workspaceThreadTaskKey g a t)) ''competing repo-local authority'')
               (wx_Links wx)) (\<lambda>_.
        validateThreadDefinitionGraph g (check_workspace_target g wx) d))))))"

section \<open>Revisions\<close>

definition threadLaneHasHistory :: "golib \<Rightarrow> string \<Rightarrow> string set \<Rightarrow> lane \<Rightarrow> bool" where
  "threadLaneHasHistory g kind hist l \<longleftrightarrow> list_ex (\<lambda>r. threadTargetIdentity g kind r \<in> hist) (ln_Targets l)"

definition threadTargetsHavePrefix :: "golib \<Rightarrow> string \<Rightarrow> thread_ref list \<Rightarrow> thread_ref list \<Rightarrow> bool" where
  "threadTargetsHavePrefix g kind before after \<longleftrightarrow> length before \<le> length after
     \<and> list_all2 (\<lambda>a b. threadTargetIdentity g kind a = threadTargetIdentity g kind b) before (take (length before) after)"

definition containsFoldedString :: "golib \<Rightarrow> string list \<Rightarrow> string \<Rightarrow> bool" where
  "containsFoldedString g vs want \<longleftrightarrow> list_ex (\<lambda>v. EqualFold g (TrimSpace v) (TrimSpace want)) vs"

definition check_pinned :: "golib \<Rightarrow> string \<Rightarrow> string set \<Rightarrow> lane list \<Rightarrow> lane \<Rightarrow> task_error + unit" where
  "check_pinned g kind hist after previous =
     (if \<not> threadLaneHasHistory g kind hist previous then Inr ()
      else case lane_of g after (lane_key g previous) of
        None \<Rightarrow> Inl (ThreadError ''has checkpoint history and cannot be removed'')
      | Some l \<Rightarrow>
         bindE (thread_error (ln_Key previous = ln_Key l) ''key is pinned'') (\<lambda>_.
         bindE (thread_error (equalFoldedStrings g (ln_After previous) (ln_After l)) ''dependencies are pinned'') (\<lambda>_.
           thread_error (threadTargetsHavePrefix g kind (ln_Targets previous) (ln_Targets l)) ''targets may only be extended'')))"

definition check_removed :: "golib \<Rightarrow> string \<Rightarrow> string set \<Rightarrow> lane list \<Rightarrow> lane list \<Rightarrow> lane \<Rightarrow> task_error + unit" where
  "check_removed g kind hist before after previous =
     (if lane_of g after (lane_key g previous) \<noteq> None then Inr ()
      else thread_error (\<not> list_ex (\<lambda>d. containsFoldedString g (ln_After d) (ln_Key previous) \<and> threadLaneHasHistory g kind hist d) before)
             ''started thread depends on it'')"

text \<open>\<open>hist\<close>: the identities of the targets that have a checkpoint.\<close>

definition validateThreadDefinitionMutation ::
  "golib \<Rightarrow> string set \<Rightarrow> thread_definition \<Rightarrow> thread_definition \<Rightarrow> task_error + unit" where
  "validateThreadDefinitionMutation g hist before after =
     (let kind = to_Kind (td_Owner before) in
      bindE (thread_error (td_Revision after = td_Revision before + 1) ''revision must advance'') (\<lambda>_.
      bindE (thread_error (td_Owner before = td_Owner after) ''owner cannot change'') (\<lambda>_.
      bindE (forE (check_pinned g kind hist (td_Threads after)) (td_Threads before)) (\<lambda>_.
        forE (check_removed g kind hist (td_Threads before) (td_Threads after)) (td_Threads before)))))"

text \<open>\<open>publishThreadDefinitionRevision\<close> on what the file holds; the result is what it holds then.\<close>

definition publishThreadDefinitionRevision ::
  "golib \<Rightarrow> string set \<Rightarrow> thread_definition option \<Rightarrow> thread_definition \<Rightarrow> task_error + thread_definition" where
  "publishThreadDefinitionRevision g hist file d =
     (let written = normalizeThreadDefinition g d in
      bindE (case file of
          None \<Rightarrow> thread_error (td_Revision d = 1) ''new thread definition revision must be 1''
        | Some previous \<Rightarrow> validateThreadDefinitionMutation g hist previous d) (\<lambda>_.
      bindE (validateThreadDefinitionEnvelope g written) (\<lambda>_. Inr written)))"

definition checkpointedThreadTargets :: "golib \<Rightarrow> string \<Rightarrow> task_snapshot list \<Rightarrow> task_error + string list" where
  "checkpointedThreadTargets g kind tasks =
     foldE (\<lambda>t acc. foldE (\<lambda>e acc.
         let target = event_target (ev_Record e); m = ts_Manifest t in
         if target = '''' \<or> isTaskSeriesTarget g m target then Inr acc
         else bindE (taskSliceForCheckpoint g m target) (\<lambda>s.
           Inr (threadTargetIdentity g kind
              \<lparr>tr_Repo = (if kind = ''task'' then '''' else ts_RepoAlias t), tr_Task = (if kind = ''task'' then '''' else tm_TaskID m),
               tr_Target = taskCheckpointParentSlice s\<rparr> # acc))) (ts_Events t) acc) tasks []"

text \<open>
  \<open>publishThreadMutationLocked\<close>. Validating trims the lanes in place: the definition is passed by
  value, but its lanes are shared with the caller's.
\<close>

datatype authority = TaskAuthority manifest | ChangeAuthority workspace_context

definition publishThreadMutationLocked ::
  "golib \<Rightarrow> authority \<Rightarrow> string \<Rightarrow> task_snapshot list \<Rightarrow> thread_definition option \<Rightarrow> thread_definition \<Rightarrow> task_error + thread_definition" where
  "publishThreadMutationLocked g au kind tasks file d =
     bindE (checkpointedThreadTargets g kind tasks) (\<lambda>hist.
     bindE (case au of TaskAuthority m \<Rightarrow> validateRepoThreadDefinition g m d
                     | ChangeAuthority wx \<Rightarrow> validateWorkspaceThreadDefinition g wx d) (\<lambda>_.
       publishThreadDefinitionRevision g (set hist) file (d\<lparr>td_Threads := map normalize_lane (td_Threads d)\<rparr>)))"

text \<open>The closure of \<open>runThreadSet\<close> on the definition that was read, or on a new one.\<close>

fun replace_lane :: "golib \<Rightarrow> lane \<Rightarrow> lane list \<Rightarrow> lane list" where
  "replace_lane g l [] = [l]"
| "replace_lane g l (x # xs) = (if EqualFold g (ln_Key x) (ln_Key l) then l # xs else x # replace_lane g l xs)"

definition set_lane :: "golib \<Rightarrow> thread_owner \<Rightarrow> lane \<Rightarrow> thread_definition option \<Rightarrow> thread_definition" where
  "set_lane g ow l file = (case file of
     Some d \<Rightarrow> d\<lparr>td_Revision := td_Revision d + 1, td_Threads := replace_lane g l (td_Threads d)\<rparr>
   | None \<Rightarrow> \<lparr>td_SchemaVersion = 1, td_Revision = 1, td_Owner = ow, td_Threads = [l]\<rparr>)"

definition remove_lane :: "golib \<Rightarrow> string \<Rightarrow> thread_definition \<Rightarrow> task_error + thread_definition" where
  "remove_lane g key d =
     (let remaining = filter (\<lambda>l. \<not> EqualFold g (ln_Key l) key) (td_Threads d) in
      bindE (thread_error (length remaining < length (td_Threads d)) ''thread not found'') (\<lambda>_.
        Inr (d\<lparr>td_Revision := td_Revision d + 1, td_Threads := remaining\<rparr>)))"

section \<open>A valid definition\<close>

lemma thread_error_iff [simp]: "thread_error ok what = Inr u \<longleftrightarrow> ok"
  by (simp add: thread_error_def)

lemma unit_Inr: "(\<exists>u :: unit. x = Inr u \<and> P) \<longleftrightarrow> x = Inr () \<and> P"
  by auto

definition target_ids :: "golib \<Rightarrow> string \<Rightarrow> lane \<Rightarrow> string list" where
  "target_ids g kind l = map (threadTargetIdentity g kind) (ln_Targets l)"

lemma assign_targets_iff:
  "assign_targets g kind check assigned rs = Inr out \<longleftrightarrow>
     (\<forall>r \<in> set rs. tr_Target r \<noteq> '''' \<and> check r = Inr ()) \<and> distinct (map (threadTargetIdentity g kind) rs)
     \<and> threadTargetIdentity g kind ` set rs \<inter> set assigned = {} \<and> out = rev (map (threadTargetIdentity g kind) rs) @ assigned"
  by (induction rs arbitrary: assigned) (auto simp: unit_Inr)

definition lane_ok :: "golib \<Rightarrow> (thread_ref \<Rightarrow> task_error + unit) \<Rightarrow> lane \<Rightarrow> bool" where
  "lane_ok g check l \<longleftrightarrow> validateThreadKey g (ln_Key l) = Inr () \<and> validateThreadName (ln_Name l) = Inr ()
     \<and> ln_Targets l \<noteq> [] \<and> (\<forall>r \<in> set (ln_Targets l). tr_Target r \<noteq> '''' \<and> check r = Inr ())"

lemma register_lanes_cons:
  "register_lanes g kind check keys assigned (l # ls) = Inr u \<longleftrightarrow>
     lane_ok g check l \<and> lane_key g l \<notin> set keys \<and> distinct (target_ids g kind l) \<and> set (target_ids g kind l) \<inter> set assigned = {}
     \<and> register_lanes g kind check (lane_key g l # keys) (rev (target_ids g kind l) @ assigned) ls = Inr ()"
  by (auto simp: unit_Inr assign_targets_iff lane_ok_def target_ids_def)

lemma register_lanes_iff:
  "register_lanes g kind check keys assigned ls = Inr u \<longleftrightarrow>
     (\<forall>l \<in> set ls. lane_ok g check l) \<and> distinct (map (lane_key g) ls) \<and> lane_key g ` set ls \<inter> set keys = {}
     \<and> distinct (concat (map (target_ids g kind) ls)) \<and> (\<Union>l \<in> set ls. set (target_ids g kind l)) \<inter> set assigned = {}"
proof (induction ls arbitrary: u keys assigned)
  case (Cons l ls)
  show ?case unfolding register_lanes_cons Cons.IH by auto
qed simp

lemma check_after_iff:
  "check_after g keys key seen as = Inr u \<longleftrightarrow>
     (\<forall>a \<in> set as. ToLower g a \<noteq> '''' \<and> ToLower g a \<noteq> key \<and> ToLower g a \<in> set keys)
     \<and> distinct (map (ToLower g) as) \<and> ToLower g ` set as \<inter> set seen = {}"
  by (induction as arbitrary: seen) (auto simp: Let_def unit_Inr)

lemma lane_of_in: "lane_of g ls k = Some l \<Longrightarrow> l \<in> set ls \<and> lane_key g l = k"
  unfolding lane_of_def by (drule find_SomeD_conj) auto

lemma lane_succ_in: "k' \<in> set (lane_succ g ls k) \<longleftrightarrow> (\<exists>l. lane_of g ls k = Some l \<and> k' \<in> ToLower g ` set (ln_After l))"
  by (cases "lane_of g ls k") (auto simp: lane_succ_def)

interpretation lane_graph: listed_graph "lane_succ g ls" "lane_nodes g ls" for g ls
proof
  show "set (lane_succ g ls k) \<subseteq> set (lane_nodes g ls)" for k
    using lane_of_in[of g ls k] by (fastforce simp: lane_succ_in lane_nodes_def)
qed

lemma lane_cycles_exact: "validateThreadDefinitionCycles g ls = Inr u \<longleftrightarrow> acyclic (edge_rel (lane_succ g ls))"
proof -
  have "k \<in> set (map (lane_key g) ls)" if "lane_succ g ls k \<noteq> []" for k
    using that by (auto simp: lane_succ_def split: option.splits dest!: lane_of_in)
  with lane_graph.finds_cycle_exact[of "map (lane_key g) ls" g ls]
  show ?thesis by (auto simp: validateThreadDefinitionCycles_def lane_nodes_def split: option.splits)
qed

text \<open>The relation between lanes that the definition states.\<close>

definition waits_for :: "golib \<Rightarrow> lane list \<Rightarrow> (string \<times> string) set" where
  "waits_for g ls = {(lane_key g l, ToLower g a) |l a. l \<in> set ls \<and> a \<in> set (ln_After l)}"

lemma waits_forI: "l \<in> set ls \<Longrightarrow> a \<in> set (ln_After l) \<Longrightarrow> (lane_key g l, ToLower g a) \<in> waits_for g ls"
  unfolding waits_for_def by blast

lemma lane_of_unique: "distinct (map (lane_key g) ls) \<Longrightarrow> l \<in> set ls \<Longrightarrow> lane_of g ls (lane_key g l) = Some l"
  unfolding lane_of_def
  by (induction ls rule: rev_induct) (auto simp: find_append)

lemma edge_rel_lanes: "distinct (map (lane_key g) ls) \<Longrightarrow> edge_rel (lane_succ g ls) = waits_for g ls"
  unfolding edge_rel_def lane_succ_in waits_for_def by (force simp: lane_of_unique dest: lane_of_in)

definition graph_ok :: "golib \<Rightarrow> string \<Rightarrow> (thread_ref \<Rightarrow> task_error + unit) \<Rightarrow> lane list \<Rightarrow> bool" where
  "graph_ok g kind check ls \<longleftrightarrow> (\<forall>l \<in> set ls. lane_ok g check l) \<and> distinct (map (lane_key g) ls)
     \<and> distinct (concat (map (target_ids g kind) ls))
     \<and> (\<forall>l \<in> set ls. distinct (map (ToLower g) (ln_After l)) \<and> (\<forall>a \<in> set (ln_After l). ToLower g a \<noteq> ''''))
     \<and> snd ` waits_for g ls \<subseteq> lane_key g ` set ls \<and> acyclic (waits_for g ls)"

lemma graph_exact:
  "validateThreadDefinitionGraph g check d = Inr u \<longleftrightarrow> graph_ok g (to_Kind (td_Owner d)) check (td_Threads d)"
proof -
  let ?ls = "td_Threads d"
  have known: "snd ` waits_for g ?ls \<subseteq> K \<longleftrightarrow> (\<forall>l \<in> set ?ls. \<forall>a \<in> set (ln_After l). ToLower g a \<in> K)" for K
    unfolding image_subset_iff waits_for_def by fastforce
  have loops: "acyclic (waits_for g ?ls) \<Longrightarrow> \<forall>l \<in> set ?ls. \<forall>a \<in> set (ln_After l). ToLower g a \<noteq> lane_key g l"
    by (auto simp: acyclic_def waits_for_def)
  have "validateThreadDefinitionGraph g check d = Inr u \<longleftrightarrow>
      (\<forall>l \<in> set ?ls. lane_ok g check l) \<and> distinct (map (lane_key g) ?ls) \<and> distinct (concat (map (target_ids g (to_Kind (td_Owner d))) ?ls))
      \<and> (\<forall>l \<in> set ?ls. (\<forall>a \<in> set (ln_After l). ToLower g a \<noteq> '''' \<and> ToLower g a \<noteq> lane_key g l \<and> ToLower g a \<in> lane_key g ` set ?ls)
            \<and> distinct (map (ToLower g) (ln_After l)))
      \<and> acyclic (edge_rel (lane_succ g ?ls))"
    by (simp add: validateThreadDefinitionGraph_def Let_def unit_Inr register_lanes_iff forE_Inr_iff check_after_iff lane_cycles_exact)
  also have "\<dots> \<longleftrightarrow> graph_ok g (to_Kind (td_Owner d)) check ?ls"
    unfolding graph_ok_def known using loops edge_rel_lanes[of g ?ls] by auto
  finally show ?thesis .
qed

text \<open>
  C16: A definition is accepted exactly when it describes a schedule: every lane has a usable key and
  name and a target, no two lanes have the same key, no target is assigned twice, every target
  passes the check of the owner, every dependency is a lane of the definition and named once,
  and no lane waits, directly or through others, for itself.
\<close>

theorem thread_graph_exact:
  "validateThreadDefinitionGraph g check d = Inr () \<longleftrightarrow> graph_ok g (to_Kind (td_Owner d)) check (td_Threads d)"
  by (rule graph_exact)

section \<open>Trimming twice\<close>

lemma decode_rune_prefix:
  assumes "length (seg_bytes (decode_rune a (s @ t))) \<le> Suc (length s)"
  shows "decode_rune a s = decode_rune a (s @ t)"
proof -
  have first: "decode_rune a s = Bad c \<Longrightarrow> c = a" for c s
    using decode_rune_bytes[of a s] by auto
  have stable: "decode_rune a u = Rune r bs \<Longrightarrow> a # v = bs @ w \<Longrightarrow> decode_rune a v = Rune r bs" for u v w r bs
    using good_decode_rune[of a u r bs] by (cases bs) (auto simp: good_seg_def)
  have begins: "\<exists>w. a # v = seg_bytes (decode_rune a v) @ w" for v using decode_rune_bytes[of a v] by metis
  show ?thesis
  proof (cases "decode_rune a (s @ t)")
    case (Rune r bs)
    then obtain w where w: "a # s @ t = bs @ w" using begins[of "s @ t"] by auto
    with assms Rune have "a # s = bs @ take (Suc (length s) - length bs) w"
      by (metis append_Cons append_eq_conv_conj length_Cons seg_bytes.simps(1) take_all take_append)
    from stable[OF Rune this] Rune show ?thesis by simp
  next
    case (Bad c)
    show ?thesis
    proof (cases "decode_rune a s")
      case (Rune r bs)
      then obtain w where "a # s = bs @ w" using begins[of s] by auto
      then have "a # s @ t = bs @ w @ t" by simp
      from stable[OF Rune this] Bad show ?thesis by simp
    qed (use Bad first in metis)
  qed
qed

lemma utf8_segs_cons:
  assumes "utf8_segs u = x # xs"
  obtains a s where "u = a # s" "decode_rune a s = x" "u = seg_bytes x @ seg_string xs" "utf8_segs (seg_string xs) = xs"
proof (cases u)
  case (Cons a s)
  with assms have x: "decode_rune a s = x" and xs: "utf8_segs (drop (length (seg_bytes x)) u) = xs"
    by (auto simp: utf8_segs.simps(2) Let_def)
  have u: "u = seg_bytes x @ seg_string xs" using seg_string_utf8_segs[of u] assms by simp
  then have "drop (length (seg_bytes x)) u = seg_string xs" by simp
  with xs have "utf8_segs (seg_string xs) = xs" by simp
  from that[OF Cons x u this] show thesis .
qed (use assms in simp)

lemma utf8_segs_suffix: "utf8_segs u = xs @ ys \<Longrightarrow> utf8_segs (seg_string ys) = ys"
proof (induction xs arbitrary: u)
  case Nil
  then show ?case using seg_string_utf8_segs[of u] by simp
next
  case (Cons x xs)
  then have "utf8_segs u = x # (xs @ ys)" by simp
  then obtain "utf8_segs (seg_string (xs @ ys)) = xs @ ys" by (rule utf8_segs_cons)
  then show ?case by (rule Cons.IH)
qed

lemma utf8_segs_prefix: "utf8_segs u = xs @ ys \<Longrightarrow> utf8_segs (seg_string xs) = xs"
proof (induction xs arbitrary: u)
  case (Cons x xs)
  then have "utf8_segs u = x # (xs @ ys)" by simp
  then obtain a s where a: "u = a # s" "decode_rune a s = x" "u = seg_bytes x @ seg_string (xs @ ys)"
    "utf8_segs (seg_string (xs @ ys)) = xs @ ys" by (rule utf8_segs_cons)
  obtain b where b: "seg_bytes x = a # b" using decode_rune_bytes[of a s] a(2) by (cases "seg_bytes x") auto
  let ?s = "b @ seg_string xs"
  have s: "s = ?s @ seg_string ys" using a(1,3) b by (simp add: seg_string_append)
  have "decode_rune a ?s = decode_rune a (?s @ seg_string ys)"
    by (rule decode_rune_prefix) (use a(2) b s in simp)
  with a(2) s have "decode_rune a ?s = x" by simp
  with b Cons.IH[OF a(4)] show ?case by (simp add: utf8_segs.simps(2) Let_def)
qed simp

lemma trim_by_parts: "\<exists>pre post. xs = pre @ trim_by p xs @ post"
  using takeWhile_dropWhile_id[of p xs] rev_dropWhile_rev[of "dropWhile p xs" p]
  unfolding trim_by_def by metis

lemma TrimSpace_idem [simp]: "TrimSpace (TrimSpace s) = TrimSpace s"
proof -
  let ?t = "trim_by (\<lambda>sg. is_space (seg_rune sg)) (utf8_segs s)"
  obtain pre post where "utf8_segs s = pre @ ?t @ post" using trim_by_parts by metis
  then have "utf8_segs (seg_string (?t @ post)) = ?t @ post" by (rule utf8_segs_suffix)
  then have "utf8_segs (seg_string ?t) = ?t" by (rule utf8_segs_prefix)
  then show ?thesis by (simp add: TrimSpace_def trim_by_idem)
qed

lemma normalize_lane_idem [simp]: "normalize_lane (normalize_lane l) = normalize_lane l"
  by (simp add: normalize_lane_def)

section \<open>What checkpoints have pinned\<close>

text \<open>What the proofs use of the library: folding is an equivalence, and lower case stays as it is.\<close>

definition fold_ok :: "golib \<Rightarrow> bool" where
  "fold_ok g \<longleftrightarrow> (\<forall>a. EqualFold g a a) \<and> (\<forall>a b c. EqualFold g a b \<longrightarrow> EqualFold g b c \<longrightarrow> EqualFold g a c)
     \<and> ToLower g ''task'' = ''task'' \<and> ToLower g ''workspace_change'' = ''workspace_change''"

text \<open>A lane of another definition that continues a lane: same key, same dependencies, and at least its targets.\<close>

definition continues :: "golib \<Rightarrow> string \<Rightarrow> lane \<Rightarrow> lane \<Rightarrow> bool" where
  "continues g kind l l' \<longleftrightarrow> ln_Key l' = ln_Key l \<and> equalFoldedStrings g (ln_After l) (ln_After l')
     \<and> threadTargetsHavePrefix g kind (ln_Targets l) (ln_Targets l')"

lemma continues_refl: "fold_ok g \<Longrightarrow> continues g kind l l"
  by (simp add: continues_def equalFoldedStrings_def threadTargetsHavePrefix_def fold_ok_def list_all2_refl)

lemma folded_trans:
  assumes "fold_ok g" and "equalFoldedStrings g a b" and "equalFoldedStrings g b c"
  shows "equalFoldedStrings g a c"
proof -
  have tr: "EqualFold g x y \<Longrightarrow> EqualFold g y z \<Longrightarrow> EqualFold g x z" for x y z using assms(1) unfolding fold_ok_def by blast
  show ?thesis
    using assms(2,3) unfolding equalFoldedStrings_def list_all2_conv_all_nth by (metis tr)
qed

lemma prefix_ids:
  "threadTargetsHavePrefix g kind a b \<longleftrightarrow> (\<exists>rest. map (threadTargetIdentity g kind) b = map (threadTargetIdentity g kind) a @ rest)"
proof (induction a arbitrary: b)
  case (Cons x a)
  then show ?case by (cases b) (auto simp: threadTargetsHavePrefix_def)
qed (simp add: threadTargetsHavePrefix_def)

lemma continues_trans: "fold_ok g \<Longrightarrow> continues g kind a b \<Longrightarrow> continues g kind b c \<Longrightarrow> continues g kind a c"
  by (auto simp: continues_def prefix_ids intro: folded_trans)

lemma has_history: "threadLaneHasHistory g kind h l \<longleftrightarrow> set (target_ids g kind l) \<inter> h \<noteq> {}"
  by (auto simp: threadLaneHasHistory_def list_ex_iff target_ids_def)

lemma continues_history:
  assumes "continues g kind l l'" and "threadLaneHasHistory g kind h l"
  shows "threadLaneHasHistory g kind h l'"
proof -
  from assms(1) obtain rest where "target_ids g kind l' = target_ids g kind l @ rest"
    unfolding continues_def prefix_ids target_ids_def by blast
  then have "set (target_ids g kind l) \<subseteq> set (target_ids g kind l')" by simp
  with assms(2) show ?thesis unfolding has_history by blast
qed

lemma mutation_continues:
  assumes "validateThreadDefinitionMutation g h before after = Inr ()" and "l \<in> set (td_Threads before)"
    and "threadLaneHasHistory g (to_Kind (td_Owner before)) h l"
  shows "\<exists>l' \<in> set (td_Threads after). continues g (to_Kind (td_Owner before)) l l'"
proof -
  from assms(1,2) have "check_pinned g (to_Kind (td_Owner before)) h (td_Threads after) l = Inr ()"
    by (auto simp: validateThreadDefinitionMutation_def Let_def unit_Inr forE_Inr_iff)
  with assms(3) show ?thesis
    by (auto simp: check_pinned_def continues_def unit_Inr dest!: lane_of_in split: option.splits)
qed

lemma published_kind:
  assumes "fold_ok g" and "to_Kind (td_Owner d) \<in> {''task'', ''workspace_change''}"
    and "publishThreadMutationLocked g au kind tasks (Some d) e = Inr d'"
  shows "to_Kind (td_Owner d') = to_Kind (td_Owner d)"
proof -
  have "td_Owner e = td_Owner d" "d' = normalizeThreadDefinition g (e\<lparr>td_Threads := map normalize_lane (td_Threads e)\<rparr>)"
    using assms(3) by (auto simp: publishThreadMutationLocked_def publishThreadDefinitionRevision_def validateThreadDefinitionMutation_def
        Let_def unit_Inr)
  moreover have "TrimSpace ''task'' = ''task''" "TrimSpace ''workspace_change'' = ''workspace_change''" by code_simp+
  ultimately show ?thesis using assms(1,2) by (auto simp: normalizeThreadDefinition_def fold_ok_def)
qed

lemma published_continues:
  assumes "publishThreadMutationLocked g au kind tasks (Some d) e = Inr d'" and "checkpointedThreadTargets g kind tasks = Inr h"
    and "l \<in> set (td_Threads d)" and "threadLaneHasHistory g (to_Kind (td_Owner d)) (set h) l"
  shows "td_Revision d' = td_Revision d + 1" "\<exists>l' \<in> set (td_Threads d'). continues g (to_Kind (td_Owner d)) l l'"
proof -
  let ?e = "e\<lparr>td_Threads := map normalize_lane (td_Threads e)\<rparr>"
  have m: "validateThreadDefinitionMutation g (set h) d ?e = Inr ()" and d': "d' = normalizeThreadDefinition g ?e"
    using assms(1,2) by (auto simp: publishThreadMutationLocked_def publishThreadDefinitionRevision_def Let_def unit_Inr)
  have "td_Threads d' = td_Threads ?e" by (simp add: d' normalizeThreadDefinition_def)
  with mutation_continues[OF m assms(3,4)] show "\<exists>l' \<in> set (td_Threads d'). continues g (to_Kind (td_Owner d)) l l'" by simp
  from m show "td_Revision d' = td_Revision d + 1"
    by (auto simp: validateThreadDefinitionMutation_def Let_def unit_Inr d' normalizeThreadDefinition_def)
qed

text \<open>
  A file of threads over any number of commands: each publishes against the log as it then is,
  which still holds the targets \<open>h0\<close> of the first.
\<close>

inductive republished :: "golib \<Rightarrow> string set \<Rightarrow> thread_definition \<Rightarrow> thread_definition \<Rightarrow> bool" for g h0 d0 where
  start: "republished g h0 d0 d0"
| step: "republished g h0 d0 d \<Longrightarrow> checkpointedThreadTargets g (to_Kind (td_Owner d)) tasks = Inr h \<Longrightarrow> h0 \<subseteq> set h
    \<Longrightarrow> publishThreadMutationLocked g au (to_Kind (td_Owner d)) tasks (Some d) e = Inr d' \<Longrightarrow> republished g h0 d0 d'"


section \<open>An example\<close>

definition demo_lane :: "string \<Rightarrow> string list \<Rightarrow> string list \<Rightarrow> lane" where
  "demo_lane key targets deps = \<lparr>ln_Key = key, ln_Name = '''', ln_Targets = map (\<lambda>t. \<lparr>tr_Repo = '''', tr_Task = '''', tr_Target = t\<rparr>) targets, ln_After = deps\<rparr>"

definition demo_threads :: "int \<Rightarrow> lane list \<Rightarrow> thread_definition" where
  "demo_threads n ls = \<lparr>td_SchemaVersion = 1, td_Revision = n,
     td_Owner = \<lparr>to_Kind = ''task'', to_TaskID = ''T'', to_WorkspaceID = '''', to_ChangeID = ''''\<rparr>, td_Threads = ls\<rparr>"

definition demo_snapshot :: task_snapshot where
  "demo_snapshot = \<lparr>ts_RepoAlias = '''', ts_Workspace = ''/w'', ts_Manifest = demo_task, ts_Events = demo_log\<rparr>"

definition demo_before :: thread_definition where
  "demo_before = demo_threads 1 [demo_lane ''a'' [''A01''] []]"

definition demo_after :: thread_definition where
  "demo_after = demo_threads 2 [demo_lane ''a'' [''A01''] [], demo_lane ''b'' [''A02''] [''A'']]"

lemma demo_fold: "fold_ok demo_golib"
proof -
  have "ToLower demo_golib ''task'' = ''task''" "ToLower demo_golib ''workspace_change'' = ''workspace_change''" by code_simp+
  then show ?thesis by (simp add: fold_ok_def demo_golib_def)
qed


end
