(* ===== verification/Lanes.thy ===== *)
theory Lanes
  imports Threads
begin

text \<open>
  The status of threads (\<open>internal/commands/thread_status.go\<close>): where each target stands follows from
  the reconciled tasks, the state of a lane from its targets, and whether it waits from the lanes
  it comes after.
\<close>

section \<open>Targets\<close>

record status_target =
  st_RepoAlias :: string
  st_TaskID :: string
  st_DefinitionTarget :: string
  st_Target :: string
  st_Title :: string
  st_Stage :: string
  st_Decision :: string
  st_CheckpointID :: string
  st_Conflicted :: bool
  st_ConflictHeads :: "string list"
  st_Completed :: bool
  st_Blocked :: bool

definition threadTargetProgressionGroup :: "golib \<Rightarrow> manifest \<Rightarrow> string \<Rightarrow> task_error + slice list" where
  "threadTargetProgressionGroup g m target =
     (case List.find (\<lambda>grp. grp \<noteq> [] \<and> EqualFold g (sl_ID (hd grp)) target) (taskSliceProgressionGroups g m) of
        Some grp \<Rightarrow> Inr grp
      | None \<Rightarrow> Inl (ThreadError ''not a base slice''))"

text \<open>The first open target, or the last one: completed when its decision lets others go on, blocked when not.\<close>

definition currentThreadTarget :: "golib \<Rightarrow> slice list \<Rightarrow> slice \<times> bool \<times> bool" where
  "currentThreadTarget g grp = (case List.find (\<lambda>s. \<not> taskTargetTerminal g s) grp of
     Some s \<Rightarrow> (s, False, False)
   | None \<Rightarrow> if taskDecisionAllowsSiblingAdvance g (last grp) then (last grp, True, False) else (last grp, False, True))"

definition threadTargetConflictHeads :: "golib \<Rightarrow> manifest \<Rightarrow> slice list \<Rightarrow> string list" where
  "threadTargetConflictHeads g m grp =
     (case List.find (\<lambda>(target, _). list_ex (\<lambda>s. EqualFold g target (sl_ID s)) grp) (tm_Conflicts m) of
        Some (_, heads) \<Rightarrow> heads | None \<Rightarrow> [])"

definition status_target_of :: "golib \<Rightarrow> string \<Rightarrow> manifest \<Rightarrow> string \<Rightarrow> slice list \<Rightarrow> status_target" where
  "status_target_of g alias m target grp =
     (let (current, completed, blocked) = currentThreadTarget g grp; heads = threadTargetConflictHeads g m grp in
      \<lparr>st_RepoAlias = alias, st_TaskID = tm_TaskID m, st_DefinitionTarget = target, st_Target = sl_ID current,
       st_Title = sl_Title current, st_Stage = sl_Stage current, st_Decision = sl_Decision current,
       st_CheckpointID = sl_LatestCheckpointID current, st_Conflicted = (heads \<noteq> []), st_ConflictHeads = heads,
       st_Completed = (completed \<and> heads = []), st_Blocked = (blocked \<or> heads \<noteq> [])\<rparr>)"

text \<open>The reconciled tasks by \<open>workspaceThreadTaskKey\<close>, in the order of the snapshot.\<close>

type_synonym task_map = "(string \<times> task_snapshot) list"

definition reconciledThreadTasks :: "golib \<Rightarrow> task_snapshot list \<Rightarrow> task_error + task_map" where
  "reconciledThreadTasks g tasks =
     foldE (\<lambda>t acc. bindE (reconcileThreadTaskLifecycle g t) (\<lambda>m.
         let key = workspaceThreadTaskKey g (ts_RepoAlias t) (tm_TaskID m) in
         bindE (requireE (key \<notin> set (map fst acc)) DuplicateTask) (\<lambda>_. Inr (acc @ [(key, t\<lparr>ts_Manifest := m\<rparr>)])))) tasks []"

definition buildThreadStatusTarget :: "golib \<Rightarrow> string \<Rightarrow> task_map \<Rightarrow> thread_ref \<Rightarrow> task_error + status_target" where
  "buildThreadStatusTarget g kind tasks r =
     (let alias = (if kind = ''task'' then '''' else tr_Repo r);
          task = (if kind = ''task'' then (case tasks of [] \<Rightarrow> tr_Task r | (_, t) # _ \<Rightarrow> tm_TaskID (ts_Manifest t)) else tr_Task r)
      in bindE (optionE (ThreadError ''task is unavailable'') (map_of tasks (workspaceThreadTaskKey g alias task))) (\<lambda>t.
         bindE (threadTargetProgressionGroup g (ts_Manifest t) (tr_Target r)) (\<lambda>grp.
           Inr (status_target_of g alias (ts_Manifest t) (tr_Target r) grp))))"

section \<open>Lanes\<close>

datatype lane_state = Unset | Ready | Active | Waiting | Halted | Completed

datatype reason = ConflictAt status_target | GateAt status_target | AfterLane string lane_state

record status_lane =
  la_Key :: string
  la_Name :: string
  la_State :: lane_state
  la_After :: "string list"
  la_Targets :: "status_target list"
  la_Current :: "status_target option"
  la_Reasons :: "reason list"

definition threadTargetIsActive :: "golib \<Rightarrow> status_target \<Rightarrow> bool" where
  "threadTargetIsActive g t \<longleftrightarrow> ToLower g (TrimSpace (st_Stage t)) \<in> set [''started'', ''implemented'', ''validated'']"

definition deriveThreadLaneOwnState :: "golib \<Rightarrow> status_lane \<Rightarrow> status_lane" where
  "deriveThreadLaneOwnState g l = (case List.find (\<lambda>t. \<not> st_Completed t) (la_Targets l) of
     None \<Rightarrow> l\<lparr>la_State := Completed\<rparr>
   | Some t \<Rightarrow>
      (let l1 = l\<lparr>la_Current := Some t\<rparr> in
       if st_Conflicted t then l1\<lparr>la_State := Halted, la_Reasons := [ConflictAt t]\<rparr>
       else if st_Blocked t then l1\<lparr>la_State := Halted, la_Reasons := [GateAt t]\<rparr>
       else if threadTargetIsActive g t then l1\<lparr>la_State := Active\<rparr>
       else l1\<lparr>la_State := Ready\<rparr>))"

text \<open>\<open>byKey\<close>: the last index of a key, and zero for a key that is not there.\<close>

definition by_key :: "golib \<Rightarrow> status_lane list \<Rightarrow> string \<Rightarrow> nat" where
  "by_key g ls k = (case List.find (\<lambda>i. ToLower g (la_Key (ls ! i)) = k) (rev [0..<length ls]) of Some i \<Rightarrow> i | None \<Rightarrow> 0)"

definition wait_at :: "golib \<Rightarrow> (string \<Rightarrow> nat) \<Rightarrow> nat \<Rightarrow> status_lane list \<Rightarrow> status_lane list" where
  "wait_at g index i ls =
     (let l = ls ! i in
      if la_State l = Completed \<or> la_State l = Halted then ls
      else
        let waiting = filter (\<lambda>d. la_State d \<noteq> Completed) (map (\<lambda>a. ls ! index (ToLower g a)) (la_After l)) in
        if waiting = [] then ls
        else ls[i := l\<lparr>la_State := Waiting, la_Reasons := map (\<lambda>d. AfterLane (la_Key d) (la_State d)) waiting\<rparr>])"

definition deriveThreadLaneStates :: "golib \<Rightarrow> status_lane list \<Rightarrow> status_lane list" where
  "deriveThreadLaneStates g ls = fold (wait_at g (by_key g ls)) [0..<length ls] (map (deriveThreadLaneOwnState g) ls)"

section \<open>The status\<close>

record owner_snapshot =
  os_Kind :: string
  os_Definition :: thread_definition
  os_Tasks :: "task_snapshot list"

record thread_status =
  sx_Threads :: "status_lane list"
  sx_ReadyThreads :: "string list"
  sx_ActiveThreads :: "string list"
  sx_UnassignedTargets :: "status_target list"

definition validateThreadSnapshot :: "golib \<Rightarrow> owner_snapshot \<Rightarrow> task_error + unit" where
  "validateThreadSnapshot g s =
     bindE (thread_error (\<not> (os_Kind s \<noteq> ''task'' \<and> os_Kind s \<noteq> ''workspace_change'')) ''invalid owner kind'') (\<lambda>_.
     bindE (thread_error (to_Kind (td_Owner (os_Definition s)) = os_Kind s) ''owner and definition disagree'') (\<lambda>_.
     bindE (validateThreadDefinitionEnvelope g (os_Definition s)) (\<lambda>_.
     bindE (thread_error (os_Tasks s \<noteq> []) ''no tasks'') (\<lambda>_.
       thread_error (\<not> (os_Kind s = ''task'' \<and> length (os_Tasks s) \<noteq> 1)) ''exactly one task''))))"

definition threadStatusTargetIdentity :: "golib \<Rightarrow> string \<Rightarrow> string \<Rightarrow> string \<Rightarrow> string" where
  "threadStatusTargetIdentity g alias task target =
     ToLower g (TrimSpace alias @ [CHR 0x00] @ TrimSpace task @ [CHR 0x00] @ TrimSpace target)"

definition unassignedThreadTargets :: "golib \<Rightarrow> task_map \<Rightarrow> string list \<Rightarrow> status_target list" where
  "unassignedThreadTargets g tasks assigned =
     concat (map (\<lambda>(_, t).
       map (\<lambda>grp. status_target_of g (ts_RepoAlias t) (ts_Manifest t) (sl_ID (hd grp)) grp)
         (filter (\<lambda>grp. grp \<noteq> [] \<and>
             threadStatusTargetIdentity g (ts_RepoAlias t) (tm_TaskID (ts_Manifest t)) (sl_ID (hd grp)) \<notin> set assigned)
           (taskSliceProgressionGroups g (ts_Manifest t))))
       (sort_key fst tasks))"

definition build_lane :: "golib \<Rightarrow> string \<Rightarrow> task_map \<Rightarrow> lane \<Rightarrow> task_error + status_lane" where
  "build_lane g kind tasks l = bindE (mapE (buildThreadStatusTarget g kind tasks) (ln_Targets l)) (\<lambda>ts.
     Inr \<lparr>la_Key = ln_Key l, la_Name = ln_Name l, la_State = Unset, la_After = ln_After l, la_Targets = ts, la_Current = None, la_Reasons = []\<rparr>)"

definition buildThreadStatus :: "golib \<Rightarrow> owner_snapshot \<Rightarrow> task_error + thread_status" where
  "buildThreadStatus g s =
     bindE (validateThreadSnapshot g s) (\<lambda>_.
     bindE (reconciledThreadTasks g (os_Tasks s)) (\<lambda>tasks.
     bindE (mapE (build_lane g (os_Kind s) tasks) (td_Threads (os_Definition s))) (\<lambda>built.
       let ls = deriveThreadLaneStates g built;
           assigned = map (\<lambda>t. threadStatusTargetIdentity g (st_RepoAlias t) (st_TaskID t) (st_DefinitionTarget t)) (concat (map la_Targets built))
       in Inr \<lparr>sx_Threads = ls,
            sx_ReadyThreads = map la_Key (filter (\<lambda>l. la_State l = Ready) ls),
            sx_ActiveThreads = map la_Key (filter (\<lambda>l. la_State l = Active) ls),
            sx_UnassignedTargets = unassignedThreadTargets g tasks assigned\<rparr>)))"

section \<open>What the loop over the lanes computes\<close>

lemma own_keeps [simp]:
  "la_Key (deriveThreadLaneOwnState g l) = la_Key l" "la_After (deriveThreadLaneOwnState g l) = la_After l"
  "la_Targets (deriveThreadLaneOwnState g l) = la_Targets l"
  by (simp_all add: deriveThreadLaneOwnState_def Let_def split: option.splits)

lemma own_completed: "la_State (deriveThreadLaneOwnState g l) = Completed \<longleftrightarrow> (\<forall>t \<in> set (la_Targets l). st_Completed t)"
proof (cases "List.find (\<lambda>t. \<not> st_Completed t) (la_Targets l)")
  case None
  then have "\<forall>t \<in> set (la_Targets l). st_Completed t" by (auto simp: find_None_iff)
  with None show ?thesis by (simp add: deriveThreadLaneOwnState_def)
next
  case (Some t)
  then show ?thesis by (auto simp: deriveThreadLaneOwnState_def Let_def dest!: find_SomeD_conj)
qed

lemma own_state: "la_State (deriveThreadLaneOwnState g l) \<in> {Completed, Halted, Active, Ready}"
  by (auto simp: deriveThreadLaneOwnState_def Let_def split: option.splits)

text \<open>
  The specification: a lane that is not completed or halted waits when some lane it names is not
  completed by its own targets; the loop may overwrite lanes it still has to read, but never one
  that is completed.
\<close>

definition settles :: "(string \<Rightarrow> nat) \<Rightarrow> (string \<Rightarrow> string) \<Rightarrow> status_lane list \<Rightarrow> status_lane \<Rightarrow> lane_state" where
  "settles index low ls l =
     (if la_State l = Completed \<or> la_State l = Halted then la_State l
      else if \<exists>a \<in> set (la_After l). la_State (ls ! index (low a)) \<noteq> Completed then Waiting else la_State l)"

definition passed :: "golib \<Rightarrow> (string \<Rightarrow> nat) \<Rightarrow> status_lane list \<Rightarrow> nat \<Rightarrow> status_lane list \<Rightarrow> bool" where
  "passed g index ls n cur \<longleftrightarrow> length cur = length ls \<and> (\<forall>j < length ls.
     la_Key (cur ! j) = la_Key (ls ! j) \<and> la_After (cur ! j) = la_After (ls ! j) \<and> la_Targets (cur ! j) = la_Targets (ls ! j)
     \<and> la_State (cur ! j) = (if j < n then settles index (ToLower g) ls (ls ! j) else la_State (ls ! j)))"

lemma settles_completed: "settles index low ls l = Completed \<longleftrightarrow> la_State l = Completed"
  by (simp add: settles_def)

lemma passed_step:
  assumes "passed g index ls n cur" and "n < length ls" and "\<And>k. index k < length ls"
  shows "passed g index ls (Suc n) (wait_at g index n cur)"
proof -
  let ?l = "ls ! n" and ?c = "cur ! n"
  have c: "la_After ?c = la_After ?l" "la_State ?c = la_State ?l" "la_Key ?c = la_Key ?l" "la_Targets ?c = la_Targets ?l" "n < length cur"
    using assms(1,2) by (auto simp: passed_def)
  have st: "la_State (cur ! index k) = Completed \<longleftrightarrow> la_State (ls ! index k) = Completed" for k
    using assms(1,3) by (simp add: passed_def settles_completed)
  have w: "filter (\<lambda>d. la_State d \<noteq> Completed) (map (\<lambda>a. cur ! index (ToLower g a)) (la_After ?c)) = []
      \<longleftrightarrow> \<not> (\<exists>a \<in> set (la_After ?l). la_State (ls ! index (ToLower g a)) \<noteq> Completed)"
    by (simp add: filter_empty_conv c st)
  show ?thesis
    using assms(1,2) c w
    by (auto simp: passed_def wait_at_def Let_def settles_def nth_list_update less_Suc_eq)
qed

lemma passed_all:
  assumes "\<And>k. index k < length ls" and "n \<le> length ls"
  shows "passed g index ls n (fold (wait_at g index) [0..<n] ls)"
  using assms(2)
proof (induction n)
  case 0
  show ?case by (simp add: passed_def)
next
  case (Suc n)
  then show ?case using passed_step[OF Suc.IH _ assms(1)] by simp
qed

lemma by_key_bound: "ls \<noteq> [] \<Longrightarrow> by_key g ls k < length ls"
  by (auto simp: by_key_def split: option.splits dest!: find_SomeD_conj)

lemma by_key_finds:
  assumes "j < length ls" and "ToLower g (la_Key (ls ! j)) = k"
  shows "ToLower g (la_Key (ls ! by_key g ls k)) = k"
  using assms by (auto simp: by_key_def find_None_iff split: option.splits dest!: find_SomeD_conj)

lemma lane_states:
  fixes g ls
  defines "out \<equiv> deriveThreadLaneStates g ls" and "own \<equiv> map (deriveThreadLaneOwnState g) ls"
  shows "length out = length ls"
    and "j < length ls \<Longrightarrow> la_Key (out ! j) = la_Key (ls ! j) \<and> la_After (out ! j) = la_After (ls ! j) \<and> la_Targets (out ! j) = la_Targets (ls ! j)
      \<and> la_State (out ! j) = settles (by_key g ls) (ToLower g) own (own ! j)"
proof -
  have "passed g (by_key g ls) own (length ls) out"
  proof (cases "ls = []")
    case True
    then show ?thesis by (simp add: passed_def out_def own_def deriveThreadLaneStates_def)
  next
    case False
    then have "passed g (by_key g ls) own (length ls) (fold (wait_at g (by_key g ls)) [0..<length ls] own)"
      by (intro passed_all) (simp_all add: own_def by_key_bound)
    then show ?thesis by (simp add: out_def own_def deriveThreadLaneStates_def)
  qed
  then show "length out = length ls"
    and "j < length ls \<Longrightarrow> la_Key (out ! j) = la_Key (ls ! j) \<and> la_After (out ! j) = la_After (ls ! j) \<and> la_Targets (out ! j) = la_Targets (ls ! j)
      \<and> la_State (out ! j) = settles (by_key g ls) (ToLower g) own (own ! j)"
    by (simp_all add: passed_def own_def)
qed

section \<open>A schedule that runs\<close>

definition finished_lane :: "status_lane \<Rightarrow> bool" where
  "finished_lane l \<longleftrightarrow> (\<forall>t \<in> set (la_Targets l). st_Completed t)"

lemma lanes_built:
  "mapE (build_lane g kind tasks) ls = Inr built \<Longrightarrow> map la_Key built = map ln_Key ls \<and> map la_After built = map ln_After ls"
  by (induction ls arbitrary: built) (auto simp: build_lane_def)

lemma status_built:
  assumes "buildThreadStatus g s = Inr out"
  obtains built where "graph_ok g (os_Kind s) (\<lambda>_. Inr ()) (td_Threads (os_Definition s))"
    "map la_Key built = map ln_Key (td_Threads (os_Definition s))" "map la_After built = map ln_After (td_Threads (os_Definition s))"
    "sx_Threads out = deriveThreadLaneStates g built"
    "sx_ReadyThreads out = map la_Key (filter (\<lambda>l. la_State l = Ready) (sx_Threads out))"
    "sx_ActiveThreads out = map la_Key (filter (\<lambda>l. la_State l = Active) (sx_Threads out))"
proof -
  from assms obtain tasks built where v: "validateThreadSnapshot g s = Inr ()"
    and b: "mapE (build_lane g (os_Kind s) tasks) (td_Threads (os_Definition s)) = Inr built"
    and o: "sx_Threads out = deriveThreadLaneStates g built"
      "sx_ReadyThreads out = map la_Key (filter (\<lambda>l. la_State l = Ready) (sx_Threads out))"
      "sx_ActiveThreads out = map la_Key (filter (\<lambda>l. la_State l = Active) (sx_Threads out))"
    by (auto simp: buildThreadStatus_def Let_def unit_Inr)
  from v have k: "to_Kind (td_Owner (os_Definition s)) = os_Kind s" and e: "validateThreadDefinitionEnvelope g (os_Definition s) = Inr ()"
    by (auto simp: validateThreadSnapshot_def unit_Inr)
  from e have "validateThreadDefinitionGraph g (\<lambda>_. Inr ()) (os_Definition s) = Inr ()"
    by (auto simp: validateThreadDefinitionEnvelope_def Let_def unit_Inr)
  then have g: "graph_ok g (os_Kind s) (\<lambda>_. Inr ()) (td_Threads (os_Definition s))" unfolding graph_exact k .
  from lanes_built[OF b] g o that show thesis by blast
qed

text \<open>What a status says of a lane and of the lanes it comes after.\<close>

lemma lane_settled:
  assumes "graph_ok g kind check ls" and "map la_Key built = map ln_Key ls" and "map la_After built = map ln_After ls"
    and "i < length ls" and "out = deriveThreadLaneStates g built"
  shows "la_Key (out ! i) = ln_Key (ls ! i)" "la_After (out ! i) = ln_After (ls ! i)"
    "la_State (out ! i) = Completed \<longleftrightarrow> finished_lane (out ! i)"
    "la_State (out ! i) \<noteq> Unset"
    "a \<in> set (ln_After (ls ! i)) \<Longrightarrow> \<exists>j < length ls. lane_key g (ls ! j) = ToLower g a
       \<and> (la_State (out ! i) \<in> {Ready, Active} \<longrightarrow> la_State (out ! j) = Completed)"
    "la_State (out ! i) = Waiting \<Longrightarrow> \<exists>a \<in> set (ln_After (ls ! i)). \<exists>j < length ls. lane_key g (ls ! j) = ToLower g a \<and> la_State (out ! j) \<noteq> Completed"
proof -
  let ?own = "map (deriveThreadLaneOwnState g) built" and ?ix = "by_key g built"
  have n: "length built = length ls" using assms(2) by (metis length_map)
  have kb: "la_Key (built ! j) = ln_Key (ls ! j)" "la_After (built ! j) = ln_After (ls ! j)" if "j < length ls" for j
    using assms(2,3) that n by (metis nth_map)+
  have r: "la_Key (out ! j) = ln_Key (ls ! j)" "la_After (out ! j) = ln_After (ls ! j)" "la_Targets (out ! j) = la_Targets (built ! j)"
      "la_State (out ! j) = settles ?ix (ToLower g) ?own (?own ! j)" if "j < length ls" for j
    using lane_states(2)[of j built g] that kb[OF that] by (simp_all add: n assms(5))
  show "la_Key (out ! i) = ln_Key (ls ! i)" "la_After (out ! i) = ln_After (ls ! i)" using r[OF assms(4)] by simp_all
  have cpl: "la_State (out ! j) = Completed \<longleftrightarrow> la_State (?own ! j) = Completed" if "j < length ls" for j
    using r(4)[OF that] by (simp add: settles_completed)
  show "la_State (out ! i) = Completed \<longleftrightarrow> finished_lane (out ! i)"
    using cpl[OF assms(4)] r(3)[OF assms(4)] assms(4) n by (simp add: finished_lane_def own_completed)
  show "la_State (out ! i) \<noteq> Unset"
    using r(4)[OF assms(4)] own_state[of g "built ! i"] assms(4) n by (auto simp: settles_def)
  have ix: "?ix (ToLower g a) < length ls \<and> lane_key g (ls ! ?ix (ToLower g a)) = ToLower g a" if "a \<in> set (ln_After (ls ! i))" for a
  proof -
    have "(lane_key g (ls ! i), ToLower g a) \<in> waits_for g ls"
      by (rule waits_forI[OF nth_mem[OF assms(4)] that])
    then have "ToLower g a \<in> snd ` waits_for g ls" by force
    with assms(1) have "ToLower g a \<in> lane_key g ` set ls" unfolding graph_ok_def by blast
    then obtain j where j: "j < length ls" "lane_key g (ls ! j) = ToLower g a" by (auto simp: in_set_conv_nth)
    have b: "?ix (ToLower g a) < length ls" using by_key_bound[of built g] n j(1) by fastforce
    have "ToLower g (la_Key (built ! ?ix (ToLower g a))) = ToLower g a"
      by (rule by_key_finds) (use j n kb(1) in \<open>auto simp: lane_key_def\<close>)
    with b kb(1)[OF b] show ?thesis by (simp add: lane_key_def)
  qed
  show "\<exists>j < length ls. lane_key g (ls ! j) = ToLower g a \<and> (la_State (out ! i) \<in> {Ready, Active} \<longrightarrow> la_State (out ! j) = Completed)"
    if a: "a \<in> set (ln_After (ls ! i))"
    using ix[OF a] cpl[of "?ix (ToLower g a)"] r(4)[OF assms(4)] a kb(2)[OF assms(4)] assms(4) n
    by (intro exI[of _ "?ix (ToLower g a)"]) (auto simp: settles_def split: if_splits)
  show "\<exists>a \<in> set (ln_After (ls ! i)). \<exists>j < length ls. lane_key g (ls ! j) = ToLower g a \<and> la_State (out ! j) \<noteq> Completed"
    if w: "la_State (out ! i) = Waiting"
  proof -
    have "la_State (?own ! i) \<noteq> Waiting" using own_state[of g "built ! i"] assms(4) n by auto
    with w r(4)[OF assms(4)] kb(2)[OF assms(4)] assms(4) n obtain a where a: "a \<in> set (ln_After (ls ! i))"
      "la_State (?own ! ?ix (ToLower g a)) \<noteq> Completed" by (auto simp: settles_def split: if_splits)
    with ix[OF a(1)] cpl[of "?ix (ToLower g a)"] show ?thesis by blast
  qed
qed

text \<open>
  C21: Work is offered in the order of the graph: a lane that is reported ready or active comes only
  after lanes that are completed, and a lane is reported completed exactly when all of its
  targets are.
\<close>

theorem runnable_lanes_are_free:
  assumes "buildThreadStatus g s = Inr out" and "l \<in> set (sx_Threads out)"
  shows "(la_State l = Completed \<longleftrightarrow> finished_lane l)
    \<and> (la_State l \<in> {Ready, Active} \<longrightarrow> (\<forall>a \<in> set (la_After l).
         \<exists>d \<in> set (sx_Threads out). ToLower g (la_Key d) = ToLower g a \<and> la_State d = Completed))"
proof -
  let ?ls = "td_Threads (os_Definition s)"
  obtain built where b: "graph_ok g (os_Kind s) (\<lambda>_. Inr ()) ?ls" "map la_Key built = map ln_Key ?ls" "map la_After built = map ln_After ?ls"
    "sx_Threads out = deriveThreadLaneStates g built" by (rule status_built[OF assms(1)])
  have n: "length (sx_Threads out) = length ?ls" using b(2,4) lane_states(1)[of g built] by (metis length_map)
  from assms(2) obtain i where i: "i < length ?ls" "l = sx_Threads out ! i" by (auto simp: in_set_conv_nth n)
  note s = lane_settled[OF b(1-3) i(1) b(4)]
  have "\<exists>d \<in> set (sx_Threads out). ToLower g (la_Key d) = ToLower g a \<and> la_State d = Completed"
    if "la_State l \<in> {Ready, Active}" "a \<in> set (la_After l)" for a
  proof -
    from s(5)[of a] s(2) that i obtain j where j: "j < length ?ls" "lane_key g (?ls ! j) = ToLower g a" "la_State (sx_Threads out ! j) = Completed"
      by auto
    with lane_settled(1)[OF b(1-3) j(1) b(4)] n show ?thesis
      by (intro bexI[of _ "sx_Threads out ! j"]) (auto simp: lane_key_def)
  qed
  with s(3) i show ?thesis by blast
qed

text \<open>
  C4: A schedule never jams: in any status in which some lane is not completed and none is halted by
  conflicting heads or a closed gate, some lane is ready or active, so there is always work to
  hand out or work under way.
\<close>

theorem threads_make_progress:
  assumes "buildThreadStatus g s = Inr out"
    and "\<exists>l \<in> set (sx_Threads out). \<not> finished_lane l" and "\<forall>l \<in> set (sx_Threads out). la_State l \<noteq> Halted"
  shows "sx_ReadyThreads out \<noteq> [] \<or> sx_ActiveThreads out \<noteq> []"
proof -
  let ?ls = "td_Threads (os_Definition s)" and ?out = "sx_Threads out"
  obtain built where b: "graph_ok g (os_Kind s) (\<lambda>_. Inr ()) ?ls" "map la_Key built = map ln_Key ?ls" "map la_After built = map ln_After ?ls"
    "?out = deriveThreadLaneStates g built"
    and ra: "sx_ReadyThreads out = map la_Key (filter (\<lambda>l. la_State l = Ready) ?out)"
      "sx_ActiveThreads out = map la_Key (filter (\<lambda>l. la_State l = Active) ?out)" by (rule status_built[OF assms(1)])
  have n: "length ?out = length ?ls" using b(2,4) lane_states(1)[of g built] by (metis length_map)
  note s = lane_settled[OF b(1-3) _ b(4)]
  let ?open = "{lane_key g (?ls ! i) |i. i < length ?ls \<and> la_State (?out ! i) \<noteq> Completed}"
  have "waits_for g ?ls = (\<Union>l \<in> set ?ls. Pair (lane_key g l) ` ToLower g ` set (ln_After l))" by (auto simp: waits_for_def)
  then have "finite (waits_for g ?ls)" by simp
  moreover have "acyclic (waits_for g ?ls)" using b(1) by (simp add: graph_ok_def)
  ultimately have wf: "wf ((waits_for g ?ls)\<inverse>)" by (simp add: finite_acyclic_wf_converse)
  from assms(2) obtain i0 where "i0 < length ?ls" "\<not> finished_lane (?out ! i0)" by (auto simp: in_set_conv_nth n)
  with s(3) have "lane_key g (?ls ! i0) \<in> ?open" by blast
  then obtain k where k: "k \<in> ?open" "\<And>y. (y, k) \<in> (waits_for g ?ls)\<inverse> \<Longrightarrow> y \<notin> ?open"
    using wfE_min[OF wf, of _ ?open] by (metis (no_types, lifting))
  then obtain i where i: "i < length ?ls" "k = lane_key g (?ls ! i)" "la_State (?out ! i) \<noteq> Completed" by blast
  have "la_State (?out ! i) \<noteq> Waiting"
  proof
    assume "la_State (?out ! i) = Waiting"
    then obtain a j where a: "a \<in> set (ln_After (?ls ! i))" "j < length ?ls" "lane_key g (?ls ! j) = ToLower g a" "la_State (?out ! j) \<noteq> Completed"
      using s(6)[OF i(1)] by blast
    then have "ToLower g a \<in> ?open" by force
    moreover have "(ToLower g a, k) \<in> (waits_for g ?ls)\<inverse>" unfolding i(2) by (intro converseI waits_forI[OF nth_mem[OF i(1)] a(1)])
    ultimately show False using k(2) by blast
  qed
  moreover have "?out ! i \<in> set ?out" using i(1) n by simp
  ultimately have "la_State (?out ! i) \<in> {Ready, Active}"
    using i(3) assms(3) s(4)[OF i(1)] by (cases "la_State (?out ! i)") auto
  with \<open>?out ! i \<in> set ?out\<close> show ?thesis unfolding ra by (auto simp: filter_empty_conv)
qed

section \<open>Examples\<close>

definition demo_status_of :: "thread_definition \<Rightarrow> task_snapshot \<Rightarrow> task_error + thread_status" where
  "demo_status_of d t = buildThreadStatus demo_golib \<lparr>os_Kind = ''task'', os_Definition = d, os_Tasks = [t]\<rparr>"

definition demo_running :: task_snapshot where
  "demo_running = \<lparr>ts_RepoAlias = '''', ts_Workspace = '''', ts_Manifest = demo_manifest [demo_slice ''A01'' ''done'' ''promote'', demo_slice ''A02'' ''started'' ''''],
     ts_Events = []\<rparr>"

definition demo_status :: thread_status where
  "demo_status = (case demo_status_of demo_after demo_running of Inr out \<Rightarrow> out
     | Inl _ \<Rightarrow> \<lparr>sx_Threads = [], sx_ReadyThreads = [], sx_ActiveThreads = [], sx_UnassignedTargets = []\<rparr>)"

lemma demo_status_built:
  "buildThreadStatus demo_golib \<lparr>os_Kind = ''task'', os_Definition = demo_after, os_Tasks = [demo_running]\<rparr> = Inr demo_status"
proof -
  have "\<not> isl (demo_status_of demo_after demo_running)" by code_simp
  then have "demo_status_of demo_after demo_running = Inr demo_status" by (auto simp: demo_status_def split: sum.splits)
  then show ?thesis unfolding demo_status_of_def .
qed

text \<open>The lane of the completed target, and the lane that came after it and is under way.\<close>

lemma demo_status_states:
  "map (\<lambda>l. (la_Key l, la_State l, la_After l)) (sx_Threads demo_status) = [(''a'', Completed, []), (''b'', Active, [''A''])] \<and> sx_ActiveThreads demo_status = [''b'']
    \<and> list_ex (\<lambda>l. \<not> finished_lane l) (sx_Threads demo_status) \<and> list_all (\<lambda>l. la_State l \<noteq> Halted) (sx_Threads demo_status)"
  unfolding demo_status_def finished_lane_def by code_simp

theorem runnable_lanes_are_free_witness:
  "la_State (sx_Threads demo_status ! 1) = Active
    \<and> (\<exists>d \<in> set (sx_Threads demo_status). ToLower demo_golib (la_Key d) = ToLower demo_golib ''A'' \<and> la_State d = Completed)"
proof -
  have m: "map (\<lambda>l. (la_Key l, la_State l, la_After l)) (sx_Threads demo_status) = [(''a'', Completed, []), (''b'', Active, [''A''])]"
    using demo_status_states by blast
  have n: "1 < length (sx_Threads demo_status)" using arg_cong[OF m, where f = length] by simp
  have "map (\<lambda>l. (la_Key l, la_State l, la_After l)) (sx_Threads demo_status) ! 1 = (''b'', Active, [''A''])" unfolding m by simp
  then have "la_State (sx_Threads demo_status ! 1) = Active" "la_After (sx_Threads demo_status ! 1) = [''A'']" using n by simp_all
  with runnable_lanes_are_free[OF demo_status_built nth_mem[OF n]] show ?thesis by simp
qed

theorem threads_make_progress_witness:
  "\<not> (sx_ReadyThreads demo_status = [] \<and> sx_ActiveThreads demo_status = []) \<and> sx_ActiveThreads demo_status = [''b'']"
proof -
  have "\<exists>l \<in> set (sx_Threads demo_status). \<not> finished_lane l" "\<forall>l \<in> set (sx_Threads demo_status). la_State l \<noteq> Halted"
    using demo_status_states by (auto simp: list_ex_iff list_all_iff)
  from threads_make_progress[OF demo_status_built this] demo_status_states show ?thesis by blast
qed

section \<open>Targets that are not named by their ID\<close>

definition demo_titled :: manifest where
  "demo_titled = demo_manifest [(demo_slice ''A01'' '''' '''')\<lparr>sl_Title := ''Api''\<rparr>, demo_slice ''A02'' '''' '''']"

definition demo_titled_snapshot :: task_snapshot where
  "demo_titled_snapshot = \<lparr>ts_RepoAlias = '''', ts_Workspace = ''/w'', ts_Manifest = demo_titled, ts_Events = []\<rparr>"

definition demo_selected :: thread_definition where
  "demo_selected = demo_threads 1 [demo_lane ''a'' [''Api''] [], demo_lane ''b'' [''A01''] [''a'']]"

lemma group_found:
  "(\<exists>grp. threadTargetProgressionGroup g m target = Inr grp)
     \<longleftrightarrow> (\<exists>grp \<in> set (taskSliceProgressionGroups g m). grp \<noteq> [] \<and> EqualFold g (sl_ID (hd grp)) target)"
proof (cases "List.find (\<lambda>grp. grp \<noteq> [] \<and> EqualFold g (sl_ID (hd grp)) target) (taskSliceProgressionGroups g m)")
  case None
  then have "\<not> (\<exists>grp \<in> set (taskSliceProgressionGroups g m). grp \<noteq> [] \<and> EqualFold g (sl_ID (hd grp)) target)"
    by (auto simp: find_None_iff)
  with None show ?thesis by (simp add: threadTargetProgressionGroup_def)
next
  case (Some grp)
  then show ?thesis by (auto simp: threadTargetProgressionGroup_def dest: find_SomeD_conj)
qed

lemma mapE_total: "(\<exists>ys. mapE f xs = Inr ys) \<longleftrightarrow> (\<forall>x \<in> set xs. \<exists>y. f x = Inr y)"
  by (induction xs) auto

lemma lane_total: "(\<exists>b. build_lane g kind tasks l = Inr b) \<longleftrightarrow> (\<forall>r \<in> set (ln_Targets l). \<exists>y. buildThreadStatusTarget g kind tasks r = Inr y)"
  unfolding mapE_total[symmetric] by (auto simp: build_lane_def)

lemma one_task:
  assumes "reconcileThreadTaskLifecycle g t = Inr m" and "ts_RepoAlias t = ''''"
  obtains tasks where "reconciledThreadTasks g [t] = Inr tasks"
    "\<And>r. (\<exists>y. buildThreadStatusTarget g ''task'' tasks r = Inr y) \<longleftrightarrow> (\<exists>grp. threadTargetProgressionGroup g m (tr_Target r) = Inr grp)"
proof
  let ?tasks = "[(workspaceThreadTaskKey g '''' (tm_TaskID m), t\<lparr>ts_Manifest := m\<rparr>)]"
  show "reconciledThreadTasks g [t] = Inr ?tasks" using assms by (simp add: reconciledThreadTasks_def Let_def)
  show "(\<exists>y. buildThreadStatusTarget g ''task'' ?tasks r = Inr y) \<longleftrightarrow> (\<exists>grp. threadTargetProgressionGroup g m (tr_Target r) = Inr grp)" for r
    by (auto simp: buildThreadStatusTarget_def Let_def)
qed

lemma published_snapshot:
  assumes "publishThreadMutationLocked g (TaskAuthority m) ''task'' [t] file d = Inr d'"
  shows "validateThreadSnapshot g \<lparr>os_Kind = ''task'', os_Definition = d', os_Tasks = [t]\<rparr> = Inr ()"
proof -
  from assms have v: "validateRepoThreadDefinition g m d = Inr ()" and e: "validateThreadDefinitionEnvelope g d' = Inr ()"
    and d': "d' = normalizeThreadDefinition g (d\<lparr>td_Threads := map normalize_lane (td_Threads d)\<rparr>)"
    by (auto simp: publishThreadMutationLocked_def publishThreadDefinitionRevision_def Let_def unit_Inr)
  from v have "to_Kind (td_Owner (normalizeThreadDefinition g d)) = ''task''"
    by (auto simp: validateRepoThreadDefinition_def Let_def unit_Inr)
  then have "to_Kind (td_Owner d') = ''task''" by (simp add: d' normalizeThreadDefinition_def)
  with e show ?thesis by (simp add: validateThreadSnapshot_def unit_Inr)
qed

text \<open>
  C40: Which definitions of a task's threads have a status. \<open>ds thread set\<close> accepts a target when the
  selector of checkpoints finds a slice for it, and that selector also takes a title or a file name; the text is
  published as it was given. The status of the owner then exists exactly if every target of every lane is the ID
  of the first slice of a progression group: one target named in any other way, and no lane of
  the owner has a status any more.
\<close>

theorem status_needs_slice_ids:
  assumes "publishThreadMutationLocked g (TaskAuthority m) ''task'' [t] file d = Inr d'" and "ts_RepoAlias t = ''''"
    and "reconcileThreadTaskLifecycle g t = Inr m'"
  shows "(\<exists>out. buildThreadStatus g \<lparr>os_Kind = ''task'', os_Definition = d', os_Tasks = [t]\<rparr> = Inr out)
    \<longleftrightarrow> (\<forall>l \<in> set (td_Threads d'). \<forall>r \<in> set (ln_Targets l).
         \<exists>grp \<in> set (taskSliceProgressionGroups g m'). grp \<noteq> [] \<and> EqualFold g (sl_ID (hd grp)) (tr_Target r))"
proof -
  obtain tasks where t: "reconciledThreadTasks g [t] = Inr tasks"
    "\<And>r. (\<exists>y. buildThreadStatusTarget g ''task'' tasks r = Inr y) \<longleftrightarrow> (\<exists>grp. threadTargetProgressionGroup g m' (tr_Target r) = Inr grp)"
    using one_task[OF assms(3,2)] by metis
  have "(\<exists>out. buildThreadStatus g \<lparr>os_Kind = ''task'', os_Definition = d', os_Tasks = [t]\<rparr> = Inr out)
    \<longleftrightarrow> (\<exists>built. mapE (build_lane g ''task'' tasks) (td_Threads d') = Inr built)"
    using published_snapshot[OF assms(1)] t(1) by (auto simp: buildThreadStatus_def Let_def)
  then show ?thesis by (simp add: mapE_total lane_total t(2) group_found)
qed

theorem status_needs_slice_ids_witness:
  "publishThreadMutationLocked demo_golib (TaskAuthority demo_titled) ''task'' [demo_titled_snapshot] None demo_selected = Inr demo_selected
    \<and> \<not> (\<exists>out. buildThreadStatus demo_golib \<lparr>os_Kind = ''task'', os_Definition = demo_selected, os_Tasks = [demo_titled_snapshot]\<rparr> = Inr out)
    \<and> taskSliceForCheckpoint demo_golib demo_titled ''Api'' = taskSliceForCheckpoint demo_golib demo_titled ''A01''"
proof -
  have p: "publishThreadMutationLocked demo_golib (TaskAuthority demo_titled) ''task'' [demo_titled_snapshot] None demo_selected = Inr demo_selected"
    by code_simp
  have a: "ts_RepoAlias demo_titled_snapshot = ''''" by (simp add: demo_titled_snapshot_def)
  have r: "reconcileThreadTaskLifecycle demo_golib demo_titled_snapshot = Inr demo_titled" by code_simp
  have s: "taskSliceForCheckpoint demo_golib demo_titled ''Api'' = taskSliceForCheckpoint demo_golib demo_titled ''A01''" by code_simp
  have l: "demo_lane ''a'' [''Api''] [] \<in> set (td_Threads demo_selected)" by (simp add: demo_selected_def demo_threads_def)
  have k: "\<lparr>tr_Repo = '''', tr_Task = '''', tr_Target = ''Api''\<rparr> \<in> set (ln_Targets (demo_lane ''a'' [''Api''] []))" by (simp add: demo_lane_def)
  have n: "list_all (\<lambda>grp. \<not> (grp \<noteq> [] \<and> EqualFold demo_golib (sl_ID (hd grp)) ''Api'')) (taskSliceProgressionGroups demo_golib demo_titled)"
    by code_simp
  from status_needs_slice_ids[OF p a r] l k n p s show ?thesis by (fastforce simp: list_all_iff)
qed

end
