(* ===== verification/Spec2Isabelle.thy ===== *)
theory Spec2Isabelle
  imports Lifetime Migration Filters Upkeep Lanes
begin

text \<open>
  \<^bold>\<open>The program.\<close> \<open>ds\<close> is a command-line program around one durable store, the hub: an SQLite
  file that local agents share (\<open>src/internal/hubstore\<close>). It holds scopes (one per Git common
  directory, and one global scope), enrolled actors and consumers, topics with a policy
  generation, an append-only stream of publications per scope (message revisions and typed
  events), message pins and votes, cooperative leases, subscriptions with a cursor, and the
  record of what was pruned. Every mutating method of \<open>hubstore.DB\<close> checks its input, resolves the
  repository, and runs one closure in one immediate SQLite transaction (\<open>write\<close> in \<open>store.go\<close>).
  A second durable state are the workspaces of tasks (\<open>src/internal/commands\<close>): per task a manifest
  \<open>task.json\<close> with its slices, a directory of checkpoints that are never changed once published, and
  per task or change a definition of named threads. The checkpoints are authoritative: every reader
  resolves them to the heads of each target and projects those onto the manifest. Commands exclude
  each other by one lock per workspace. The rest of the program parses flags, prints, and builds a
  rebuildable index; this development is about the two stores, where the guarantees are.

  \<^bold>\<open>Theories and source files.\<close>
  \<^item> \<open>Prelude\<close>, \<open>Texts\<close>: sequencing of fallible steps (\<open>bindE\<close> is \<open>if err != nil { return err }\<close>),
    rows kept in a list in insertion order, hexadecimal, \<open>time.Time\<close>, UTF-8 decoding and trimming;
    the interface \<open>keyed_table\<close> of a table with a unique key.
  \<^item> \<open>Schema\<close> (\<open>schema.go\<close>): a record per table, the record \<open>hub\<close> of all tables, each \<open>INSERT\<close>,
    \<open>UPDATE\<close> and \<open>DELETE\<close> of the Go code as a function into \<open>err + hub\<close> with the constraints and
    triggers that the schema declares. \<open>keyed_table\<close> is interpreted for every keyed table.
  \<^item> \<open>Store\<close> (\<open>store.go\<close>): probe, migration of the formats 1 to 8, integrity check, and the write
    transaction \<open>hub_write\<close>; \<open>Migration\<close> proves what \<open>migrate\<close> does to each older format.
  \<^item> \<open>Validation\<close>: the validators of all files. \<open>Scopes\<close> (\<open>scope.go\<close>): evidence of a repository, its
    marker file, enrolment. \<open>Topics\<close> (\<open>topic.go\<close>), \<open>Leases\<close> (\<open>lease.go\<close>), \<open>Messages\<close> (\<open>message.go\<close>,
    \<open>vote.go\<close>), \<open>Events\<close> (\<open>event.go\<close>), \<open>Subscriptions\<close> (\<open>subscription.go\<close>), \<open>Retention\<close>
    (\<open>retention.go\<close>): a definition per method under the method's name; \<open>fooBar_body\<close> is the closure
    that \<open>FooBar\<close> hands to \<open>write\<close>. \<open>Samples\<close> is a small database for the instances.
  \<^item> \<open>Decoding\<close>, \<open>Filters\<close>: which JSON documents and schemas are accepted, what is known of a
    published event; the canonical form of filters.
  \<^item> \<open>Steps\<close>: each method's body is a sequence of statements (\<open>stmt\<close>; a prune's, \<open>prune_stmt\<close>).
    \<open>Integrity\<close>, \<open>Accounting\<close>, \<open>History\<close>, \<open>Typing\<close>: what every statement keeps, by the interfaces
    \<open>step_invariant\<close> and \<open>step_order\<close>, interpreted on the two relations.
  \<^item> \<open>Disk\<close>: the calls of package \<open>os\<close> that the store makes, on a directory with hard links, with
    calls that fail and a process that is killed at any call. \<open>Backups\<close> (\<open>retention.go\<close>): the backup
    files of a prune and of a vacuum, their reservation, reconciliation and removal. \<open>Recovery\<close>: the
    stages of a reservation and what a later reconciliation makes of each. \<open>Upkeep\<close>: maintenance of
    one directory over time.
  \<^item> \<open>Machine\<close>: one rule of \<open>method_call\<close> per method that is one transaction, \<open>call\<close> for these and for the
    vacuum, which goes on after its transaction, and the databases \<open>reachable\<close> from a fresh
    one by any calls of any handles, successful or failing. \<open>Lifetime\<close>: a concrete run, and the
    properties of every reachable database.
  \<^item> \<open>Cycles\<close>: the depth-first search that the log of checkpoints and the graph of threads share, with
    the interface \<open>listed_graph\<close>, interpreted for both. \<open>Checkpoints\<close>, \<open>Locks\<close>
    (\<open>task_checkpoint_state.go\<close>): the log, its heads, what a write supersedes; the locks of several
    workspaces as interleaved steps. \<open>Tasks\<close> (\<open>task.go\<close>, \<open>task_durability.go\<close>): the manifest and the two
    readers that reconcile it with the log. \<open>Progress\<close> (\<open>task.go\<close>): selectors, slugs, progression
    groups, the next target, adding slices, and commands on one workspace as processes that interleave
    and lock as the code does. \<open>Threads\<close> (\<open>thread_definition.go\<close>, \<open>thread_mutation.go\<close>) and
    \<open>Lanes\<close> (\<open>thread_status.go\<close>): definitions of threads, their revisions, and their status.

  \<^bold>\<open>Correspondence.\<close> A Go method with a receiver \<open>d\<close> is a function of the handle \<open>db\<close>, the
  environment \<open>env\<close> of the call (the clock, the faults of the driver), what it asks of the system
  (\<open>os\<close>, random bytes) and the \<open>hub\<close>; it returns an error or a value, and the new \<open>hub\<close>. A read-only
  method returns no \<open>hub\<close>. A string is the list of its bytes. Go's \<open>int64\<close> values that SQLite
  stores are \<open>int\<close>: they are positions, generations and milliseconds, written only by the
  increments and clocks shown; sizes that the code computes in \<open>uint64\<close> are words
  (\<open>sufficientBackupHeadroom\<close>). SQL \<open>NULL\<close> is \<open>None\<close>. Parameters stand for what is not in the
  repository: SHA-256 (\<open>sha\<close>), HMAC, the JSON lexer and \<open>json.Marshal\<close>, the schema compiler
  (\<open>schema_engine\<close>), \<open>git rev-parse\<close>, the marker files and file identities (\<open>os\<close>), the verdicts of
  pragmas, file sizes and free space (\<open>maintenance\<close>, \<open>vacuuming\<close>); for tasks, Go's Unicode tables and
  calendar (\<open>golib\<close>), \<open>json.Unmarshal\<close>, the entries of a directory and path resolution (\<open>paths\<close>).
  A Go map whose iteration order shows is a list of its keys, and the theorems hold for every order
  or the code sorts; texts of error messages are not modelled. \<open>PruneHub\<close> takes the outcomes of its
  file work as arguments; \<open>prune_with_backup\<close> is the same method with that work. A theorem that needs a law of one states it as
  a hypothesis (for instance that a decoder inverts its encoder), and its instance gives a
  function that satisfies it.

  \<^bold>\<open>What is proved.\<close>
  \<^item> Of every reachable database: the integrity check passes and every key is unique; each position
    below a scope's counter is stored or recorded as pruned, never both; what is stored passes the
    validators of the methods, which no clause of the schema repeats; correction chains end; pulled pages never report a position as unavailable.
  \<^item> Of every call: one that fails changes nothing, except that a vacuum which fails after its
    transaction leaves the record of its backup; histories, generations and cursors never go
    back; only a prune deletes; sequences are never reused; read-only, foreign and outdated handles
    change nothing.
  \<^item> Of single methods: optimistic concurrency of policies and revisions, exclusion by leases and the
    fencing of stale bearers, idempotent retries, pages that partition positions, acknowledgement,
    what a prune may delete and what it remembers, that a prune and a vacuum leave a complete backup
    on record, that maintenance killed at any call can be run again and removes no file that it did
    not reserve, the exact language of the decoder and of the
    schema policy, search as containment, migration, and others; the claims in the theories say which.
  \<^item> Of the log of a task: the heads are what nothing supersedes and every event leads to one; a log
    that is written under the lock never forks; both readers project it to the same stages, decisions,
    checkpoints and conflicts; a checkpoint that was killed half-way is projected like one that finished, but
    for the disposition of a closing, which is not recovered; commands that lock several workspaces never deadlock.
  \<^item> Of targets and threads: groups partition the slices; the next target is open; a definition of
    threads is accepted exactly when it is a schedule; started lanes are pinned over all revisions; a
    runnable lane comes after completed ones, and some lane is runnable unless one is halted.

  \<^bold>\<open>Bounds and fuel.\<close> The recursive query over corrections (\<open>event_root\<close>) is unrolled at most as often
  as there are events, which \<open>Integrity\<close> shows to be enough because chains are ordered by sequence.
  The decoder recurses on the tokens, which every call shortens. The search for cycles has fuel of one
  more than the number of nodes, and \<open>listed_graph.enough\<close> shows that it is never used up. No other
  definition has fuel.

  \<^bold>\<open>What modelling showed.\<close> \<open>ScanPublications\<close> takes the retention epoch from a join with the scope's
  counter row, so a scope that has none yet reports epoch 0 whatever the hub's epoch is
  (\<open>scan_header_exact\<close>). Vacuums do not raise the retention epoch, so two that overlap drop each
  other's backup without an error (\<open>overlapping_vacuums_lose_backups\<close>). Adding a slice takes no
  lock, so a concurrent checkpoint drops the slice (\<open>unlocked_slice_add_is_lost\<close>). Reconciliation does
  not replay the durable record of a closing, so an interrupted one is offered for ever
  (\<open>interrupted_closeout_is_reoffered\<close>). A thread may name a slice by its title, after which its owner
  has no status (\<open>status_needs_slice_ids\<close>).

  \<^bold>\<open>Not modelled.\<close> Opening files, connection strings and pragmas; the wait for a concurrent creator
  (\<open>probeReady\<close>); loss of power, after which a file that was not synchronised may be lost (a killed
  process is modelled); flags and output of the commands; of tasks, starting, deciding, syncing and
  auditing them, the rendering of their documents, and the evidence a checkpoint collects; the
  rebuildable index, its heuristics of scanning, classification and ranking, and the evaluation
  harness, whose results are scores without a contract to prove.

  \<^bold>\<open>Simplifications.\<close> The revision of a thread definition is an unbounded integer, as the envelope
  refuses revisions below 1. Locks are named by the identity of a workspace, where the code uses its
  SHA-256. \<open>validPruneCutoff\<close> asks for a zero offset from UTC, the code for the location UTC. The error of
  \<open>json.Marshal\<close> on a time after the year 9999 is not a branch of \<open>fingerprint\<close>. A missing row of the
  token secret, which the integrity check excludes, is an error of the query. An initialisation
  that fails after its first commit leaves nothing. The documents of a durability review
  (\<open>validateDurableArtifacts\<close>) and the free names of a checkpoint (\<open>nextTaskCheckpointPaths\<close>) are
  arguments.
\<close>

end
